(* ===== verification/Upgm_Prelude.thy ===== *)
theory Upgm_Prelude
  imports Main
begin

text \<open>
  Shared vocabulary of the development: the exceptions the C++ code throws, programs that
  thread a state and may throw, the parts of the C and C++ standard library the code uses on
  strings and numbers, and a loop that repeats until it has a result.
\<close>

named_theorems prog_simps \<open>unfolding rules for programs that thread a state\<close>

section \<open>Exceptions\<close>

text \<open>
  One constructor per exception class that reaches a handler in the code. The first argument is
  what the constructor of the class is given; \<open>exn_what\<close> in \<open>Common_Hooks\<close> computes what \<open>what()\<close> returns.
  \<open>MysqlError\<close> and \<open>MysqlConnectionFailed\<close> are \<open>mysqlpp::Exception\<close> and the class derived from it,
  \<open>LibraryError\<close> is any other exception derived from \<open>std::exception\<close> (raised by the standard
  library or a database client), \<open>ForeignError\<close> one that is not derived from it.
\<close>

datatype exn =
    RuntimeError string
  | InvalidArgument string
  | InvalidStage nat
  | NoSuchValue string
  | NotAVariable string
  | HookUndef string
  | DbException string
  | MysqlError string
  | MysqlConnectionFailed string
  | OutOfRange
  | LibraryError string
  | ForeignError

definition is_std_exception :: "exn \<Rightarrow> bool" where
  "is_std_exception e \<longleftrightarrow> e \<noteq> ForeignError"

section \<open>Programs with state and exceptions\<close>

text \<open>
  A method that reads and writes an object and may throw is a function from the state before to
  either the exception or the value returned, and the state after. The state survives an
  exception: what was written before the throw stays written.
\<close>

type_synonym 'a res = "exn + 'a"
type_synonym ('s, 'a) prog = "'s \<Rightarrow> 'a res \<times> 's"

definition retp :: "'a \<Rightarrow> ('s, 'a) prog" where
  "retp x s = (Inr x, s)"

definition throwp :: "exn \<Rightarrow> ('s, 'a) prog" where
  "throwp e s = (Inl e, s)"

definition liftp :: "'a res \<Rightarrow> ('s, 'a) prog" where
  "liftp r s = (r, s)"

definition bindp :: "('s, 'a) prog \<Rightarrow> ('a \<Rightarrow> ('s, 'b) prog) \<Rightarrow> ('s, 'b) prog" where
  "bindp m f s = (case m s of (Inl e, t) \<Rightarrow> (Inl e, t) | (Inr x, t) \<Rightarrow> f x t)"

definition seqp :: "('s, 'a) prog \<Rightarrow> ('s, 'b) prog \<Rightarrow> ('s, 'b) prog" where
  "seqp m k = bindp m (\<lambda>_. k)"

definition catchp :: "('s, 'a) prog \<Rightarrow> (exn \<Rightarrow> ('s, 'a) prog) \<Rightarrow> ('s, 'a) prog" where
  "catchp m h s = (case m s of (Inl e, t) \<Rightarrow> h e t | (Inr x, t) \<Rightarrow> (Inr x, t))"

definition getsp :: "('s \<Rightarrow> 'a) \<Rightarrow> ('s, 'a) prog" where
  "getsp f s = (Inr (f s), s)"

definition modifyp :: "('s \<Rightarrow> 's) \<Rightarrow> ('s, unit) prog" where
  "modifyp f s = (Inr (), f s)"

lemmas prog_defs [prog_simps] =
  retp_def throwp_def liftp_def bindp_def seqp_def catchp_def getsp_def modifyp_def

lemma bindp_retp [simp]: "bindp (retp x) f = f x"
  by (rule ext) (simp add: prog_simps)

lemma bindp_throwp [simp]: "bindp (throwp e) f = throwp e"
  by (rule ext) (simp add: prog_simps)

lemma bindp_assoc: "bindp (bindp m f) g = bindp m (\<lambda>x. bindp (f x) g)"
  by (rule ext) (simp add: prog_simps split: prod.split sum.split)

lemma catchp_retp [simp]: "catchp (retp x) h = retp x"
  by (rule ext) (simp add: prog_simps)

lemma catchp_throwp [simp]: "catchp (throwp e) h = h e"
  by (rule ext) (simp add: prog_simps)

lemma bindp_Inr_cases:
  assumes "bindp m f s = (Inr y, u)"
  obtains x t where "m s = (Inr x, t)" and "f x t = (Inr y, u)"
  using assms by (auto simp: bindp_def split: prod.splits sum.splits)

lemma bindp_Inl_cases:
  assumes "bindp m f s = (Inl e, u)"
  obtains "m s = (Inl e, u)" | x t where "m s = (Inr x, t)" and "f x t = (Inl e, u)"
  using assms by (auto simp: bindp_def split: prod.splits sum.splits)

text \<open>
  A relation between the state before and the state after that every program of a family keeps:
  what such a program composes of, it keeps as well. Components instantiate the relation with what
  their operations must not change.
\<close>

locale frame =
  fixes R :: "'s \<Rightarrow> 's \<Rightarrow> bool"
  assumes frame_refl: "R s s"
    and frame_trans: "R s t \<Longrightarrow> R t u \<Longrightarrow> R s u"
begin

definition keeps :: "('s, 'a) prog \<Rightarrow> bool" where
  "keeps m \<longleftrightarrow> (\<forall>s. R s (snd (m s)))"

lemma keepsD: "keeps m \<Longrightarrow> m s = (r, t) \<Longrightarrow> R s t"
  by (metis keeps_def snd_conv)

lemma keeps_retp: "keeps (retp x)"
  by (simp add: keeps_def retp_def frame_refl)

lemma keeps_throwp: "keeps (throwp e)"
  by (simp add: keeps_def throwp_def frame_refl)

lemma keeps_liftp: "keeps (liftp r)"
  by (simp add: keeps_def liftp_def frame_refl)

lemma keeps_look: "keeps (\<lambda>s. (f s, s))"
  by (simp add: keeps_def frame_refl)

lemma keeps_modifyp: "(\<And>s. R s (f s)) \<Longrightarrow> keeps (modifyp f)"
  by (simp add: keeps_def modifyp_def)

lemma keeps_bindp:
  assumes "keeps m" and "\<And>x. keeps (f x)"
  shows "keeps (bindp m f)"
  unfolding keeps_def
proof
  fix s
  obtain r t where m: "m s = (r, t)" by fastforce
  have "R s t" using assms(1) m by (rule keepsD)
  then show "R s (snd (bindp m f s))"
    using assms(2) m by (auto simp: bindp_def keeps_def intro: frame_trans split: sum.split)
qed

lemma keeps_bindp_liftp: "(\<And>x. r = Inr x \<Longrightarrow> keeps (f x)) \<Longrightarrow> keeps (bindp (liftp r) f)"
  by (cases r) (simp_all add: keeps_def bindp_def liftp_def frame_refl)

lemma keeps_seqp: "keeps m \<Longrightarrow> keeps k \<Longrightarrow> keeps (seqp m k)"
  by (simp add: seqp_def keeps_bindp)

lemma keeps_catchp:
  assumes "keeps m" and "\<And>e. keeps (h e)"
  shows "keeps (catchp m h)"
  unfolding keeps_def
proof
  fix s
  obtain r t where m: "m s = (r, t)" by fastforce
  have "R s t" using assms(1) m by (rule keepsD)
  then show "R s (snd (catchp m h s))"
    using assms(2) m by (auto simp: catchp_def keeps_def intro: frame_trans split: sum.split)
qed

lemmas keeps_intros =
  keeps_retp keeps_throwp keeps_liftp keeps_look keeps_bindp_liftp keeps_bindp keeps_seqp keeps_catchp

end

text \<open>Results without a state: the same composition on \<open>exn + 'a\<close>.\<close>

definition bindr :: "'a res \<Rightarrow> ('a \<Rightarrow> 'b res) \<Rightarrow> 'b res" where
  "bindr r f = (case r of Inl e \<Rightarrow> Inl e | Inr x \<Rightarrow> f x)"

lemma bindr_simps [simp]: "bindr (Inl e) f = Inl e" "bindr (Inr x) f = f x"
  by (simp_all add: bindr_def)

lemma bindr_eq_Inr: "bindr r f = Inr y \<longleftrightarrow> (\<exists>x. r = Inr x \<and> f x = Inr y)"
  by (cases r) simp_all

definition is_ok :: "'a res \<Rightarrow> bool" where
  "is_ok r = (case r of Inl _ \<Rightarrow> False | Inr _ \<Rightarrow> True)"

lemma is_ok_simps [simp]: "\<not> is_ok (Inl e)" "is_ok (Inr x)"
  by (simp_all add: is_ok_def)

lemma is_ok_iff: "is_ok r \<longleftrightarrow> (\<exists>x. r = Inr x)"
  by (cases r) simp_all

section \<open>Strings of the standard library\<close>

text \<open>
  \<open>std::string(str, pos, n)\<close> and \<open>append(str, pos, n)\<close>: the position must not lie behind the
  end, the count is cut at the end. \<open>substr_nat\<close> is the case of a position and count that are
  not negative; \<open>append_sub\<close> takes the signed values the code computes, converted to
  \<open>size_t\<close> at the call: a negative position is a huge one and throws, a negative count is a huge
  one and reaches to the end.
\<close>

definition substr_nat :: "string \<Rightarrow> nat \<Rightarrow> nat \<Rightarrow> string res" where
  "substr_nat s pos n = (if length s < pos then Inl OutOfRange else Inr (take n (drop pos s)))"

definition append_sub :: "string \<Rightarrow> string \<Rightarrow> int \<Rightarrow> int \<Rightarrow> string res" where
  "append_sub buf s pos n =
     (if pos < 0 \<or> int (length s) < pos then Inl OutOfRange
      else if n < 0 then Inr (buf @ drop (nat pos) s)
      else Inr (buf @ take (nat n) (drop (nat pos) s)))"

lemma substr_nat_ok [simp]: "pos \<le> length s \<Longrightarrow> substr_nat s pos n = Inr (take n (drop pos s))"
  by (simp add: substr_nat_def)

lemma append_sub_ok:
  "0 \<le> pos \<Longrightarrow> pos \<le> int (length s) \<Longrightarrow> 0 \<le> n \<Longrightarrow>
     append_sub buf s pos n = Inr (buf @ take (nat n) (drop (nat pos) s))"
  by (simp add: append_sub_def)

text \<open>\<open>std::string::insert(pos, str)\<close>.\<close>

definition insert_at :: "nat \<Rightarrow> string \<Rightarrow> string \<Rightarrow> string res" where
  "insert_at pos v s = (if length s < pos then Inl OutOfRange else Inr (take pos s @ v @ drop pos s))"

lemma insert_at_append: "insert_at (length a) v (a @ b) = Inr (a @ v @ b)"
  by (simp add: insert_at_def)

text \<open>\<open>find\<close> and \<open>strstr\<close>: the first position at which a word occurs.\<close>

fun starts_with :: "string \<Rightarrow> string \<Rightarrow> bool" where
  "starts_with [] s = True"
| "starts_with (p # ps) [] = False"
| "starts_with (p # ps) (c # s) = (p = c \<and> starts_with ps s)"

fun find_sub :: "string \<Rightarrow> string \<Rightarrow> nat option" where
  "find_sub p [] = (if p = [] then Some 0 else None)"
| "find_sub p (c # s) = (if starts_with p (c # s) then Some 0 else map_option Suc (find_sub p s))"

lemma starts_with_iff: "starts_with p s \<longleftrightarrow> (\<exists>r. s = p @ r)"
  by (induction p s rule: starts_with.induct) auto

lemma starts_with_append [simp]: "starts_with p (p @ r)"
  by (simp add: starts_with_iff)

lemma find_sub_Some_split:
  "find_sub p s = Some n \<Longrightarrow> n + length p \<le> length s \<and> s = take n s @ p @ drop (n + length p) s"
proof (induction s arbitrary: n)
  case (Cons c s)
  show ?case
  proof (cases "starts_with p (c # s)")
    case True
    then obtain r where "c # s = p @ r" by (auto simp: starts_with_iff)
    moreover from True Cons.prems have "n = 0" by simp
    ultimately show ?thesis by simp
  next
    case False
    with Cons.prems obtain m where "n = Suc m" and "find_sub p s = Some m" by auto
    with Cons.IH [of m] show ?thesis by simp
  qed
qed (auto split: if_splits)

lemma find_sub_no_single:
  "c \<notin> set s \<Longrightarrow> find_sub [c] s = None"
  by (induction s) (auto simp: starts_with_iff)

lemma find_sub_single:
  "c \<notin> set s \<Longrightarrow> find_sub [c] (s @ c # r) = Some (length s)"
  by (induction s) (auto simp: starts_with_iff)

lemma find_sub_single_None: "find_sub [c] s = None \<Longrightarrow> c \<notin> set s"
  by (induction s) (auto simp: starts_with_iff split: if_splits)

section \<open>Numbers and their decimal form\<close>

text \<open>
  \<open>snprintf\<close> with \<open>%i\<close>, \<open>%li\<close> and \<open>%lli\<close> prints a sign and decimal digits; \<open>atoi\<close> skips white
  space, takes an optional sign and the digits that follow. As in the C library the code is built
  with, \<open>atoi\<close> is \<open>strtol\<close> (which saturates at 64 bits) cut to 32 bits.
\<close>

definition digit_char :: "nat \<Rightarrow> char" where
  "digit_char d = ''0123456789'' ! d"

definition digit_val :: "char \<Rightarrow> nat" where
  "digit_val c = of_char c - 48"

definition is_digit :: "char \<Rightarrow> bool" where
  "is_digit c \<longleftrightarrow> 48 \<le> (of_char c :: nat) \<and> (of_char c :: nat) \<le> 57"

definition is_space :: "char \<Rightarrow> bool" where
  "is_space c \<longleftrightarrow> (of_char c :: nat) = 32 \<or> 9 \<le> (of_char c :: nat) \<and> (of_char c :: nat) \<le> 13"

fun show_nat :: "nat \<Rightarrow> string" where
  "show_nat n = (if n < 10 then [digit_char n] else show_nat (n div 10) @ [digit_char (n mod 10)])"

declare show_nat.simps [simp del]

definition show_int :: "int \<Rightarrow> string" where
  "show_int i = (if i < 0 then CHR ''-'' # show_nat (nat (- i)) else show_nat (nat i))"

definition digits_val :: "string \<Rightarrow> nat" where
  "digits_val s = foldl (\<lambda>a c. 10 * a + digit_val c) 0 s"

definition wrap32 :: "int \<Rightarrow> int" where
  "wrap32 x = (x + 2147483648) mod 4294967296 - 2147483648"

definition clamp64 :: "int \<Rightarrow> int" where
  "clamp64 x = max (- 9223372036854775808) (min 9223372036854775807 x)"

definition strtol10 :: "string \<Rightarrow> int" where
  "strtol10 s =
     (let t = dropWhile is_space s;
          neg = (t \<noteq> [] \<and> hd t = CHR ''-'');
          u = (if t \<noteq> [] \<and> (hd t = CHR ''-'' \<or> hd t = CHR ''+'') then tl t else t);
          v = int (digits_val (takeWhile is_digit u))
      in clamp64 (if neg then - v else v))"

definition atoi :: "string \<Rightarrow> int" where
  "atoi s = wrap32 (strtol10 s)"

definition in_int32 :: "int \<Rightarrow> bool" where
  "in_int32 i \<longleftrightarrow> - 2147483648 \<le> i \<and> i \<le> 2147483647"

lemma less_10_cases:
  assumes "(d::nat) < 10"
  obtains "d = 0" | "d = 1" | "d = 2" | "d = 3" | "d = 4" | "d = 5" | "d = 6" | "d = 7"
    | "d = 8" | "d = 9"
proof -
  from assms have "d = 0 \<or> d = 1 \<or> d = 2 \<or> d = 3 \<or> d = 4 \<or> d = 5 \<or> d = 6 \<or> d = 7 \<or> d = 8 \<or> d = 9"
    by presburger
  then show ?thesis using that by blast
qed

lemma is_digit_digit_char: "d < 10 \<Longrightarrow> is_digit (digit_char d)"
  by (erule less_10_cases) (simp_all add: is_digit_def digit_char_def nth_Cons')

lemma digit_val_digit_char: "d < 10 \<Longrightarrow> digit_val (digit_char d) = d"
  by (erule less_10_cases) (simp_all add: digit_val_def digit_char_def nth_Cons')

lemma not_digit_space: "is_digit c \<Longrightarrow> \<not> is_space c"
  by (auto simp: is_digit_def is_space_def)

lemma show_nat_digits: "\<forall>c \<in> set (show_nat n). is_digit c"
proof (induction n rule: show_nat.induct)
  case (1 n)
  then show ?case
    by (subst show_nat.simps) (auto simp: is_digit_digit_char)
qed

lemma show_nat_nonempty [simp]: "show_nat n \<noteq> []"
  by (subst show_nat.simps) simp

lemma digits_val_append: "digits_val (s @ [c]) = 10 * digits_val s + digit_val c"
  by (simp add: digits_val_def)

lemma digits_val_show_nat: "digits_val (show_nat n) = n"
proof (induction n rule: show_nat.induct)
  case (1 n)
  show ?case
  proof (cases "n < 10")
    case True
    then show ?thesis
      by (subst show_nat.simps) (simp add: digits_val_def digit_val_digit_char)
  next
    case False
    with 1 show ?thesis
      by (subst show_nat.simps) (simp add: digits_val_append digit_val_digit_char)
  qed
qed

lemma digit_not_sign: "is_digit c \<Longrightarrow> c \<noteq> CHR ''-'' \<and> c \<noteq> CHR ''+''"
  by (auto simp: is_digit_def)

lemma takeWhile_show_nat [simp]: "takeWhile is_digit (show_nat n) = show_nat n"
  using show_nat_digits by (simp add: takeWhile_eq_all_conv)

lemma show_nat_hd: "is_digit (hd (show_nat n))"
  using show_nat_digits [of n] show_nat_nonempty [of n] by (meson hd_in_set)

lemma dropWhile_space_show_nat [simp]: "dropWhile is_space (show_nat n) = show_nat n"
  using show_nat_hd [of n] show_nat_nonempty [of n]
  by (cases "show_nat n") (auto dest: not_digit_space)

lemma strtol10_show_int: "strtol10 (show_int i) = clamp64 i"
proof (cases "i < 0")
  case True
  have "dropWhile is_space (CHR ''-'' # s) = CHR ''-'' # s" for s
    by (simp add: is_space_def)
  with True show ?thesis
    by (simp add: strtol10_def show_int_def Let_def digits_val_show_nat)
next
  case False
  with show_nat_hd [of "nat i"] digit_not_sign [of "hd (show_nat (nat i))"] show ?thesis
    by (simp add: strtol10_def show_int_def Let_def digits_val_show_nat)
qed

lemma clamp64_id: "in_int32 i \<Longrightarrow> clamp64 i = i"
  by (simp add: clamp64_def in_int32_def)

lemma wrap32_id: "in_int32 i \<Longrightarrow> wrap32 i = i"
  by (simp add: wrap32_def in_int32_def)

lemma wrap32_range: "in_int32 (wrap32 x)"
proof -
  have "0 \<le> (x + 2147483648) mod 4294967296" and "(x + 2147483648) mod 4294967296 < 4294967296"
    by simp_all
  then show ?thesis by (simp add: in_int32_def wrap32_def)
qed

lemma atoi_range: "in_int32 (atoi s)"
  by (simp add: atoi_def wrap32_range)

lemma atoi_show_int: "in_int32 i \<Longrightarrow> atoi (show_int i) = i"
  by (simp add: atoi_def strtol10_show_int clamp64_id wrap32_id)

lemma atoi_show_nat: "n < 2147483648 \<Longrightarrow> atoi (show_nat n) = int n"
  using atoi_show_int [of "int n"] by (simp add: show_int_def in_int32_def)

section \<open>Loops that repeat until they have a result\<close>

text \<open>
  \<open>do r = body(); while (again(r));\<close> on a state, with a bound on the number of rounds: no value when
  the bound is reached. The bound does not matter once there is a value (\<open>repeat_while_mono\<close>), a
  measure that falls in every round that is followed by another gives a bound that is enough
  (\<open>repeat_while_returns\<close>), and an invariant under which another round always follows shows that
  no bound is (\<open>repeat_while_diverges\<close>).
\<close>

primrec repeat_while ::
  "('s \<Rightarrow> 'r \<times> 's) \<Rightarrow> ('r \<Rightarrow> 's \<Rightarrow> bool) \<Rightarrow> nat \<Rightarrow> 's \<Rightarrow> ('r \<times> 's) option" where
  "repeat_while body again 0 s = None"
| "repeat_while body again (Suc n) s =
     (case body s of (r, t) \<Rightarrow> if again r t then repeat_while body again n t else Some (r, t))"

lemma repeat_while_mono:
  "repeat_while body again n s = Some x \<Longrightarrow> n \<le> m \<Longrightarrow> repeat_while body again m s = Some x"
proof (induction n arbitrary: s m)
  case (Suc n)
  then obtain k where "m = Suc k" and "n \<le> k" by (cases m) auto
  with Suc show ?case by (auto split: prod.splits if_splits)
qed simp

lemma repeat_while_stops:
  "repeat_while body again n s = Some (r, t) \<Longrightarrow> \<not> again r t \<and> (\<exists>u. body u = (r, t))"
  by (induction n arbitrary: s) (auto split: prod.splits if_splits)

lemma repeat_while_invariant:
  assumes "repeat_while body again n s = Some (r, t)" and "P s"
    and "\<And>u r' v. P u \<Longrightarrow> body u = (r', v) \<Longrightarrow> again r' v \<Longrightarrow> P v"
    and "\<And>u r' v. P u \<Longrightarrow> body u = (r', v) \<Longrightarrow> \<not> again r' v \<Longrightarrow> Q r' v"
  shows "Q r t"
  using assms(1,2)
  by (induction n arbitrary: s) (auto split: prod.splits if_splits intro: assms(3,4))

lemma repeat_while_returns:
  assumes "P s" and "rank s < n"
    and "\<And>u r v. P u \<Longrightarrow> body u = (r, v) \<Longrightarrow> again r v \<Longrightarrow> P v \<and> (rank v :: nat) < rank u"
  shows "\<exists>r t. repeat_while body again n s = Some (r, t)"
  using assms(1,2)
proof (induction n arbitrary: s)
  case (Suc n)
  obtain r t where b: "body s = (r, t)" by fastforce
  show ?case
  proof (cases "again r t")
    case True
    with assms(3) [OF Suc.prems(1) b] Suc.prems(2) have "P t" and "rank t < n" by auto
    with Suc.IH b True show ?thesis by simp
  next
    case False
    with b show ?thesis by simp
  qed
qed simp

lemma repeat_while_diverges:
  assumes "P s" and "\<And>u r v. P u \<Longrightarrow> body u = (r, v) \<Longrightarrow> again r v \<and> P v"
  shows "repeat_while body again n s = None"
  using assms(1)
proof (induction n arbitrary: s)
  case (Suc n)
  obtain r t where b: "body s = (r, t)" by fastforce
  with assms(2) [OF Suc.prems b] Suc.IH show ?case by simp
qed simp

end
