(* ===== verification/Upgm_Path.thy ===== *)
theory Upgm_Path
  imports Upgm_Prelude
begin

text \<open>
  Paths (\<open>include/path.hpp\<close>, \<open>src/path.cpp\<close>): a variable name of a scheme such as
  \<open>parser.get.w3s\.response.retval\<close> is split at dots, a backslash keeps the character after it.
  The scanner of the code keeps indices into the string; \<open>ref_path\<close> is the same function written
  on characters, and the two are proved equal.
\<close>

type_synonym path = "string list"

section \<open>The scanner\<close>

record path_scan =
  ps_result :: path
  ps_buff :: string
  ps_begin :: nat
  ps_escaped :: bool

definition path_init :: path_scan where
  "path_init = \<lparr>ps_result = [], ps_buff = [], ps_begin = 0, ps_escaped = False\<rparr>"

text \<open>
  One iteration of the loop at index \<open>i\<close>. The local \<open>end\<close> of the code is \<open>i\<close> at the start of
  every iteration, so it is not part of the state. The count \<open>end - begin\<close> never wraps:
  \<open>path_loop_ref\<close> keeps \<open>ps_begin st \<le> i\<close>.
\<close>

definition path_step :: "string \<Rightarrow> nat \<Rightarrow> char \<Rightarrow> bool \<Rightarrow> path_scan \<Rightarrow> path_scan res" where
  "path_step str i chr last_char st =
     (if chr = CHR 0x5C \<and> \<not> ps_escaped st then
        bindr (substr_nat str (ps_begin st) (i - ps_begin st)) (\<lambda>p.
          Inr (st\<lparr>ps_escaped := True, ps_buff := ps_buff st @ p, ps_begin := Suc i\<rparr>))
      else
        let is_sep = (\<not> ps_escaped st \<and> chr = CHR ''.'') in
        if is_sep \<or> last_char then
          let end1 = (if last_char \<and> \<not> is_sep then Suc i else i) in
          bindr (substr_nat str (ps_begin st) (end1 - ps_begin st)) (\<lambda>p.
            Inr (st\<lparr>ps_result := ps_result st @ [ps_buff st @ p] @
                      (if last_char \<and> is_sep then [[]] else []),
                    ps_buff := [], ps_begin := Suc end1, ps_escaped := False\<rparr>))
        else Inr (st\<lparr>ps_escaped := False\<rparr>))"

fun path_loop :: "string \<Rightarrow> nat \<Rightarrow> string \<Rightarrow> path_scan \<Rightarrow> path_scan res" where
  "path_loop str i [] st = Inr st"
| "path_loop str i (chr # rest) st =
     bindr (path_step str i chr (rest = []) st) (\<lambda>st'. path_loop str (Suc i) rest st')"

definition path_from_string :: "string \<Rightarrow> path res" where
  "path_from_string str = bindr (path_loop str 0 str path_init) (\<lambda>st. Inr (ps_result st))"

section \<open>The same function on characters\<close>

fun ref_path :: "string \<Rightarrow> string \<Rightarrow> path" where
  "ref_path acc [] = []"
| "ref_path acc [c] =
     (if c = CHR 0x5C then [] else if c = CHR ''.'' then [acc, []] else [acc @ [c]])"
| "ref_path acc (c # d # s) =
     (if c = CHR 0x5C then (if s = [] then [acc @ [d]] else ref_path (acc @ [d]) s)
      else if c = CHR ''.'' then acc # ref_path [] (d # s)
      else ref_path (acc @ [c]) (d # s))"

lemma take_drop_prefix:
  "b \<le> length pre \<Longrightarrow> take (length pre - b) (drop b (pre @ rest)) = drop b pre"
  by simp

lemma path_loop_ref:
  assumes "str = pre @ rest" and "ps_begin st \<le> length pre" and "\<not> ps_escaped st"
    and "ps_buff st @ drop (ps_begin st) pre = acc"
  shows "bindr (path_loop str (length pre) rest st) (\<lambda>st'. Inr (ps_result st')) =
           Inr (ps_result st @ ref_path acc rest)"
  using assms
proof (induction acc rest arbitrary: pre st rule: ref_path.induct)
  case (1 acc)
  then show ?case by simp
next
  case (2 acc c)
  then show ?case by (auto simp: path_step_def Let_def)
next
  case (3 acc c d s)
  show ?case
  proof (cases "c = CHR 0x5C")
    case True
    note esc = this
    show ?thesis
    proof (cases "s = []")
      case True
      with 3 esc show ?thesis by (auto simp: path_step_def Let_def)
    next
      case False
      define st2 where "st2 = st\<lparr>ps_buff := ps_buff st @ drop (ps_begin st) pre,
        ps_begin := Suc (length pre), ps_escaped := False\<rparr>"
      have "bindr (path_loop str (length (pre @ [c, d])) s st2) (\<lambda>st'. Inr (ps_result st')) =
          Inr (ps_result st2 @ ref_path (acc @ [d]) s)"
        using "3.IH"(1) [OF esc False, of "pre @ [c, d]" st2] "3.prems" by (simp add: st2_def)
      with 3 esc False show ?thesis by (simp add: path_step_def Let_def st2_def)
    qed
  next
    case noesc: False
    show ?thesis
    proof (cases "c = CHR ''.''")
      case True
      define st2 where "st2 = st\<lparr>ps_result := ps_result st @ [acc], ps_buff := [],
        ps_begin := Suc (length pre), ps_escaped := False\<rparr>"
      have "bindr (path_loop str (length (pre @ [c])) (d # s) st2) (\<lambda>st'. Inr (ps_result st')) =
          Inr (ps_result st2 @ ref_path [] (d # s))"
        using "3.IH"(2) [OF noesc True, of "pre @ [c]" st2] "3.prems" by (simp add: st2_def)
      moreover have "path_step str (length pre) c False st = Inr st2"
        using "3.prems" noesc True by (simp add: path_step_def Let_def st2_def)
      ultimately show ?thesis using noesc True by (simp add: st2_def del: path_loop.simps(2) add: path_loop.simps(2) [of str "length pre"])
    next
      case False
      define st2 where "st2 = st\<lparr>ps_escaped := False\<rparr>"
      have "bindr (path_loop str (length (pre @ [c])) (d # s) st2) (\<lambda>st'. Inr (ps_result st')) =
          Inr (ps_result st2 @ ref_path (acc @ [c]) (d # s))"
        using "3.IH"(3) [OF noesc False, of "pre @ [c]" st2] "3.prems" by (simp add: st2_def)
      moreover have "path_step str (length pre) c False st = Inr st2"
        using "3.prems" noesc False by (simp add: path_step_def Let_def st2_def)
      ultimately show ?thesis using noesc False by (simp add: st2_def del: path_loop.simps(2) add: path_loop.simps(2) [of str "length pre"])
    qed
  qed
qed

lemma path_from_string_ref: "path_from_string s = Inr (ref_path [] s)"
  using path_loop_ref [of s "[]" s path_init "[]"]
  by (simp add: path_from_string_def path_init_def)

section \<open>Printing a path\<close>

text \<open>The notation a scheme uses for a path: dots and backslashes inside a component escaped.\<close>

definition escape_component :: "string \<Rightarrow> string" where
  "escape_component s =
     concat (map (\<lambda>c. if c = CHR 0x5C \<or> c = CHR ''.'' then [CHR 0x5C, c] else [c]) s)"

fun path_to_string :: "path \<Rightarrow> string" where
  "path_to_string [] = []"
| "path_to_string [c] = escape_component c"
| "path_to_string (c # d # cs) = escape_component c @ ''.'' @ path_to_string (d # cs)"

lemma escape_component_Nil [simp]: "escape_component [] = []"
  by (simp add: escape_component_def)

lemma escape_component_Cons [simp]:
  "escape_component (c # s) =
     (if c = CHR 0x5C \<or> c = CHR ''.'' then [CHR 0x5C, c] else [c]) @ escape_component s"
  by (simp add: escape_component_def)

lemma escape_component_eq_Nil [simp]: "escape_component s = [] \<longleftrightarrow> s = []"
  by (cases s) auto

lemma ref_path_escape_append:
  "r \<noteq> [] \<Longrightarrow> ref_path acc (escape_component s @ r) = ref_path (acc @ s) r"
proof (induction s arbitrary: acc)
  case (Cons c s)
  then have ne: "escape_component s @ r \<noteq> []" by simp
  then obtain d t where dt: "escape_component s @ r = d # t" by (cases "escape_component s @ r") auto
  from Cons show ?case by (auto simp: dt [symmetric]) (auto simp: dt)
qed simp

lemma escape_component_append:
  "escape_component (s @ t) = escape_component s @ escape_component t"
  by (simp add: escape_component_def)

lemma ref_path_escape: "s \<noteq> [] \<Longrightarrow> ref_path acc (escape_component s) = [acc @ s]"
  by (cases s rule: rev_cases) (simp_all add: escape_component_append ref_path_escape_append)

lemma ref_path_dot: "r \<noteq> [] \<Longrightarrow> ref_path acc (CHR ''.'' # r) = acc # ref_path [] r"
  by (cases r) simp_all

lemma ref_path_to_string_last:
  "ref_path acc (CHR ''.'' # path_to_string [c]) = [acc, c]"
  by (cases "c = []") (simp_all add: ref_path_dot ref_path_escape)

lemma ref_path_to_string_dot:
  "cs \<noteq> [] \<Longrightarrow> ref_path acc (CHR ''.'' # path_to_string cs) = acc # cs"
proof (induction cs arbitrary: acc rule: path_to_string.induct)
  case (3 c d cs)
  have ne: "path_to_string (c # d # cs) \<noteq> []" by simp
  have "ref_path acc (CHR ''.'' # path_to_string (c # d # cs)) =
      acc # ref_path [] (escape_component c @ CHR ''.'' # path_to_string (d # cs))"
    using ref_path_dot [OF ne] by simp
  also have "\<dots> = acc # ref_path c (CHR ''.'' # path_to_string (d # cs))"
    by (simp add: ref_path_escape_append)
  also have "\<dots> = acc # c # d # cs" using 3 by simp
  finally show ?case .
qed (simp_all add: ref_path_to_string_last del: path_to_string.simps(2))

lemma ref_path_to_string:
  assumes "cs \<noteq> []" and "cs \<noteq> [[]]"
  shows "ref_path [] (path_to_string cs) = cs"
proof (cases cs rule: path_to_string.cases)
  case (3 c d ds)
  then show ?thesis
    using ref_path_to_string_dot [of "d # ds" c] by (simp add: ref_path_escape_append)
qed (use assms in \<open>simp_all add: ref_path_escape\<close>)

section \<open>Properties\<close>

text \<open>
  C28: printing a path in the notation of the schemes and scanning it again gives back the path,
  for every path except the empty one and the one whose only component is empty (both print as
  the empty string); in particular no index of the scanner ever leaves the string.
\<close>

theorem path_print_scan:
  assumes "cs \<noteq> []" and "cs \<noteq> [[]]"
  shows "path_from_string (path_to_string cs) = Inr cs"
  using assms by (simp add: path_from_string_ref ref_path_to_string)

theorem path_print_scan_witness:
  "path_from_string (path_to_string [''parser'', ''get'', ''w3s.response'', []]) =
     Inr [''parser'', ''get'', ''w3s.response'', []]"
  by (rule path_print_scan) simp_all

text \<open>
  A backslash at the very end of a name drops the component it belongs to: the branch that
  handles the escape does not look whether the character is the last one.
\<close>

lemma path_trailing_escape:
  "path_from_string (''hook.name'' @ [CHR 0x5C]) = Inr [''hook'']"
  by (simp add: path_from_string_ref)

end
