(* ===== verification/Data_Tree.thy ===== *)
theory Data_Tree
  imports Upgm_Path
begin

text \<open>
  The tree of named values the hooks exchange (\<open>include/data_tree.hpp\<close>, \<open>src/data_tree.cpp\<close>),
  and the interface of a store of named values, which the tree's two maps, the parameters of a
  hook and the stage tables of a payment sequence implement.
\<close>

section \<open>Stores\<close>

text \<open>
  What clients rely on: reading a key gives the value written last under it. \<open>put_all\<close> is the
  loop that copies a list of entries into a store, as \<open>Hook::configure\<close>,
  \<open>CodeHook::populate\<close> and the attribute loop of the XML parser do.
\<close>

definition put_all :: "('k \<Rightarrow> 'v \<Rightarrow> 's \<Rightarrow> 's) \<Rightarrow> ('k \<times> 'v) list \<Rightarrow> 's \<Rightarrow> 's" where
  "put_all put kvs s = fold (\<lambda>kv. put (fst kv) (snd kv)) kvs s"

lemma put_all_simps [simp]:
  "put_all put [] s = s"
  "put_all put ((k, v) # kvs) s = put_all put kvs (put k v s)"
  by (simp_all add: put_all_def)

lemma put_all_append: "put_all put (xs @ ys) s = put_all put ys (put_all put xs s)"
  by (simp add: put_all_def)

locale store =
  fixes get :: "'k \<Rightarrow> 's \<Rightarrow> 'v option"
    and put :: "'k \<Rightarrow> 'v \<Rightarrow> 's \<Rightarrow> 's"
  assumes get_put_same: "get k (put k v s) = Some v"
    and get_put_other: "k \<noteq> k' \<Longrightarrow> get k (put k' v s) = get k s"
begin

lemma get_put: "get k (put k' v s) = (if k = k' then Some v else get k s)"
  by (simp add: get_put_same get_put_other)

lemma get_put_all:
  "get k (put_all put kvs s) =
     (case map_of (rev kvs) k of None \<Rightarrow> get k s | Some v \<Rightarrow> Some v)"
  by (induction kvs arbitrary: s)
     (auto simp: get_put map_add_def split: option.split)

lemma get_put_all_distinct:
  assumes "distinct (map fst kvs)" and "(k, v) \<in> set kvs"
  shows "get k (put_all put kvs s) = Some v"
proof -
  have "distinct (map fst (rev kvs))" using assms(1) by (simp add: rev_map [symmetric])
  with assms(2) have "map_of (rev kvs) k = Some v" by (simp add: map_of_eq_Some_iff)
  then show ?thesis by (simp add: get_put_all)
qed

lemma get_put_all_other:
  "k \<notin> fst ` set kvs \<Longrightarrow> get k (put_all put kvs s) = get k s"
proof -
  assume "k \<notin> fst ` set kvs"
  then have "map_of (rev kvs) k = None" by (simp add: map_of_eq_None_iff)
  then show ?thesis by (simp add: get_put_all)
qed

end

section \<open>The tree\<close>

datatype data_tree =
  DataTree (result_map: "string \<Rightarrow> data_tree option") (tree_data: "string \<Rightarrow> string option")

definition dt_empty :: data_tree where
  "dt_empty = DataTree Map.empty Map.empty"

definition dt_single :: "string \<Rightarrow> data_tree \<Rightarrow> data_tree" where
  "dt_single name d = DataTree [name \<mapsto> d] Map.empty"

definition dt_set_node :: "string \<Rightarrow> data_tree \<Rightarrow> data_tree \<Rightarrow> data_tree" where
  "dt_set_node name d t = DataTree ((result_map t)(name \<mapsto> d)) (tree_data t)"

definition dt_set :: "string \<Rightarrow> string \<Rightarrow> data_tree \<Rightarrow> data_tree" where
  "dt_set name v t = DataTree (result_map t) ((tree_data t)(name \<mapsto> v))"

fun dt_set_path :: "path \<Rightarrow> string \<Rightarrow> data_tree \<Rightarrow> data_tree" where
  "dt_set_path [] v t = t"
| "dt_set_path [n] v t = dt_set n v t"
| "dt_set_path (n # m # p) v t = dt_set_path (m # p) v t"

definition dt_child :: "string \<Rightarrow> data_tree \<Rightarrow> data_tree res" where
  "dt_child name t =
     (case result_map t name of
        Some d \<Rightarrow> Inr d
      | None \<Rightarrow> Inl (RuntimeError (''No such node - '' @ name)))"

definition dt_get :: "string \<Rightarrow> data_tree \<Rightarrow> string res" where
  "dt_get name t =
     (case tree_data t name of
        Some v \<Rightarrow> Inr v
      | None \<Rightarrow> Inl (RuntimeError (''No such var - '' @ name)))"

fun dt_lookup :: "path \<Rightarrow> data_tree \<Rightarrow> string res" where
  "dt_lookup [] t = Inl (RuntimeError ''Empty path'')"
| "dt_lookup [n] t = dt_get n t"
| "dt_lookup (n # m # p) t = bindr (dt_child n t) (dt_lookup (m # p))"

interpretation vars: store "\<lambda>k t. tree_data t k" dt_set
  by unfold_locales (simp_all add: dt_set_def)

interpretation nodes: store "\<lambda>k t. result_map t k" dt_set_node
  by unfold_locales (simp_all add: dt_set_node_def)

lemma result_map_dt_set [simp]: "result_map (dt_set n v t) = result_map t"
  by (simp add: dt_set_def)

lemma tree_data_dt_set_node [simp]: "tree_data (dt_set_node n d t) = tree_data t"
  by (simp add: dt_set_node_def)

lemma dt_empty_maps [simp]: "result_map dt_empty = Map.empty" "tree_data dt_empty = Map.empty"
  by (simp_all add: dt_empty_def)

lemma dt_get_set: "dt_get k (dt_set n v t) = (if k = n then Inr v else dt_get k t)"
  by (simp add: dt_get_def vars.get_put)

lemma dt_child_set_node: "dt_child k (dt_set_node n d t) = (if k = n then Inr d else dt_child k t)"
  by (simp add: dt_child_def nodes.get_put)

lemma dt_child_set [simp]: "dt_child k (dt_set n v t) = dt_child k t"
  by (simp add: dt_child_def)

lemma dt_get_set_node [simp]: "dt_get k (dt_set_node n d t) = dt_get k t"
  by (simp add: dt_get_def)

lemma dt_set_path_last: "p \<noteq> [] \<Longrightarrow> dt_set_path p v t = dt_set (last p) v t"
  by (induction p v t rule: dt_set_path.induct) simp_all

section \<open>Nested environments\<close>

text \<open>
  The meaning of a tree: which value stands at which path. \<open>dt_graft\<close> replaces the sub-tree a
  prefix leads to, as repeated \<open>set(name, DataTree)\<close> from the inside out does.
\<close>

fun dt_graft :: "path \<Rightarrow> data_tree \<Rightarrow> data_tree \<Rightarrow> data_tree" where
  "dt_graft [] d t = d"
| "dt_graft (n # p) d t =
     dt_set_node n (dt_graft p d (case result_map t n of None \<Rightarrow> dt_empty | Some c \<Rightarrow> c)) t"

lemma dt_lookup_Cons:
  "q \<noteq> [] \<Longrightarrow> dt_lookup (n # q) t = bindr (dt_child n t) (dt_lookup q)"
  by (cases q) simp_all

lemma dt_lookup_graft:
  "q \<noteq> [] \<Longrightarrow> dt_lookup (p @ q) (dt_graft p d t) = dt_lookup q d"
  by (induction p arbitrary: t) (simp_all add: dt_lookup_Cons dt_child_set_node)

lemma dt_lookup_graft_other:
  assumes "\<not> (\<exists>r. q = p @ r)" and "\<not> (\<exists>r. p = q @ r)" and "is_ok (dt_lookup q t)"
  shows "dt_lookup q (dt_graft p d t) = dt_lookup q t"
  using assms
proof (induction p arbitrary: q t)
  case Nil
  then show ?case by simp
next
  case (Cons n p)
  then obtain m q' where q: "q = m # q'" by (cases q) auto
  show ?case
  proof (cases "q' = []")
    case True
    with q show ?thesis by simp
  next
    case False
    with Cons.prems(3) q obtain c where c: "dt_child m t = Inr c" and ok: "is_ok (dt_lookup q' c)"
      by (cases "dt_child m t") (auto simp: dt_lookup_Cons)
    show ?thesis
    proof (cases "m = n")
      case True
      with c have rm: "result_map t n = Some c" by (simp add: dt_child_def split: option.splits)
      have "dt_lookup q' (dt_graft p d c) = dt_lookup q' c"
        using Cons.prems(1,2) q True ok by (intro Cons.IH) auto
      with q False True c rm show ?thesis by (simp add: dt_lookup_Cons dt_child_set_node)
    next
      case False
      with q \<open>q' \<noteq> []\<close> show ?thesis by (simp add: dt_lookup_Cons dt_child_set_node)
    qed
  qed
qed

text \<open>
  Writing through a path of more than one component does not reach the place the same path
  reads from: \<open>set(path, value)\<close> descends along the path but stays at the same node, so the value
  lands under the last component at the root.
\<close>

lemma dt_set_path_not_nested:
  "result_map t a = None \<Longrightarrow>
     dt_lookup [a, b] (dt_set_path [a, b] v t) = Inl (RuntimeError (''No such node - '' @ a))
     \<and> dt_lookup [b] (dt_set_path [a, b] v t) = Inr v"
  by (simp add: dt_get_set dt_child_def)

end
