(* ===== verification/Config_Parser.thy ===== *)
theory Config_Parser
  imports Data_Tree
begin

text \<open>
  The configuration language (\<open>include/config.hpp\<close>, \<open>src/config.cpp\<close>): sections in brackets,
  \<open>name=value\<close> entries, values bare or in quotes, a backslash escaping the character after it.
  The parser keeps the bounds of the block it is reading as offsets into the text, in members
  of the object; \<open>-1\<close> means no block.
\<close>

section \<open>State\<close>

record config_value =
  cv_value :: string
  cv_in_quote :: bool

type_synonym config_entry = "string \<times> config_value"
type_synonym config_section = "config_entry list"

record config =
  cfg_root :: config_section
  cfg_data :: "string \<Rightarrow> config_section option"
  cfg_block_start :: int
  cfg_block_end :: int
  cfg_in_quote :: bool
  cfg_section :: string
  cfg_param :: string
  cfg_value :: string

definition config_new :: config where
  "config_new = \<lparr>cfg_root = [], cfg_data = Map.empty, cfg_block_start = - 1, cfg_block_end = - 1,
     cfg_in_quote = False, cfg_section = [], cfg_param = [], cfg_value = []\<rparr>"

datatype read_mode = Undef | Section | Param | Value | Comment

text \<open>The local variables of \<open>parse\<close>; \<open>pl_end_mark\<close> is the character \<open>endMark\<close> points to.\<close>

record parse_locals =
  pl_escaped :: bool
  pl_end_mark :: "char option"
  pl_mode :: read_mode
  pl_skip_one :: bool

definition locals_new :: parse_locals where
  "locals_new = \<lparr>pl_escaped = False, pl_end_mark = None, pl_mode = Undef, pl_skip_one = False\<rparr>"

abbreviation linebreak :: char where "linebreak \<equiv> CHR 0x0A"
abbreviation quote :: char where "quote \<equiv> CHR 0x22"
abbreviation backslash :: char where "backslash \<equiv> CHR 0x5C"

section \<open>Operations\<close>

definition is_skippable :: "char \<Rightarrow> bool" where
  "is_skippable chr \<longleftrightarrow> chr \<in> {CHR 0x20, CHR 0x09, CHR 0x0A, CHR 0x0D}"

definition config_flush :: "config \<Rightarrow> config" where
  "config_flush c =
     (let entry = (cfg_param c, \<lparr>cv_value = cfg_value c, cv_in_quote = cfg_in_quote c\<rparr>);
          c1 = (if cfg_section c = [] then c\<lparr>cfg_root := cfg_root c @ [entry]\<rparr>
                else c\<lparr>cfg_data := (cfg_data c)(cfg_section c \<mapsto>
                   (case cfg_data c (cfg_section c) of None \<Rightarrow> [] | Some s \<Rightarrow> s) @ [entry])\<rparr>)
      in c1\<lparr>cfg_param := [], cfg_value := [], cfg_in_quote := False\<rparr>)"

definition save_tmp :: "string \<Rightarrow> string \<Rightarrow> config \<Rightarrow> (string \<times> config) res" where
  "save_tmp buf data c =
     bindr (if 0 < cfg_block_start c \<and> cfg_block_start c \<le> cfg_block_end c
            then append_sub buf data (cfg_block_start c) (cfg_block_end c - cfg_block_start c)
            else Inr buf)
       (\<lambda>b. Inr (b, c\<lparr>cfg_block_start := - 1, cfg_block_end := - 1\<rparr>))"

definition append_tmp :: "string \<Rightarrow> string \<Rightarrow> config \<Rightarrow> (string \<times> config) res" where
  "append_tmp buf data c =
     bindr (append_sub buf data (cfg_block_start c) (cfg_block_end c - cfg_block_start c))
       (\<lambda>b. Inr (b, c\<lparr>cfg_block_start := cfg_block_end c\<rparr>))"

text \<open>
  The case \<open>VALUE\<close> of the switch: an opening quote or a first character that is not white space
  sets the end mark; after that the end mark or the end of the text closes the entry.
\<close>

definition parse_value ::
  "string \<Rightarrow> char \<Rightarrow> bool \<Rightarrow> config \<times> parse_locals \<Rightarrow> (config \<times> parse_locals) res" where
  "parse_value data chr last_char cl = (case cl of (c, l) \<Rightarrow>
     if pl_end_mark l = None \<and> chr = quote \<and> \<not> pl_escaped l then
       Inr (c\<lparr>cfg_in_quote := True\<rparr>, l\<lparr>pl_end_mark := Some quote, pl_skip_one := True\<rparr>)
     else if \<not> is_skippable chr \<and> pl_end_mark l = None then
       Inr (c, l\<lparr>pl_end_mark := Some linebreak\<rparr>)
     else
       let is_end_mark = (\<not> pl_escaped l \<and> pl_end_mark l = Some chr) \<or>
                         (pl_end_mark l = None \<and> chr = linebreak)
       in if is_end_mark \<or> last_char then
            let c1 = (if last_char \<and> \<not> is_end_mark
                      then c\<lparr>cfg_block_end := cfg_block_end c + 1\<rparr> else c)
            in bindr (save_tmp (cfg_value c1) data c1) (\<lambda>(b, c').
                 Inr ((config_flush (c'\<lparr>cfg_value := b\<rparr>))\<lparr>cfg_in_quote := False\<rparr>,
                      l\<lparr>pl_mode := Undef, pl_end_mark := None\<rparr>))
          else Inr (c, l))"

text \<open>The \<open>switch (readMode)\<close> of one iteration, at index \<open>i\<close>.\<close>

definition parse_switch ::
  "string \<Rightarrow> int \<Rightarrow> char \<Rightarrow> bool \<Rightarrow> config \<times> parse_locals \<Rightarrow> (config \<times> parse_locals) res" where
  "parse_switch data i chr last_char cl = (case cl of (c, l) \<Rightarrow>
     (case pl_mode l of
        Undef \<Rightarrow>
          if chr = CHR ''['' then Inr (c, l\<lparr>pl_mode := Section, pl_skip_one := True\<rparr>)
          else if chr = CHR ''#'' then Inr (c, l\<lparr>pl_mode := Comment\<rparr>)
          else if \<not> is_skippable chr then
            Inr (c\<lparr>cfg_block_start := i\<rparr>, l\<lparr>pl_mode := Param\<rparr>)
          else Inr (c, l)
      | Comment \<Rightarrow>
          if chr = linebreak then
            Inr (c\<lparr>cfg_block_start := - 1, cfg_block_end := - 1\<rparr>, l\<lparr>pl_mode := Undef\<rparr>)
          else Inr (c, l)
      | Section \<Rightarrow>
          if chr = CHR '']'' then
            bindr (save_tmp [] data c) (\<lambda>(b, c'). Inr (c'\<lparr>cfg_section := b\<rparr>, l\<lparr>pl_mode := Undef\<rparr>))
          else Inr (c, l)
      | Param \<Rightarrow>
          if chr = CHR ''='' then
            bindr (save_tmp (cfg_param c) data c) (\<lambda>(b, c').
              Inr (c'\<lparr>cfg_param := b\<rparr>,
                   l\<lparr>pl_mode := Value, pl_end_mark := None, pl_skip_one := True\<rparr>))
          else Inr (c, l)
      | Value \<Rightarrow> parse_value data chr last_char (c, l)))"

text \<open>The bounds of the block after the switch.\<close>

definition parse_block :: "int \<Rightarrow> char \<Rightarrow> config \<times> parse_locals \<Rightarrow> config \<times> parse_locals" where
  "parse_block i chr cl = (case cl of (c, l) \<Rightarrow>
     if \<not> pl_skip_one l \<and> pl_mode l \<noteq> Undef \<and> (\<not> is_skippable chr \<or> cfg_in_quote c) then
       (c\<lparr>cfg_block_end := i + 1,
          cfg_block_start := (if cfg_block_start c = - 1 then i else cfg_block_start c)\<rparr>, l)
     else (c, l))"

text \<open>The end of an iteration: a backslash that is not escaped itself cuts the block.\<close>

definition parse_escape ::
  "string \<Rightarrow> char \<Rightarrow> config \<times> parse_locals \<Rightarrow> (config \<times> parse_locals) res" where
  "parse_escape data chr cl = (case cl of (c, l) \<Rightarrow>
     (let l1 = l\<lparr>pl_skip_one := False, pl_escaped := \<not> pl_escaped l \<and> chr = backslash\<rparr>
      in if pl_escaped l1 then
           let c1 = c\<lparr>cfg_block_end := cfg_block_end c - 1\<rparr>
           in bindr
                (case pl_mode l1 of
                   Section \<Rightarrow> bindr (append_tmp (cfg_section c1) data c1)
                                (\<lambda>(b, c'). Inr (c'\<lparr>cfg_section := b\<rparr>))
                 | Param \<Rightarrow> bindr (append_tmp (cfg_param c1) data c1)
                                (\<lambda>(b, c'). Inr (c'\<lparr>cfg_param := b\<rparr>))
                 | Value \<Rightarrow> bindr (append_tmp (cfg_value c1) data c1)
                                (\<lambda>(b, c'). Inr (c'\<lparr>cfg_value := b\<rparr>))
                 | _ \<Rightarrow> Inr c1)
                (\<lambda>c2. Inr (c2\<lparr>cfg_block_end := cfg_block_end c2 + 1,
                             cfg_block_start := cfg_block_end c2 + 1\<rparr>, l1))
         else Inr (c, l1)))"

definition parse_step ::
  "string \<Rightarrow> int \<Rightarrow> char \<Rightarrow> bool \<Rightarrow> config \<times> parse_locals \<Rightarrow> (config \<times> parse_locals) res" where
  "parse_step data i chr last_char cl =
     bindr (parse_switch data i chr last_char cl)
       (\<lambda>cl'. parse_escape data chr (parse_block i chr cl'))"

fun parse_loop ::
  "string \<Rightarrow> nat \<Rightarrow> string \<Rightarrow> config \<times> parse_locals \<Rightarrow> (config \<times> parse_locals) res" where
  "parse_loop data i [] cl = Inr cl"
| "parse_loop data i (chr # rest) cl =
     bindr (parse_step data (int i) chr (rest = []) cl) (\<lambda>cl'. parse_loop data (Suc i) rest cl')"

definition config_parse :: "string \<Rightarrow> config \<Rightarrow> config res" where
  "config_parse data c =
     bindr (parse_loop data 0 data (c\<lparr>cfg_block_start := - 1, cfg_block_end := - 1\<rparr>, locals_new))
       (\<lambda>cl. Inr (fst cl))"

text \<open>
  \<open>parseFile\<close> appends the file's bytes to a buffer in blocks of at most 1024 until reading stops
  and parses the whole; \<open>chunks\<close> are the blocks the stream delivers.
\<close>

definition config_parse_file :: "string list \<Rightarrow> config \<Rightarrow> config res" where
  "config_parse_file chunks c = config_parse (concat chunks) c"

definition config_get_section :: "config \<Rightarrow> string \<Rightarrow> config_section res" where
  "config_get_section c name =
     (case cfg_data c name of Some s \<Rightarrow> Inr s | None \<Rightarrow> Inl (NoSuchValue name))"

lemmas parse_defs = parse_step_def parse_switch_def parse_value_def parse_block_def parse_escape_def
  save_tmp_def append_tmp_def

section \<open>Parsing never leaves the text\<close>

text \<open>
  Before the character at index \<open>i\<close> the block starts nowhere or at an offset not behind \<open>i\<close>. Every
  \<open>append\<close> of the parser then has a position inside the text, so none of them throws.
\<close>

definition block_ok :: "nat \<Rightarrow> config \<Rightarrow> bool" where
  "block_ok i c \<longleftrightarrow> cfg_block_start c = - 1 \<or> 0 \<le> cfg_block_start c \<and> cfg_block_start c \<le> int i"

lemma append_sub_is_ok:
  "0 \<le> pos \<Longrightarrow> pos \<le> int (length s) \<Longrightarrow> \<exists>b. append_sub buf s pos n = Inr b"
  by (simp add: append_sub_def)

lemma save_tmp_ex:
  assumes "block_ok i c" and "i \<le> length data"
  shows "\<exists>b. save_tmp buf data c = Inr (b, c\<lparr>cfg_block_start := - 1, cfg_block_end := - 1\<rparr>)"
proof (cases "0 < cfg_block_start c \<and> cfg_block_start c \<le> cfg_block_end c")
  case True
  with assms obtain b where
    "append_sub buf data (cfg_block_start c) (cfg_block_end c - cfg_block_start c) = Inr b"
    using append_sub_is_ok [of "cfg_block_start c" data buf] by (auto simp: block_ok_def)
  with True show ?thesis by (simp add: save_tmp_def)
next
  case False
  then have "save_tmp buf data c = Inr (buf, c\<lparr>cfg_block_start := - 1, cfg_block_end := - 1\<rparr>)"
    unfolding save_tmp_def by (subst if_not_P) simp_all
  then show ?thesis by blast
qed

lemma append_tmp_ex:
  assumes "0 \<le> cfg_block_start c" and "cfg_block_start c \<le> int (length data)"
  shows "\<exists>b. append_tmp buf data c = Inr (b, c\<lparr>cfg_block_start := cfg_block_end c\<rparr>)"
proof -
  obtain b where "append_sub buf data (cfg_block_start c) (cfg_block_end c - cfg_block_start c) = Inr b"
    using append_sub_is_ok [OF assms] by blast
  then show ?thesis by (simp add: append_tmp_def)
qed

lemma block_ok_none [simp]: "cfg_block_start c = - 1 \<Longrightarrow> block_ok i c"
  by (simp add: block_ok_def)

lemma config_flush_block [simp]:
  "cfg_block_start (config_flush c) = cfg_block_start c"
  "cfg_block_end (config_flush c) = cfg_block_end c"
  by (simp_all add: config_flush_def Let_def)

text \<open>What holds after the switch, whatever branch was taken.\<close>

definition switch_post :: "nat \<Rightarrow> char \<Rightarrow> bool \<Rightarrow> (config \<times> parse_locals) res \<Rightarrow> bool" where
  "switch_post i chr esc r \<longleftrightarrow> (\<exists>c l. r = Inr (c, l) \<and> block_ok i c \<and> pl_escaped l = esc \<and>
     (chr = backslash \<longrightarrow> \<not> pl_skip_one l \<and>
        (pl_mode l = Undef \<longrightarrow> cfg_block_start c = - 1 \<and> cfg_block_end c = - 1)))"

lemma switch_post_Inr [simp]:
  "switch_post i chr esc (Inr (c, l)) \<longleftrightarrow> block_ok i c \<and> pl_escaped l = esc \<and>
     (chr = backslash \<longrightarrow> \<not> pl_skip_one l \<and>
        (pl_mode l = Undef \<longrightarrow> cfg_block_start c = - 1 \<and> cfg_block_end c = - 1))"
  by (auto simp: switch_post_def)

lemma parse_value_post:
  assumes "block_ok i c" and "i \<le> length data" and "\<not> pl_skip_one l" and "pl_mode l = Value"
  shows "switch_post i chr (pl_escaped l) (parse_value data chr lst (c, l))"
proof -
  have "block_ok i (c\<lparr>cfg_block_end := cfg_block_end c + 1\<rparr>)"
    using assms(1) by (simp add: block_ok_def)
  then obtain b1 where b1:
    "save_tmp (cfg_value c) data (c\<lparr>cfg_block_end := cfg_block_end c + 1\<rparr>) =
       Inr (b1, c\<lparr>cfg_block_start := - 1, cfg_block_end := - 1\<rparr>)"
    using save_tmp_ex [OF _ assms(2)] by fastforce
  obtain b2 where b2:
    "save_tmp (cfg_value c) data c = Inr (b2, c\<lparr>cfg_block_start := - 1, cfg_block_end := - 1\<rparr>)"
    using save_tmp_ex [OF assms(1,2)] by blast
  have "block_ok i (c\<lparr>cfg_in_quote := True\<rparr>)" using assms(1) by (simp add: block_ok_def)
  then show ?thesis using assms b1 b2 by (simp add: parse_value_def Let_def)
qed

lemma parse_switch_post:
  assumes "block_ok i c" and "i \<le> length data" and "\<not> pl_skip_one l"
  shows "switch_post i chr (pl_escaped l) (parse_switch data (int i) chr lst (c, l))"
proof (cases "pl_mode l")
  case Undef
  with assms show ?thesis by (simp add: parse_switch_def block_ok_def is_skippable_def)
next
  case Section
  obtain b where
    "save_tmp [] data c = Inr (b, c\<lparr>cfg_block_start := - 1, cfg_block_end := - 1\<rparr>)"
    using save_tmp_ex [OF assms(1,2)] by blast
  with Section assms show ?thesis by (simp add: parse_switch_def)
next
  case Param
  obtain b where
    "save_tmp (cfg_param c) data c = Inr (b, c\<lparr>cfg_block_start := - 1, cfg_block_end := - 1\<rparr>)"
    using save_tmp_ex [OF assms(1,2)] by blast
  with Param assms show ?thesis by (simp add: parse_switch_def)
next
  case Value
  with assms parse_value_post show ?thesis by (simp add: parse_switch_def)
next
  case Comment
  with assms show ?thesis by (simp add: parse_switch_def block_ok_def)
qed

text \<open>After the second part of an iteration the block is in order for the next index.\<close>

lemma parse_block_escape_ok:
  assumes "switch_post i chr esc (Inr (c, l))" and "i < length data"
  obtains c' l' where "parse_escape data chr (parse_block (int i) chr (c, l)) = Inr (c', l')"
    and "block_ok (Suc i) c'" and "\<not> pl_skip_one l'"
proof -
  define d where "d = fst (parse_block (int i) chr (c, l))"
  have pb: "parse_block (int i) chr (c, l) = (d, l)"
    by (simp add: d_def parse_block_def)
  have d_ok: "block_ok (Suc i) d"
    using assms(1) by (auto simp: d_def parse_block_def block_ok_def)
  show thesis
  proof (cases "\<not> pl_escaped l \<and> chr = backslash")
    case False
    with pb d_ok that show thesis by (simp add: parse_escape_def Let_def)
  next
    case True
    let ?d = "d\<lparr>cfg_block_end := cfg_block_end d - 1\<rparr>"
    have skip: "\<not> pl_skip_one l" using True assms(1) by simp
    show thesis
    proof (cases "pl_mode l = Undef")
      case undef: True
      with True assms(1) have "cfg_block_end d = - 1"
        by (simp add: d_def parse_block_def)
      with pb True undef that show thesis
        by (simp add: parse_escape_def Let_def)
    next
      case False
      with True skip assms have d: "cfg_block_end d = int i + 1" "0 \<le> cfg_block_start d"
        "cfg_block_start d \<le> int i"
        by (auto simp: d_def parse_block_def block_ok_def is_skippable_def)
      have app: "\<exists>b. append_tmp buf data ?d = Inr (b, ?d\<lparr>cfg_block_start := cfg_block_end ?d\<rparr>)" for buf
        using d assms(2) by (intro append_tmp_ex) simp_all
      obtain b1 b2 b3 where
        "append_tmp (cfg_section d) data ?d = Inr (b1, ?d\<lparr>cfg_block_start := cfg_block_end ?d\<rparr>)"
        "append_tmp (cfg_param d) data ?d = Inr (b2, ?d\<lparr>cfg_block_start := cfg_block_end ?d\<rparr>)"
        "append_tmp (cfg_value d) data ?d = Inr (b3, ?d\<lparr>cfg_block_start := cfg_block_end ?d\<rparr>)"
        using app by blast
      with pb True False d that show thesis
        by (cases "pl_mode l") (simp_all add: parse_escape_def Let_def block_ok_def)
    qed
  qed
qed

lemma parse_step_ok:
  assumes "block_ok i c" and "i < length data" and "\<not> pl_skip_one l"
  obtains c' l' where "parse_step data (int i) chr lst (c, l) = Inr (c', l')"
    and "block_ok (Suc i) c'" and "\<not> pl_skip_one l'"
proof -
  have "switch_post i chr (pl_escaped l) (parse_switch data (int i) chr lst (c, l))"
    using assms by (simp add: parse_switch_post)
  then obtain c1 l1 where sw: "parse_switch data (int i) chr lst (c, l) = Inr (c1, l1)"
    and post: "switch_post i chr (pl_escaped l) (Inr (c1, l1))"
    by (auto simp: switch_post_def)
  from parse_block_escape_ok [OF post assms(2)] obtain c' l' where
    "parse_escape data chr (parse_block (int i) chr (c1, l1)) = Inr (c', l')"
    and "block_ok (Suc i) c'" and "\<not> pl_skip_one l'" .
  with sw that show thesis by (simp add: parse_step_def)
qed

lemma parse_loop_ok:
  assumes "block_ok i c" and "\<not> pl_skip_one l" and "i + length rest \<le> length data"
  shows "is_ok (parse_loop data i rest (c, l))"
  using assms
proof (induction rest arbitrary: i c l)
  case (Cons chr rest)
  from Cons.prems have "i < length data" by simp
  from parse_step_ok [OF Cons.prems(1) this Cons.prems(2)]
  obtain c' l' where "parse_step data (int i) chr (rest = []) (c, l) = Inr (c', l')"
    and "block_ok (Suc i) c'" and "\<not> pl_skip_one l'" .
  with Cons show ?case by simp
qed simp

text \<open>
  The configuration parser never fails: for every text and every object it is called on,
  all its block copies stay inside the text, so no call of \<open>append\<close> throws and a result is returned.
\<close>

lemma config_parse_total: "\<exists>c'. config_parse data c = Inr c'"
proof -
  let ?c = "c\<lparr>cfg_block_start := - 1, cfg_block_end := - 1\<rparr>"
  have "is_ok (parse_loop data 0 data (?c, locals_new))"
    by (rule parse_loop_ok) (simp_all add: locals_new_def)
  then show ?thesis by (auto simp: config_parse_def is_ok_iff)
qed

end
