(* ===== verification/Config_Roundtrip.thy ===== *)
theory Config_Roundtrip
  imports Config_Parser
begin

text \<open>
  Printing a configuration and parsing it again. The printer writes what an administrator writes
  by hand: sections in brackets, every value in quotes with quotes and backslashes escaped. The
  lemmas follow the parser over one name, one quoted value, one entry and one section.
\<close>

section \<open>The printer\<close>

type_synonym document = "(string \<times> (string \<times> string) list) list"

definition escape_value :: "string \<Rightarrow> string" where
  "escape_value v =
     concat (map (\<lambda>ch. if ch = quote \<or> ch = backslash then [backslash, ch] else [ch]) v)"

definition print_entry :: "string \<times> string \<Rightarrow> string" where
  "print_entry e = fst e @ ''='' @ [quote] @ escape_value (snd e) @ [quote, linebreak]"

definition print_section :: "string \<times> (string \<times> string) list \<Rightarrow> string" where
  "print_section s = ''['' @ fst s @ '']'' @ [linebreak] @ concat (map print_entry (snd s))"

definition print_document :: "document \<Rightarrow> string" where
  "print_document d = concat (map print_section d)"

definition plain_ends :: "string \<Rightarrow> bool" where
  "plain_ends n \<longleftrightarrow> n \<noteq> [] \<and> \<not> is_skippable (hd n) \<and> \<not> is_skippable (last n)"

definition valid_section_name :: "string \<Rightarrow> bool" where
  "valid_section_name n \<longleftrightarrow> plain_ends n \<and> list_all (\<lambda>ch. ch \<noteq> CHR '']'' \<and> ch \<noteq> backslash) n"

definition valid_param_name :: "string \<Rightarrow> bool" where
  "valid_param_name n \<longleftrightarrow> plain_ends n \<and> list_all (\<lambda>ch. ch \<noteq> CHR ''='' \<and> ch \<noteq> backslash) n
     \<and> hd n \<noteq> CHR ''['' \<and> hd n \<noteq> CHR ''#''"

definition valid_document :: "document \<Rightarrow> bool" where
  "valid_document d \<longleftrightarrow>
     list_all (\<lambda>(n, es). valid_section_name n \<and> list_all (\<lambda>(p, v). valid_param_name p) es) d"

text \<open>What the sections of a document mean: entries of sections of the same name are joined.\<close>

definition entry_value :: "string \<times> string \<Rightarrow> config_entry" where
  "entry_value e = (fst e, \<lparr>cv_value = snd e, cv_in_quote = True\<rparr>)"

definition add_entry ::
  "string \<Rightarrow> (string \<Rightarrow> config_section option) \<Rightarrow> string \<times> string
     \<Rightarrow> (string \<Rightarrow> config_section option)" where
  "add_entry n m e = m(n \<mapsto> (case m n of None \<Rightarrow> [] | Some s \<Rightarrow> s) @ [entry_value e])"

definition add_section ::
  "(string \<Rightarrow> config_section option) \<Rightarrow> string \<times> (string \<times> string) list
     \<Rightarrow> (string \<Rightarrow> config_section option)" where
  "add_section m s = foldl (add_entry (fst s)) m (snd s)"

section \<open>Names\<close>

abbreviation loc :: "read_mode \<Rightarrow> char option \<Rightarrow> parse_locals" where
  "loc m em \<equiv> \<lparr>pl_escaped = False, pl_end_mark = em, pl_mode = m, pl_skip_one = False\<rparr>"

definition name_stop :: "read_mode \<Rightarrow> char" where
  "name_stop m = (if m = Section then CHR '']'' else CHR ''='')"

lemma step_name:
  assumes "m = Section \<or> m = Param" and "chr \<noteq> backslash" and "chr \<noteq> name_stop m"
    and "\<not> cfg_in_quote c"
  shows "parse_step data i chr lst (c, loc m em) =
    Inr (if is_skippable chr then c
         else c\<lparr>cfg_block_start := (if cfg_block_start c = - 1 then i else cfg_block_start c),
                cfg_block_end := i + 1\<rparr>, loc m em)"
proof -
  from assms(1) have "parse_switch data i chr lst (c, loc m em) = Inr (c, loc m em)"
    using assms(3) by (elim disjE) (simp_all add: parse_switch_def name_stop_def)
  with assms show ?thesis
    by (auto simp: parse_step_def parse_block_def parse_escape_def)
qed

lemma loop_name_some:
  assumes "m = Section \<or> m = Param" and "\<not> cfg_in_quote c" and "b \<noteq> - 1"
    and "list_all (\<lambda>ch. ch \<noteq> name_stop m \<and> ch \<noteq> backslash) xs"
  shows "\<exists>e'. parse_loop data i (xs @ rest) (c\<lparr>cfg_block_start := b, cfg_block_end := e\<rparr>, loc m em) =
     parse_loop data (i + length xs) rest (c\<lparr>cfg_block_start := b, cfg_block_end := e'\<rparr>, loc m em)"
  using assms(4)
proof (induction xs arbitrary: i e)
  case (Cons x xs)
  then have x: "x \<noteq> backslash" "x \<noteq> name_stop m"
    and xs: "list_all (\<lambda>ch. ch \<noteq> name_stop m \<and> ch \<noteq> backslash) xs" by auto
  define e1 where "e1 = (if is_skippable x then e else int i + 1)"
  have "parse_step data (int i) x (xs @ rest = [])
      (c\<lparr>cfg_block_start := b, cfg_block_end := e\<rparr>, loc m em) =
      Inr (c\<lparr>cfg_block_start := b, cfg_block_end := e1\<rparr>, loc m em)"
    using x assms(1-3) by (simp add: step_name e1_def)
  moreover obtain e' where "parse_loop data (Suc i) (xs @ rest)
      (c\<lparr>cfg_block_start := b, cfg_block_end := e1\<rparr>, loc m em) =
      parse_loop data (Suc i + length xs) rest
        (c\<lparr>cfg_block_start := b, cfg_block_end := e'\<rparr>, loc m em)"
    using Cons.IH [OF xs] by blast
  ultimately show ?case by auto
qed auto

lemma loop_name_tail:
  assumes "m = Section \<or> m = Param" and "\<not> cfg_in_quote c" and "b \<noteq> - 1"
    and "list_all (\<lambda>ch. ch \<noteq> name_stop m \<and> ch \<noteq> backslash) xs"
    and "xs = [] \<or> \<not> is_skippable (last xs)"
  shows "parse_loop data i (xs @ rest)
      (c\<lparr>cfg_block_start := b, cfg_block_end := int i\<rparr>, loc m em) =
    parse_loop data (i + length xs) rest
      (c\<lparr>cfg_block_start := b, cfg_block_end := int (i + length xs)\<rparr>, loc m em)"
proof (cases xs rule: rev_cases)
  case (snoc ys z)
  with assms have ys: "list_all (\<lambda>ch. ch \<noteq> name_stop m \<and> ch \<noteq> backslash) ys"
    and z: "z \<noteq> name_stop m" "z \<noteq> backslash" "\<not> is_skippable z" by auto
  obtain e' where "parse_loop data i (ys @ z # rest)
      (c\<lparr>cfg_block_start := b, cfg_block_end := int i\<rparr>, loc m em) =
      parse_loop data (i + length ys) (z # rest)
        (c\<lparr>cfg_block_start := b, cfg_block_end := e'\<rparr>, loc m em)"
    using loop_name_some [OF assms(1-3) ys] by blast
  moreover have "parse_step data (int (i + length ys)) z (rest = [])
      (c\<lparr>cfg_block_start := b, cfg_block_end := e'\<rparr>, loc m em) =
      Inr (c\<lparr>cfg_block_start := b, cfg_block_end := int (i + length ys) + 1\<rparr>, loc m em)"
    using z assms(1-3) by (simp add: step_name)
  ultimately show ?thesis using snoc by (simp add: algebra_simps)
qed simp

lemma save_tmp_name:
  assumes "data = pre @ n @ post" and "pre \<noteq> []"
  shows "save_tmp buf data (c\<lparr>cfg_block_start := int (length pre),
           cfg_block_end := int (length pre + length n)\<rparr>) =
         Inr (buf @ n, c\<lparr>cfg_block_start := - 1, cfg_block_end := - 1\<rparr>)"
  using assms by (simp add: save_tmp_def append_sub_ok nat_add_distrib)

section \<open>Quoted values\<close>

text \<open>
  Inside quotes at index \<open>i\<close>, \<open>w\<close> the characters of the value read so far: they are in
  \<open>cfg_value\<close> and in the block that ends at \<open>i\<close>.
\<close>

definition quoted_state ::
  "string \<Rightarrow> config \<Rightarrow> nat \<Rightarrow> string \<Rightarrow> config \<times> parse_locals \<Rightarrow> bool" where
  "quoted_state data c i w cl \<longleftrightarrow> (\<exists>b e v.
     cl = (c\<lparr>cfg_block_start := b, cfg_block_end := e, cfg_in_quote := True, cfg_value := v\<rparr>,
           loc Value (Some quote)) \<and>
     (b = - 1 \<and> e = - 1 \<and> v = w \<or>
      0 < b \<and> b \<le> int i \<and> e = int i \<and> v @ take (i - nat b) (drop (nat b) data) = w))"

lemma quoted_stateI:
  "b = - 1 \<and> e = - 1 \<and> v = w \<or>
     0 < b \<and> b \<le> int i \<and> e = int i \<and> v @ take (i - nat b) (drop (nat b) data) = w \<Longrightarrow>
   quoted_state data c i w
     (c\<lparr>cfg_block_start := b, cfg_block_end := e, cfg_in_quote := True, cfg_value := v\<rparr>,
      loc Value (Some quote))"
  unfolding quoted_state_def by blast

lemma take_Suc_drop:
  "i < length data \<Longrightarrow> b \<le> i \<Longrightarrow> take (Suc i - b) (drop b data) = take (i - b) (drop b data) @ [data ! i]"
  by (simp add: Suc_diff_le take_Suc_conv_app_nth)

lemma quoted_char:
  assumes "quoted_state data c i w cl" and "0 < i" and "i < length data"
    and "data ! i = chr" and "chr \<noteq> quote" and "chr \<noteq> backslash"
  shows "\<exists>cl'. parse_step data (int i) chr False cl = Inr cl' \<and> quoted_state data c (Suc i) (w @ [chr]) cl'"
proof -
  from assms(1) obtain b e v where
    cl: "cl = (c\<lparr>cfg_block_start := b, cfg_block_end := e, cfg_in_quote := True, cfg_value := v\<rparr>,
           loc Value (Some quote))"
    and be: "b = - 1 \<and> e = - 1 \<and> v = w \<or>
      0 < b \<and> b \<le> int i \<and> e = int i \<and> v @ take (i - nat b) (drop (nat b) data) = w"
    by (auto simp: quoted_state_def)
  let ?b = "if b = - 1 then int i else b"
  have step: "parse_step data (int i) chr False cl = Inr (c\<lparr>cfg_block_start := ?b,
      cfg_block_end := int i + 1, cfg_in_quote := True, cfg_value := v\<rparr>, loc Value (Some quote))"
    using assms(5,6) by (simp add: cl parse_defs Let_def)
  have "v @ take (Suc i - nat ?b) (drop (nat ?b) data) = w @ [chr]"
    using be assms(2-4) take_Suc_drop [OF assms(3), of i]
    by (auto simp: take_Suc_drop nat_le_iff)
  then have "quoted_state data c (Suc i) (w @ [chr]) (c\<lparr>cfg_block_start := ?b,
      cfg_block_end := int i + 1, cfg_in_quote := True, cfg_value := v\<rparr>, loc Value (Some quote))"
    using be assms(2) by (intro quoted_stateI) auto
  with step show ?thesis by blast
qed

lemma quoted_escape:
  assumes "quoted_state data c i w cl" and "0 < i" and "Suc i < length data"
    and "data ! Suc i = chr"
  shows "\<exists>cl' cl''. parse_step data (int i) backslash False cl = Inr cl'
     \<and> parse_step data (int (Suc i)) chr False cl' = Inr cl''
     \<and> quoted_state data c (Suc (Suc i)) (w @ [chr]) cl''"
proof -
  from assms(1) obtain b e v where
    cl: "cl = (c\<lparr>cfg_block_start := b, cfg_block_end := e, cfg_in_quote := True, cfg_value := v\<rparr>,
           loc Value (Some quote))"
    and be: "b = - 1 \<and> e = - 1 \<and> v = w \<or>
      0 < b \<and> b \<le> int i \<and> e = int i \<and> v @ take (i - nat b) (drop (nat b) data) = w"
    by (auto simp: quoted_state_def)
  let ?b = "if b = - 1 then int i else b"
  have app: "append_sub v data ?b (int i - ?b) = Inr w"
  proof (cases "b = - 1")
    case True
    with be assms(3) show ?thesis by (simp add: append_sub_ok)
  next
    case False
    with be have "0 < b" "b \<le> int i" and w: "v @ take (i - nat b) (drop (nat b) data) = w" by auto
    moreover have "nat (int i - b) = i - nat b" using \<open>0 < b\<close> by simp
    ultimately show ?thesis using assms(3) False by (simp add: append_sub_ok)
  qed
  have step1: "parse_step data (int i) backslash False cl =
      Inr (c\<lparr>cfg_block_start := int i + 1, cfg_block_end := int i + 1, cfg_in_quote := True,
             cfg_value := w\<rparr>, (loc Value (Some quote))\<lparr>pl_escaped := True\<rparr>)"
    using app by (cases "b = - 1") (simp_all add: cl parse_defs Let_def is_skippable_def)
  have step2: "parse_step data (int (Suc i)) chr False
      (c\<lparr>cfg_block_start := int i + 1, cfg_block_end := int i + 1, cfg_in_quote := True,
         cfg_value := w\<rparr>, (loc Value (Some quote))\<lparr>pl_escaped := True\<rparr>) =
      Inr (c\<lparr>cfg_block_start := int i + 1, cfg_block_end := int i + 2, cfg_in_quote := True,
             cfg_value := w\<rparr>, loc Value (Some quote))"
    by (simp add: parse_defs Let_def)
  have "take (Suc (Suc i) - Suc i) (drop (Suc i) data) = [chr]"
    using take_Suc_drop [OF assms(3), of "Suc i"] assms(4) by simp
  then have "quoted_state data c (Suc (Suc i)) (w @ [chr]) (c\<lparr>cfg_block_start := int i + 1,
      cfg_block_end := int i + 2, cfg_in_quote := True, cfg_value := w\<rparr>, loc Value (Some quote))"
    by (intro quoted_stateI) (simp add: nat_add_distrib)
  with step1 step2 show ?thesis by blast
qed

lemma escape_value_Nil [simp]: "escape_value [] = []"
  by (simp add: escape_value_def)

lemma escape_value_Cons [simp]:
  "escape_value (ch # v) =
     (if ch = quote \<or> ch = backslash then [backslash, ch] else [ch]) @ escape_value v"
  by (simp add: escape_value_def)

lemma quoted_loop:
  assumes "data = pre @ escape_value v @ rest" and "rest \<noteq> []" and "pre \<noteq> []"
    and "quoted_state data c (length pre) w cl"
  shows "\<exists>cl'. parse_loop data (length pre) (escape_value v @ rest) cl =
           parse_loop data (length pre + length (escape_value v)) rest cl'
         \<and> quoted_state data c (length pre + length (escape_value v)) (w @ v) cl'"
  using assms
proof (induction v arbitrary: pre w cl)
  case (Cons ch v)
  show ?case
  proof (cases "ch = quote \<or> ch = backslash")
    case True
    have data: "data = (pre @ [backslash, ch]) @ escape_value v @ rest"
      using Cons.prems(1) True by simp
    have "Suc (length pre) < length data" "data ! Suc (length pre) = ch"
      by (simp_all add: data nth_append)
    with quoted_escape [OF Cons.prems(4)] Cons.prems(3) obtain cl1 cl2 where
      s1: "parse_step data (int (length pre)) backslash False cl = Inr cl1"
      and s2: "parse_step data (int (Suc (length pre))) ch False cl1 = Inr cl2"
      and q: "quoted_state data c (Suc (Suc (length pre))) (w @ [ch]) cl2"
      by auto
    have "\<exists>cl'. parse_loop data (length (pre @ [backslash, ch])) (escape_value v @ rest) cl2 =
           parse_loop data (length (pre @ [backslash, ch]) + length (escape_value v)) rest cl'
         \<and> quoted_state data c (length (pre @ [backslash, ch]) + length (escape_value v)) ((w @ [ch]) @ v) cl'"
      by (rule Cons.IH [OF data Cons.prems(2)]) (use q in simp_all)
    with True s1 s2 Cons.prems(2) show ?thesis by simp
  next
    case False
    have data: "data = (pre @ [ch]) @ escape_value v @ rest"
      using Cons.prems(1) False by simp
    have "length pre < length data" "data ! length pre = ch"
      by (simp_all add: data nth_append)
    with quoted_char [OF Cons.prems(4)] Cons.prems(3) False obtain cl1 where
      s1: "parse_step data (int (length pre)) ch False cl = Inr cl1"
      and q: "quoted_state data c (Suc (length pre)) (w @ [ch]) cl1"
      by auto
    have "\<exists>cl'. parse_loop data (length (pre @ [ch])) (escape_value v @ rest) cl1 =
           parse_loop data (length (pre @ [ch]) + length (escape_value v)) rest cl'
         \<and> quoted_state data c (length (pre @ [ch]) + length (escape_value v)) ((w @ [ch]) @ v) cl'"
      by (rule Cons.IH [OF data Cons.prems(2)]) (use q in simp_all)
    with False s1 Cons.prems(2) show ?thesis by simp
  qed
qed auto

lemma quoted_close:
  assumes "quoted_state data c i w cl" and "i \<le> length data"
  shows "parse_step data (int i) quote lst cl =
    Inr ((config_flush (c\<lparr>cfg_block_start := - 1, cfg_block_end := - 1, cfg_in_quote := True,
            cfg_value := w\<rparr>))\<lparr>cfg_in_quote := False\<rparr>, loc Undef None)"
proof -
  from assms(1) obtain b e v where
    cl: "cl = (c\<lparr>cfg_block_start := b, cfg_block_end := e, cfg_in_quote := True, cfg_value := v\<rparr>,
           loc Value (Some quote))"
    and be: "b = - 1 \<and> e = - 1 \<and> v = w \<or>
      0 < b \<and> b \<le> int i \<and> e = int i \<and> v @ take (i - nat b) (drop (nat b) data) = w"
    by (auto simp: quoted_state_def)
  have "save_tmp v data (c\<lparr>cfg_block_start := b, cfg_block_end := e, cfg_in_quote := True, cfg_value := v\<rparr>)
      = Inr (w, c\<lparr>cfg_block_start := - 1, cfg_block_end := - 1, cfg_in_quote := True, cfg_value := v\<rparr>)"
    using be assms(2) by (auto simp: save_tmp_def append_sub_def nat_diff_distrib')
  then show ?thesis
    by (simp add: cl parse_step_def parse_switch_def parse_value_def parse_block_def
        parse_escape_def Let_def)
qed

section \<open>Entries and sections\<close>

abbreviation idle :: "config \<Rightarrow> (string \<Rightarrow> config_section option) \<Rightarrow> string \<Rightarrow> config" where
  "idle c m n \<equiv> c\<lparr>cfg_data := m, cfg_in_quote := False, cfg_section := n, cfg_param := [],
     cfg_value := [], cfg_block_start := - 1, cfg_block_end := - 1\<rparr>"

lemma step_linebreak:
  "parse_step data i linebreak lst (c, loc Undef None) = Inr (c, loc Undef None)"
  by (simp add: parse_step_def parse_switch_def parse_block_def parse_escape_def is_skippable_def)

lemma step_param_first:
  assumes "\<not> is_skippable h" and "h \<noteq> CHR ''[''" and "h \<noteq> CHR ''#''" and "h \<noteq> backslash"
  shows "parse_step data (int i) h lst (c\<lparr>cfg_block_start := - 1, cfg_block_end := e\<rparr>, loc Undef None) =
    Inr (c\<lparr>cfg_block_start := int i, cfg_block_end := int (Suc i)\<rparr>, loc Param None)"
  using assms
  by (simp add: parse_step_def parse_switch_def parse_block_def parse_escape_def)

lemma step_equal:
  assumes "data = pre @ p @ post" and "pre \<noteq> []" and "cfg_param c = []"
  shows "parse_step data i (CHR ''='') lst
      (c\<lparr>cfg_block_start := int (length pre), cfg_block_end := int (length pre + length p)\<rparr>,
       loc Param None) =
    Inr (c\<lparr>cfg_block_start := - 1, cfg_block_end := - 1, cfg_param := p\<rparr>, loc Value None)"
  using save_tmp_name [OF assms(1,2), of "[]" c] assms(3)
  by (simp add: parse_step_def parse_switch_def parse_block_def parse_escape_def)

lemma step_open_quote:
  "quoted_state data c i' [] (c\<lparr>cfg_block_start := - 1, cfg_block_end := - 1,
      cfg_in_quote := True, cfg_value := []\<rparr>, loc Value (Some quote))
   \<and> parse_step data i quote lst (c\<lparr>cfg_block_start := - 1, cfg_block_end := - 1,
      cfg_in_quote := q, cfg_value := []\<rparr>, loc Value None) =
     Inr (c\<lparr>cfg_block_start := - 1, cfg_block_end := - 1, cfg_in_quote := True, cfg_value := []\<rparr>,
          loc Value (Some quote))"
  by (auto intro!: quoted_stateI
      simp: parse_step_def parse_switch_def parse_value_def parse_block_def parse_escape_def)

text \<open>From the opening quote of a value to the line break behind it.\<close>

lemma loop_quoted_value:
  assumes "data = pre @ quote # escape_value v @ quote # linebreak # post" and "cfg_value c = []"
    and "cfg_block_start c = - 1" and "cfg_block_end c = - 1"
  shows "parse_loop data (length pre) (quote # escape_value v @ quote # linebreak # post)
      (c, loc Value None) =
    parse_loop data (length pre + length (escape_value v) + 3) post
      ((config_flush (c\<lparr>cfg_in_quote := True, cfg_value := v\<rparr>))\<lparr>cfg_in_quote := False\<rparr>,
       loc Undef None)"
proof -
  let ?cl = "(c\<lparr>cfg_block_start := - 1, cfg_block_end := - 1, cfg_in_quote := True,
      cfg_value := []\<rparr>, loc Value (Some quote))"
  let ?pre = "pre @ [quote]"
  let ?i = "length ?pre + length (escape_value v)"
  have c: "c\<lparr>cfg_block_start := - 1, cfg_block_end := - 1, cfg_in_quote := cfg_in_quote c,
      cfg_value := []\<rparr> = c"
    using assms(2-4) by simp
  have opened: "parse_step data (int (length pre)) quote False (c, loc Value None) = Inr ?cl"
    using step_open_quote [where data = data and c = c and i = "int (length pre)" and lst = False
        and q = "cfg_in_quote c"] unfolding c by blast
  have data: "data = ?pre @ escape_value v @ (quote # linebreak # post)"
    using assms(1) by simp
  obtain cl' where
    "parse_loop data (length ?pre) (escape_value v @ quote # linebreak # post) ?cl =
       parse_loop data ?i (quote # linebreak # post) cl'"
    and q: "quoted_state data c ?i ([] @ v) cl'"
    using quoted_loop [OF data, where c = c and w = "[]" and cl = ?cl]
      step_open_quote [where data = data and c = c and i' = "length ?pre"] by auto
  moreover have "?i \<le> length data" by (simp add: data)
  note close = quoted_close [OF q this]
  moreover have "c\<lparr>cfg_block_start := - 1, cfg_block_end := - 1, cfg_in_quote := True,
      cfg_value := v\<rparr> = c\<lparr>cfg_in_quote := True, cfg_value := v\<rparr>"
    using assms(3,4) by simp
  ultimately show ?thesis
    using opened step_linebreak by (simp add: close numeral_3_eq_3)
qed

lemma loop_entry:
  assumes "data = pre @ print_entry (p, v) @ post" and "pre \<noteq> []" and "valid_param_name p"
    and "n \<noteq> []"
  shows "parse_loop data (length pre) (print_entry (p, v) @ post) (idle c m n, loc Undef None) =
    parse_loop data (length pre + length (print_entry (p, v))) post
      (idle c (add_entry n m (p, v)) n, loc Undef None)"
proof -
  from assms(3) obtain h t where p: "p = h # t"
    by (cases p) (auto simp: valid_param_name_def plain_ends_def)
  have h: "\<not> is_skippable h" "h \<noteq> CHR ''[''" "h \<noteq> CHR ''#''" "h \<noteq> backslash"
    and t: "list_all (\<lambda>ch. ch \<noteq> name_stop Param \<and> ch \<noteq> backslash) t"
      "t = [] \<or> \<not> is_skippable (last t)"
    using assms(3) by (auto simp: p valid_param_name_def plain_ends_def name_stop_def)
  let ?tail = "CHR ''='' # quote # escape_value v @ quote # linebreak # post"
  have rest: "print_entry (p, v) @ post = h # t @ ?tail" by (simp add: print_entry_def p)
  have first: "parse_step data (int (length pre)) h False (idle c m n, loc Undef None) =
      Inr ((idle c m n)\<lparr>cfg_block_start := int (length pre),
             cfg_block_end := int (Suc (length pre))\<rparr>, loc Param None)"
    using step_param_first [OF h, where data = data and i = "length pre" and lst = False
        and c = "idle c m n" and e = "- 1"] by simp
  have name: "parse_loop data (Suc (length pre)) (t @ ?tail)
      ((idle c m n)\<lparr>cfg_block_start := int (length pre),
         cfg_block_end := int (Suc (length pre))\<rparr>, loc Param None) =
    parse_loop data (Suc (length pre) + length t) ?tail
      ((idle c m n)\<lparr>cfg_block_start := int (length pre),
         cfg_block_end := int (Suc (length pre) + length t)\<rparr>, loc Param None)"
    by (rule loop_name_tail) (use t in simp_all)
  have data: "data = pre @ p @ ?tail" by (simp add: assms(1) print_entry_def)
  have equal: "parse_step data (int (length pre + length p)) (CHR ''='') False
      ((idle c m n)\<lparr>cfg_block_start := int (length pre),
         cfg_block_end := int (length pre + length p)\<rparr>, loc Param None) =
      Inr ((idle c m n)\<lparr>cfg_param := p\<rparr>, loc Value None)"
    using step_equal [OF data assms(2), where c = "idle c m n"
        and i = "int (length pre + length p)" and lst = False] by simp
  have data2: "data = (pre @ p @ ''='') @ quote # escape_value v @ quote # linebreak # post"
    by (simp add: data)
  have flush: "(config_flush (((idle c m n)\<lparr>cfg_param := p\<rparr>)\<lparr>cfg_in_quote := True,
      cfg_value := v\<rparr>))\<lparr>cfg_in_quote := False\<rparr> = idle c (add_entry n m (p, v)) n"
    using assms(4) by (simp add: config_flush_def add_entry_def entry_value_def Let_def)
  have qvalue: "parse_loop data (length (pre @ p @ ''=''))
      (quote # escape_value v @ quote # linebreak # post) ((idle c m n)\<lparr>cfg_param := p\<rparr>, loc Value None) =
    parse_loop data (length (pre @ p @ ''='') + length (escape_value v) + 3) post
      (idle c (add_entry n m (p, v)) n, loc Undef None)"
    using loop_quoted_value [OF data2, where c = "(idle c m n)\<lparr>cfg_param := p\<rparr>"]
    unfolding flush by simp
  have "parse_loop data (length pre) (print_entry (p, v) @ post) (idle c m n, loc Undef None) =
      parse_loop data (length pre + length p) ?tail
        ((idle c m n)\<lparr>cfg_block_start := int (length pre),
           cfg_block_end := int (length pre + length p)\<rparr>, loc Param None)"
    unfolding rest using first name by (simp add: p)
  also have "\<dots> = parse_loop data (length (pre @ p @ ''=''))
      (quote # escape_value v @ quote # linebreak # post) ((idle c m n)\<lparr>cfg_param := p\<rparr>, loc Value None)"
    using equal by simp
  also note qvalue
  also have "length (pre @ p @ ''='') + length (escape_value v) + 3 =
      length pre + length (print_entry (p, v))"
    by (simp add: print_entry_def)
  finally show ?thesis .
qed

lemma loop_entries:
  assumes "data = pre @ concat (map print_entry es) @ post" and "pre \<noteq> []" and "n \<noteq> []"
    and "list_all (\<lambda>(p, v). valid_param_name p) es"
  shows "parse_loop data (length pre) (concat (map print_entry es) @ post) (idle c m n, loc Undef None) =
    parse_loop data (length pre + length (concat (map print_entry es))) post
      (idle c (foldl (add_entry n) m es) n, loc Undef None)"
  using assms
proof (induction es arbitrary: pre m)
  case (Cons e es)
  obtain p v where e: "e = (p, v)" by (cases e)
  let ?rest = "concat (map print_entry es)"
  have "parse_loop data (length pre) (print_entry (p, v) @ (?rest @ post)) (idle c m n, loc Undef None) =
      parse_loop data (length (pre @ print_entry (p, v))) (?rest @ post)
        (idle c (add_entry n m (p, v)) n, loc Undef None)"
    using loop_entry [where data = data and pre = pre and p = p and v = v and post = "?rest @ post"
        and n = n and c = c and m = m] Cons.prems e by simp
  moreover have "parse_loop data (length (pre @ print_entry (p, v))) (?rest @ post)
        (idle c (add_entry n m (p, v)) n, loc Undef None) =
      parse_loop data (length (pre @ print_entry (p, v)) + length ?rest) post
        (idle c (foldl (add_entry n) (add_entry n m (p, v)) es) n, loc Undef None)"
    using Cons.prems e by (intro Cons.IH) simp_all
  ultimately show ?case by (simp add: e add.assoc)
qed simp

lemma step_section_open:
  "parse_step data i (CHR ''['') lst (c, loc Undef None) = Inr (c, loc Section None)"
  by (simp add: parse_step_def parse_switch_def parse_block_def parse_escape_def)

lemma step_section_close:
  assumes "data = pre @ n @ post" and "pre \<noteq> []"
  shows "parse_step data i (CHR '']'') lst
      (c\<lparr>cfg_block_start := int (length pre), cfg_block_end := int (length pre + length n)\<rparr>,
       loc Section None) =
    Inr (c\<lparr>cfg_block_start := - 1, cfg_block_end := - 1, cfg_section := n\<rparr>, loc Undef None)"
  using save_tmp_name [OF assms, of "[]" c]
  by (simp add: parse_step_def parse_switch_def parse_block_def parse_escape_def)

lemma loop_section:
  assumes "data = pre @ print_section (n, es) @ post" and "valid_section_name n"
    and "list_all (\<lambda>(p, v). valid_param_name p) es"
  shows "parse_loop data (length pre) (print_section (n, es) @ post) (idle c m n0, loc Undef None) =
    parse_loop data (length pre + length (print_section (n, es))) post
      (idle c (add_section m (n, es)) n, loc Undef None)"
proof -
  from assms(2) obtain h t where n: "n = h # t"
    by (cases n) (auto simp: valid_section_name_def plain_ends_def)
  have h: "h \<noteq> backslash" "h \<noteq> name_stop Section" "\<not> is_skippable h"
    and t: "list_all (\<lambda>ch. ch \<noteq> name_stop Section \<and> ch \<noteq> backslash) t"
      "t = [] \<or> \<not> is_skippable (last t)"
    using assms(2) by (auto simp: n valid_section_name_def plain_ends_def name_stop_def)
  let ?pre = "pre @ ''[''" and ?es = "concat (map print_entry es)"
  let ?tail = "CHR '']'' # linebreak # ?es @ post"
  have rest: "print_section (n, es) @ post = CHR ''['' # h # t @ ?tail"
    by (simp add: print_section_def n)
  have data: "data = ?pre @ n @ ?tail" using assms(1) by (simp add: print_section_def)
  have first: "parse_step data (int (length ?pre)) h False (idle c m n0, loc Section None) =
      Inr ((idle c m n0)\<lparr>cfg_block_start := int (length ?pre),
             cfg_block_end := int (Suc (length ?pre))\<rparr>, loc Section None)"
    using step_name [where m = Section and chr = h and c = "idle c m n0" and data = data
        and i = "int (length ?pre)" and lst = False and em = None] h by simp
  have name: "parse_loop data (Suc (length ?pre)) (t @ ?tail)
      ((idle c m n0)\<lparr>cfg_block_start := int (length ?pre),
         cfg_block_end := int (Suc (length ?pre))\<rparr>, loc Section None) =
    parse_loop data (Suc (length ?pre) + length t) ?tail
      ((idle c m n0)\<lparr>cfg_block_start := int (length ?pre),
         cfg_block_end := int (Suc (length ?pre) + length t)\<rparr>, loc Section None)"
    by (rule loop_name_tail) (use t in simp_all)
  have close: "parse_step data (int (length ?pre + length n)) (CHR '']'') False
      ((idle c m n0)\<lparr>cfg_block_start := int (length ?pre),
         cfg_block_end := int (length ?pre + length n)\<rparr>, loc Section None) =
      Inr (idle c m n, loc Undef None)"
    using step_section_close [OF data, where i = "int (length ?pre + length n)" and lst = False
        and c = "idle c m n0"] by simp
  have data2: "data = (?pre @ n @ '']'' @ [linebreak]) @ ?es @ post"
    by (simp add: data)
  have entries: "parse_loop data (length (?pre @ n @ '']'' @ [linebreak])) (?es @ post)
      (idle c m n, loc Undef None) =
    parse_loop data (length (?pre @ n @ '']'' @ [linebreak]) + length ?es) post
      (idle c (foldl (add_entry n) m es) n, loc Undef None)"
    by (rule loop_entries [OF data2]) (use assms(3) n in simp_all)
  have "parse_loop data (length pre) (print_section (n, es) @ post) (idle c m n0, loc Undef None) =
      parse_loop data (length ?pre + length n) ?tail
        ((idle c m n0)\<lparr>cfg_block_start := int (length ?pre),
           cfg_block_end := int (length ?pre + length n)\<rparr>, loc Section None)"
    unfolding rest using first name step_section_open by (simp add: n)
  also have "\<dots> = parse_loop data (length (?pre @ n @ '']'' @ [linebreak])) (?es @ post)
      (idle c m n, loc Undef None)"
    using close step_linebreak by simp
  also note entries
  finally show ?thesis by (simp add: print_section_def add_section_def algebra_simps)
qed

lemma loop_document:
  assumes "data = pre @ print_document d" and "valid_document d"
  shows "\<exists>n. parse_loop data (length pre) (print_document d) (idle c m n0, loc Undef None) =
    Inr (idle c (foldl add_section m d) n, loc Undef None)"
  using assms
proof (induction d arbitrary: pre m n0)
  case (Cons s d)
  obtain n es where s: "s = (n, es)" by (cases s)
  have "parse_loop data (length pre) (print_section (n, es) @ print_document d)
      (idle c m n0, loc Undef None) =
    parse_loop data (length (pre @ print_section (n, es))) (print_document d)
      (idle c (add_section m (n, es)) n, loc Undef None)"
    using loop_section [where data = data and pre = pre and n = n and es = es
        and post = "print_document d"] Cons.prems s
    by (simp add: print_document_def valid_document_def)
  moreover obtain n' where "parse_loop data (length (pre @ print_section (n, es))) (print_document d)
      (idle c (add_section m (n, es)) n, loc Undef None) =
    Inr (idle c (foldl add_section (add_section m (n, es)) d) n', loc Undef None)"
    using Cons.IH [where pre = "pre @ print_section (n, es)" and m = "add_section m (n, es)"
        and ?n0.0 = n] Cons.prems s
    by (auto simp: print_document_def valid_document_def)
  ultimately have "parse_loop data (length pre) (print_document (s # d)) (idle c m n0, loc Undef None) =
    Inr (idle c (foldl add_section m (s # d)) n', loc Undef None)"
    by (simp add: s print_document_def)
  then show ?case by blast
qed (auto simp: print_document_def)

text \<open>
  C3: parsing a printed configuration with a fresh parser gives back its sections: for all
  documents whose section and parameter names are plain, and for all values, whatever quotes,
  backslashes, line breaks and brackets they hold. Sections of the same name are joined, no entry
  lands outside a section.
\<close>

theorem config_print_parse:
  assumes "valid_document d"
  shows "\<exists>c. config_parse (print_document d) config_new = Inr c
           \<and> cfg_data c = foldl add_section Map.empty d \<and> cfg_root c = []"
proof -
  have "config_new\<lparr>cfg_block_start := - 1, cfg_block_end := - 1\<rparr> = idle config_new Map.empty []"
    by (simp add: config_new_def)
  moreover obtain n where "parse_loop (print_document d) (length []) (print_document d)
      (idle config_new Map.empty [], loc Undef None) =
    Inr (idle config_new (foldl add_section Map.empty d) n, loc Undef None)"
    using loop_document [where data = "print_document d" and pre = "[]" and d = d
        and c = config_new and m = Map.empty and ?n0.0 = "[]"] assms by auto
  ultimately show ?thesis
    by (simp add: config_parse_def locals_new_def) (simp add: config_new_def)
qed

theorem config_print_parse_witness:
  "\<exists>c. config_parse (print_document [(''main'', [(''db'', ''mysql''), (''sql'', ''a=\"$(1)\"'')])]) config_new
     = Inr c
   \<and> cfg_data c = foldl add_section Map.empty [(''main'', [(''db'', ''mysql''), (''sql'', ''a=\"$(1)\"'')])]
   \<and> cfg_root c = []"
  by (rule config_print_parse)
     (simp add: valid_document_def valid_section_name_def valid_param_name_def plain_ends_def
        is_skippable_def)

section \<open>Where the parser departs from the language\<close>

text \<open>
  A parameter that starts at the first byte of the text loses its name: \<open>saveTmp\<close> takes the offset 0
  for "no block". A value of one character at the end of a text without a line break is never
  flushed: the branch that sees the first character of a value does not test for the last one.
\<close>

lemma config_first_param_unnamed:
  "config_parse ''db=mysql'' config_new = Inr c \<Longrightarrow>
     cfg_root c = [([], \<lparr>cv_value = ''mysql'', cv_in_quote = False\<rparr>)]"
  by (simp add: config_parse_def config_new_def locals_new_def parse_defs Let_def is_skippable_def
      append_sub_def config_flush_def) auto

lemma config_last_char_lost:
  "config_parse ''[s]a=1'' config_new = Inr c \<Longrightarrow> cfg_data c = Map.empty \<and> cfg_root c = []"
  by (simp add: config_parse_def config_new_def locals_new_def parse_defs Let_def is_skippable_def
      append_sub_def config_flush_def) auto

end
