(* ===== verification/Template_Engine.thy ===== *)
theory Template_Engine
  imports Data_Tree
begin

text \<open>
  Templates (\<open>include/template.hpp\<close>, \<open>src/template.cpp\<close>, \<open>include/request_template.hpp\<close>): a text
  in which \<open>$(name)\<close> stands for a value. Parsing keeps the text without the variables and the
  position each variable had; evaluating inserts the values at the positions.
\<close>

section \<open>State\<close>

text \<open>
  \<open>std::map<size_t, std::string>\<close> is iterated in the order of its keys, so it is an association list
  kept sorted; writing an existing position replaces its variable.
\<close>

type_synonym locations = "(nat \<times> string) list"

fun loc_put :: "nat \<Rightarrow> string \<Rightarrow> locations \<Rightarrow> locations" where
  "loc_put p v [] = [(p, v)]"
| "loc_put p v ((q, w) # ls) =
     (if p < q then (p, v) # (q, w) # ls
      else if p = q then (p, v) # ls
      else (q, w) # loc_put p v ls)"

record template =
  tm_request :: string
  tm_location :: locations
  tm_variables :: "string list"
  tm_data :: "string \<Rightarrow> string option"

definition template_new :: template where
  "template_new = \<lparr>tm_request = [], tm_location = [], tm_variables = [], tm_data = Map.empty\<rparr>"

datatype template_mode = InData | InVar

record template_scan =
  ts_buff :: string
  ts_mode :: template_mode
  ts_escaped :: bool
  ts_var_begin :: nat
  ts_block_start :: nat
  ts_block_end :: nat
  ts_location :: locations
  ts_variables :: "string list"

section \<open>Parsing\<close>

definition save_var :: "string \<Rightarrow> nat \<Rightarrow> template_scan \<Rightarrow> template_scan" where
  "save_var v position st =
     st\<lparr>ts_variables := ts_variables st @ [v], ts_location := loc_put position v (ts_location st)\<rparr>"

text \<open>
  The counts \<open>blockEnd-blockStart+1\<close> are written \<open>be + 1 - bs\<close>: with \<open>size_t\<close> the difference may pass
  through \<open>-1\<close> before the \<open>1\<close> is added, and \<open>bs \<le> be + 1\<close> always holds (\<open>scan_ok\<close>), so the value is
  the same.
\<close>

definition template_switch ::
  "string \<Rightarrow> nat \<Rightarrow> char \<Rightarrow> bool \<Rightarrow> template_scan \<Rightarrow> template_scan res" where
  "template_switch req i chr last_chr st =
     (case ts_mode st of
        InData \<Rightarrow>
          if (chr = CHR ''$'' \<and> \<not> ts_escaped st) \<or> last_chr then
            bindr (if i \<noteq> 0
                   then substr_nat req (ts_block_start st)
                          (ts_block_end st + (if last_chr then 1 else 0) + 1 - ts_block_start st)
                   else Inr [])
              (\<lambda>p. Inr (st\<lparr>ts_mode := InVar, ts_buff := ts_buff st @ p,
                           ts_block_start := ts_block_end st,
                           ts_var_begin := length (ts_buff st @ p)\<rparr>))
          else Inr st
      | InVar \<Rightarrow>
          if chr = CHR ''('' then Inr (st\<lparr>ts_block_start := Suc i\<rparr>)
          else if chr = CHR '')'' \<or> last_chr then
            bindr (substr_nat req (ts_block_start st) (ts_block_end st + 1 - ts_block_start st))
              (\<lambda>v. Inr ((save_var v (ts_var_begin st) st)
                         \<lparr>ts_mode := InData, ts_block_start := Suc i\<rparr>))
          else Inr st)"

definition template_step ::
  "string \<Rightarrow> nat \<Rightarrow> char \<Rightarrow> bool \<Rightarrow> template_scan \<Rightarrow> template_scan res" where
  "template_step req i chr last_chr st =
     bindr (template_switch req i chr last_chr st) (\<lambda>s1.
       let s2 = s1\<lparr>ts_escaped := \<not> ts_escaped s1 \<and> chr = CHR 0x5C\<rparr> in
       if ts_escaped s2 \<and> ts_mode s2 = InData then
         bindr (substr_nat req (ts_block_start s2) (ts_block_end s2 + 1 - ts_block_start s2))
           (\<lambda>p. Inr (s2\<lparr>ts_buff := ts_buff s2 @ p, ts_block_start := Suc i, ts_block_end := i\<rparr>))
       else Inr (s2\<lparr>ts_block_end := i\<rparr>))"

fun template_loop :: "string \<Rightarrow> nat \<Rightarrow> string \<Rightarrow> template_scan \<Rightarrow> template_scan res" where
  "template_loop req i [] st = Inr st"
| "template_loop req i (chr # rest) st =
     bindr (template_step req i chr (rest = []) st) (template_loop req (Suc i) rest)"

definition scan_start :: "string list \<Rightarrow> template_scan" where
  "scan_start vs = \<lparr>ts_buff = [], ts_mode = InData, ts_escaped = False, ts_var_begin = 0,
     ts_block_start = 0, ts_block_end = 0, ts_location = [], ts_variables = vs\<rparr>"

definition template_parse :: "string \<Rightarrow> template \<Rightarrow> template res" where
  "template_parse req t =
     bindr (template_loop req 0 req (scan_start (tm_variables t)))
       (\<lambda>st. Inr (t\<lparr>tm_request := ts_buff st, tm_location := ts_location st,
                    tm_variables := ts_variables st\<rparr>))"

definition template_set_template :: "string \<Rightarrow> template \<Rightarrow> template res" where
  "template_set_template tmpl t = template_parse tmpl t"

definition template_from :: "string \<Rightarrow> template res" where
  "template_from req = template_parse req template_new"

section \<open>Evaluation\<close>

fun evaluate_loop ::
  "(string \<Rightarrow> string option) \<Rightarrow> locations \<Rightarrow> nat \<Rightarrow> string \<Rightarrow> string res" where
  "evaluate_loop data [] offset result = Inr result"
| "evaluate_loop data ((position, var) # ls) offset result =
     (case data var of
        Some v \<Rightarrow> bindr (insert_at (offset + position) v result)
                    (evaluate_loop data ls (offset + length v))
      | None \<Rightarrow> evaluate_loop data ls offset result)"

definition template_evaluate_with :: "(string \<Rightarrow> string option) \<Rightarrow> template \<Rightarrow> string res" where
  "template_evaluate_with data t = evaluate_loop data (tm_location t) 0 (tm_request t)"

definition template_set :: "string \<Rightarrow> string \<Rightarrow> template \<Rightarrow> template" where
  "template_set name v t = t\<lparr>tm_data := (tm_data t)(name \<mapsto> v)\<rparr>"

text \<open>\<open>evaluate()\<close> without argument uses the stored values and then forgets them.\<close>

definition template_evaluate :: "template \<Rightarrow> string res \<times> template" where
  "template_evaluate t =
     (case template_evaluate_with (tm_data t) t of
        Inl e \<Rightarrow> (Inl e, t)
      | Inr result \<Rightarrow> (Inr result, t\<lparr>tm_data := Map.empty\<rparr>))"

interpretation template_values: store "\<lambda>k t. tm_data t k" template_set
  by unfold_locales (simp_all add: template_set_def)

section \<open>What a template means\<close>

text \<open>The text cut at the positions, a value (or nothing) at every cut.\<close>

definition var_value :: "(string \<Rightarrow> string option) \<Rightarrow> string \<Rightarrow> string" where
  "var_value data v = (case data v of Some x \<Rightarrow> x | None \<Rightarrow> [])"

fun fill :: "(string \<Rightarrow> string option) \<Rightarrow> nat \<Rightarrow> locations \<Rightarrow> string \<Rightarrow> string" where
  "fill data k [] s = s"
| "fill data k ((p, v) # ls) s =
     take (p - k) s @ var_value data v @ fill data p ls (drop (p - k) s)"

fun locations_ok :: "nat \<Rightarrow> nat \<Rightarrow> locations \<Rightarrow> bool" where
  "locations_ok k n [] = (k \<le> n)"
| "locations_ok k n ((p, v) # ls) = (k \<le> p \<and> locations_ok p n ls)"

lemma locations_ok_le: "locations_ok k n ls \<Longrightarrow> k \<le> n"
  by (induction k n ls rule: locations_ok.induct) auto

lemma evaluate_loop_fill:
  assumes "locations_ok k n ls" and "length done + (n - k) = length (done @ s)"
    and "offset + k = length done"
  shows "evaluate_loop data ls offset (done @ s) = Inr (done @ fill data k ls s)"
  using assms
proof (induction data k ls s arbitrary: "done" offset rule: fill.induct)
  case (1 data k s)
  then show ?case by simp
next
  case (2 data k p v ls s)
  have kp: "k \<le> p" and ok: "locations_ok p n ls" using "2.prems"(1) by auto
  have pn: "p \<le> n" using locations_ok_le [OF ok] .
  have s: "length s = n - k" using "2.prems"(2) by simp
  have split: "done @ s = (done @ take (p - k) s) @ drop (p - k) s" by simp
  have off: "offset + p = length (done @ take (p - k) s)"
    using "2.prems"(3) kp pn s by simp
  show ?case
  proof (cases "data v")
    case None
    have "evaluate_loop data ls offset ((done @ take (p - k) s) @ drop (p - k) s) =
        Inr ((done @ take (p - k) s) @ fill data p ls (drop (p - k) s))"
      using ok s pn kp off by (intro "2.IH") simp_all
    with None show ?thesis by (simp add: var_value_def)
  next
    case (Some x)
    have "insert_at (offset + p) x (done @ s) =
        Inr ((done @ take (p - k) s @ x) @ drop (p - k) s)"
      using insert_at_append [of "done @ take (p - k) s" x "drop (p - k) s"]
      unfolding off [symmetric] split [symmetric] by simp
    moreover have "evaluate_loop data ls (offset + length x)
        ((done @ take (p - k) s @ x) @ drop (p - k) s) =
        Inr ((done @ take (p - k) s @ x) @ fill data p ls (drop (p - k) s))"
      using ok s pn kp off by (intro "2.IH") simp_all
    ultimately show ?thesis using Some by (simp add: var_value_def)
  qed
qed

text \<open>Sorted positions inside the text: what parsing establishes.\<close>

lemma locations_ok_put:
  "locations_ok k n ls \<Longrightarrow> k \<le> p \<Longrightarrow> p \<le> n \<Longrightarrow> locations_ok k n (loc_put p v ls)"
  by (induction p v ls arbitrary: k rule: loc_put.induct) auto

lemma locations_ok_mono: "locations_ok k n ls \<Longrightarrow> n \<le> m \<Longrightarrow> locations_ok k m ls"
  by (induction k n ls rule: locations_ok.induct) auto

text \<open>
  The invariant of the scan before index \<open>i\<close>: the block starts at most one behind its end, all
  bounds lie inside the text read so far, the positions inside the text collected so far.
\<close>

definition scan_ok :: "nat \<Rightarrow> template_scan \<Rightarrow> bool" where
  "scan_ok i st \<longleftrightarrow> ts_block_start st \<le> ts_block_end st + 1 \<and> ts_block_start st \<le> i \<and>
     ts_block_end st = i - 1 \<and> ts_var_begin st \<le> length (ts_buff st) \<and>
     locations_ok 0 (length (ts_buff st)) (ts_location st)"

lemma template_step_ok:
  assumes "scan_ok i st" and "i < length req"
  shows "\<exists>st'. template_step req i chr lst st = Inr st' \<and> scan_ok (Suc i) st'"
proof -
  have le: "ts_block_start st \<le> length req" using assms by (simp add: scan_ok_def)
  note facts = assms le
  show ?thesis
  proof (cases "ts_mode st")
    case InData
    with facts show ?thesis
      by (auto simp: template_step_def template_switch_def scan_ok_def Let_def
          intro: locations_ok_mono)
  next
    case InVar
    with facts show ?thesis
      by (auto simp: template_step_def template_switch_def scan_ok_def save_var_def Let_def
          intro!: locations_ok_put intro: locations_ok_mono)
  qed
qed

lemma template_loop_ok:
  assumes "scan_ok i st" and "i + length rest \<le> length req"
  shows "\<exists>st'. template_loop req i rest st = Inr st' \<and> scan_ok (i + length rest) st'"
  using assms
proof (induction rest arbitrary: i st)
  case (Cons chr rest)
  then obtain st1 where "template_step req i chr (rest = []) st = Inr st1" and "scan_ok (Suc i) st1"
    using template_step_ok [of i st req chr "rest = []"] by auto
  with Cons show ?case by fastforce
qed simp

lemma template_parse_fill:
  "\<exists>t'. template_parse req t = Inr t'
     \<and> template_evaluate_with data t' = Inr (fill data 0 (tm_location t') (tm_request t'))"
proof -
  have "scan_ok 0 (scan_start (tm_variables t))" by (simp add: scan_ok_def scan_start_def)
  from template_loop_ok [OF this, of req req] obtain st where
    st: "template_loop req 0 req (scan_start (tm_variables t)) = Inr st"
    and ok: "locations_ok 0 (length (ts_buff st)) (ts_location st)"
    by (auto simp: scan_ok_def)
  let ?t = "t\<lparr>tm_request := ts_buff st, tm_location := ts_location st, tm_variables := ts_variables st\<rparr>"
  have "template_parse req t = Inr ?t" by (simp add: template_parse_def st)
  moreover have "template_evaluate_with data ?t = Inr (fill data 0 (tm_location ?t) (tm_request ?t))"
    using evaluate_loop_fill [OF ok, of "[]" "ts_buff st" 0 data] by (simp add: template_evaluate_with_def)
  ultimately show ?thesis by blast
qed

text \<open>
  Every text is accepted as a template and every template can be evaluated: parsing never
  reads outside the text, and inserting the values one after the other, with the offset the code
  keeps, gives the collected text with each value at the position of its variable.
\<close>

lemma template_evaluate_fill:
  "\<exists>t'. template_parse req t = Inr t'
     \<and> template_evaluate_with data t' = Inr (fill data 0 (tm_location t') (tm_request t'))"
  by (rule template_parse_fill)


end
