(* ===== verification/Template_Roundtrip.thy ===== *)
theory Template_Roundtrip
  imports Template_Engine
begin

text \<open>
  The language of templates against the scanner: a list of literal texts with variables between
  them is written in the notation of the schemes, parsed and evaluated, and gives the literal texts
  with the values between them. The side conditions are the places where the scanner departs from
  the language; the last section shows one instance of each.
\<close>

section \<open>The notation\<close>

definition escape_literal :: "string \<Rightarrow> string" where
  "escape_literal l =
     concat (map (\<lambda>ch. if ch = CHR ''$'' \<or> ch = CHR 0x5C then [CHR 0x5C, ch] else [ch]) l)"

definition print_var :: "string \<times> string \<Rightarrow> string" where
  "print_var vl = ''$('' @ fst vl @ '')'' @ escape_literal (snd vl)"

definition print_template :: "string \<Rightarrow> (string \<times> string) list \<Rightarrow> string" where
  "print_template l vls = escape_literal l @ concat (map print_var vls)"

definition special :: "char \<Rightarrow> bool" where
  "special ch \<longleftrightarrow> ch = CHR ''$'' \<or> ch = CHR 0x5C"

definition valid_var :: "string \<Rightarrow> bool" where
  "valid_var v \<longleftrightarrow> list_all (\<lambda>ch. ch \<noteq> CHR ''('' \<and> ch \<noteq> CHR '')'') v"

text \<open>
  A literal between two variables is not empty, the first literal does not start with a character
  that needs an escape, and the whole text is not a single character.
\<close>

definition valid_pieces :: "string \<Rightarrow> (string \<times> string) list \<Rightarrow> bool" where
  "valid_pieces l vls \<longleftrightarrow> (l = [] \<or> \<not> special (hd l)) \<and> list_all (\<lambda>vl. valid_var (fst vl)) vls
     \<and> list_all (\<lambda>vl. snd vl \<noteq> []) (butlast vls) \<and> length (print_template l vls) \<noteq> 1"

lemma print_var_Pair: "print_var (v, l) = ''$('' @ v @ '')'' @ escape_literal l"
  by (simp add: print_var_def)

lemma escape_literal_Nil [simp]: "escape_literal [] = []"
  by (simp add: escape_literal_def)

lemma escape_literal_Cons:
  "escape_literal (ch # l) = (if special ch then [CHR 0x5C, ch] else [ch]) @ escape_literal l"
  by (simp add: escape_literal_def special_def)

lemma escape_literal_append [simp]:
  "escape_literal (a @ b) = escape_literal a @ escape_literal b"
  by (simp add: escape_literal_def)

section \<open>Literal text\<close>

text \<open>In literal text before index \<open>i\<close>, with \<open>acc\<close> the text read so far.\<close>

definition data_state ::
  "string \<Rightarrow> nat \<Rightarrow> string \<Rightarrow> locations \<Rightarrow> string list \<Rightarrow> template_scan \<Rightarrow> bool" where
  "data_state req i acc ls vs st \<longleftrightarrow>
     ts_mode st = InData \<and> \<not> ts_escaped st \<and> ts_block_end st = i - 1 \<and> ts_block_start st \<le> i \<and>
     ts_buff st @ take (i - ts_block_start st) (drop (ts_block_start st) req) = acc \<and>
     ts_location st = ls \<and> ts_variables st = vs"

lemma take_Suc_drop_nth:
  "i < length req \<Longrightarrow> b \<le> i \<Longrightarrow> take (Suc i - b) (drop b req) = take (i - b) (drop b req) @ [req ! i]"
  by (simp add: Suc_diff_le take_Suc_conv_app_nth)

lemma data_plain:
  assumes "data_state req i acc ls vs st" and "i < length req" and "req ! i = ch" and "\<not> special ch"
  shows "\<exists>st'. template_step req i ch False st = Inr st' \<and> data_state req (Suc i) (acc @ [ch]) ls vs st'"
  using assms
  by (auto simp: template_step_def template_switch_def data_state_def special_def Let_def take_Suc_drop_nth)

lemma data_escape:
  assumes "data_state req i acc ls vs st" and "0 < i" and "Suc i < length req"
  shows "\<exists>st'. template_step req i (CHR 0x5C) False st = Inr st' \<and>
          ts_mode st' = InData \<and> ts_escaped st' \<and> ts_block_end st' = i \<and> ts_block_start st' = Suc i \<and>
          ts_buff st' = acc \<and> ts_location st' = ls \<and> ts_variables st' = vs"
  using assms
  by (auto simp: template_step_def template_switch_def data_state_def Let_def)

lemma data_escaped_char:
  assumes "ts_mode st = InData" and "ts_escaped st" and "ts_block_end st = i" and "ts_block_start st = Suc i"
    and "ts_buff st = acc" and "ts_location st = ls" and "ts_variables st = vs"
    and "Suc i < length req" and "req ! Suc i = ch"
  shows "\<exists>st'. template_step req (Suc i) ch False st = Inr st'
     \<and> data_state req (Suc (Suc i)) (acc @ [ch]) ls vs st'"
  using assms take_Suc_drop_nth [of "Suc i" req "Suc i"]
  by (auto simp: template_step_def template_switch_def data_state_def Let_def)

text \<open>A literal that is followed by something.\<close>

lemma data_loop:
  assumes "req = pre @ escape_literal l @ rest" and "rest \<noteq> []"
    and "pre \<noteq> [] \<or> l = [] \<or> \<not> special (hd l)"
    and "data_state req (length pre) acc ls vs st"
  shows "\<exists>st'. template_loop req (length pre) (escape_literal l @ rest) st =
           template_loop req (length pre + length (escape_literal l)) rest st'
         \<and> data_state req (length pre + length (escape_literal l)) (acc @ l) ls vs st'"
  using assms
proof (induction l arbitrary: pre acc st)
  case (Cons ch l)
  show ?case
  proof (cases "special ch")
    case True
    let ?pre = "pre @ [CHR 0x5C, ch]"
    have req: "req = ?pre @ escape_literal l @ rest"
      using Cons.prems(1) True by (simp add: escape_literal_Cons)
    have "Suc (length pre) < length req" and nth: "req ! Suc (length pre) = ch"
      by (simp_all add: req nth_append)
    note len = this(1)
    have "0 < length pre" using Cons.prems(3) True by auto
    from data_escape [OF Cons.prems(4) this len]
    obtain s1 where s1: "template_step req (length pre) (CHR 0x5C) False st = Inr s1"
      and f: "ts_mode s1 = InData" "ts_escaped s1" "ts_block_end s1 = length pre"
        "ts_block_start s1 = Suc (length pre)" "ts_buff s1 = acc" "ts_location s1 = ls" "ts_variables s1 = vs"
      by blast
    from data_escaped_char [OF f len nth] obtain s2 where
      s2: "template_step req (Suc (length pre)) ch False s1 = Inr s2"
      and d2: "data_state req (length ?pre) (acc @ [ch]) ls vs s2" by auto
    have "\<exists>st'. template_loop req (length ?pre) (escape_literal l @ rest) s2 =
           template_loop req (length ?pre + length (escape_literal l)) rest st'
         \<and> data_state req (length ?pre + length (escape_literal l)) ((acc @ [ch]) @ l) ls vs st'"
      by (rule Cons.IH [OF req Cons.prems(2) _ d2]) simp
    with s1 s2 True Cons.prems(2) show ?thesis by (simp add: escape_literal_Cons)
  next
    case False
    let ?pre = "pre @ [ch]"
    have req: "req = ?pre @ escape_literal l @ rest"
      using Cons.prems(1) False by (simp add: escape_literal_Cons)
    have "length pre < length req" and "req ! length pre = ch"
      by (simp_all add: req nth_append)
    from data_plain [OF Cons.prems(4) this False] obtain s1 where
      s1: "template_step req (length pre) ch False st = Inr s1"
      and d1: "data_state req (length ?pre) (acc @ [ch]) ls vs s1" by auto
    have "\<exists>st'. template_loop req (length ?pre) (escape_literal l @ rest) s1 =
           template_loop req (length ?pre + length (escape_literal l)) rest st'
         \<and> data_state req (length ?pre + length (escape_literal l)) ((acc @ [ch]) @ l) ls vs st'"
      by (rule Cons.IH [OF req Cons.prems(2) _ d1]) simp
    with s1 False Cons.prems(2) show ?thesis by (simp add: escape_literal_Cons)
  qed
qed auto

text \<open>The literal at the end of the text.\<close>

lemma data_end:
  assumes "req = pre @ escape_literal l" and "l \<noteq> []" and "pre \<noteq> [] \<or> \<not> special (hd l)"
    and "pre \<noteq> [] \<or> 1 < length (escape_literal l)"
    and "data_state req (length pre) acc ls vs st"
  shows "\<exists>st'. template_loop req (length pre) (escape_literal l) st = Inr st'
     \<and> ts_buff st' = acc @ l \<and> ts_location st' = ls \<and> ts_variables st' = vs"
proof -
  from assms(2) obtain k c where l: "l = k @ [c]" by (cases l rule: rev_cases) auto
  let ?last = "escape_literal [c]"
  let ?i = "length pre + length (escape_literal k)"
  have kpre: "pre \<noteq> [] \<or> k = [] \<or> \<not> special (hd k)" using assms(3) l by (cases k) auto
  have req: "req = pre @ escape_literal k @ ?last" using assms(1) l by simp
  have ne: "?last \<noteq> []" by (simp add: escape_literal_Cons)
  obtain s1 where s1: "template_loop req (length pre) (escape_literal k @ ?last) st =
      template_loop req ?i ?last s1"
    and d1: "data_state req ?i (acc @ k) ls vs s1"
    using data_loop [OF req ne kpre assms(5)] by blast
  have i_len: "?i < length req" using ne by (simp add: req)
  show ?thesis
  proof (cases "special c")
    case True
    have pos: "0 < ?i" using assms(3) True l by (cases "pre = []"; cases k) (auto simp: escape_literal_Cons)
    have len: "Suc ?i < length req" and nth: "req ! Suc ?i = c"
      by (simp_all add: req True escape_literal_Cons nth_append)
    from data_escape [OF d1 pos len] obtain s2 where
      s2: "template_step req ?i (CHR 0x5C) False s1 = Inr s2"
      and f: "ts_mode s2 = InData" "ts_escaped s2" "ts_block_end s2 = ?i"
        "ts_block_start s2 = Suc ?i" "ts_buff s2 = acc @ k" "ts_location s2 = ls" "ts_variables s2 = vs"
      by blast
    have "take (Suc 0) (drop (Suc ?i) req) = [c]"
      using take_Suc_drop_nth [of "Suc ?i" req "Suc ?i"] len nth by simp
    with f len have "\<exists>st'. template_step req (Suc ?i) c True s2 = Inr st' \<and> ts_buff st' = acc @ l
        \<and> ts_location st' = ls \<and> ts_variables st' = vs"
      by (auto simp: template_step_def template_switch_def Let_def l)
    with s1 s2 l True show ?thesis by (auto simp: escape_literal_Cons)
  next
    case False
    have pos: "0 < ?i"
      using assms(4) False l by (cases "pre = []") (auto simp: escape_literal_Cons)
    have nth: "req ! ?i = c" by (simp add: req False escape_literal_Cons nth_append)
    have b: "ts_block_start s1 \<le> ?i" and buff: "ts_buff s1 @
        take (?i - ts_block_start s1) (drop (ts_block_start s1) req) = acc @ k"
      using d1 by (simp_all add: data_state_def)
    have cnt: "?i - 1 + 1 + 1 - ts_block_start s1 = Suc ?i - ts_block_start s1" using pos by simp
    have piece: "ts_buff s1 @ take (Suc ?i - ts_block_start s1) (drop (ts_block_start s1) req) = acc @ l"
      using take_Suc_drop_nth [OF i_len b] buff nth l by (metis append_assoc)
    have "\<exists>st'. template_step req ?i c True s1 = Inr st' \<and> ts_buff st' = acc @ l
        \<and> ts_location st' = ls \<and> ts_variables st' = vs"
      using d1 pos i_len b piece cnt False
      by (auto simp: template_step_def template_switch_def data_state_def Let_def special_def)
    with s1 l False show ?thesis by (auto simp: escape_literal_Cons bindr_def split: sum.splits)
  qed
qed

section \<open>Variables\<close>

text \<open>Inside a variable that began at text position \<open>b\<close>, after the opening bracket at \<open>s - 1\<close>.\<close>

definition var_state ::
  "nat \<Rightarrow> nat \<Rightarrow> string \<Rightarrow> nat \<Rightarrow> locations \<Rightarrow> string list \<Rightarrow> template_scan \<Rightarrow> bool" where
  "var_state i b acc s ls vs st \<longleftrightarrow>
     ts_mode st = InVar \<and> ts_block_end st = i - 1 \<and> ts_block_start st = s \<and>
     ts_var_begin st = b \<and> ts_buff st = acc \<and> ts_location st = ls \<and> ts_variables st = vs"

lemma var_open:
  assumes "data_state req i acc ls vs st" and "Suc i < length req"
  shows "\<exists>s1 s2. template_step req i (CHR ''$'') False st = Inr s1
     \<and> template_step req (Suc i) (CHR ''('') False s1 = Inr s2
     \<and> var_state (Suc (Suc i)) (length acc) acc (Suc (Suc i)) ls vs s2"
proof (cases "i = 0")
  case True
  with assms show ?thesis
    by (auto simp: template_step_def template_switch_def data_state_def var_state_def Let_def)
next
  case False
  with assms have "i - 1 + 0 + 1 - ts_block_start st = i - ts_block_start st"
    and "ts_block_start st \<le> length req"
    by (simp_all add: data_state_def)
  with assms False show ?thesis
    by (auto simp: template_step_def template_switch_def data_state_def var_state_def Let_def)
qed

lemma var_chars:
  assumes "valid_var v" and "rest \<noteq> []" and "var_state i b acc s ls vs st" and "0 < i"
  shows "\<exists>st'. template_loop req i (v @ rest) st = template_loop req (i + length v) rest st'
     \<and> var_state (i + length v) b acc s ls vs st'"
  using assms
proof (induction v arbitrary: i st)
  case (Cons ch v)
  have "\<exists>s1. template_step req i ch False st = Inr s1 \<and> var_state (Suc i) b acc s ls vs s1"
    using Cons.prems
    by (auto simp: template_step_def template_switch_def var_state_def valid_var_def Let_def)
  then obtain s1 where s1: "template_step req i ch False st = Inr s1"
    and v1: "var_state (Suc i) b acc s ls vs s1" by blast
  have "valid_var v" using Cons.prems(1) by (simp add: valid_var_def)
  from Cons.IH [OF this Cons.prems(2) v1] s1 Cons.prems(2) show ?case by simp
qed auto

lemma var_close:
  assumes "var_state j b acc s ls vs st" and "s \<le> j" and "0 < j" and "j < length req"
    and "take (j - s) (drop s req) = v"
  shows "\<exists>st'. template_step req j (CHR '')'') lst st = Inr st'
     \<and> data_state req (Suc j) acc (loc_put b v ls) (vs @ [v]) st' \<and> ts_block_start st' = Suc j"
  using assms
  by (auto simp: template_step_def template_switch_def var_state_def data_state_def save_var_def Let_def)

lemma var_loop:
  assumes "req = pre @ ''$('' @ v @ '')'' @ rest" and "valid_var v"
    and "data_state req (length pre) acc ls vs st"
  shows "\<exists>st'. template_loop req (length pre) (''$('' @ v @ '')'' @ rest) st =
           template_loop req (length pre + length v + 3) rest st'
     \<and> data_state req (length pre + length v + 3) acc (loc_put (length acc) v ls) (vs @ [v]) st'
     \<and> ts_block_start st' = length pre + length v + 3"
proof -
  let ?s = "Suc (Suc (length pre))"
  have "Suc (length pre) < length req" by (simp add: assms(1))
  from var_open [OF assms(3) this] obtain s1 s2 where
    s1: "template_step req (length pre) (CHR ''$'') False st = Inr s1"
    and s2: "template_step req (Suc (length pre)) (CHR ''('') False s1 = Inr s2"
    and v2: "var_state ?s (length acc) acc ?s ls vs s2" by blast
  obtain s3 where s3: "template_loop req ?s (v @ CHR '')'' # rest) s2 =
      template_loop req (?s + length v) (CHR '')'' # rest) s3"
    and v3: "var_state (?s + length v) (length acc) acc ?s ls vs s3"
    using var_chars [OF assms(2) _ v2, of "CHR '')'' # rest" req] by auto
  have "take (?s + length v - ?s) (drop ?s req) = v" by (simp add: assms(1))
  from var_close [OF v3 _ _ _ this, of "rest = []"] obtain s4 where
    "template_step req (?s + length v) (CHR '')'') (rest = []) s3 = Inr s4"
    and "data_state req (Suc (?s + length v)) acc (loc_put (length acc) v ls) (vs @ [v]) s4"
    and "ts_block_start s4 = Suc (?s + length v)"
    by (auto simp: assms(1))
  with s1 s2 s3 show ?thesis by (auto simp: numeral_3_eq_3)
qed

section \<open>Whole templates\<close>

text \<open>The text and the positions a list of pieces stands for.\<close>

fun pieces_text :: "(string \<times> string) list \<Rightarrow> string" where
  "pieces_text [] = []"
| "pieces_text ((v, l) # vls) = l @ pieces_text vls"

fun pieces_locations :: "nat \<Rightarrow> (string \<times> string) list \<Rightarrow> locations" where
  "pieces_locations p [] = []"
| "pieces_locations p ((v, l) # vls) = (p, v) # pieces_locations (p + length l) vls"

lemma loc_put_last: "\<forall>(q, w) \<in> set ls. q < p \<Longrightarrow> loc_put p v ls = ls @ [(p, v)]"
  by (induction p v ls rule: loc_put.induct) auto

lemma template_loop_pieces:
  assumes "req = pre @ concat (map print_var vls)" and "list_all (\<lambda>vl. valid_var (fst vl)) vls"
    and "list_all (\<lambda>vl. snd vl \<noteq> []) (butlast vls)" and "\<forall>(q, w) \<in> set ls. q < length acc"
    and "data_state req (length pre) acc ls vs st" and "vls \<noteq> []"
  shows "\<exists>st'. template_loop req (length pre) (concat (map print_var vls)) st = Inr st'
     \<and> ts_buff st' = acc @ pieces_text vls
     \<and> ts_location st' = ls @ pieces_locations (length acc) vls
     \<and> ts_variables st' = vs @ map fst vls"
  using assms
proof (induction vls arbitrary: pre acc ls vs st)
  case Nil
  then show ?case by (simp add: data_state_def)
next
  case (Cons vl vls)
  obtain v l where vl: "vl = (v, l)" by (cases vl)
  let ?rest = "concat (map print_var vls)"
  have req: "req = pre @ ''$('' @ v @ '')'' @ (escape_literal l @ ?rest)"
    using Cons.prems(1) vl by (simp add: print_var_Pair)
  have v: "valid_var v" using Cons.prems(2) vl by simp
  let ?pre = "pre @ ''$('' @ v @ '')''"
  have lp: "loc_put (length acc) v ls = ls @ [(length acc, v)]"
    using Cons.prems(4) by (rule loc_put_last)
  have lenp: "length pre + length v + 3 = length ?pre" by simp
  from var_loop [OF req v Cons.prems(5)] obtain s1 where
    s1: "template_loop req (length pre) (''$('' @ v @ '')'' @ escape_literal l @ ?rest) st =
       template_loop req (length ?pre) (escape_literal l @ ?rest) s1"
    and d1: "data_state req (length ?pre) acc (ls @ [(length acc, v)]) (vs @ [v]) s1"
    and b1: "ts_block_start s1 = length ?pre"
    unfolding lenp lp by blast
  have req2: "req = ?pre @ escape_literal l @ ?rest" using req by simp
  have whole: "concat (map print_var (vl # vls)) = ''$('' @ v @ '')'' @ escape_literal l @ ?rest"
    by (simp add: vl print_var_Pair)
  show ?case
  proof (cases "vls = []")
    case True
    show ?thesis
    proof (cases "l = []")
      case True
      with \<open>vls = []\<close> s1 d1 b1 show ?thesis by (simp add: vl print_var_def data_state_def)
    next
      case False
      have "req = ?pre @ escape_literal l" using req2 \<open>vls = []\<close> by simp
      from data_end [OF this False _ _ d1] s1 \<open>vls = []\<close> show ?thesis
        by (auto simp: vl print_var_def)
    qed
  next
    case False
    have ne: "?rest \<noteq> []" using False by (cases vls) (auto simp: print_var_def)
    have l: "l \<noteq> []" using Cons.prems(3) False vl by simp
    from data_loop [OF req2 ne _ d1] obtain s2 where
      s2: "template_loop req (length ?pre) (escape_literal l @ ?rest) s1 =
         template_loop req (length (?pre @ escape_literal l)) ?rest s2"
      and d2: "data_state req (length (?pre @ escape_literal l)) (acc @ l)
         (ls @ [(length acc, v)]) (vs @ [v]) s2"
      by (auto simp: add.assoc)
    have "\<exists>st'. template_loop req (length (?pre @ escape_literal l)) ?rest s2 = Inr st'
       \<and> ts_buff st' = (acc @ l) @ pieces_text vls
       \<and> ts_location st' = (ls @ [(length acc, v)]) @ pieces_locations (length (acc @ l)) vls
       \<and> ts_variables st' = (vs @ [v]) @ map fst vls"
    proof (rule Cons.IH [OF _ _ _ _ d2 False])
      show "req = (?pre @ escape_literal l) @ ?rest" using req2 by simp
      show "list_all (\<lambda>vl. valid_var (fst vl)) vls" using Cons.prems(2) by simp
      show "list_all (\<lambda>vl. snd vl \<noteq> []) (butlast vls)" using Cons.prems(3) False by simp
      show "\<forall>(q, w) \<in> set (ls @ [(length acc, v)]). q < length (acc @ l)"
        using Cons.prems(4) l by fastforce
    qed
    with s1 s2 show ?thesis unfolding whole by (simp add: vl)
  qed
qed

lemma fill_pieces:
  "fill data k (pieces_locations (k + length l) vls) (l @ pieces_text vls) =
     l @ concat (map (\<lambda>(v, t). var_value data v @ t) vls)"
proof (induction vls arbitrary: k l)
  case (Cons vl vls)
  obtain v t where "vl = (v, t)" by (cases vl)
  with Cons [of "k + length l" t] show ?case by simp
qed simp

text \<open>
  C4: writing literal texts and variables in the notation of the schemes, parsing the result as a
  template and evaluating it gives the texts with the values between them (nothing for a variable
  without a value); the variables are listed in order.
\<close>

theorem template_print_evaluate:
  assumes "valid_pieces l vls"
  shows "\<exists>t'. template_parse (print_template l vls) t = Inr t'
     \<and> template_evaluate_with data t' =
         Inr (l @ concat (map (\<lambda>(v, r). var_value data v @ r) vls))
     \<and> tm_variables t' = tm_variables t @ map fst vls"
proof -
  let ?req = "print_template l vls" and ?rest = "concat (map print_var vls)"
  let ?s0 = "scan_start (tm_variables t)"
  have d0: "data_state ?req (length []) [] [] (tm_variables t) ?s0"
    by (simp add: data_state_def scan_start_def)
  have req: "?req = [] @ escape_literal l @ ?rest" by (simp add: print_template_def)
  have hd_ok: "l = [] \<or> \<not> special (hd l)" using assms by (simp add: valid_pieces_def)
  have "\<exists>st'. template_loop ?req 0 ?req ?s0 = Inr st' \<and> ts_buff st' = l @ pieces_text vls
     \<and> ts_location st' = pieces_locations (length l) vls
     \<and> ts_variables st' = tm_variables t @ map fst vls"
  proof (cases "vls = []")
    case True
    show ?thesis
    proof (cases "l = []")
      case True
      with \<open>vls = []\<close> show ?thesis by (simp add: print_template_def scan_start_def)
    next
      case False
      have "length (escape_literal l) \<noteq> 1"
        using assms \<open>vls = []\<close> by (simp add: valid_pieces_def print_template_def)
      moreover have "escape_literal l \<noteq> []" using False by (cases l) (auto simp: escape_literal_Cons)
      ultimately have "1 < length (escape_literal l)" by (cases "escape_literal l") auto
      with data_end [of ?req "[]" l "[]" "[]" "tm_variables t" ?s0] d0 False hd_ok True
      show ?thesis by (auto simp: print_template_def)
    qed
  next
    case False
    have ne: "?rest \<noteq> []" using False by (cases vls) (auto simp: print_var_def)
    from data_loop [OF req ne _ d0] hd_ok obtain s1 where
      s1: "template_loop ?req 0 ?req ?s0 = template_loop ?req (length (escape_literal l)) ?rest s1"
      and d1: "data_state ?req (length (escape_literal l)) l [] (tm_variables t) s1"
      by (auto simp: req)
    have "\<exists>st'. template_loop ?req (length (escape_literal l)) ?rest s1 = Inr st'
       \<and> ts_buff st' = l @ pieces_text vls
       \<and> ts_location st' = [] @ pieces_locations (length l) vls
       \<and> ts_variables st' = tm_variables t @ map fst vls"
      using assms d1 False
      by (intro template_loop_pieces) (simp_all add: print_template_def valid_pieces_def)
    with s1 show ?thesis by simp
  qed
  then obtain st' where st': "template_loop ?req 0 ?req ?s0 = Inr st'"
    and buf: "ts_buff st' = l @ pieces_text vls"
    and locs: "ts_location st' = pieces_locations (length l) vls"
    and vars: "ts_variables st' = tm_variables t @ map fst vls" by blast
  let ?t = "t\<lparr>tm_request := ts_buff st', tm_location := ts_location st', tm_variables := ts_variables st'\<rparr>"
  have parse: "template_parse ?req t = Inr ?t" by (simp add: template_parse_def st')
  obtain t1 where "template_parse ?req t = Inr t1"
    and "template_evaluate_with data t1 = Inr (fill data 0 (tm_location t1) (tm_request t1))"
    using template_parse_fill by blast
  with parse have "template_evaluate_with data ?t = Inr (fill data 0 (ts_location st') (ts_buff st'))"
    by simp
  then show ?thesis using parse vars fill_pieces [of data 0 l vls]
    by (auto simp: buf locs)
qed

theorem template_print_evaluate_witness:
  "\<exists>t'. template_parse (print_template ''id='' [(''1'', '' and sum=$''), (''2'', [])]) template_new = Inr t'
     \<and> template_evaluate_with [''1'' \<mapsto> ''42''] t' =
         Inr (''id='' @ concat (map (\<lambda>(v, r). var_value [''1'' \<mapsto> ''42''] v @ r)
           [(''1'', '' and sum=$''), (''2'', [])]))
     \<and> tm_variables t' = tm_variables template_new @ map fst [(''1'', '' and sum=$''), (''2'', [])]"
  by (rule template_print_evaluate)
     (simp add: valid_pieces_def valid_var_def special_def print_template_def print_var_def)

section \<open>Where the scanner departs from the notation\<close>

text \<open>
  Two variables without text between them stand at the same position, and the map of positions
  keeps the second one only.
\<close>

lemma template_adjacent_lost:
  "bindr (template_parse ''$(1)$(2)'' template_new) (template_evaluate_with [''1'' \<mapsto> ''a'', ''2'' \<mapsto> ''b'']) =
     Inr ''b''"
  by (simp add: template_parse_def template_new_def scan_start_def template_step_def template_switch_def
      save_var_def template_evaluate_with_def insert_at_def)

text \<open>A template of a single character evaluates to the empty text.\<close>

lemma template_single_char_lost:
  "bindr (template_parse ''x'' template_new) (template_evaluate_with data) = Inr []"
  by (simp add: template_parse_def template_new_def scan_start_def template_step_def template_switch_def
      template_evaluate_with_def)

text \<open>A backslash at the start of a template is kept, anywhere else it is removed.\<close>

lemma template_leading_escape_kept:
  "bindr (template_parse (CHR 0x5C # ''$10'') template_new) (template_evaluate_with data) =
     Inr (CHR 0x5C # ''$10'')
   \<and> bindr (template_parse (CHR ''='' # CHR 0x5C # ''$10'') template_new) (template_evaluate_with data) =
     Inr ''=$10''"
  by (simp add: template_parse_def template_new_def scan_start_def template_step_def template_switch_def
      template_evaluate_with_def)

text \<open>Setting a new text on a template clears the positions but not the list of variables.\<close>

lemma template_variables_accumulate:
  "bindr (bindr (template_parse ''a$(1)'' template_new) (template_set_template ''b$(2)''))
     (\<lambda>t. Inr (tm_variables t)) = Inr [''1'', ''2'']"
  by (simp add: template_parse_def template_set_template_def template_new_def scan_start_def
      template_step_def template_switch_def save_var_def)

end
