(* ===== verification/Payment_Model.thy ===== *)
theory Payment_Model
  imports Data_Tree "HOL-Library.Word"
begin

text \<open>
  Numbers as text (\<open>include/as_string.hpp\<close>), the payment a scheme works on
  (\<open>include/payment.hpp\<close>, \<open>src/payment.cpp\<close>) and the structures the payment server hands in and
  takes back (\<open>SPay\<close>, \<open>SPayResult\<close> of \<open>legacy/payguide/src/pay.h\<close>, \<open>CompileNewPay\<close> of \<open>core.cpp\<close>).
\<close>

section \<open>Numbers as text\<close>

text \<open>
  \<open>snprintf(buff, size, ...)\<close> keeps at most \<open>size - 1\<close> characters; the size is
  \<open>numeric_limits<T>::digits + 2\<close>: 33 for \<open>int\<close>, 65 for \<open>long long\<close> and 26 for \<open>float\<close>.
\<close>

definition snprintf_into :: "nat \<Rightarrow> string \<Rightarrow> string" where
  "snprintf_into n s = take (n - 1) s"

definition as_string_int :: "int \<Rightarrow> string" where
  "as_string_int i = snprintf_into (31 + 2) (show_int i)"

definition as_string_llong :: "int \<Rightarrow> string" where
  "as_string_llong i = snprintf_into (63 + 2) (show_int i)"

text \<open>A \<open>float\<close>: sign, mantissa and exponent of two, or one of the values that are no number.\<close>

datatype c_float = Finite bool nat int | Infinite bool | NotANumber bool

text \<open>\<open>a / b\<close> rounded to the nearest integer, a tie to the even one, as \<open>printf\<close> rounds.\<close>

definition round_half_even :: "nat \<Rightarrow> nat \<Rightarrow> nat" where
  "round_half_even a b =
     (let q = a div b; r = a mod b in
      if 2 * r < b \<or> (2 * r = b \<and> even q) then q else Suc q)"

definition float_hundredths :: "nat \<Rightarrow> int \<Rightarrow> nat" where
  "float_hundredths m e =
     (if 0 \<le> e then m * 100 * 2 ^ nat e else round_half_even (m * 100) (2 ^ nat (- e)))"

definition show_hundredths :: "nat \<Rightarrow> string" where
  "show_hundredths n =
     show_nat (n div 100) @ ''.'' @ [digit_char (n div 10 mod 10), digit_char (n mod 10)]"

definition print_float2 :: "c_float \<Rightarrow> string" where
  "print_float2 x =
     (case x of
        Finite neg m e \<Rightarrow> (if neg then ''-'' else []) @ show_hundredths (float_hundredths m e)
      | Infinite neg \<Rightarrow> (if neg then ''-inf'' else ''inf'')
      | NotANumber neg \<Rightarrow> (if neg then ''-nan'' else ''nan''))"

definition as_string_float :: "c_float \<Rightarrow> string" where
  "as_string_float x = snprintf_into (24 + 2) (print_float2 x)"

text \<open>A \<open>const char *\<close>: the empty text for the null pointer.\<close>

definition as_string_cstr :: "string option \<Rightarrow> string" where
  "as_string_cstr p = (case p of None \<Rightarrow> [] | Some s \<Rightarrow> s)"

text \<open>What a C function sees of a \<open>std::string\<close>: the characters before the first null byte.\<close>

definition c_str :: "string \<Rightarrow> string" where
  "c_str s = takeWhile (\<lambda>c. c \<noteq> CHR 0x00) s"

lemma show_nat_length: "0 < k \<Longrightarrow> n < 10 ^ k \<Longrightarrow> length (show_nat n) \<le> k"
proof (induction k arbitrary: n)
  case (Suc k)
  show ?case
  proof (cases "n < 10")
    case True
    then show ?thesis by (subst show_nat.simps) simp
  next
    case False
    then have "k \<noteq> 0" using Suc.prems(2) by (cases k) auto
    moreover have "n div 10 < 10 ^ k" using Suc.prems(2) by (simp add: less_mult_imp_div_less mult.commute)
    ultimately have "length (show_nat (n div 10)) \<le> k" using Suc.IH by simp
    with False show ?thesis by (subst show_nat.simps) simp
  qed
qed simp

lemma show_int_length:
  assumes "0 < k" and "- (10 ^ k) < i" and "i < 10 ^ k"
  shows "length (show_int i) \<le> Suc k"
proof -
  have "nat \<bar>i\<bar> < 10 ^ k" using assms(2,3) by (simp add: nat_less_iff)
  then have "length (show_nat (nat \<bar>i\<bar>)) \<le> k" using assms(1) show_nat_length by blast
  then show ?thesis by (auto simp: show_int_def abs_if split: if_splits)
qed

text \<open>The buffers are large enough for the two integer types.\<close>

lemma as_string_int_exact: "in_int32 i \<Longrightarrow> as_string_int i = show_int i"
  using show_int_length [of 10 i] by (simp add: as_string_int_def snprintf_into_def in_int32_def)

definition in_int64 :: "int \<Rightarrow> bool" where
  "in_int64 i \<longleftrightarrow> - 9223372036854775808 \<le> i \<and> i \<le> 9223372036854775807"

lemma as_string_llong_exact: "in_int64 i \<Longrightarrow> as_string_llong i = show_int i"
  using show_int_length [of 19 i] by (simp add: as_string_llong_def snprintf_into_def in_int64_def)

lemma c_str_id: "CHR 0x00 \<notin> set s \<Longrightarrow> c_str s = s"
  by (auto simp: c_str_def takeWhile_eq_all_conv)


lemma c_float_truncated:
  "as_string_float (Finite False 1 80) = ''1208925819614629174706176''"
  by (simp add: as_string_float_def print_float2_def float_hundredths_def show_hundredths_def
      snprintf_into_def show_nat.simps digit_char_def nth_Cons')




lemma print_float2_cents: "print_float2 (Finite False 12345 (- 6)) = ''192.89''"
  by (simp add: print_float2_def float_hundredths_def round_half_even_def Let_def
      show_hundredths_def show_nat.simps digit_char_def nth_Cons')

section \<open>The payment\<close>

text \<open>
  The fields of \<open>SPay\<close> that the gateway reads; the character arrays hold text without a null
  byte (\<open>spay_ok\<close>), \<open>paysys_codename\<close> may be the null pointer.
\<close>

record spay =
  sp_id :: int
  sp_pay_engine :: int
  sp_provider_id :: int
  sp_data :: string
  sp_stamp :: string
  sp_bill_num :: string
  sp_terminal_id :: int
  sp_amount :: c_float
  sp_summ :: c_float
  sp_back_summ :: c_float
  sp_currency :: int
  sp_lo_perc :: c_float
  sp_op_perc :: c_float
  sp_paysys_codename :: "string option"
  sp_test :: int
  sp_exists_int_checkreqs :: int

definition spay_new :: spay where
  "spay_new = \<lparr>sp_id = 0, sp_pay_engine = 0, sp_provider_id = 0, sp_data = [], sp_stamp = [],
     sp_bill_num = [], sp_terminal_id = 0, sp_amount = Finite False 0 0, sp_summ = Finite False 0 0,
     sp_back_summ = Finite False 0 0, sp_currency = 0, sp_lo_perc = Finite False 0 0,
     sp_op_perc = Finite False 0 0, sp_paysys_codename = None, sp_test = 0,
     sp_exists_int_checkreqs = 0\<rparr>"

record spay_result =
  pr_code :: int
  pr_sleep :: int
  pr_msg :: string
  pr_sender_name :: string

datatype pay_state = UNDEF | COMPLETE | FAIL | SLEEP

record payment =
  pm_data :: spay
  pm_result :: pay_state
  pm_sleep :: "32 word"
  pm_error_code :: int
  pm_error_str :: string

definition five_minutes :: "32 word" where
  "five_minutes = 60 * 5"

definition payment_new :: payment where
  "payment_new = \<lparr>pm_data = spay_new\<lparr>sp_paysys_codename := None\<rparr>, pm_result = UNDEF,
     pm_sleep = five_minutes, pm_error_code = 0, pm_error_str = []\<rparr>"

definition payment_from :: "spay \<Rightarrow> payment" where
  "payment_from pay = payment_new\<lparr>pm_data := pay\<rparr>"

definition state_undef :: "payment \<Rightarrow> bool" where
  "state_undef p \<longleftrightarrow> pm_result p = UNDEF"

definition payment_completed :: "payment \<Rightarrow> payment" where
  "payment_completed p = p\<lparr>pm_result := COMPLETE\<rparr>"

definition payment_failed :: "payment \<Rightarrow> payment" where
  "payment_failed p = p\<lparr>pm_result := FAIL\<rparr>"

definition payment_sleep :: "32 word \<Rightarrow> payment \<Rightarrow> payment" where
  "payment_sleep sec p = p\<lparr>pm_result := SLEEP, pm_sleep := sec\<rparr>"

definition set_error_code :: "int \<Rightarrow> payment \<Rightarrow> payment" where
  "set_error_code c p = p\<lparr>pm_error_code := c\<rparr>"

definition payment_error :: "string \<Rightarrow> payment \<Rightarrow> payment" where
  "payment_error s p =
     (if pm_error_str p = [] then p\<lparr>pm_error_str := s\<rparr>
      else p\<lparr>pm_error_str := pm_error_str p @ ''; ('' @ s @ '')''\<rparr>)"

definition payment_entries :: "spay \<Rightarrow> (string \<times> string) list" where
  "payment_entries d =
     [(''id'', as_string_llong (sp_id d)),
      (''pay_engine'', as_string_int (sp_pay_engine d)),
      (''provider_id'', as_string_int (sp_provider_id d)),
      (''data'', sp_data d),
      (''stamp'', sp_stamp d),
      (''bill_num'', sp_bill_num d),
      (''terminal_id'', as_string_llong (sp_terminal_id d)),
      (''summ'', as_string_float (sp_summ d)),
      (''back_summ'', as_string_float (sp_back_summ d)),
      (''currency'', as_string_int (sp_currency d)),
      (''lo_perc'', as_string_float (sp_lo_perc d)),
      (''op_perc'', as_string_float (sp_op_perc d)),
      (''paysys_codename'', as_string_cstr (sp_paysys_codename d)),
      (''test'', as_string_int (sp_test d)),
      (''exists_int_checkreqs'', as_string_int (sp_exists_int_checkreqs d))]"

definition generate_data_tree :: "payment \<Rightarrow> data_tree" where
  "generate_data_tree p = put_all dt_set (payment_entries (pm_data p)) dt_empty"

section \<open>The answer to the payment server\<close>

definition bad_char :: "char \<Rightarrow> bool" where
  "bad_char c \<longleftrightarrow> c \<in> {CHR '';'', CHR 0x5C, CHR 0x27, CHR 0x22}"

text \<open>\<open>strncpy\<close> into a zeroed array: the text before the null byte, cut at the given size.\<close>

definition strncpy :: "nat \<Rightarrow> string \<Rightarrow> string" where
  "strncpy n s = take n (c_str s)"

definition as_spay_result :: "string \<Rightarrow> payment \<Rightarrow> spay_result" where
  "as_spay_result modname p =
     (let (msg, code, slp) =
        (case pm_result p of
           FAIL \<Rightarrow> (strncpy 1023 (pm_error_str p), 105, 0)
         | COMPLETE \<Rightarrow> (strncpy 1023 ''Payment completed'', 0, 0)
         | _ \<Rightarrow> (strncpy 1023 (pm_error_str p), 65, sint (pm_sleep p)))
      in \<lparr>pr_code = code, pr_sleep = slp,
          pr_msg = map (\<lambda>c. if bad_char c then CHR ''?'' else c) msg,
          pr_sender_name = strncpy 25 modname\<rparr>)"

definition as_spay_result_default :: "payment \<Rightarrow> spay_result" where
  "as_spay_result_default p = as_spay_result ''UPGM'' p"

lemma payment_entry_lookup:
  assumes "(k, v) \<in> set (payment_entries (pm_data p))"
  shows "dt_lookup [k] (generate_data_tree p) = Inr v"
proof -
  have "distinct (map fst (payment_entries (pm_data p)))" by (simp add: payment_entries_def)
  from vars.get_put_all_distinct [OF this assms]
  show ?thesis by (simp add: dt_get_def generate_data_tree_def)
qed

lemma payment_id_lookup: "dt_get ''id'' (generate_data_tree p) = Inr (as_string_llong (sp_id (pm_data p)))"
  using payment_entry_lookup [of "''id''" _ p] by (simp add: payment_entries_def)

text \<open>
  The scheme can read every field of a payment, and nothing else, by name; integer fields
  come out in full decimal form.
\<close>

lemma payment_fields_readable:
  assumes "in_int64 (sp_id (pm_data p))" and "in_int32 (sp_currency (pm_data p))"
  shows "dt_lookup [''id''] (generate_data_tree p) = Inr (show_int (sp_id (pm_data p)))
     \<and> dt_lookup [''currency''] (generate_data_tree p) = Inr (show_int (sp_currency (pm_data p)))
     \<and> atoi (as_string_int (sp_currency (pm_data p))) = sp_currency (pm_data p)
     \<and> dt_lookup [''data''] (generate_data_tree p) = Inr (sp_data (pm_data p))
     \<and> dt_lookup [''summ''] (generate_data_tree p) = Inr (as_string_float (sp_summ (pm_data p)))
     \<and> (is_ok (dt_lookup [k] (generate_data_tree p)) \<longleftrightarrow> k \<in> fst ` set (payment_entries (pm_data p)))"
proof (intro conjI)
  show "is_ok (dt_lookup [k] (generate_data_tree p)) \<longleftrightarrow> k \<in> fst ` set (payment_entries (pm_data p))"
  proof (cases "k \<in> fst ` set (payment_entries (pm_data p))")
    case True
    then obtain v where "(k, v) \<in> set (payment_entries (pm_data p))" by auto
    with payment_entry_lookup [OF this] True show ?thesis by (simp add: is_ok_iff)
  next
    case False
    then show ?thesis
      by (simp add: generate_data_tree_def dt_get_def vars.get_put_all_other dt_empty_def)
  qed
  show "atoi (as_string_int (sp_currency (pm_data p))) = sp_currency (pm_data p)"
    using assms by (simp add: as_string_int_exact atoi_show_int)
  show "dt_lookup [''id''] (generate_data_tree p) = Inr (show_int (sp_id (pm_data p)))"
    by (rule payment_entry_lookup) (simp add: payment_entries_def as_string_llong_exact assms)
  show "dt_lookup [''currency''] (generate_data_tree p) = Inr (show_int (sp_currency (pm_data p)))"
    by (rule payment_entry_lookup) (simp add: payment_entries_def as_string_int_exact assms)
  show "dt_lookup [''data''] (generate_data_tree p) = Inr (sp_data (pm_data p))"
    by (rule payment_entry_lookup) (simp add: payment_entries_def)
  show "dt_lookup [''summ''] (generate_data_tree p) = Inr (as_string_float (sp_summ (pm_data p)))"
    by (rule payment_entry_lookup) (simp add: payment_entries_def)
qed

lemma payment_fields_readable_example:
  "dt_lookup [''id''] (generate_data_tree payment_new) = Inr (show_int 0)
   \<and> \<not> is_ok (dt_lookup [''amount''] (generate_data_tree payment_new))"
  using payment_fields_readable [of payment_new "''amount''"]
  by (simp add: in_int64_def in_int32_def payment_new_def spay_new_def payment_entries_def)

lemma strncpy_length: "length (strncpy n s) \<le> n"
  by (simp add: strncpy_def)

text \<open>
  C31: the answer handed to the payment server fits its buffers, is free of the characters that
  would break the statement it is stored with, and its code and delay follow the state of the
  payment: failed and completed payments are final, any other is retried after the delay.
\<close>

theorem payment_answer_safe:
  "length (pr_msg (as_spay_result modname p)) < 1024
     \<and> length (pr_sender_name (as_spay_result modname p)) \<le> 25
     \<and> (\<forall>c. bad_char c \<longrightarrow> c \<notin> set (pr_msg (as_spay_result modname p)))
     \<and> CHR 0x00 \<notin> set (pr_msg (as_spay_result modname p))
     \<and> (pr_code (as_spay_result modname p), pr_sleep (as_spay_result modname p)) =
         (case pm_result p of FAIL \<Rightarrow> (105, 0) | COMPLETE \<Rightarrow> (0, 0) | _ \<Rightarrow> (65, sint (pm_sleep p)))"
proof -
  have *: "CHR 0x00 \<notin> set (strncpy n s)" for n s
    by (auto simp: strncpy_def c_str_def dest!: in_set_takeD set_takeWhileD)
  show ?thesis
    using strncpy_length [of 1023 "pm_error_str p"] strncpy_length [of 25 modname]
      strncpy_length [of 1023 "''Payment completed''"] * [of 1023]
    by (auto simp: as_spay_result_def bad_char_def less_Suc_eq_le split: pay_state.split if_splits)
qed

theorem payment_answer_safe_witness:
  "\<not> bad_char (CHR ''?'') \<and> CHR 0x27 \<notin> set (pr_msg (as_spay_result ''UPGM''
     (payment_failed (payment_error (CHR 0x27 # ''; drop'') payment_new))))"
  using payment_answer_safe [of "''UPGM''" "payment_failed (payment_error (CHR 0x27 # ''; drop'') payment_new)"]
  by (simp add: bad_char_def)

text \<open>Every error reported to a payment is kept, the first one at the front.\<close>

lemma payment_error_append:
  "pm_error_str (payment_error s (payment_error r p)) =
     pm_error_str (payment_error r p) @ (if pm_error_str (payment_error r p) = [] then s else ''; ('' @ s @ '')'')"
  by (simp add: payment_error_def)

section \<open>A new payment in the server\<close>

text \<open>
  \<open>CompileNewPay\<close> on the fields of a payment that the gateway reads; texts are cut at the size of
  their arrays.
\<close>

definition compile_new_pay ::
  "int \<Rightarrow> int \<Rightarrow> int \<Rightarrow> string option \<Rightarrow> string option \<Rightarrow> string option \<Rightarrow> int \<Rightarrow> int
    \<Rightarrow> c_float \<Rightarrow> c_float \<Rightarrow> c_float \<Rightarrow> c_float \<Rightarrow> c_float \<Rightarrow> spay" where
  "compile_new_pay pay_id engine provider stamp data bill_num terminal_id currency lo_perc op_perc
     real_summ back_summ amount =
     spay_new\<lparr>sp_id := pay_id, sp_pay_engine := engine, sp_provider_id := provider,
       sp_data := strncpy 2048 (as_string_cstr data), sp_stamp := strncpy 25 (as_string_cstr stamp),
       sp_bill_num := strncpy 30 (as_string_cstr bill_num), sp_terminal_id := terminal_id,
       sp_amount := amount, sp_summ := real_summ, sp_back_summ := back_summ, sp_currency := currency,
       sp_lo_perc := lo_perc, sp_op_perc := op_perc, sp_paysys_codename := None, sp_test := 0,
       sp_exists_int_checkreqs := 0\<rparr>"

text \<open>A field beyond the 2048th character of the data does not reach the gateway.\<close>

lemma compile_new_pay_data:
  "CHR 0x00 \<notin> set d \<Longrightarrow> length d \<le> 2048 \<Longrightarrow>
     sp_data (compile_new_pay i e p s (Some d) b t c l op r k a) = d"
  by (simp add: compile_new_pay_def strncpy_def as_string_cstr_def c_str_id)

end
