(* ===== verification/Payment_Sequence.thy ===== *)
theory Payment_Sequence
  imports Data_Tree "HOL-Library.Word"
begin

text \<open>
  The stages of a scheme (\<open>include/payment_sequence.hpp\<close>): a current stage, by number and by
  name, and the two tables between numbers and names. A stage number is a \<open>size_t\<close>, 64 bits.
\<close>

section \<open>State and operations\<close>

type_synonym stage_id = "64 word"

record payment_sequence =
  ps_stage :: stage_id
  ps_stage_name :: string
  ps_stage_names :: "stage_id \<Rightarrow> string option"
  ps_stage_ids :: "string \<Rightarrow> stage_id option"

definition sequence_new :: payment_sequence where
  "sequence_new = \<lparr>ps_stage = 0, ps_stage_name = ''main'', ps_stage_names = Map.empty,
     ps_stage_ids = Map.empty\<rparr>"

definition current_stage :: "payment_sequence \<Rightarrow> stage_id" where
  "current_stage ps = ps_stage ps"

definition next_stage :: "payment_sequence \<Rightarrow> payment_sequence" where
  "next_stage ps = ps\<lparr>ps_stage := ps_stage ps + 1\<rparr>"

definition stage_name_of :: "stage_id \<Rightarrow> payment_sequence \<Rightarrow> string res" where
  "stage_name_of stage ps =
     (case ps_stage_names ps stage of
        Some name \<Rightarrow> Inr name
      | None \<Rightarrow> Inl (InvalidStage (unat stage)))"

definition stage_name :: "payment_sequence \<Rightarrow> string" where
  "stage_name ps = ps_stage_name ps"

definition add_stage :: "stage_id \<Rightarrow> string \<Rightarrow> payment_sequence \<Rightarrow> payment_sequence" where
  "add_stage stage name ps =
     ps\<lparr>ps_stage_names := (ps_stage_names ps)(stage \<mapsto> name),
        ps_stage_ids := (ps_stage_ids ps)(name \<mapsto> stage)\<rparr>"

definition set_stage_name :: "string \<Rightarrow> payment_sequence \<Rightarrow> payment_sequence" where
  "set_stage_name name ps =
     (case ps_stage_ids ps name of
        Some stage \<Rightarrow> ps\<lparr>ps_stage := stage, ps_stage_name := name\<rparr>
      | None \<Rightarrow> ps\<lparr>ps_stage_name := name\<rparr>)"

definition set_stage_id :: "stage_id \<Rightarrow> payment_sequence \<Rightarrow> unit res \<times> payment_sequence" where
  "set_stage_id stage ps =
     (case ps_stage_names ps stage of
        Some name \<Rightarrow> (Inr (), ps\<lparr>ps_stage := stage, ps_stage_name := name\<rparr>)
      | None \<Rightarrow> (Inl (InvalidStage (unat stage)), ps))"

interpretation stages_by_id: store "\<lambda>k ps. ps_stage_names ps k" add_stage
  by unfold_locales (simp_all add: add_stage_def)

interpretation stages_by_name: store "\<lambda>k ps. ps_stage_ids ps k" "\<lambda>name stage. add_stage stage name"
  by unfold_locales (simp_all add: add_stage_def)

section \<open>Consistency of the tables\<close>

text \<open>
  The two tables are inverse to each other, and a current stage whose name is registered has the
  registered number. Registering a stage keeps this when neither its number nor its name is taken.
\<close>

definition tables_ok :: "payment_sequence \<Rightarrow> bool" where
  "tables_ok ps \<longleftrightarrow>
     (\<forall>n s. ps_stage_names ps n = Some s \<longleftrightarrow> ps_stage_ids ps s = Some n)"

definition sequence_ok :: "payment_sequence \<Rightarrow> bool" where
  "sequence_ok ps \<longleftrightarrow> tables_ok ps \<and>
     (\<forall>n. ps_stage_ids ps (ps_stage_name ps) = Some n \<longrightarrow> n = ps_stage ps)"

lemma sequence_new_ok: "sequence_ok sequence_new"
  by (simp add: sequence_ok_def tables_ok_def sequence_new_def)

lemma set_stage_name_ok: "sequence_ok ps \<Longrightarrow> sequence_ok (set_stage_name s ps)"
  by (auto simp: sequence_ok_def tables_ok_def set_stage_name_def split: option.split)

lemma set_stage_id_ok: "sequence_ok ps \<Longrightarrow> sequence_ok (snd (set_stage_id n ps))"
  by (auto simp: sequence_ok_def tables_ok_def set_stage_id_def split: option.split)

lemma add_stage_tables_ok:
  "tables_ok ps \<Longrightarrow> ps_stage_names ps n = None \<Longrightarrow> ps_stage_ids ps s = None \<Longrightarrow>
     tables_ok (add_stage n s ps)"
  unfolding tables_ok_def add_stage_def by auto (metis option.distinct(1))+

lemma add_stages_ok:
  assumes "distinct (map fst nss)" and "distinct (map snd nss)"
    and "\<forall>(n, s) \<in> set nss. ps_stage_names ps n = None \<and> ps_stage_ids ps s = None"
    and "tables_ok ps"
  shows "tables_ok (put_all add_stage nss ps)"
  using assms
proof (induction nss arbitrary: ps)
  case (Cons ns nss)
  obtain n s where ns: "ns = (n, s)" by (cases ns)
  have "tables_ok (add_stage n s ps)"
    using Cons.prems(3,4) ns by (auto intro: add_stage_tables_ok)
  moreover have "\<forall>(n', s') \<in> set nss. ps_stage_names (add_stage n s ps) n' = None
      \<and> ps_stage_ids (add_stage n s ps) s' = None"
    using Cons.prems(1,2,3) ns by (force simp: add_stage_def)
  ultimately show ?case using Cons.IH [of "add_stage n s ps"] Cons.prems(1,2) ns by simp
qed simp

section \<open>Walking through the stages\<close>

definition scheme_stages :: "string list \<Rightarrow> (stage_id \<times> string) list" where
  "scheme_stages names = zip (map word_of_nat [0..<length names]) names"

lemma word_of_nat_inj: "i < 2 ^ 64 \<Longrightarrow> j < 2 ^ 64 \<Longrightarrow> (word_of_nat i :: stage_id) = word_of_nat j \<longleftrightarrow> i = j"
  by (simp add: word_of_nat_eq_iff take_bit_nat_eq_self)

lemma scheme_stages_distinct:
  assumes "length names < 2 ^ 64"
  shows "distinct (map fst (scheme_stages names))"
  using assms
  by (auto simp: scheme_stages_def distinct_map inj_on_def word_of_nat_inj)

lemma scheme_stages_nth:
  "i < length names \<Longrightarrow> (word_of_nat i, names ! i) \<in> set (scheme_stages names)"
  by (force simp: scheme_stages_def set_zip)

text \<open>
  After a scheme has registered its stages under the numbers 0, 1, ..., choosing a stage by its
  name or by its number arrives at the same state, and the name read as the next stage is the name
  of the stage after it, so that a scheme that keeps setting the stage to the next one visits its
  stages in order; behind the last one the read throws.
\<close>

lemma sequence_walk:
  assumes "distinct names" and "length names < 2 ^ 64" and "i < length names"
    and "ps = put_all add_stage (scheme_stages names) sequence_new"
  shows "set_stage_id (word_of_nat i) ps = (Inr (), set_stage_name (names ! i) ps)
     \<and> sequence_ok (set_stage_name (names ! i) ps)
     \<and> stage_name_of (current_stage (set_stage_name (names ! i) ps) + 1) (set_stage_name (names ! i) ps) =
         (if Suc i < length names then Inr (names ! Suc i) else Inl (InvalidStage (unat (word_of_nat (Suc i) :: stage_id))))"
proof -
  let ?nss = "scheme_stages names"
  have d1: "distinct (map fst ?nss)" by (rule scheme_stages_distinct [OF assms(2)])
  have snds: "map snd ?nss = names" by (simp add: scheme_stages_def)
  have by_id: "ps_stage_names ps (word_of_nat j) = Some (names ! j)" if "j < length names" for j
    unfolding assms(4) by (rule stages_by_id.get_put_all_distinct [OF d1 scheme_stages_nth [OF that]])
  have tables: "tables_ok ps"
    unfolding assms(4)
    by (rule add_stages_ok [OF d1])
       (auto simp: snds assms(1) sequence_new_def tables_ok_def)
  have by_name: "ps_stage_ids ps (names ! i) = Some (word_of_nat i)"
    using by_id [OF assms(3)] tables by (simp add: tables_ok_def)
  have beyond: "ps_stage_names ps (word_of_nat (length names)) = None"
  proof -
    have "(word_of_nat (length names) :: stage_id) \<notin> fst ` set ?nss"
      using assms(2) by (auto simp: scheme_stages_def set_zip word_of_nat_inj)
    then show ?thesis unfolding assms(4)
      by (simp add: stages_by_id.get_put_all_other sequence_new_def)
  qed
  have nxt: "ps_stage_names ps (word_of_nat i + 1) =
      (if Suc i < length names then Some (names ! Suc i) else None)"
  proof (cases "Suc i < length names")
    case True
    then show ?thesis using by_id [of "Suc i"] by (simp add: add.commute)
  next
    case False
    then have "length names = Suc i" using assms(3) by simp
    then show ?thesis using beyond by (simp add: add.commute)
  qed
  have "sequence_ok (set_stage_name (names ! i) ps)"
    using tables by_name by (auto simp: sequence_ok_def tables_ok_def set_stage_name_def)
  then show ?thesis
    using by_id [OF assms(3)] by_name nxt
    by (simp add: set_stage_id_def set_stage_name_def stage_name_of_def current_stage_def add.commute)
qed

lemma sequence_walk_example:
  "\<exists>ps. ps = put_all add_stage (scheme_stages [''init'', ''check'', ''pay'']) sequence_new
     \<and> set_stage_id 1 ps = (Inr (), set_stage_name ''check'' ps)
     \<and> stage_name_of (current_stage (set_stage_name ''check'' ps) + 1) (set_stage_name ''check'' ps) = Inr ''pay''"
  using sequence_walk [of "[''init'', ''check'', ''pay'']" 1] by simp

text \<open>
  Setting a name that is not registered changes the name but keeps the number, so the next stage is
  the one after the stage visited before.
\<close>

lemma set_unregistered_keeps_number:
  "ps_stage_ids ps s = None \<Longrightarrow>
     current_stage (set_stage_name s ps) = current_stage ps \<and> stage_name (set_stage_name s ps) = s"
  by (simp add: set_stage_name_def current_stage_def stage_name_def)

text \<open>
  Registering a second name under a number leaves the first name in the table of names: the two
  tables then disagree.
\<close>

lemma add_stage_renumber:
  "\<not> tables_ok (add_stage 0 ''b'' (add_stage 0 ''a'' sequence_new))"
  by (auto simp: tables_ok_def add_stage_def sequence_new_def intro: exI [of _ 0] exI [of _ "''a''"])

end
