(* ===== verification/Cyrillic_Tables.thy ===== *)
theory Cyrillic_Tables
  imports Upgm_Prelude
begin

text \<open>
  The conversions between the two Cyrillic encodings: the one of the hook \<open>var\<close>
  (\<open>cp1251tokoi8r\<close> in \<open>src/common_hooks.cpp\<close>) and the two of the payment server
  (\<open>WIN1251TOKOI8R\<close>, \<open>KOI8RTOWIN1251\<close> in \<open>legacy/payguide/src/core.cpp\<close>). Both programs search a
  table for the character; the tables list the letters in different orders.
\<close>

section \<open>Tables\<close>

text \<open>The bytes of the string literals, as they stand in the sources.\<close>

definition hook_win1251 :: string where
  "hook_win1251 =
     [CHR 0xCA, CHR 0xC3, CHR 0xD5, CHR 0xCB, CHR 0xC5, CHR 0xCE, CHR 0xC7, CHR 0xDB,
      CHR 0xDD, CHR 0xDA, CHR 0xC8, CHR 0xDF, CHR 0xC6, CHR 0xD9, CHR 0xD7, CHR 0xC1,
      CHR 0xD0, CHR 0xD2, CHR 0xCF, CHR 0xCC, CHR 0xC4, CHR 0xD6, CHR 0xDC, CHR 0xD1,
      CHR 0xDE, CHR 0xD3, CHR 0xCD, CHR 0xC9, CHR 0xD4, CHR 0xD8, CHR 0xC2, CHR 0xC0,
      CHR 0xEA, CHR 0xE3, CHR 0xF5, CHR 0xEB, CHR 0xE5, CHR 0xEE, CHR 0xE7, CHR 0xFB,
      CHR 0xFD, CHR 0xFA, CHR 0xE8, CHR 0xFF, CHR 0xE6, CHR 0xF9, CHR 0xF7, CHR 0xE1,
      CHR 0xF0, CHR 0xF2, CHR 0xEF, CHR 0xEC, CHR 0xE4, CHR 0xF6, CHR 0xFC, CHR 0xF1,
      CHR 0xFE, CHR 0xF3, CHR 0xED, CHR 0xE9, CHR 0xF4, CHR 0xF8, CHR 0xE2, CHR 0xE0]"

definition hook_koi8r :: string where
  "hook_koi8r =
     [CHR 0xEB, CHR 0xE7, CHR 0xE8, CHR 0xEC, CHR 0xE5, CHR 0xEF, CHR 0xFA, CHR 0xF9,
      CHR 0xFC, CHR 0xFF, CHR 0xE9, CHR 0xF1, CHR 0xF6, CHR 0xFD, CHR 0xFE, CHR 0xE2,
      CHR 0xF2, CHR 0xF4, CHR 0xF0, CHR 0xED, CHR 0xE4, CHR 0xE3, CHR 0xF8, CHR 0xF3,
      CHR 0xE0, CHR 0xF5, CHR 0xEE, CHR 0xEA, CHR 0xE6, CHR 0xFB, CHR 0xF7, CHR 0xE1,
      CHR 0xCB, CHR 0xC7, CHR 0xC8, CHR 0xCC, CHR 0xC5, CHR 0xCF, CHR 0xDA, CHR 0xD9,
      CHR 0xDC, CHR 0xDF, CHR 0xC9, CHR 0xD1, CHR 0xD6, CHR 0xDD, CHR 0xDE, CHR 0xC2,
      CHR 0xD2, CHR 0xD4, CHR 0xD0, CHR 0xCD, CHR 0xC4, CHR 0xC3, CHR 0xD8, CHR 0xD3,
      CHR 0xC0, CHR 0xD5, CHR 0xCE, CHR 0xCA, CHR 0xC6, CHR 0xDB, CHR 0xD7, CHR 0xC1]"

definition core_win1251 :: string where
  "core_win1251 =
     [CHR 0xE9, CHR 0xF6, CHR 0xF3, CHR 0xEA, CHR 0xE5, CHR 0xED, CHR 0xE3, CHR 0xF8,
      CHR 0xF9, CHR 0xE7, CHR 0xF5, CHR 0xFA, CHR 0xF4, CHR 0xFB, CHR 0xE2, CHR 0xE0,
      CHR 0xEF, CHR 0xF0, CHR 0xEE, CHR 0xEB, CHR 0xE4, CHR 0xE6, CHR 0xFD, CHR 0xFF,
      CHR 0xF7, CHR 0xF1, CHR 0xEC, CHR 0xE8, CHR 0xF2, CHR 0xFC, CHR 0xE1, CHR 0xFE,
      CHR 0xC9, CHR 0xD6, CHR 0xD3, CHR 0xCA, CHR 0xC5, CHR 0xCD, CHR 0xC3, CHR 0xD8,
      CHR 0xD9, CHR 0xC7, CHR 0xD5, CHR 0xDA, CHR 0xD4, CHR 0xDB, CHR 0xC2, CHR 0xC0,
      CHR 0xCF, CHR 0xD0, CHR 0xCE, CHR 0xCB, CHR 0xC4, CHR 0xC6, CHR 0xDD, CHR 0xDF,
      CHR 0xD7, CHR 0xD1, CHR 0xCC, CHR 0xC8, CHR 0xD2, CHR 0xDC, CHR 0xC1, CHR 0xDE]"

definition core_koi8r :: string where
  "core_koi8r =
     [CHR 0xCA, CHR 0xC3, CHR 0xD5, CHR 0xCB, CHR 0xC5, CHR 0xCE, CHR 0xC7, CHR 0xDB,
      CHR 0xDD, CHR 0xDA, CHR 0xC8, CHR 0xDF, CHR 0xC6, CHR 0xD9, CHR 0xD7, CHR 0xC1,
      CHR 0xD0, CHR 0xD2, CHR 0xCF, CHR 0xCC, CHR 0xC4, CHR 0xD6, CHR 0xDC, CHR 0xD1,
      CHR 0xDE, CHR 0xD3, CHR 0xCD, CHR 0xC9, CHR 0xD4, CHR 0xD8, CHR 0xC2, CHR 0xC0,
      CHR 0xEA, CHR 0xE3, CHR 0xF5, CHR 0xEB, CHR 0xE5, CHR 0xEE, CHR 0xE7, CHR 0xFB,
      CHR 0xFD, CHR 0xFA, CHR 0xE8, CHR 0xFF, CHR 0xE6, CHR 0xF9, CHR 0xF7, CHR 0xE1,
      CHR 0xF0, CHR 0xF2, CHR 0xEF, CHR 0xEC, CHR 0xE4, CHR 0xF6, CHR 0xFC, CHR 0xF1,
      CHR 0xFE, CHR 0xF3, CHR 0xED, CHR 0xE9, CHR 0xF4, CHR 0xF8, CHR 0xE2, CHR 0xE0]"

section \<open>Conversions\<close>

text \<open>
  The search of a character: the entry of the second table at the first position where the first
  table has the character.
\<close>

fun table_find :: "string \<Rightarrow> string \<Rightarrow> char \<Rightarrow> char option" where
  "table_find (f # fs) (t # ts) c = (if c = f then Some t else table_find fs ts c)"
| "table_find _ _ c = None"

definition convert_char :: "string \<Rightarrow> string \<Rightarrow> char \<Rightarrow> char" where
  "convert_char fs ts c = (case table_find fs ts c of Some t \<Rightarrow> t | None \<Rightarrow> c)"

text \<open>
  The hook takes \<open>sizeof\<close> for the length of its tables, so the null byte at the end of the
  literals belongs to them.
\<close>

definition cp1251tokoi8r :: "string \<Rightarrow> string" where
  "cp1251tokoi8r s = map (convert_char (hook_win1251 @ [CHR 0x00]) (hook_koi8r @ [CHR 0x00])) s"

text \<open>
  The functions of the server write into a buffer of the given size: they return \<open>-1\<close> for a null
  pointer or when text and null byte do not fit, and \<open>0\<close> with the text converted otherwise. A
  text is the characters before its null byte.
\<close>

definition win1251_to_koi8r :: "string option \<Rightarrow> nat \<Rightarrow> string option" where
  "win1251_to_koi8r msg buff_size =
     (case msg of
        None \<Rightarrow> None
      | Some s \<Rightarrow> if buff_size < length s + 1 then None
                  else Some (map (convert_char core_win1251 core_koi8r) s))"

definition win1251_to_koi8r_new :: "string option \<Rightarrow> string option" where
  "win1251_to_koi8r_new msg =
     (case msg of None \<Rightarrow> None | Some s \<Rightarrow> win1251_to_koi8r (Some s) (length s + 1))"

definition koi8r_to_win1251 :: "string option \<Rightarrow> nat \<Rightarrow> string option" where
  "koi8r_to_win1251 msg buff_size =
     (case msg of
        None \<Rightarrow> None
      | Some s \<Rightarrow> if buff_size < length s + 1 then None
                  else Some (map (convert_char core_koi8r core_win1251) s))"

definition koi8r_to_win1251_new :: "string option \<Rightarrow> string option" where
  "koi8r_to_win1251_new msg =
     (case msg of None \<Rightarrow> None | Some s \<Rightarrow> koi8r_to_win1251 (Some s) (length s + 1))"

section \<open>Tables that are permutations of each other\<close>

lemma table_find_map_of: "length fs = length ts \<Longrightarrow> table_find fs ts c = map_of (zip fs ts) c"
  by (induction fs ts c rule: table_find.induct) auto

lemma convert_char_map_of:
  "length fs = length ts \<Longrightarrow>
     convert_char fs ts c = (case map_of (zip fs ts) c of Some t \<Rightarrow> t | None \<Rightarrow> c)"
  by (simp add: convert_char_def table_find_map_of)

lemma convert_char_inverse:
  assumes "length fs = length ts" and "distinct fs" and "distinct ts" and "set fs = set ts"
  shows "convert_char ts fs (convert_char fs ts c) = c"
proof (cases "c \<in> set fs")
  case True
  then obtain i where i: "i < length fs" "c = fs ! i" by (auto simp: in_set_conv_nth)
  have "map_of (zip fs ts) (fs ! i) = Some (ts ! i)" and "map_of (zip ts fs) (ts ! i) = Some (fs ! i)"
    using i assms by (auto simp: map_of_zip_nth)
  with i assms(1) show ?thesis by (simp add: convert_char_map_of)
next
  case False
  have "convert_char fs ts c = c"
    using False assms(1) by (simp add: convert_char_map_of split: option.split) (metis map_of_zip_is_None option.distinct(1))
  moreover have "convert_char ts fs c = c"
    using False assms(1,4) by (simp add: convert_char_map_of split: option.split) (metis map_of_zip_is_None option.distinct(1))
  ultimately show ?thesis by simp
qed

lemma convert_char_same_pairs:
  assumes "length fs = length ts" and "length fs' = length ts'" and "distinct fs" and "distinct fs'"
    and "set (zip fs ts) = set (zip fs' ts')"
  shows "convert_char fs ts c = convert_char fs' ts' c"
proof -
  have "map_of (zip fs ts) = map_of (zip fs' ts')"
    using assms map_of_inject_set [of "zip fs ts" "zip fs' ts'"] by simp
  then show ?thesis using assms(1,2) by (simp add: convert_char_map_of)
qed

lemma core_tables:
  "length core_win1251 = length core_koi8r" "distinct core_win1251" "distinct core_koi8r"
  "set core_win1251 = set core_koi8r"
  by code_simp+

lemma hook_tables:
  "length (hook_win1251 @ [CHR 0x00]) = length (hook_koi8r @ [CHR 0x00])"
  "distinct (hook_win1251 @ [CHR 0x00])"
  by code_simp+

lemma hook_core_same_pairs:
  "set (zip (hook_win1251 @ [CHR 0x00]) (hook_koi8r @ [CHR 0x00])) =
     set (zip (core_win1251 @ [CHR 0x00]) (core_koi8r @ [CHR 0x00]))"
  by code_simp

lemma core_tables_null:
  "length (core_win1251 @ [CHR 0x00]) = length (core_koi8r @ [CHR 0x00])"
  "distinct (core_win1251 @ [CHR 0x00])" "CHR 0x00 \<notin> set core_win1251"
  by code_simp+

lemma table_find_null:
  "length fs = length ts \<Longrightarrow> table_find (fs @ [n]) (ts @ [n]) c =
     (case table_find fs ts c of Some t \<Rightarrow> Some t | None \<Rightarrow> if c = n then Some n else None)"
  by (induction fs ts c rule: table_find.induct) auto

lemma convert_char_null:
  "length fs = length ts \<Longrightarrow> convert_char (fs @ [n]) (ts @ [n]) c = convert_char fs ts c"
  by (simp add: convert_char_def table_find_null split: option.split)

lemma hook_core_convert:
  "convert_char (hook_win1251 @ [CHR 0x00]) (hook_koi8r @ [CHR 0x00]) c =
     convert_char core_win1251 core_koi8r c"
  using convert_char_same_pairs [OF hook_tables(1) core_tables_null(1) hook_tables(2) core_tables_null(2)
      hook_core_same_pairs]
  by (simp add: convert_char_null core_tables(1))

text \<open>
  Converting a text from Windows-1251 to KOI8-R and back, into buffers that are large enough,
  gives the text again, and so does the other way round: no letter is lost or merged.
\<close>

lemma cyrillic_round_trip:
  assumes "length s < buff_size"
  shows "(\<exists>k. win1251_to_koi8r (Some s) buff_size = Some k \<and> koi8r_to_win1251 (Some k) buff_size = Some s)
     \<and> (\<exists>w. koi8r_to_win1251 (Some s) buff_size = Some w \<and> win1251_to_koi8r (Some w) buff_size = Some s)"
  using assms core_tables
  by (simp_all add: win1251_to_koi8r_def koi8r_to_win1251_def convert_char_inverse o_def)

text \<open>
  The conversion of the hook and the conversion of the payment server, although their tables
  are written in different orders, are the same function.
\<close>

lemma hook_conversion_is_server_conversion:
  "win1251_to_koi8r_new (Some s) = Some (cp1251tokoi8r s)"
  by (simp add: win1251_to_koi8r_new_def win1251_to_koi8r_def cp1251tokoi8r_def hook_core_convert)

lemma cyrillic_round_trip_example:
  "\<exists>k. win1251_to_koi8r (Some [CHR 0xC0, CHR ''a'']) 3 = Some k
     \<and> koi8r_to_win1251 (Some k) 3 = Some [CHR 0xC0, CHR ''a'']"
  using cyrillic_round_trip [of "[CHR 0xC0, CHR ''a'']" 3] by simp

end
