(* ===== verification/Common_Hooks.thy ===== *)
theory Common_Hooks
  imports Template_Engine Config_Parser Payment_Model Payment_Sequence Cyrillic_Tables
begin

text \<open>
  The hooks a scheme reads and writes (\<open>include/hook.hpp\<close>, \<open>include/common_hooks.hpp\<close>,
  \<open>src/common_hooks.cpp\<close>, and the hook the module \<open>webmoney\<close> adds). Each hook has parameters, a
  state of its own and the two operations \<open>read\<close> and \<open>write\<close>; some also work on objects shared
  with the engine: the payment, the sequence of stages, the transport, the parser, the database.
  The hook \<open>config\<close>, which works on the other hooks, is in \<open>Upgm_Engine\<close>.
\<close>

section \<open>What the hooks use\<close>

text \<open>
  The classes behind the abstract interfaces \<open>Db\<close>, \<open>Transport\<close> and \<open>Parser\<close> and the parts of the
  operating system, as operations on a state \<open>'w\<close> of the outside world. \<open>sv_null_format\<close> is what
  \<open>asString<size_t>\<close> returns: no format is declared for that type, so \<open>snprintf\<close> is called with a
  null pointer for its format and the C standard says nothing about the result.
\<close>

type_synonym db_row = "string \<Rightarrow> string option"

record 'w services =
  sv_db_connect :: "string \<Rightarrow> int \<Rightarrow> string \<Rightarrow> string \<Rightarrow> string \<Rightarrow> ('w, unit) prog"
  sv_db_request :: "string \<Rightarrow> ('w, db_row list) prog"
  sv_db_escape :: "string \<Rightarrow> ('w, string) prog"
  sv_transport_write :: "data_tree \<Rightarrow> string \<Rightarrow> ('w, unit) prog"
  sv_transport_read :: "('w, data_tree \<times> string) prog"
  sv_parse :: "string \<Rightarrow> ('w, data_tree) prog"
  sv_file_open :: "string \<Rightarrow> 'w \<Rightarrow> bool \<times> 'w"
  sv_file_write :: "string \<Rightarrow> string \<Rightarrow> ('w, unit) prog"
  sv_file_read :: "string \<Rightarrow> 'w \<Rightarrow> string \<times> 'w"
  sv_log_write :: "string \<Rightarrow> string \<Rightarrow> 'w \<Rightarrow> 'w"
  sv_stderr :: "string \<Rightarrow> 'w \<Rightarrow> 'w"
  sv_sign :: "string \<Rightarrow> string \<Rightarrow> string \<Rightarrow> string \<Rightarrow> 'w \<Rightarrow> (string + int) \<times> 'w"
  sv_null_format :: "nat \<Rightarrow> string"
  sv_out_of_range :: string

text \<open>The objects a hook shares with the engine.\<close>

record 'w shared =
  sh_payment :: payment
  sh_sequence :: payment_sequence
  sh_transport_config :: data_tree
  sh_log :: "string option"
  sh_world :: 'w

definition on_world :: "('w, 'a) prog \<Rightarrow> ('w shared, 'a) prog" where
  "on_world p sh = (case p (sh_world sh) of (r, w) \<Rightarrow> (r, sh\<lparr>sh_world := w\<rparr>))"

text \<open>What \<open>what()\<close> of an exception returns.\<close>

definition exn_what :: "'w services \<Rightarrow> exn \<Rightarrow> string" where
  "exn_what svc e =
     (case e of
        RuntimeError s \<Rightarrow> s
      | InvalidArgument s \<Rightarrow> ''Invalid argument ('' @ s @ '')''
      | InvalidStage n \<Rightarrow> ''Invalid argument (stage '' @ sv_null_format svc n @ '' not found)''
      | NoSuchValue s \<Rightarrow> ''No such value - '' @ s
      | NotAVariable s \<Rightarrow> s @ '' is not a valid variable name''
      | HookUndef s \<Rightarrow> ''Variable '' @ s @ '' not defined''
      | DbException s \<Rightarrow> s
      | MysqlError s \<Rightarrow> s
      | MysqlConnectionFailed s \<Rightarrow> s
      | OutOfRange \<Rightarrow> sv_out_of_range svc
      | LibraryError s \<Rightarrow> s
      | ForeignError \<Rightarrow> [])"

section \<open>Guards on paths\<close>

definition path_must_be_lesser_than :: "nat \<Rightarrow> path \<Rightarrow> unit res" where
  "path_must_be_lesser_than n path =
     (if n \<le> length path then Inl (InvalidArgument ''path is too big'') else Inr ())"

definition path_must_be_greater_than :: "nat \<Rightarrow> path \<Rightarrow> unit res" where
  "path_must_be_greater_than n path =
     (if length path \<le> n then Inl (InvalidArgument ''path is too short'') else Inr ())"

definition path_must_be_equal_to :: "'w services \<Rightarrow> nat \<Rightarrow> path \<Rightarrow> unit res" where
  "path_must_be_equal_to svc n path =
     (if length path \<noteq> n
      then Inl (InvalidArgument (''path must be equal to '' @ sv_null_format svc n)) else Inr ())"

definition path_must_be_empty :: "path \<Rightarrow> unit res" where
  "path_must_be_empty path =
     (if path \<noteq> [] then Inl (InvalidArgument ''path must be empty'') else Inr ())"

lemmas guard_defs = path_must_be_lesser_than_def path_must_be_greater_than_def
  path_must_be_equal_to_def path_must_be_empty_def

section \<open>The hooks without shared state\<close>

subsection \<open>Variables\<close>

definition var_hook_read :: "path \<Rightarrow> data_tree \<Rightarrow> string res" where
  "var_hook_read path d = dt_lookup path d"

definition var_hook_write :: "path \<Rightarrow> string \<Rightarrow> (data_tree, unit) prog" where
  "var_hook_write path v d =
     (if length path = 1 then (Inr (), dt_set_path path v d)
      else if 1 < length path \<and> path ! 1 = ''cp1251'' then
        (Inr (), dt_set (path ! 0) (cp1251tokoi8r v) d)
      else (Inl (InvalidArgument (''Invalid var usage. Supported operation: var.name=xxx ''
              @ ''var.name.cp1251=xxx var.name.append=xxx'')), d))"

subsection \<open>Templates\<close>

type_synonym templates = "string \<Rightarrow> template option"

definition template_of :: "string \<Rightarrow> templates \<Rightarrow> template" where
  "template_of name ts = (case ts name of None \<Rightarrow> template_new | Some t \<Rightarrow> t)"

definition template_hook_read :: "'w services \<Rightarrow> path \<Rightarrow> (templates, string) prog" where
  "template_hook_read svc path =
     seqp (liftp (path_must_be_equal_to svc 1 path))
       (\<lambda>ts. case template_evaluate (template_of (path ! 0) ts) of
          (r, t) \<Rightarrow> (r, ts(path ! 0 \<mapsto> t)))"

definition template_hook_write :: "path \<Rightarrow> string \<Rightarrow> (templates, unit) prog" where
  "template_hook_write path v =
     seqp (liftp (path_must_be_greater_than 0 path))
       (seqp (liftp (path_must_be_lesser_than 3 path))
         (\<lambda>ts. let name = path ! 0; t = template_of name ts in
            if length path = 1 then
              (case template_set_template v t of
                 Inl e \<Rightarrow> (Inl e, ts(name \<mapsto> t))
               | Inr t' \<Rightarrow> (Inr (), ts(name \<mapsto> t')))
            else (Inr (), ts(name \<mapsto> template_set (path ! 1) v t))))"

subsection \<open>Requests\<close>

record request_hook =
  rh_template :: template
  rh_arg :: "string \<Rightarrow> string option"

definition request_hook_new :: request_hook where
  "request_hook_new = \<lparr>rh_template = template_new, rh_arg = Map.empty\<rparr>"

definition request_hook_read :: "path \<Rightarrow> request_hook \<Rightarrow> string res" where
  "request_hook_read path h =
     bindr (path_must_be_empty path) (\<lambda>_. template_evaluate_with (rh_arg h) (rh_template h))"

definition request_hook_write :: "path \<Rightarrow> string \<Rightarrow> (request_hook, unit) prog" where
  "request_hook_write path v =
     seqp (liftp (path_must_be_lesser_than 2 path))
       (\<lambda>h. if path = [] then
          (case template_set_template v (rh_template h) of
             Inl e \<Rightarrow> (Inl e, h\<lparr>rh_arg := Map.empty\<rparr>)
           | Inr t \<Rightarrow> (Inr (), h\<lparr>rh_template := t, rh_arg := Map.empty\<rparr>))
        else (Inr (), h\<lparr>rh_arg := (rh_arg h)(path ! 0 \<mapsto> v)\<rparr>))"

subsection \<open>Answer codes\<close>

record code_hook =
  ch_codes :: config
  ch_data :: data_tree

definition code_hook_new :: "config \<Rightarrow> code_hook" where
  "code_hook_new codes = \<lparr>ch_codes = codes, ch_data = dt_empty\<rparr>"

definition code_populate :: "config_section \<Rightarrow> data_tree \<Rightarrow> data_tree" where
  "code_populate sec tree = put_all dt_set (map (\<lambda>(name, v). (name, cv_value v)) sec) tree"

definition code_hook_read :: "path \<Rightarrow> code_hook \<Rightarrow> string res" where
  "code_hook_read path h = dt_lookup path (ch_data h)"

definition code_hook_write :: "path \<Rightarrow> string \<Rightarrow> (code_hook, unit) prog" where
  "code_hook_write path v =
     seqp (liftp (path_must_be_empty path))
       (\<lambda>h. case config_get_section (ch_codes h) v of
          Inr sec \<Rightarrow> (Inr (), h\<lparr>ch_data := code_populate sec dt_empty\<rparr>)
        | Inl _ \<Rightarrow>
            (case config_get_section (ch_codes h) ''default'' of
               Inr sec \<Rightarrow> (Inr (), h\<lparr>ch_data := code_populate sec dt_empty\<rparr>)
             | Inl (NoSuchValue _) \<Rightarrow>
                 (Inl (RuntimeError (''Unknow error code - '' @ as_string_int (atoi v)
                    @ '' (and no default section); define it in codes.cfg'')), h)
             | Inl e \<Rightarrow> (Inl e, h)))"

section \<open>The hooks with shared state\<close>

subsection \<open>Log files and terminal output\<close>

record log_hook =
  lh_filename :: template
  lh_record :: template

definition log_hook_new :: log_hook where
  "log_hook_new = \<lparr>lh_filename = template_new, lh_record = template_new\<rparr>"

definition log_hook_read :: "path \<Rightarrow> (log_hook, string) prog" where
  "log_hook_read path h =
     (if path \<noteq> [] \<and> path ! 0 = ''record'' then
        (case template_evaluate (lh_record h) of (r, t) \<Rightarrow> (r, h\<lparr>lh_record := t\<rparr>))
      else (Inl (InvalidArgument ''Use log.write=$log.record''), h))"

definition log_hook_file :: "path \<Rightarrow> string \<Rightarrow> (log_hook, unit) prog" where
  "log_hook_file path v h =
     (if length path = 1 then
        (case template_from v of
           Inl e \<Rightarrow> (Inl e, h) | Inr t \<Rightarrow> (Inr (), h\<lparr>lh_filename := t\<rparr>))
      else if length path = 2 then
        (Inr (), h\<lparr>lh_filename := template_set (path ! 1) v (lh_filename h)\<rparr>)
      else (Inl (InvalidArgument ''Usage: log.file=template or log.file.N=value''), h))"

definition log_hook_record :: "path \<Rightarrow> string \<Rightarrow> (log_hook, unit) prog" where
  "log_hook_record path v h =
     (if length path = 1 then
        (case template_from v of
           Inl e \<Rightarrow> (Inl e, h) | Inr t \<Rightarrow> (Inr (), h\<lparr>lh_record := t\<rparr>))
      else if length path = 2 then
        (Inr (), h\<lparr>lh_record := template_set (path ! 1) v (lh_record h)\<rparr>)
      else (Inl (InvalidArgument ''Usage: log.record=template or log.record.N=value''), h))"

text \<open>Open the file for appending, write, close; what the write throws is wrapped.\<close>

definition log_file_append :: "'w services \<Rightarrow> string \<Rightarrow> string \<Rightarrow> ('w, unit) prog" where
  "log_file_append svc file data w =
     (case sv_file_open svc (c_str file) w of
        (False, w1) \<Rightarrow>
          (Inl (InvalidArgument (''Can'' @ [CHR 0x27] @ ''t open log file '' @ [CHR 0x22] @ file @ [CHR 0x22])), w1)
      | (True, w1) \<Rightarrow>
          catchp (sv_file_write svc (c_str file) data)
            (\<lambda>e. throwp (InvalidArgument
               (if is_std_exception e then ''Failed to write logfile ('' @ exn_what svc e @ '')''
                else ''Failed to write logfile (unknown error)''))) w1)"

definition log_hook_write ::
  "'w services \<Rightarrow> path \<Rightarrow> string \<Rightarrow> (log_hook \<times> 'w, unit) prog" where
  "log_hook_write svc path v hw =
     (case hw of (h, w) \<Rightarrow>
        if path = [] then (Inr (), hw)
        else if path ! 0 = ''file'' then (case log_hook_file path v h of (r, h1) \<Rightarrow> (r, (h1, w)))
        else if path ! 0 = ''record'' then (case log_hook_record path v h of (r, h1) \<Rightarrow> (r, (h1, w)))
        else if path ! 0 = ''write'' then
          (case template_evaluate (lh_filename h) of
             (Inl e, t) \<Rightarrow> (Inl e, (h\<lparr>lh_filename := t\<rparr>, w))
           | (Inr file, t) \<Rightarrow>
               (case log_file_append svc file v w of (r, w1) \<Rightarrow> (r, (h\<lparr>lh_filename := t\<rparr>, w1))))
        else (Inl (InvalidArgument ''Supported actions: log.file log.record log.write''), hw))"

definition print_hook_read :: "path \<Rightarrow> string res" where
  "print_hook_read path = Inl (InvalidArgument ''print hook invalid usage'')"

definition print_hook_write :: "'w services \<Rightarrow> path \<Rightarrow> string \<Rightarrow> ('w, unit) prog" where
  "print_hook_write svc path v =
     seqp (liftp (path_must_be_empty path))
       (modifyp (sv_stderr svc ('' * ['' @ c_str v @ '']'' @ [CHR 0x0A])))"

subsection \<open>The database\<close>

record db_hook =
  dh_data :: "db_row list"
  dh_template :: template
  dh_arg :: "string \<Rightarrow> string option"

definition db_hook_new :: db_hook where
  "db_hook_new = \<lparr>dh_data = [], dh_template = template_new, dh_arg = Map.empty\<rparr>"

type_synonym params = "string \<Rightarrow> string option"

definition hook_param :: "string \<Rightarrow> params \<Rightarrow> string res" where
  "hook_param name ps =
     (case ps name of
        Some v \<Rightarrow> Inr v | None \<Rightarrow> Inl (RuntimeError (''param '' @ name @ '' undeclared'')))"

text \<open>
  Reading a field of the first row through \<open>operator[]\<close> adds an empty field when there is none.
\<close>

definition db_hook_read :: "path \<Rightarrow> (db_hook, string) prog" where
  "db_hook_read path h =
     (if length path = 2 \<and> path ! 0 = ''field'' then
        (case dh_data h of
           [] \<Rightarrow> (Inl OutOfRange, h)
         | row # rows \<Rightarrow>
             (case row (path ! 1) of
                Some v \<Rightarrow> (Inr v, h)
              | None \<Rightarrow> (Inr [], h\<lparr>dh_data := row(path ! 1 \<mapsto> []) # rows\<rparr>)))
      else if length path = 1 \<and> path ! 0 = ''sql'' then
        (template_evaluate_with (dh_arg h) (dh_template h), h)
      else (Inl (InvalidArgument ''db hook invalid read''), h))"

text \<open>
  The parameters are the arguments of one call, read in an order the language leaves open; the
  model reads them in the order written, which only decides which missing one is reported.
\<close>

definition db_hook_connect :: "'w services \<Rightarrow> params \<Rightarrow> ('w, unit) prog" where
  "db_hook_connect svc ps =
     bindp (liftp (hook_param ''host'' ps)) (\<lambda>host.
     bindp (liftp (hook_param ''port'' ps)) (\<lambda>port.
     bindp (liftp (hook_param ''database'' ps)) (\<lambda>database.
     bindp (liftp (hook_param ''username'' ps)) (\<lambda>username.
     bindp (liftp (hook_param ''password'' ps)) (\<lambda>password.
       sv_db_connect svc host (atoi (c_str port) mod 2 ^ 32) database username password)))))"

definition db_hook_write ::
  "'w services \<Rightarrow> params \<Rightarrow> path \<Rightarrow> string \<Rightarrow> (db_hook \<times> 'w, unit) prog" where
  "db_hook_write svc ps path v hw =
     (case hw of (h, w) \<Rightarrow>
        if length path = 1 \<and> path ! 0 = ''execute'' then
          (case bindp (db_hook_connect svc ps) (\<lambda>_. sv_db_request svc v) w of
             (Inl e, w1) \<Rightarrow> (Inl e, (h, w1))
           | (Inr rows, w1) \<Rightarrow> (Inr (), (h\<lparr>dh_data := rows\<rparr>, w1)))
        else if length path = 1 \<and> path ! 0 = ''sql'' then
          (case template_set_template v (dh_template h) of
             Inl e \<Rightarrow> (Inl e, (h\<lparr>dh_arg := Map.empty\<rparr>, w))
           | Inr t \<Rightarrow> (Inr (), (h\<lparr>dh_template := t, dh_arg := Map.empty\<rparr>, w)))
        else if length path = 2 \<and> path ! 0 = ''sql'' then
          (case bindp (db_hook_connect svc ps) (\<lambda>_. sv_db_escape svc v) w of
             (Inl e, w1) \<Rightarrow> (Inl e, (h, w1))
           | (Inr x, w1) \<Rightarrow> (Inr (), (h\<lparr>dh_arg := (dh_arg h)(path ! 1 \<mapsto> x)\<rparr>, w1)))
        else if length path = 3 \<and> path ! 0 = ''sql'' \<and> path ! 2 = ''raw'' then
          (Inr (), (h\<lparr>dh_arg := (dh_arg h)(path ! 1 \<mapsto> v)\<rparr>, w))
        else (Inl (InvalidArgument ''db hook invalid write''), hw))"

subsection \<open>The transport\<close>

text \<open>
  The base class \<open>Transport\<close> logs what it sends and receives and leaves the transfer to
  \<open>writeImpl\<close> and \<open>readImpl\<close>; the log is a file that is open or not (\<open>include/log.hpp\<close>).
\<close>

definition log_put :: "'w services \<Rightarrow> string \<Rightarrow> 'w shared \<Rightarrow> 'w shared" where
  "log_put svc data sh =
     (case sh_log sh of
        None \<Rightarrow> sh
      | Some file \<Rightarrow> sh\<lparr>sh_world := sv_log_write svc file data (sh_world sh)\<rparr>)"

definition log_setup :: "string \<Rightarrow> string \<Rightarrow> 'w shared \<Rightarrow> 'w shared" where
  "log_setup log_path payment_id sh =
     sh\<lparr>sh_log := (if 0 < length log_path then Some (log_path @ ''/'' @ payment_id @ ''.log'') else None)\<rparr>"

definition transport_configure :: "data_tree \<Rightarrow> 'w shared \<Rightarrow> 'w shared" where
  "transport_configure cfg sh = sh\<lparr>sh_transport_config := cfg\<rparr>"

definition transport_send :: "'w services \<Rightarrow> string \<Rightarrow> ('w shared, unit) prog" where
  "transport_send svc data sh =
     on_world (sv_transport_write svc (sh_transport_config sh) data)
       (log_put svc (CHR 0x0A # ''^^^'' @ [CHR 0x0A])
         (log_put svc data (log_put svc ('' >>> SEND: >>>'' @ [CHR 0x0A]) sh)))"

definition transport_receive :: "'w services \<Rightarrow> ('w shared, data_tree \<times> string) prog" where
  "transport_receive svc sh =
     (case on_world (sv_transport_read svc) sh of
        (Inl e, s1) \<Rightarrow> (Inl e, s1)
      | (Inr (tree, buffer), s1) \<Rightarrow>
          (Inr (tree, buffer),
           log_put svc (CHR 0x0A # ''^^^'' @ [CHR 0x0A])
             (log_put svc buffer (log_put svc ('' <<< RECV: <<<'' @ [CHR 0x0A]) s1))))"

record transport_hook =
  th_answer :: string
  th_net :: data_tree

definition transport_hook_new :: transport_hook where
  "transport_hook_new = \<lparr>th_answer = [], th_net = dt_empty\<rparr>"

definition transport_hook_read :: "'w services \<Rightarrow> path \<Rightarrow> transport_hook \<Rightarrow> string res" where
  "transport_hook_read svc path h =
     bindr (path_must_be_equal_to svc 1 path) (\<lambda>_.
       if path ! 0 = ''read'' then Inr (th_answer h)
       else Inl (InvalidArgument ''transport hook invalid read''))"

text \<open>
  The loop over the parameters sets a variable of a fresh tree for each of them; the tree's
  variables are then the parameters.
\<close>

definition params_tree :: "params \<Rightarrow> data_tree" where
  "params_tree ps = DataTree Map.empty ps"

definition transport_hook_write ::
  "'w services \<Rightarrow> params \<Rightarrow> path \<Rightarrow> string \<Rightarrow> (transport_hook \<times> 'w shared, unit) prog" where
  "transport_hook_write svc ps path v hs =
     (case hs of (h, sh) \<Rightarrow>
        (case path_must_be_equal_to svc 1 path of
           Inl e \<Rightarrow> (Inl e, hs)
         | Inr _ \<Rightarrow>
             if path ! 0 = ''write'' then
               (case seqp (transport_send svc v) (transport_receive svc)
                    (transport_configure (params_tree ps) sh) of
                  (Inl e, s1) \<Rightarrow> (Inl e, (h, s1))
                | (Inr (tree, answer), s1) \<Rightarrow>
                    (Inr (), (h\<lparr>th_answer := answer, th_net := tree\<rparr>, s1)))
             else (Inl (InvalidArgument (''transport hook invalid operation - '' @ path ! 0)), hs)))"

subsection \<open>The parser\<close>

definition parser_hook_read :: "path \<Rightarrow> data_tree \<Rightarrow> string res" where
  "parser_hook_read path d =
     bindr (path_must_be_greater_than 1 path) (\<lambda>_.
       if path ! 0 = ''get'' then dt_lookup (tl path) d
       else if path ! 0 = ''try_get'' then
         (case dt_lookup (tl path) d of Inl _ \<Rightarrow> Inr [] | Inr v \<Rightarrow> Inr v)
       else Inl (InvalidArgument ''parser hook invalid read''))"

definition parser_hook_write ::
  "'w services \<Rightarrow> path \<Rightarrow> string \<Rightarrow> (data_tree \<times> 'w, unit) prog" where
  "parser_hook_write svc path v dw =
     (case dw of (d, w) \<Rightarrow>
        (case path_must_be_equal_to svc 1 path of
           Inl e \<Rightarrow> (Inl e, dw)
         | Inr _ \<Rightarrow>
             if path ! 0 = ''parse'' then
               (case sv_parse svc v w of
                  (Inl e, w1) \<Rightarrow> (Inl e, (d, w1))
                | (Inr tree, w1) \<Rightarrow> (Inr (), (tree, w1)))
             else (Inl (InvalidArgument ''parser hook invalid ''), dw)))"

subsection \<open>The payment\<close>

text \<open>
  \<open>arrayFromStringWithSeparators\<close>, from a position of the data on. The argument is the data
  behind the position. With an empty separator the position never moves and the loop adds empty
  texts for ever; the model then has no value.
\<close>

partial_function (option) split_from :: "string \<Rightarrow> string \<Rightarrow> string list option" where
  "split_from sep data =
     (if data = [] then Some []
      else case find_sub sep data of
             None \<Rightarrow> Some [data]
           | Some n \<Rightarrow>
               Option.bind (split_from sep (drop (n + length sep) data))
                 (\<lambda>parts. Some (take n data # parts)))"

definition array_from_string_with_separators :: "string \<Rightarrow> string \<Rightarrow> string list option" where
  "array_from_string_with_separators data sep = split_from sep data"

record payment_hook =
  ph_data :: data_tree
  ph_parsed :: bool
  ph_pay_data :: "string list"

definition payment_hook_new :: "payment \<Rightarrow> payment_hook" where
  "payment_hook_new p = \<lparr>ph_data = generate_data_tree p, ph_parsed = False, ph_pay_data = []\<rparr>"

text \<open>The loop that never ends fills the memory: \<open>push_back\<close> throws in the end.\<close>

definition payment_hook_parse :: "params \<Rightarrow> (payment_hook, unit) prog" where
  "payment_hook_parse ps h =
     (if ph_parsed h then (Inr (), h)
      else (case bindr (dt_get ''data'' (ph_data h)) (\<lambda>data.
                 bindr (hook_param ''data_separator'' ps) (\<lambda>sep.
                   (case array_from_string_with_separators data sep of
                      None \<Rightarrow> Inl (LibraryError ''std::bad_alloc'') | Some parts \<Rightarrow> Inr parts))) of
              Inl e \<Rightarrow> (Inl e, h)
            | Inr parts \<Rightarrow> (Inr (), h\<lparr>ph_parsed := True, ph_pay_data := parts\<rparr>)))"

definition payment_hook_read :: "params \<Rightarrow> path \<Rightarrow> (payment_hook, string) prog" where
  "payment_hook_read ps path h =
     (if length path = 1 then (dt_lookup path (ph_data h), h)
      else if length path = 2 \<and> path ! 0 = ''data'' then
        seqp (payment_hook_parse ps)
          (\<lambda>h1. let i = atoi (c_str (path ! 1)) in
             (if 0 \<le> i \<and> nat i < length (ph_pay_data h1) then Inr (ph_pay_data h1 ! nat i)
              else Inl (RuntimeError (''Can'' @ [CHR 0x27] @ ''t access payment data index '' @ as_string_int i)),
              h1)) h
      else (Inl (InvalidArgument ''payment data hook invalid read''), h))"

definition payment_hook_write ::
  "'w services \<Rightarrow> path \<Rightarrow> string \<Rightarrow> (payment, unit) prog" where
  "payment_hook_write svc path v =
     seqp (liftp (path_must_be_equal_to svc 1 path))
       (\<lambda>p. if path ! 0 = ''result'' then
          (if v = ''completed'' then (Inr (), payment_completed p)
           else if v = ''sleep'' then (Inr (), payment_sleep (60 * 5) p)
           else if v = ''failed'' then (Inr (), payment_failed p)
           else (Inl (InvalidArgument (''invalid pay status - '' @ v)), p))
        else if path ! 0 = ''sleep'' then (Inr (), payment_sleep (word_of_int (atoi (c_str v))) p)
        else if path ! 0 = ''error'' then (Inr (), payment_error v p)
        else (Inl (InvalidArgument (''invalid pay operation - '' @ path ! 0)), p))"

subsection \<open>Stages\<close>

definition stage_as_int :: "string \<Rightarrow> stage_id" where
  "stage_as_int s = word_of_int (atoi (c_str s))"

definition stage_hook_read :: "path \<Rightarrow> payment_sequence \<Rightarrow> string res" where
  "stage_hook_read path ps =
     (if path = [] then Inr (stage_name ps)
      else if path ! 0 = ''next'' then stage_name_of (current_stage ps + 1) ps
      else Inl (InvalidArgument (''invalid stage read operation - '' @ path ! 0)))"

definition stage_hook_write :: "path \<Rightarrow> string \<Rightarrow> (payment_sequence, unit) prog" where
  "stage_hook_write path v ps =
     (if path = [] then (Inr (), set_stage_name v ps)
      else if length path = 2 \<and> path ! 0 = ''id'' then
        (Inr (), add_stage (stage_as_int (path ! 1)) v ps)
      else if length path = 1 \<and> path ! 0 = ''id'' then set_stage_id (stage_as_int v) ps
      else (Inr (), ps))"

subsection \<open>Signatures of the module webmoney\<close>

record sign_hook =
  gh_login :: string
  gh_password :: string
  gh_keydata :: string
  gh_to_sign :: string

definition sign_hook_new :: sign_hook where
  "sign_hook_new = \<lparr>gh_login = [], gh_password = [], gh_keydata = [], gh_to_sign = []\<rparr>"

text \<open>
  The signer gives a signature or an error code (a \<open>short\<close>); reading never throws and the error
  comes out as a text.
\<close>

definition sign_hook_read :: "'w services \<Rightarrow> path \<Rightarrow> (sign_hook \<times> 'w, string) prog" where
  "sign_hook_read svc path hw =
     (case hw of (h, w) \<Rightarrow>
        (case sv_sign svc (c_str (gh_login h)) (c_str (gh_password h)) (gh_keydata h)
             (c_str (gh_to_sign h)) w of
           (Inl signature, w1) \<Rightarrow> (Inr (strncpy 8192 signature), (h, w1))
         | (Inr error_code, w1) \<Rightarrow> (Inr (''Error '' @ show_int error_code), (h, w1))))"

definition sign_hook_write ::
  "'w services \<Rightarrow> path \<Rightarrow> string \<Rightarrow> (sign_hook \<times> 'w, unit) prog" where
  "sign_hook_write svc path v hw =
     (case hw of (h, w) \<Rightarrow>
        if length path = 1 then
          (if path ! 0 = ''keyfile'' then
             (case sv_file_read svc (c_str v) w of (data, w1) \<Rightarrow> (Inr (), (h\<lparr>gh_keydata := data\<rparr>, w1)))
           else if path ! 0 = ''login'' then (Inr (), (h\<lparr>gh_login := v\<rparr>, w))
           else if path ! 0 = ''password'' then (Inr (), (h\<lparr>gh_password := v\<rparr>, w))
           else if path ! 0 = ''data'' then (Inr (), (h\<lparr>gh_to_sign := v\<rparr>, w))
           else if path ! 0 = ''append_data'' then (Inr (), (h\<lparr>gh_to_sign := gh_to_sign h @ v\<rparr>, w))
           else (Inl (InvalidArgument
                  ''Supported operations: keyfile login password data append_data''), hw))
        else (Inl (InvalidArgument ''path size must be equal to 1''), hw))"

end
