(* ===== verification/Upgm_Engine.thy ===== *)
theory Upgm_Engine
  imports Common_Hooks
begin

text \<open>
  The engine (\<open>include/upgm.hpp\<close>, \<open>src/upgm.cpp\<close>): the table of hooks, the evaluation of the
  entries of a section of the scheme, and the loop that performs stages until the payment has a
  result. The module \<open>webmoney\<close> is the engine with one more hook.
\<close>

section \<open>Hooks and engine\<close>

datatype hook_body =
    VarHook data_tree
  | TemplateHook templates
  | MainConfigHook
  | ConfigHook
  | LogHook log_hook
  | PrintHook
  | DbHook db_hook
  | TransportHook transport_hook
  | ParserHook data_tree
  | PaymentHook payment_hook
  | CodeHook code_hook
  | RequestHook request_hook
  | StageHook
  | SignHook sign_hook

fun hook_name :: "hook_body \<Rightarrow> string" where
  "hook_name (VarHook _) = ''var''"
| "hook_name (TemplateHook _) = ''template''"
| "hook_name MainConfigHook = ''common''"
| "hook_name ConfigHook = ''config''"
| "hook_name (LogHook _) = ''log''"
| "hook_name PrintHook = ''print''"
| "hook_name (DbHook _) = ''db''"
| "hook_name (TransportHook _) = ''transport''"
| "hook_name (ParserHook _) = ''parser''"
| "hook_name (PaymentHook _) = ''pay''"
| "hook_name (CodeHook _) = ''code''"
| "hook_name (RequestHook _) = ''request''"
| "hook_name StageHook = ''stage''"
| "hook_name (SignHook _) = ''wm_signature''"

record hook =
  hk_params :: params
  hk_body :: hook_body

type_synonym hooks = "string \<Rightarrow> hook option"

record 'w engine =
  en_hooks :: hooks
  en_scheme :: config
  en_config :: config
  en_codes :: config
  en_log_path :: string
  en_shared :: "'w shared"

abbreviation en_payment :: "'w engine \<Rightarrow> payment" where
  "en_payment en \<equiv> sh_payment (en_shared en)"

abbreviation en_sequence :: "'w engine \<Rightarrow> payment_sequence" where
  "en_sequence en \<equiv> sh_sequence (en_shared en)"

definition set_param :: "string \<Rightarrow> string \<Rightarrow> hook \<Rightarrow> hook" where
  "set_param name v h = h\<lparr>hk_params := (hk_params h)(name \<mapsto> v)\<rparr>"

definition hook_configure :: "config_section \<Rightarrow> hook \<Rightarrow> hook" where
  "hook_configure sec h = put_all set_param (map (\<lambda>(name, v). (name, cv_value v)) sec) h"

interpretation hook_params: store "\<lambda>k h. hk_params h k" set_param
  by unfold_locales (simp_all add: set_param_def)

definition register_hook :: "hook_body \<Rightarrow> 'w engine \<Rightarrow> 'w engine" where
  "register_hook b en =
     (let name = hook_name b;
          h = \<lparr>hk_params = Map.empty, hk_body = b\<rparr>;
          h' = (case config_get_section (en_config en) name of
                  Inr sec \<Rightarrow> hook_configure sec h | Inl _ \<Rightarrow> h)
      in en\<lparr>en_hooks := (en_hooks en)(name \<mapsto> h')\<rparr>)"

section \<open>Reading and writing through the table of hooks\<close>

definition config_hook_read :: "'w services \<Rightarrow> path \<Rightarrow> hooks \<Rightarrow> string res" where
  "config_hook_read svc path hooks =
     bindr (path_must_be_equal_to svc 2 path) (\<lambda>_.
       case hooks (path ! 0) of
         Some h \<Rightarrow> hook_param (path ! 1) (hk_params h)
       | None \<Rightarrow> Inl (RuntimeError (''Can'' @ [CHR 0x27] @ ''t configure hook '' @ path ! 0
                   @ '': invalid hook name'')))"

definition config_hook_write :: "'w services \<Rightarrow> path \<Rightarrow> string \<Rightarrow> (hooks, unit) prog" where
  "config_hook_write svc path v =
     seqp (liftp (path_must_be_equal_to svc 2 path))
       (\<lambda>hooks. case hooks (path ! 0) of
          Some h \<Rightarrow> (Inr (), hooks(path ! 0 \<mapsto> set_param (path ! 1) v h))
        | None \<Rightarrow> (Inl (RuntimeError (''Can'' @ [CHR 0x27] @ ''t configure hook '' @ path ! 0
                   @ '': invalid hook name'')), hooks))"

text \<open>
  The virtual calls \<open>read\<close> and \<open>write\<close>: the operation of the hook's class on its own state and
  the shared objects. The hook \<open>config\<close> has no state of its own and works on the table.
\<close>

definition hook_body_read ::
  "'w services \<Rightarrow> params \<Rightarrow> path \<Rightarrow> (hook_body \<times> 'w shared, string) prog" where
  "hook_body_read svc ps path bs =
     (case bs of (b, sh) \<Rightarrow>
        (case b of
           VarHook d \<Rightarrow> (var_hook_read path d, bs)
         | TemplateHook ts \<Rightarrow>
             (case template_hook_read svc path ts of (r, ts1) \<Rightarrow> (r, (TemplateHook ts1, sh)))
         | MainConfigHook \<Rightarrow>
             (bindr (path_must_be_equal_to svc 1 path) (\<lambda>_. hook_param (path ! 0) ps), bs)
         | ConfigHook \<Rightarrow> (Inr [], bs)
         | LogHook h \<Rightarrow> (case log_hook_read path h of (r, h1) \<Rightarrow> (r, (LogHook h1, sh)))
         | PrintHook \<Rightarrow> (print_hook_read path, bs)
         | DbHook h \<Rightarrow> (case db_hook_read path h of (r, h1) \<Rightarrow> (r, (DbHook h1, sh)))
         | TransportHook h \<Rightarrow> (transport_hook_read svc path h, bs)
         | ParserHook d \<Rightarrow> (parser_hook_read path d, bs)
         | PaymentHook h \<Rightarrow>
             (case payment_hook_read ps path h of (r, h1) \<Rightarrow> (r, (PaymentHook h1, sh)))
         | CodeHook h \<Rightarrow> (code_hook_read path h, bs)
         | RequestHook h \<Rightarrow> (request_hook_read path h, bs)
         | StageHook \<Rightarrow> (stage_hook_read path (sh_sequence sh), bs)
         | SignHook h \<Rightarrow>
             (case sign_hook_read svc path (h, sh_world sh) of
                (r, (h1, w1)) \<Rightarrow> (r, (SignHook h1, sh\<lparr>sh_world := w1\<rparr>)))))"

definition hook_body_write ::
  "'w services \<Rightarrow> params \<Rightarrow> path \<Rightarrow> string \<Rightarrow> (hook_body \<times> 'w shared, unit) prog" where
  "hook_body_write svc ps path v bs =
     (case bs of (b, sh) \<Rightarrow>
        (case b of
           VarHook d \<Rightarrow> (case var_hook_write path v d of (r, d1) \<Rightarrow> (r, (VarHook d1, sh)))
         | TemplateHook ts \<Rightarrow>
             (case template_hook_write path v ts of (r, ts1) \<Rightarrow> (r, (TemplateHook ts1, sh)))
         | MainConfigHook \<Rightarrow> (Inr (), bs)
         | ConfigHook \<Rightarrow> (Inr (), bs)
         | LogHook h \<Rightarrow>
             (case log_hook_write svc path v (h, sh_world sh) of
                (r, (h1, w1)) \<Rightarrow> (r, (LogHook h1, sh\<lparr>sh_world := w1\<rparr>)))
         | PrintHook \<Rightarrow>
             (case on_world (print_hook_write svc path v) sh of (r, s1) \<Rightarrow> (r, (b, s1)))
         | DbHook h \<Rightarrow>
             (case db_hook_write svc ps path v (h, sh_world sh) of
                (r, (h1, w1)) \<Rightarrow> (r, (DbHook h1, sh\<lparr>sh_world := w1\<rparr>)))
         | TransportHook h \<Rightarrow>
             (case transport_hook_write svc ps path v (h, sh) of
                (r, (h1, s1)) \<Rightarrow> (r, (TransportHook h1, s1)))
         | ParserHook d \<Rightarrow>
             (case parser_hook_write svc path v (d, sh_world sh) of
                (r, (d1, w1)) \<Rightarrow> (r, (ParserHook d1, sh\<lparr>sh_world := w1\<rparr>)))
         | PaymentHook h \<Rightarrow>
             (case payment_hook_write svc path v (sh_payment sh) of
                (r, p1) \<Rightarrow> (r, (PaymentHook h, sh\<lparr>sh_payment := p1\<rparr>)))
         | CodeHook h \<Rightarrow> (case code_hook_write path v h of (r, h1) \<Rightarrow> (r, (CodeHook h1, sh)))
         | RequestHook h \<Rightarrow> (case request_hook_write path v h of (r, h1) \<Rightarrow> (r, (RequestHook h1, sh)))
         | StageHook \<Rightarrow>
             (case stage_hook_write path v (sh_sequence sh) of
                (r, q1) \<Rightarrow> (r, (StageHook, sh\<lparr>sh_sequence := q1\<rparr>)))
         | SignHook h \<Rightarrow>
             (case sign_hook_write svc path v (h, sh_world sh) of
                (r, (h1, w1)) \<Rightarrow> (r, (SignHook h1, sh\<lparr>sh_world := w1\<rparr>)))))"

text \<open>The call on the hook registered under a name.\<close>

definition store_body ::
  "string \<Rightarrow> hook \<Rightarrow> hook_body \<times> 'w shared \<Rightarrow> 'w engine \<Rightarrow> 'w engine" where
  "store_body name h bs en =
     en\<lparr>en_hooks := (en_hooks en)(name \<mapsto> h\<lparr>hk_body := fst bs\<rparr>), en_shared := snd bs\<rparr>"

definition hook_read :: "'w services \<Rightarrow> string \<Rightarrow> path \<Rightarrow> ('w engine, string) prog" where
  "hook_read svc name path en =
     (case en_hooks en name of
        None \<Rightarrow> (Inl (HookUndef name), en)
      | Some h \<Rightarrow>
          if hk_body h = ConfigHook then (config_hook_read svc path (en_hooks en), en)
          else (case hook_body_read svc (hk_params h) path (hk_body h, en_shared en) of
                  (r, bs) \<Rightarrow> (r, store_body name h bs en)))"

definition hook_write :: "'w services \<Rightarrow> string \<Rightarrow> path \<Rightarrow> string \<Rightarrow> ('w engine, unit) prog" where
  "hook_write svc name path v en =
     (case en_hooks en name of
        None \<Rightarrow> (Inl (HookUndef name), en)
      | Some h \<Rightarrow>
          if hk_body h = ConfigHook then
            (case config_hook_write svc path v (en_hooks en) of (r, hooks1) \<Rightarrow> (r, en\<lparr>en_hooks := hooks1\<rparr>))
          else (case hook_body_write svc (hk_params h) path v (hk_body h, en_shared en) of
                  (r, bs) \<Rightarrow> (r, store_body name h bs en)))"

section \<open>Evaluating the scheme\<close>

definition evaluate_config_value :: "'w services \<Rightarrow> config_value \<Rightarrow> ('w engine, string) prog" where
  "evaluate_config_value svc cvalue =
     (let value = cv_value cvalue in
      if \<not> cv_in_quote cvalue \<and> 1 < length value \<and> value ! 0 = CHR ''$'' then
        bindp (liftp (path_from_string (tl value))) (\<lambda>path.
          if path \<noteq> [] then hook_read svc (path ! 0) (tl path) else retp value)
      else retp value)"

definition evaluate_config_param :: "'w services \<Rightarrow> string \<Rightarrow> string \<Rightarrow> ('w engine, unit) prog" where
  "evaluate_config_param svc param value =
     (if param \<noteq> [] then
        bindp (liftp (path_from_string (if param ! 0 = CHR ''$'' then tl param else param))) (\<lambda>path.
          if path \<noteq> [] then hook_write svc (path ! 0) (tl path) value
          else throwp (NotAVariable value))
      else throwp (NotAVariable value))"

definition evaluate_entry :: "'w services \<Rightarrow> config_entry \<Rightarrow> ('w engine, unit) prog" where
  "evaluate_entry svc entry =
     catchp (bindp (evaluate_config_value svc (snd entry)) (evaluate_config_param svc (fst entry)))
       (\<lambda>e. case e of NotAVariable _ \<Rightarrow> retp () | _ \<Rightarrow> throwp e)"

fun evaluate_entries :: "'w services \<Rightarrow> config_section \<Rightarrow> ('w engine, unit) prog" where
  "evaluate_entries svc [] = retp ()"
| "evaluate_entries svc (entry # entries) =
     seqp (evaluate_entry svc entry) (evaluate_entries svc entries)"

definition eval_params :: "'w services \<Rightarrow> string \<Rightarrow> ('w engine, unit) prog" where
  "eval_params svc name =
     bindp (\<lambda>en. (config_get_section (en_scheme en) name, en)) (evaluate_entries svc)"

section \<open>Performing stages\<close>

datatype module = UpgmModule | WebMoneyModule

definition register_user_hooks :: "module \<Rightarrow> 'w engine \<Rightarrow> 'w engine" where
  "register_user_hooks m en =
     (case m of UpgmModule \<Rightarrow> en | WebMoneyModule \<Rightarrow> register_hook (SignHook sign_hook_new) en)"

definition get_transport :: "string \<Rightarrow> unit res" where
  "get_transport name =
     (if name = ''http'' then Inr () else Inl (RuntimeError (''Unsupported transport type - '' @ name)))"

definition get_parser :: "string \<Rightarrow> unit res" where
  "get_parser name =
     (if name = ''xml'' then Inr () else Inl (RuntimeError (''Unsupported parser type - '' @ name)))"

definition get_db :: "string \<Rightarrow> unit res" where
  "get_db name =
     (if name = ''mysql'' then Inr () else Inl (RuntimeError (''Unsupported db type - '' @ name)))"

definition engine_log :: "'w services \<Rightarrow> string \<Rightarrow> 'w engine \<Rightarrow> 'w engine" where
  "engine_log svc s en = en\<lparr>en_shared := log_put svc s (en_shared en)\<rparr>"

definition standard_hooks :: "'w engine \<Rightarrow> hook_body list" where
  "standard_hooks en =
     [VarHook dt_empty, MainConfigHook, StageHook, PrintHook, CodeHook (code_hook_new (en_codes en)),
      TransportHook transport_hook_new, ParserHook dt_empty, RequestHook request_hook_new,
      PaymentHook (payment_hook_new (en_payment en)), DbHook db_hook_new, ConfigHook,
      LogHook log_hook_new, TemplateHook Map.empty]"

text \<open>Everything \<open>performStage\<close> does before its loop.\<close>

definition prepare :: "'w services \<Rightarrow> module \<Rightarrow> ('w engine, unit) prog" where
  "prepare svc m =
     bindp (\<lambda>en. (dt_get ''id'' (generate_data_tree (en_payment en)), en)) (\<lambda>payid.
     seqp (modifyp (\<lambda>en. en\<lparr>en_shared := log_setup (en_log_path en) payid (en_shared en)\<rparr>))
     (seqp (modifyp (engine_log svc (''*** Got payment '' @ payid @ [CHR 0x0A])))
     (bindp (\<lambda>en. (config_get_section (en_config en) ''main'', en)) (\<lambda>sec.
      let main = code_populate sec dt_empty in
      seqp (liftp (bindr (dt_get ''transport'' main) get_transport))
      (seqp (modifyp (\<lambda>en. en\<lparr>en_shared := transport_configure dt_empty (en_shared en)\<rparr>))
      (seqp (liftp (bindr (dt_get ''parser'' main) get_parser))
      (seqp (liftp (bindr (dt_get ''db'' main) get_db))
        (modifyp (\<lambda>en. register_user_hooks m (fold register_hook (standard_hooks en) en))))))))))"

text \<open>The body of the loop, and the loop with a bound on the number of rounds.\<close>

definition stage_step :: "'w services \<Rightarrow> ('w engine, unit) prog" where
  "stage_step svc =
     seqp (modifyp (\<lambda>en. engine_log svc (''Performing stage '' @ stage_name (en_sequence en) @ [CHR 0x0A]) en))
       (\<lambda>en. eval_params svc (stage_name (en_sequence en)) en)"

definition stage_again :: "unit res \<Rightarrow> 'w engine \<Rightarrow> bool" where
  "stage_again r en \<longleftrightarrow> is_ok r \<and> state_undef (en_payment en)"

definition stage_loop :: "'w services \<Rightarrow> nat \<Rightarrow> 'w engine \<Rightarrow> (unit res \<times> 'w engine) option" where
  "stage_loop svc n en = repeat_while (stage_step svc) stage_again n en"

definition set_payment :: "(payment \<Rightarrow> payment) \<Rightarrow> 'w engine \<Rightarrow> 'w engine" where
  "set_payment f en = en\<lparr>en_shared := (en_shared en)\<lparr>sh_payment := f (en_payment en)\<rparr>\<rparr>"

text \<open>The two handlers.\<close>

definition stage_failed :: "'w services \<Rightarrow> exn \<Rightarrow> 'w engine \<Rightarrow> 'w engine" where
  "stage_failed svc e en =
     (if is_std_exception e then
        let what = c_str (exn_what svc e) in
        set_payment (\<lambda>p. payment_sleep (60 * 10) (payment_error what p))
          (engine_log svc (''*** Error: '' @ what @ [CHR 0x0A]) en)
      else set_payment (\<lambda>p. payment_failed (payment_error ''Unknown error occured'' p)) en)"

definition finish :: "'w services \<Rightarrow> unit res \<times> 'w engine \<Rightarrow> 'w engine" where
  "finish svc re = (case re of (Inl e, en) \<Rightarrow> stage_failed svc e en | (Inr _, en) \<Rightarrow> en)"

definition perform_stage :: "'w services \<Rightarrow> module \<Rightarrow> nat \<Rightarrow> 'w engine \<Rightarrow> 'w engine option" where
  "perform_stage svc m n en =
     (case prepare svc m en of
        (Inl e, en1) \<Rightarrow> Some (stage_failed svc e en1)
      | (Inr _, en1) \<Rightarrow> map_option (finish svc) (stage_loop svc n en1))"

definition engine_new :: "payment \<Rightarrow> 'w \<Rightarrow> 'w engine" where
  "engine_new p w =
     \<lparr>en_hooks = Map.empty, en_scheme = config_new, en_config = config_new, en_codes = config_new,
      en_log_path = [],
      en_shared = \<lparr>sh_payment = p, sh_sequence = sequence_new, sh_transport_config = dt_empty,
                   sh_log = None, sh_world = w\<rparr>\<rparr>"

definition set_log :: "string \<Rightarrow> 'w engine \<Rightarrow> 'w engine" where
  "set_log path en = en\<lparr>en_log_path := path\<rparr>"

definition set_scheme :: "config \<Rightarrow> 'w engine \<Rightarrow> 'w engine" where
  "set_scheme c en = en\<lparr>en_scheme := c\<rparr>"

definition set_config :: "config \<Rightarrow> 'w engine \<Rightarrow> 'w engine" where
  "set_config c en = en\<lparr>en_config := c\<rparr>"

definition set_codes :: "config \<Rightarrow> 'w engine \<Rightarrow> 'w engine" where
  "set_codes c en = en\<lparr>en_codes := c\<rparr>"

end
