(* ===== verification/Hook_Laws.thy ===== *)
theory Hook_Laws
  imports Common_Hooks
begin

text \<open>
  What a scheme can rely on when it uses the hooks: the fields of the payment's data, the arguments
  of a statement, the answer codes.
\<close>

section \<open>Splitting the data of a payment\<close>

lemma c_str_show_int [simp]: "c_str (show_int i) = show_int i"
proof (rule c_str_id)
  have "\<not> is_digit (CHR 0x00)" by (simp add: is_digit_def)
  then show "CHR 0x00 \<notin> set (show_int i)"
    using show_nat_digits by (auto simp: show_int_def)
qed

fun join :: "string \<Rightarrow> string list \<Rightarrow> string" where
  "join sep [] = []"
| "join sep [p] = p"
| "join sep (p # q # ps) = p @ sep @ join sep (q # ps)"

lemma split_from_Nil [simp]: "split_from sep [] = Some []"
  by (simp add: split_from.simps)

lemma split_from_eq_Nil: "split_from sep d = Some [] \<Longrightarrow> d = []"
  by (subst (asm) split_from.simps) (auto simp: Option.bind_eq_Some_conv split: option.splits if_splits)

lemma find_sub_empty_word [simp]: "find_sub [] s = Some 0"
  by (cases s) simp_all

lemma split_from_last: "c \<notin> set p \<Longrightarrow> p \<noteq> [] \<Longrightarrow> split_from [c] p = Some [p]"
  by (subst split_from.simps) (simp add: find_sub_no_single)

lemma split_from_Cons:
  "c \<notin> set p \<Longrightarrow> split_from [c] (p @ c # r) = map_option ((#) p) (split_from [c] r)"
  by (subst split_from.simps)
     (simp add: find_sub_single Option.bind_def map_option_case split: option.split)

text \<open>
  A list of fields is read back from the joined text, when the separator is one character that no
  field contains and the last field is not empty.
\<close>

lemma split_from_join:
  assumes "list_all (\<lambda>p. c \<notin> set p) ps" and "ps = [] \<or> last ps \<noteq> []"
  shows "split_from [c] (join [c] ps) = Some ps"
  using assms by (induction "[c]" ps rule: join.induct) (auto simp: split_from_last split_from_Cons)

text \<open>A separator that is not empty always gives a list; the parts and separators make up the data.\<close>

lemma split_from_total:
  assumes "sep \<noteq> []"
  shows "\<exists>ps. split_from sep data = Some ps \<and> (join sep ps = data \<or> join sep ps @ sep = data)"
proof (induction data rule: length_induct)
  case (1 data)
  show ?case
  proof (cases "data = [] \<or> find_sub sep data = None")
    case True
    then show ?thesis by (subst split_from.simps) (auto split: option.splits)
  next
    case False
    then obtain n where n: "find_sub sep data = Some n" and "data \<noteq> []" by auto
    let ?rest = "drop (n + length sep) data"
    from find_sub_Some_split [OF n] have bound: "n + length sep \<le> length data"
      and split: "data = take n data @ sep @ ?rest" by simp_all
    have "length ?rest < length data" using assms \<open>data \<noteq> []\<close> by (cases sep) auto
    with 1 obtain ps where ps: "split_from sep ?rest = Some ps"
      and j: "join sep ps = ?rest \<or> join sep ps @ sep = ?rest" by blast
    have "split_from sep data = Some (take n data # ps)"
      using \<open>data \<noteq> []\<close> n ps by (subst split_from.simps) simp
    moreover have "join sep (take n data # ps) = data \<or> join sep (take n data # ps) @ sep = data"
    proof (cases ps)
      case Nil
      with ps have "?rest = []" using split_from_eq_Nil by blast
      with split have "take n data @ sep = data" by (metis append.right_neutral)
      with Nil show ?thesis by simp
    next
      case (Cons q qs)
      with j split show ?thesis by (metis append.assoc join.simps(3))
    qed
    ultimately show ?thesis by blast
  qed
qed

text \<open>An empty separator gives no list for any data that is not empty: the loop never ends.\<close>

lemma split_from_empty_separator:
  assumes "data \<noteq> []"
  shows "split_from [] data = None"
proof -
  have "split_from sep d = Some ps \<Longrightarrow> sep = [] \<longrightarrow> d = []" for sep d ps
    by (erule split_from.raw_induct [rotated])
       (auto simp: Option.bind_eq_Some_conv split: if_splits option.splits)
  with assms show ?thesis by (cases "split_from [] data") auto
qed

text \<open>
  C30: the fields of the data of a payment are read by their index: when the data is a list of
  fields joined with the separator the hook is configured with, reading index \<open>i\<close> gives field
  \<open>i\<close>, however often it is read, and any other index is refused with an error that names it.
\<close>

theorem payment_data_field:
  assumes "sp_data (pm_data p) = join [c] parts" and "list_all (\<lambda>f. c \<notin> set f) parts"
    and "parts = [] \<or> last parts \<noteq> []" and "ps ''data_separator'' = Some [c]"
    and "in_int32 i" and "h = payment_hook_new p \<or> h = snd (payment_hook_read ps [''data'', k] (payment_hook_new p))"
  shows "fst (payment_hook_read ps [''data'', show_int i] h) =
     (if 0 \<le> i \<and> nat i < length parts then Inr (parts ! nat i)
      else Inl (RuntimeError (''Can'' @ [CHR 0x27] @ ''t access payment data index '' @ show_int i)))"
proof -
  have data: "dt_get ''data'' (generate_data_tree p) = Inr (join [c] parts)"
    using payment_entry_lookup [of "''data''" "sp_data (pm_data p)" p] assms(1)
    by (simp add: payment_entries_def)
  let ?h = "(payment_hook_new p)\<lparr>ph_parsed := True, ph_pay_data := parts\<rparr>"
  have parse: "payment_hook_parse ps (payment_hook_new p) = (Inr (), ?h)"
    using data assms(2-4)
    by (simp add: payment_hook_parse_def payment_hook_new_def hook_param_def
        array_from_string_with_separators_def split_from_join)
  have again: "payment_hook_parse ps ?h = (Inr (), ?h)"
    by (simp add: payment_hook_parse_def)
  have "snd (payment_hook_read ps [''data'', k] (payment_hook_new p)) = ?h"
    using parse by (simp add: payment_hook_read_def prog_simps Let_def)
  with assms(6) have "payment_hook_parse ps h = (Inr (), ?h)"
    using parse again by auto
  then show ?thesis
    using assms(5)
    by (simp add: payment_hook_read_def prog_simps Let_def atoi_show_int as_string_int_exact)
qed

theorem payment_data_field_witness:
  "fst (payment_hook_read [''data_separator'' \<mapsto> ''$''] [''data'', show_int 1]
     (payment_hook_new (payment_new\<lparr>pm_data := spay_new\<lparr>sp_data := ''Z1$7926''\<rparr>\<rparr>))) = Inr ''7926''"
  using payment_data_field [of "payment_new\<lparr>pm_data := spay_new\<lparr>sp_data := ''Z1$7926''\<rparr>\<rparr>" "CHR ''$''"
      "[''Z1'', ''7926'']" "[''data_separator'' \<mapsto> ''$'']" 1
      "payment_hook_new (payment_new\<lparr>pm_data := spay_new\<lparr>sp_data := ''Z1$7926''\<rparr>\<rparr>)"]
  by (simp add: in_int32_def)

section \<open>Statements and their arguments\<close>

text \<open>
  Writing \<open>sql\<close>, then arguments, then reading \<open>sql\<close>: with a database that connects and escapes. An argument is escaped, or
  written through \<open>raw\<close>.
\<close>

datatype db_arg = Escaped string string | Raw string string

fun db_write_args ::
  "'w services \<Rightarrow> params \<Rightarrow> db_arg list \<Rightarrow> (db_hook \<times> 'w, unit) prog" where
  "db_write_args svc ps [] = retp ()"
| "db_write_args svc ps (Escaped k v # args) =
     seqp (db_hook_write svc ps [''sql'', k] v) (db_write_args svc ps args)"
| "db_write_args svc ps (Raw k v # args) =
     seqp (db_hook_write svc ps [''sql'', k, ''raw''] v) (db_write_args svc ps args)"

text \<open>What stands for an argument in the statement.\<close>

fun arg_text :: "(string \<Rightarrow> string) \<Rightarrow> db_arg \<Rightarrow> string \<times> string" where
  "arg_text esc (Escaped k v) = (k, esc v)"
| "arg_text esc (Raw k v) = (k, v)"

definition db_params_ok :: "params \<Rightarrow> bool" where
  "db_params_ok ps \<longleftrightarrow>
     (\<forall>k \<in> {''host'', ''port'', ''database'', ''username'', ''password''}. ps k \<noteq> None)"

text \<open>A database that accepts every connection and escapes texts by a function \<open>esc\<close>.\<close>

definition db_escapes :: "'w services \<Rightarrow> (string \<Rightarrow> string) \<Rightarrow> bool" where
  "db_escapes svc esc \<longleftrightarrow>
     (\<forall>h p d u q w. fst (sv_db_connect svc h p d u q w) = Inr ()) \<and>
     (\<forall>v w. fst (sv_db_escape svc v w) = Inr (esc v))"

lemma db_write_arg:
  assumes "db_params_ok ps" and "db_escapes svc esc"
  shows "\<exists>w1. db_hook_write svc ps [''sql'', k] v (h, w) =
     (Inr (), (h\<lparr>dh_arg := (dh_arg h)(k \<mapsto> esc v)\<rparr>, w1))"
proof -
  have "\<exists>w1. db_hook_connect svc ps w = (Inr (), w1)"
    using assms by (auto simp: db_params_ok_def db_escapes_def db_hook_connect_def hook_param_def
        prog_simps prod_eq_iff intro: prod_eqI)
  then obtain w1 where c: "db_hook_connect svc ps w = (Inr (), w1)" ..
  obtain w2 where e: "sv_db_escape svc v w1 = (Inr (esc v), w2)"
    using assms(2) by (metis db_escapes_def prod.collapse)
  show ?thesis by (simp add: db_hook_write_def bindp_def c e)
qed

lemma db_write_raw: "db_hook_write svc ps [''sql'', k, ''raw''] v (h, w) = (Inr (), (h\<lparr>dh_arg := (dh_arg h)(k \<mapsto> v)\<rparr>, w))"
  by (simp add: db_hook_write_def)

lemma map_of_rev_Cons: "m ++ map_of (rev ((k, v) # kvs)) = m(k \<mapsto> v) ++ map_of (rev kvs)"
  by (rule ext) (simp add: map_add_def split: option.split)

lemma db_write_args_result:
  assumes "db_params_ok ps" and "db_escapes svc esc"
  shows "\<exists>w1. db_write_args svc ps args (h\<lparr>dh_arg := m\<rparr>, w) =
     (Inr (), (h\<lparr>dh_arg := m ++ map_of (rev (map (arg_text esc) args))\<rparr>, w1))"
proof (induction args arbitrary: m w)
  case (Cons a args)
  obtain k v where kv: "arg_text esc a = (k, v)" by (cases "arg_text esc a")
  have "\<exists>w1. db_write_args svc ps (a # args) (h\<lparr>dh_arg := m\<rparr>, w) = db_write_args svc ps args (h\<lparr>dh_arg := m(k \<mapsto> v)\<rparr>, w1)"
  proof (cases a)
    case (Escaped k' v')
    obtain w1 where "db_hook_write svc ps [''sql'', k'] v' (h\<lparr>dh_arg := m\<rparr>, w) =
        (Inr (), (h\<lparr>dh_arg := m(k' \<mapsto> esc v')\<rparr>, w1))"
      using db_write_arg [OF assms, of k' v' "h\<lparr>dh_arg := m\<rparr>" w] by auto
    then show ?thesis using kv Escaped by (auto simp: seqp_def bindp_def)
  next
    case (Raw k' v')
    then show ?thesis using kv by (auto simp: seqp_def bindp_def db_write_raw)
  qed
  then show ?case using Cons.IH by (auto simp: kv map_of_rev_Cons simp del: rev.simps)
qed (simp add: prog_simps)

text \<open>
  C29: what a statement holds of its arguments: after writing a template and any arguments for it, the statement read is the text of
  the template with, at the position of a variable, what was written last under its name: as the database escaped it, whatever
  characters it holds, unless it was written through \<open>raw\<close>, which alone puts a text into the statement as it was given.
\<close>

theorem db_statement_escaped:
  assumes "db_params_ok ps" and "db_escapes svc esc"
    and "template_parse tmpl (dh_template h) = Inr t"
  shows "\<exists>h1 w1. seqp (db_hook_write svc ps [''sql''] tmpl) (db_write_args svc ps args) (h, w) = (Inr (), (h1, w1))
     \<and> fst (db_hook_read [''sql''] h1) = Inr (fill (map_of (rev (map (arg_text esc) args))) 0 (tm_location t) (tm_request t))"
proof -
  let ?h0 = "h\<lparr>dh_template := t, dh_arg := Map.empty\<rparr>"
  have sql: "db_hook_write svc ps [''sql''] tmpl (h, w) = (Inr (), (?h0, w))"
    by (simp add: db_hook_write_def template_set_template_def assms(3))
  obtain w1 where "db_write_args svc ps args (?h0, w) = (Inr (),
      (?h0\<lparr>dh_arg := map_of (rev (map (arg_text esc) args))\<rparr>, w1))"
    using db_write_args_result [OF assms(1,2), where args = args and h = ?h0 and m = Map.empty and w = w] by auto
  with sql template_parse_fill [of tmpl "dh_template h"] assms(3) show ?thesis
    by (simp add: prog_simps db_hook_read_def)
qed

text \<open>A service whose database accepts every connection, for the examples.\<close>

definition example_services :: "(string \<Rightarrow> string) \<Rightarrow> unit services" where
  "example_services esc =
     \<lparr>sv_db_connect = (\<lambda>h p d u q. retp ()), sv_db_request = (\<lambda>s. retp []),
      sv_db_escape = (\<lambda>v. retp (esc v)), sv_transport_write = (\<lambda>c s. retp ()),
      sv_transport_read = retp (dt_empty, []), sv_parse = (\<lambda>s. retp dt_empty),
      sv_file_open = (\<lambda>f w. (True, w)), sv_file_write = (\<lambda>f s. retp ()),
      sv_file_read = (\<lambda>f w. ([], w)), sv_log_write = (\<lambda>f s w. w), sv_stderr = (\<lambda>s w. w),
      sv_sign = (\<lambda>l p k s w. (Inl s, w)), sv_null_format = show_nat, sv_out_of_range = ''out of range''\<rparr>"

lemma example_services_escape: "db_escapes (example_services esc) esc"
  by (simp add: db_escapes_def example_services_def retp_def)

theorem db_statement_escaped_witness:
  "\<exists>h1 w1. seqp (db_hook_write (example_services (\<lambda>s. CHR 0x5C # s)) Some [''sql''] ''$(2)=$(1);'')
       (db_write_args (example_services (\<lambda>s. CHR 0x5C # s)) Some [Escaped ''1'' [CHR 0x27], Raw ''2'' ''name'']) (db_hook_new, ()) =
         (Inr (), (h1, w1))
     \<and> fst (db_hook_read [''sql''] h1) = Inr (''name='' @ [CHR 0x5C, CHR 0x27] @ '';'')"
proof -
  have ps: "db_params_ok Some" by (simp add: db_params_ok_def)
  let ?t = "template_new\<lparr>tm_request := ''=;'', tm_location := [(0, ''2''), (1, ''1'')], tm_variables := [''2'', ''1'']\<rparr>"
  have t: "template_parse ''$(2)=$(1);'' (dh_template db_hook_new) = Inr ?t"
    by (simp add: db_hook_new_def template_new_def template_parse_def scan_start_def template_step_def
        template_switch_def save_var_def)
  show ?thesis
    using db_statement_escaped [OF ps example_services_escape t, of "\<lambda>s. CHR 0x5C # s" "[Escaped ''1'' [CHR 0x27], Raw ''2'' ''name'']" "()"]
    by (simp add: var_value_def)
qed

section \<open>Answer codes\<close>

text \<open>
  Writing a code selects its section of the codes, the section \<open>default\<close> when it has none, and
  fails exactly when both are missing, keeping the data of the code before; afterwards the names of
  the section read as the values written last under them, and nothing else is readable.
\<close>

lemma code_hook_selects:
  "code_hook_write [] code h =
     (case (cfg_data (ch_codes h) code, cfg_data (ch_codes h) ''default'') of
        (Some sec, _) \<Rightarrow> (Inr (), h\<lparr>ch_data := code_populate sec dt_empty\<rparr>)
      | (None, Some sec) \<Rightarrow> (Inr (), h\<lparr>ch_data := code_populate sec dt_empty\<rparr>)
      | (None, None) \<Rightarrow>
          (Inl (RuntimeError (''Unknow error code - '' @ show_int (atoi code)
             @ '' (and no default section); define it in codes.cfg'')), h))
     \<and> code_hook_read [name] (h\<lparr>ch_data := code_populate sec dt_empty\<rparr>) =
         (case map_of (rev (map (\<lambda>(n, v). (n, cv_value v)) sec)) name of
            Some v \<Rightarrow> Inr v | None \<Rightarrow> Inl (RuntimeError (''No such var - '' @ name)))"
  by (simp add: code_hook_write_def config_get_section_def code_hook_read_def code_populate_def
      path_must_be_empty_def dt_get_def vars.get_put_all dt_empty_def prog_simps
      as_string_int_exact atoi_range split: option.split)

end
