(* ===== verification/Engine_Laws.thy ===== *)
theory Engine_Laws
  imports Upgm_Engine Hook_Laws
begin

text \<open>
  What holds of the engine: which hook may change which shared object, what the loop over the
  stages guarantees when it ends, and when it ends.
\<close>

section \<open>What a hook may change\<close>

lemma on_world_frame [simp]:
  "sh_payment (snd (on_world p sh)) = sh_payment sh"
  "sh_sequence (snd (on_world p sh)) = sh_sequence sh"
  "sh_log (snd (on_world p sh)) = sh_log sh"
  by (simp_all add: on_world_def split: prod.split)

lemma log_put_frame [simp]:
  "sh_payment (log_put svc d sh) = sh_payment sh"
  "sh_sequence (log_put svc d sh) = sh_sequence sh"
  "sh_log (log_put svc d sh) = sh_log sh"
  "sh_transport_config (log_put svc d sh) = sh_transport_config sh"
  by (simp_all add: log_put_def split: option.split)

lemma transport_configure_frame [simp]:
  "sh_payment (transport_configure c sh) = sh_payment sh"
  "sh_sequence (transport_configure c sh) = sh_sequence sh"
  by (simp_all add: transport_configure_def)

lemma transport_send_frame [simp]:
  "sh_payment (snd (transport_send svc d sh)) = sh_payment sh"
  "sh_sequence (snd (transport_send svc d sh)) = sh_sequence sh"
  by (simp_all add: transport_send_def)

lemma transport_receive_frame [simp]:
  "sh_payment (snd (transport_receive svc sh)) = sh_payment sh"
  "sh_sequence (snd (transport_receive svc sh)) = sh_sequence sh"
  using on_world_frame [of "sv_transport_read svc" sh]
  by (cases "on_world (sv_transport_read svc) sh";
      auto simp: transport_receive_def split: sum.split)+

lemma seqp_frame:
  assumes "f (snd (p s)) = f s" and "\<And>t. f (snd (q t)) = f t"
  shows "f (snd (seqp p q s)) = f s"
  using assms by (cases "p s") (auto simp: seqp_def bindp_def split: sum.split)

lemma transport_hook_write_frame:
  "sh_payment (snd (snd (transport_hook_write svc ps path v (h, sh)))) = sh_payment sh"
  "sh_sequence (snd (snd (transport_hook_write svc ps path v (h, sh)))) = sh_sequence sh"
  using seqp_frame [of sh_payment "transport_send svc v" _ "transport_receive svc"]
    seqp_frame [of sh_sequence "transport_send svc v" _ "transport_receive svc"]
  by (auto simp: transport_hook_write_def split: sum.split prod.split, (metis snd_conv transport_configure_frame)+)

lemma transport_hook_write_keeps:
  "transport_hook_write svc ps path v (h, sh) = (r, h1, s1) \<Longrightarrow>
     sh_payment s1 = sh_payment sh \<and> sh_sequence s1 = sh_sequence sh"
  using transport_hook_write_frame [of svc ps path v h sh] by simp

lemma on_world_keeps:
  "on_world p sh = (r, s1) \<Longrightarrow> sh_payment s1 = sh_payment sh \<and> sh_sequence s1 = sh_sequence sh"
  using on_world_frame [of p sh] by simp

text \<open>Reading a hook leaves the payment and the sequence of stages alone.\<close>

lemma hook_body_read_frame:
  "sh_payment (snd (snd (hook_body_read svc ps path (b, sh)))) = sh_payment sh
   \<and> sh_sequence (snd (snd (hook_body_read svc ps path (b, sh)))) = sh_sequence sh
   \<and> hook_name (fst (snd (hook_body_read svc ps path (b, sh)))) = hook_name b"
  by (cases b) (simp_all add: hook_body_read_def split: prod.split)

lemma hook_body_write_name:
  "hook_name (fst (snd (hook_body_write svc ps path v (b, sh)))) = hook_name b"
  by (cases b) (simp_all add: hook_body_write_def split: prod.split)

lemma hook_body_write_payment:
  "hook_name b \<noteq> ''pay'' \<Longrightarrow>
     sh_payment (snd (snd (hook_body_write svc ps path v (b, sh)))) = sh_payment sh"
  by (cases b)
     (auto simp: hook_body_write_def split: prod.split dest: transport_hook_write_keeps on_world_keeps)

lemma hook_body_write_sequence:
  "hook_name b \<noteq> ''stage'' \<Longrightarrow>
     sh_sequence (snd (snd (hook_body_write svc ps path v (b, sh)))) = sh_sequence sh"
  by (cases b)
     (auto simp: hook_body_write_def split: prod.split dest: transport_hook_write_keeps on_world_keeps)

section \<open>The table of hooks\<close>

text \<open>Every hook stands under its own name, and no operation of the engine changes that.\<close>

definition hooks_ok :: "hooks \<Rightarrow> bool" where
  "hooks_ok hooks \<longleftrightarrow> (\<forall>n h. hooks n = Some h \<longrightarrow> hook_name (hk_body h) = n)"

lemma hook_configure_body [simp]: "hk_body (hook_configure sec h) = hk_body h"
proof -
  have "hk_body (put_all set_param kvs h) = hk_body h" for kvs
    by (induction kvs arbitrary: h) (auto simp: set_param_def)
  then show ?thesis by (simp add: hook_configure_def)
qed

lemma register_hook_ok: "hooks_ok (en_hooks en) \<Longrightarrow> hooks_ok (en_hooks (register_hook b en))"
  by (simp add: hooks_ok_def register_hook_def Let_def split: sum.split)

text \<open>What stays the same, written once for every operation of the engine.\<close>

definition same_settings :: "'w engine \<Rightarrow> 'w engine \<Rightarrow> bool" where
  "same_settings en en' \<longleftrightarrow> en_scheme en' = en_scheme en \<and> en_config en' = en_config en
     \<and> en_codes en' = en_codes en \<and> en_log_path en' = en_log_path en
     \<and> (hooks_ok (en_hooks en) \<longrightarrow> hooks_ok (en_hooks en'))"

lemma same_settings_refl [simp]: "same_settings en en"
  by (simp add: same_settings_def)

lemma same_settings_trans: "same_settings a b \<Longrightarrow> same_settings b c \<Longrightarrow> same_settings a c"
  by (simp add: same_settings_def)

lemma store_body_ok:
  assumes "en_hooks en name = Some h" and "hook_name (fst bs) = hook_name (hk_body h)"
  shows "same_settings en (store_body name h bs en)"
  using assms by (auto simp: same_settings_def store_body_def hooks_ok_def)

lemma config_hook_write_ok:
  assumes "hooks_ok hooks"
  shows "hooks_ok (snd (config_hook_write svc path v hooks))"
  using assms
  by (auto simp: config_hook_write_def hooks_ok_def set_param_def prog_simps
      split: sum.split option.split)

lemma hook_read_ok:
  "same_settings en (snd (hook_read svc name path en))
   \<and> en_payment (snd (hook_read svc name path en)) = en_payment en
   \<and> en_sequence (snd (hook_read svc name path en)) = en_sequence en"
proof (cases "en_hooks en name")
  case None
  then show ?thesis by (simp add: hook_read_def)
next
  case (Some h)
  obtain r b1 s1 where b: "hook_body_read svc (hk_params h) path (hk_body h, en_shared en) = (r, b1, s1)"
    by (cases "hook_body_read svc (hk_params h) path (hk_body h, en_shared en)") auto
  from hook_body_read_frame [of svc "hk_params h" path "hk_body h" "en_shared en"] b
  have "sh_payment s1 = en_payment en" and "sh_sequence s1 = en_sequence en"
    and "hook_name b1 = hook_name (hk_body h)" by simp_all
  moreover from this(3) Some have "same_settings en (store_body name h (b1, s1) en)"
    by (intro store_body_ok) simp_all
  ultimately show ?thesis using Some b by (simp add: hook_read_def store_body_def)
qed

lemma hook_write_ok:
  "same_settings en (snd (hook_write svc name path v en))
   \<and> (hooks_ok (en_hooks en) \<and> name \<noteq> ''pay'' \<longrightarrow>
        en_payment (snd (hook_write svc name path v en)) = en_payment en)
   \<and> (hooks_ok (en_hooks en) \<and> name \<noteq> ''stage'' \<longrightarrow>
        en_sequence (snd (hook_write svc name path v en)) = en_sequence en)"
proof (cases "en_hooks en name")
  case None
  then show ?thesis by (simp add: hook_write_def)
next
  case (Some h)
  show ?thesis
  proof (cases "hk_body h = ConfigHook")
    case True
    with Some config_hook_write_ok [of "en_hooks en" svc path v] show ?thesis
      by (auto simp: hook_write_def same_settings_def split: prod.split)
  next
    case False
    obtain r b1 s1 where b: "hook_body_write svc (hk_params h) path v (hk_body h, en_shared en) = (r, b1, s1)"
      by (cases "hook_body_write svc (hk_params h) path v (hk_body h, en_shared en)") auto
    have "hook_name b1 = hook_name (hk_body h)"
      using hook_body_write_name [of svc "hk_params h" path v "hk_body h" "en_shared en"] b by simp
    moreover have "hooks_ok (en_hooks en) \<and> name \<noteq> ''pay'' \<longrightarrow> sh_payment s1 = en_payment en"
      using hook_body_write_payment [of "hk_body h" svc "hk_params h" path v "en_shared en"] b Some
      by (auto simp: hooks_ok_def)
    moreover have "hooks_ok (en_hooks en) \<and> name \<noteq> ''stage'' \<longrightarrow> sh_sequence s1 = en_sequence en"
      using hook_body_write_sequence [of "hk_body h" svc "hk_params h" path v "en_shared en"] b Some
      by (auto simp: hooks_ok_def)
    moreover have "same_settings en (store_body name h (b1, s1) en)"
      using calculation(1) Some by (intro store_body_ok) simp_all
    ultimately show ?thesis using Some False b by (simp add: hook_write_def store_body_def)
  qed
qed

section \<open>Evaluating a scheme changes the payment through its hook only\<close>

definition same_payment :: "'w engine \<Rightarrow> 'w engine \<Rightarrow> bool" where
  "same_payment en en' \<longleftrightarrow> same_settings en en'
     \<and> (hooks_ok (en_hooks en) \<longrightarrow> en_payment en' = en_payment en)"

interpretation settings: frame same_settings
  by unfold_locales (auto intro: same_settings_trans)

interpretation payments: frame same_payment
  by unfold_locales (auto simp: same_payment_def same_settings_def)

text \<open>The hook an entry of the scheme writes to.\<close>

definition entry_target :: "string \<Rightarrow> string option" where
  "entry_target param =
     (if param = [] then None
      else case path_from_string (if param ! 0 = CHR ''$'' then tl param else param) of
             Inr (p # ps) \<Rightarrow> Some p | _ \<Rightarrow> None)"

lemma hook_read_keeps: "payments.keeps (hook_read svc name path)" "settings.keeps (hook_read svc name path)"
  by (simp_all add: payments.keeps_def settings.keeps_def same_payment_def hook_read_ok)

lemma hook_write_keeps:
  "name \<noteq> ''pay'' \<Longrightarrow> payments.keeps (hook_write svc name path v)" "settings.keeps (hook_write svc name path v)"
  by (simp_all add: payments.keeps_def settings.keeps_def same_payment_def hook_write_ok)

lemma evaluate_config_value_keeps:
  "payments.keeps (evaluate_config_value svc cv)" "settings.keeps (evaluate_config_value svc cv)"
  unfolding evaluate_config_value_def Let_def
  by (auto intro!: payments.keeps_bindp_liftp settings.keeps_bindp_liftp payments.keeps_retp
      settings.keeps_retp hook_read_keeps)

lemma evaluate_config_param_keeps:
  "entry_target param \<noteq> Some ''pay'' \<Longrightarrow> payments.keeps (evaluate_config_param svc param v)"
  "settings.keeps (evaluate_config_param svc param v)"
proof -
  assume a: "entry_target param \<noteq> Some ''pay''"
  show "payments.keeps (evaluate_config_param svc param v)"
  proof (cases "param = []")
    case True
    then show ?thesis by (simp add: evaluate_config_param_def payments.keeps_throwp)
  next
    case False
    have "payments.keeps (if path \<noteq> [] then hook_write svc (path ! 0) (tl path) v else throwp (NotAVariable v))"
      if "path_from_string (if param ! 0 = CHR ''$'' then tl param else param) = Inr path" for path
      using a False that by (cases path)
        (auto simp: entry_target_def intro!: payments.keeps_throwp hook_write_keeps)
    with False show ?thesis
      by (simp add: evaluate_config_param_def payments.keeps_bindp_liftp)
  qed
next
  show "settings.keeps (evaluate_config_param svc param v)"
    unfolding evaluate_config_param_def
    by (auto intro!: settings.keeps_bindp_liftp settings.keeps_throwp hook_write_keeps)
qed

lemma evaluate_entry_keeps:
  "entry_target (fst entry) \<noteq> Some ''pay'' \<Longrightarrow> payments.keeps (evaluate_entry svc entry)"
  "settings.keeps (evaluate_entry svc entry)"
  unfolding evaluate_entry_def
  by (auto intro!: payments.keeps_catchp settings.keeps_catchp payments.keeps_bindp settings.keeps_bindp
      evaluate_config_value_keeps evaluate_config_param_keeps
      split: exn.split simp: payments.keeps_intros settings.keeps_intros)

lemma evaluate_entries_keeps:
  "\<forall>entry \<in> set entries. entry_target (fst entry) \<noteq> Some ''pay'' \<Longrightarrow>
     payments.keeps (evaluate_entries svc entries)"
  "settings.keeps (evaluate_entries svc entries)"
  by (induction entries)
     (auto intro!: payments.keeps_seqp settings.keeps_seqp evaluate_entry_keeps
       simp: payments.keeps_intros settings.keeps_intros)

lemma eval_params_same_settings: "same_settings en (snd (eval_params svc name en))"
  using evaluate_entries_keeps(2)
  by (auto simp: eval_params_def bindp_def settings.keeps_def split: sum.split)

text \<open>No entry of any section of a scheme writes to the hook \<open>pay\<close>.\<close>

definition scheme_without_pay :: "config \<Rightarrow> bool" where
  "scheme_without_pay c \<longleftrightarrow>
     (\<forall>name sec. cfg_data c name = Some sec \<longrightarrow>
        (\<forall>entry \<in> set sec. entry_target (fst entry) \<noteq> Some ''pay''))"

lemma eval_params_same_payment:
  assumes "scheme_without_pay (en_scheme en)"
  shows "same_payment en (snd (eval_params svc name en))"
proof (cases "cfg_data (en_scheme en) name")
  case None
  then show ?thesis
    by (simp add: eval_params_def bindp_def config_get_section_def payments.frame_refl)
next
  case (Some sec)
  with assms have "payments.keeps (evaluate_entries svc sec)"
    by (intro evaluate_entries_keeps) (auto simp: scheme_without_pay_def)
  with Some show ?thesis
    by (simp add: eval_params_def bindp_def config_get_section_def payments.keeps_def)
qed

section \<open>Performing stages\<close>

lemma engine_log_keeps: "same_payment en (engine_log svc d en)" "same_settings en (engine_log svc d en)"
  by (simp_all add: same_payment_def same_settings_def engine_log_def)

lemma register_hook_keeps: "same_payment en (register_hook b en)"
  using register_hook_ok [of en b]
  by (auto simp: same_payment_def same_settings_def register_hook_def Let_def)

lemma fold_register_keeps: "same_payment en (fold register_hook bs en)"
  by (induction bs arbitrary: en)
     (auto simp: payments.frame_refl intro: payments.frame_trans register_hook_keeps)

lemma prepare_keeps: "payments.keeps (prepare svc m)"
  unfolding prepare_def Let_def
  apply (intro payments.keeps_bindp payments.keeps_seqp payments.keeps_look payments.keeps_liftp
      payments.keeps_modifyp engine_log_keeps)
    apply (simp add: same_payment_def same_settings_def log_setup_def)
   apply (simp add: same_payment_def same_settings_def transport_configure_def)
  apply (cases m)
   apply (auto simp: register_user_hooks_def intro: payments.frame_trans fold_register_keeps register_hook_keeps)
  done

lemma engine_log_sequence [simp]: "en_sequence (engine_log svc d en) = en_sequence en"
  by (simp add: engine_log_def)

lemma stage_step_log:
  "\<exists>d. stage_step svc en = eval_params svc (stage_name (en_sequence en)) (engine_log svc d en)"
  by (auto simp: stage_step_def prog_simps)

lemma stage_step_same_settings: "same_settings en (snd (stage_step svc en))"
  by (metis stage_step_log engine_log_keeps(2) eval_params_same_settings same_settings_trans)

lemma stage_step_same_payment:
  assumes "scheme_without_pay (en_scheme en)"
  shows "same_payment en (snd (stage_step svc en))"
proof -
  obtain d where d: "stage_step svc en = eval_params svc (stage_name (en_sequence en)) (engine_log svc d en)"
    using stage_step_log by blast
  have "same_payment (engine_log svc d en) (snd (stage_step svc en))"
    unfolding d using assms by (intro eval_params_same_payment) (simp add: engine_log_def)
  then show ?thesis using engine_log_keeps(1) payments.frame_trans by blast
qed

lemma stage_failed_payment:
  "en_payment (stage_failed svc e en) =
     (if is_std_exception e
      then payment_sleep (60 * 10) (payment_error (c_str (exn_what svc e)) (en_payment en))
      else payment_failed (payment_error ''Unknown error occured'' (en_payment en)))"
  by (simp add: stage_failed_def set_payment_def engine_log_def Let_def)

text \<open>
  C1: when the engine returns, the payment has a result, whatever the scheme, the configuration and
  the outside world do; an exception leaves it to be retried after ten minutes with the message in
  its error text, or failed when the exception is not a standard one.
\<close>

theorem perform_stage_settles:
  assumes "perform_stage svc m n en = Some en'"
  shows "\<not> state_undef (en_payment en')
     \<and> ((\<exists>u. stage_step svc u = (Inr (), en'))
        \<or> (\<exists>e u. en' = stage_failed svc e u \<and>
             (prepare svc m en = (Inl e, u) \<or> (\<exists>v. stage_step svc v = (Inl e, u)))
             \<and> as_spay_result_default (en_payment en') = (if is_std_exception e
                then as_spay_result_default (payment_sleep 600 (payment_error (c_str (exn_what svc e)) (en_payment u)))
                else as_spay_result_default (payment_failed (payment_error ''Unknown error occured'' (en_payment u))))))"
proof -
  obtain r en1 where p: "prepare svc m en = (r, en1)" by fastforce
  show ?thesis
  proof (cases r)
    case (Inl e)
    with p assms have "en' = stage_failed svc e en1" by (simp add: perform_stage_def)
    with p Inl show ?thesis
      by (auto simp: stage_failed_payment state_undef_def payment_sleep_def payment_failed_def)
  next
    case (Inr x)
    with p assms obtain r2 en2 where l: "stage_loop svc n en1 = Some (r2, en2)"
      and en': "en' = finish svc (r2, en2)" by (auto simp: perform_stage_def)
    from repeat_while_stops [OF l [unfolded stage_loop_def]] obtain u where
      stop: "\<not> stage_again r2 en2" and u: "stage_step svc u = (r2, en2)" by auto
    show ?thesis
    proof (cases r2)
      case (Inl e)
      with en' u show ?thesis
        by (auto simp: finish_def stage_failed_payment state_undef_def payment_sleep_def payment_failed_def)
    next
      case (Inr y)
      with en' u stop show ?thesis by (auto simp: finish_def stage_again_def)
    qed
  qed
qed

text \<open>
  C2: a payment is completed only by its scheme: when no entry of the scheme writes to the hook
  \<open>pay\<close>, the engine returns only because of an exception, and the payment is retried or failed with
  the text of that exception.
\<close>

theorem no_completion_without_pay:
  assumes "scheme_without_pay (en_scheme en)" and "hooks_ok (en_hooks en)"
    and "en_payment en = payment_from d" and "perform_stage svc m n en = Some en'"
  shows "\<exists>e. en_payment en' = (if is_std_exception e
           then payment_sleep 600 (payment_error (c_str (exn_what svc e)) (payment_from d))
           else payment_failed (payment_error ''Unknown error occured'' (payment_from d)))"
proof -
  obtain r en1 where p: "prepare svc m en = (r, en1)" by fastforce
  have k: "same_payment en en1" using prepare_keeps p by (rule payments.keepsD)
  have s1: "en_payment en1 = payment_from d" "hooks_ok (en_hooks en1)" "scheme_without_pay (en_scheme en1)"
    using k assms(1-3) by (simp_all add: same_payment_def same_settings_def)
  show ?thesis
  proof (cases r)
    case (Inl e)
    with p s1 assms(4) show ?thesis
      by (intro exI [of _ e]) (auto simp: perform_stage_def stage_failed_payment)
  next
    case (Inr x)
    with p assms(4) obtain r2 en2 where l: "stage_loop svc n en1 = Some (r2, en2)"
      and en': "en' = finish svc (r2, en2)" by (auto simp: perform_stage_def)
    let ?P = "\<lambda>u. en_payment u = payment_from d \<and> hooks_ok (en_hooks u) \<and> scheme_without_pay (en_scheme u)"
    have step: "?P u \<Longrightarrow> stage_step svc u = (r', v) \<Longrightarrow> ?P v" for u r' v
      using stage_step_same_payment [of u svc] by (auto simp: same_payment_def same_settings_def)
    have "en_payment en2 = payment_from d \<and> (\<exists>e. r2 = Inl e)"
    proof (rule repeat_while_invariant [OF l [unfolded stage_loop_def], of ?P])
      show "?P en1" using s1 by simp
      show "?P v" if "?P u" and "stage_step svc u = (r', v)" for u r' v
        using step [OF that] .
      show "en_payment v = payment_from d \<and> (\<exists>e. r' = Inl e)"
        if "?P u" and "stage_step svc u = (r', v)" and "\<not> stage_again r' v" for u r' v
        using step [OF that(1,2)] that(3)
        by (cases r') (auto simp: stage_again_def payment_from_def payment_new_def state_undef_def)
    qed
    then obtain e where "r2 = Inl e" and "en_payment en2 = payment_from d" by blast
    with en' show ?thesis by (intro exI [of _ e]) (auto simp: finish_def stage_failed_payment)
  qed
qed

text \<open>
  The bound on the number of rounds is no part of the result: a run that returns within a bound
  returns the same with every larger one.
\<close>

lemma perform_stage_bound_irrelevant:
  assumes "perform_stage svc m n en = Some en'" and "n \<le> k"
  shows "perform_stage svc m k en = Some en'"
  using assms repeat_while_mono [of "stage_step svc" stage_again n _ _ k]
  by (auto simp: perform_stage_def stage_loop_def split: prod.splits sum.splits)

text \<open>
  The engine returns when the scheme makes progress: if a measure of the engine falls in every
  round that leaves the payment without a result, a bound above the measure is enough.
\<close>

lemma perform_stage_returns:
  assumes "prepare svc m en = (Inr (), en1)" and "P en1" and "rank en1 < n"
    and "\<And>u v. P u \<Longrightarrow> stage_step svc u = (Inr (), v) \<Longrightarrow> state_undef (en_payment v) \<Longrightarrow> P v \<and> rank v < (rank u :: nat)"
  shows "\<exists>en'. perform_stage svc m n en = Some en' \<and> \<not> state_undef (en_payment en')"
proof -
  have "\<exists>r t. repeat_while (stage_step svc) stage_again n en1 = Some (r, t)"
  proof (rule repeat_while_returns [of P _ rank])
    show "P v \<and> rank v < rank u" if "P u" "stage_step svc u = (r, v)" "stage_again r v" for u r v
      using that assms(4) [of u v] by (cases r) (auto simp: stage_again_def)
  qed (use assms in simp_all)
  then obtain r t where l: "repeat_while (stage_step svc) stage_again n en1 = Some (r, t)" by blast
  from repeat_while_stops [OF l] have "\<not> stage_again r t" by simp
  then have "\<not> state_undef (en_payment (finish svc (r, t)))"
    by (cases r) (auto simp: finish_def stage_again_def stage_failed_payment state_undef_def
        payment_sleep_def payment_failed_def)
  with l assms(1) show ?thesis by (simp add: perform_stage_def stage_loop_def)
qed

end
