(* ===== verification/Engine_Examples.thy ===== *)
theory Engine_Examples
  imports Engine_Laws
begin

text \<open>
  The laws of the engine on concrete schemes: one that completes its payment, one that names a hook
  that does not exist, and one whose loop never ends.
\<close>

definition quoted :: "string \<Rightarrow> config_value" where
  "quoted v = \<lparr>cv_value = v, cv_in_quote = True\<rparr>"

definition config_of :: "(string \<times> config_section) list \<Rightarrow> config" where
  "config_of secs = config_new\<lparr>cfg_data := map_of secs\<rparr>"

definition example_config :: config where
  "example_config = config_of
     [(''main'', [(''transport'', quoted ''http''), (''parser'', quoted ''xml''), (''db'', quoted ''mysql'')])]"

definition example_engine :: "config_section \<Rightarrow> unit engine" where
  "example_engine main = set_config example_config (set_scheme (config_of [(''main'', main)])
     (engine_new (payment_from spay_new) ()))"

abbreviation svc0 :: "unit services" where
  "svc0 \<equiv> example_services (\<lambda>s. s)"

text \<open>The engine a run starts its loop with.\<close>

definition example_start :: "config_section \<Rightarrow> unit engine" where
  "example_start main = fold register_hook (standard_hooks (example_engine main)) (example_engine main)"

lemmas example_defs = example_engine_def engine_new_def config_of_def config_new_def quoted_def
  set_config_def set_scheme_def example_config_def

lemma example_steps [simp]:
  "(example_engine main)\<lparr>en_shared := log_setup (en_log_path (example_engine main)) i (en_shared (example_engine main))\<rparr>
     = example_engine main"
  "engine_log svc0 d (example_engine main) = example_engine main"
  "(example_engine main)\<lparr>en_shared := transport_configure dt_empty (en_shared (example_engine main))\<rparr>
     = example_engine main"
  by (simp_all add: example_defs log_setup_def engine_log_def log_put_def transport_configure_def)

lemma example_main_section:
  "config_get_section (en_config (example_engine main)) ''main'' =
     Inr [(''transport'', quoted ''http''), (''parser'', quoted ''xml''), (''db'', quoted ''mysql'')]"
  by (simp add: example_defs config_get_section_def)

lemma example_main_entries:
  "k \<in> {(''transport'', ''http''), (''parser'', ''xml''), (''db'', ''mysql'')} \<Longrightarrow> dt_get (fst k)
     (code_populate [(''transport'', quoted ''http''), (''parser'', quoted ''xml''), (''db'', quoted ''mysql'')]
       dt_empty) = Inr (snd k)"
  by (auto simp: code_populate_def dt_get_def dt_set_def quoted_def)

lemma example_prepare:
  "prepare svc0 UpgmModule (example_engine main) = (Inr (), example_start main)"
  using example_main_entries [of "(''transport'', ''http'')"] example_main_entries [of "(''parser'', ''xml'')"]
    example_main_entries [of "(''db'', ''mysql'')"]
  by (simp add: prepare_def prog_simps payment_id_lookup example_main_section Let_def
      get_transport_def get_parser_def get_db_def register_user_hooks_def example_start_def)

lemma example_start_frame [simp]:
  "en_scheme (example_start main) = config_of [(''main'', main)]"
  "en_sequence (example_start main) = sequence_new"
  "en_payment (example_start main) = payment_from spay_new"
  "hooks_ok (en_hooks (example_engine main))"
  by (simp_all add: example_start_def standard_hooks_def register_hook_def example_defs Let_def hooks_ok_def)

lemma example_start_hooks:
  "map_option hk_body (en_hooks (example_start main) name) =
     map_of (map (\<lambda>b. (hook_name b, b)) (rev (standard_hooks (example_engine main)))) name"
proof -
  have "map_option hk_body (en_hooks (fold register_hook bs en) name) =
      ((\<lambda>n. map_option hk_body (en_hooks en n)) ++ map_of (map (\<lambda>b. (hook_name b, b)) (rev bs))) name"
    for bs :: "hook_body list" and en :: "unit engine"
    by (induction bs arbitrary: en)
       (auto simp: register_hook_def Let_def map_add_def split: option.split sum.split)
  then show ?thesis by (simp add: example_start_def example_defs map_add_def split: option.split)
qed

text \<open>A scheme whose only entry completes the payment.\<close>

abbreviation complete_scheme :: config_section where
  "complete_scheme \<equiv> [(''pay.result'', quoted ''completed'')]"

text \<open>An entry whose value is quoted is written to the hook as it stands.\<close>

lemma evaluate_quoted_entry:
  assumes "path_from_string param = Inr (name # path)" and "param \<noteq> []" and "param ! 0 \<noteq> CHR ''$''"
    and "hook_write svc name path v en = (Inr (), en')"
  shows "evaluate_entry svc (param, quoted v) en = (Inr (), en')"
  using assms
  by (simp add: evaluate_entry_def evaluate_config_value_def evaluate_config_param_def quoted_def prog_simps)

lemma path_pay_result: "path_from_string ''pay.result'' = Inr [''pay'', ''result'']"
  by (simp add: path_from_string_def path_init_def path_step_def Let_def append_sub_def)

lemma pay_result_completes:
  assumes "en_hooks en ''pay'' = Some h" and "hk_body h = PaymentHook ph"
  shows "\<exists>en'. evaluate_entry svc (''pay.result'', quoted ''completed'') en = (Inr (), en')
     \<and> en_payment en' = payment_completed (en_payment en)"
proof -
  have w: "hook_write svc ''pay'' [''result''] ''completed'' en =
      (Inr (), store_body ''pay'' h (PaymentHook ph,
         (en_shared en)\<lparr>sh_payment := payment_completed (en_payment en)\<rparr>) en)"
    using assms by (simp add: hook_write_def hook_body_write_def payment_hook_write_def
        path_must_be_equal_to_def prog_simps)
  show ?thesis
    using evaluate_quoted_entry [OF path_pay_result _ _ w] by (simp add: store_body_def)
qed

definition pay_ready :: "config_section \<Rightarrow> unit engine \<Rightarrow> bool" where
  "pay_ready main en \<longleftrightarrow> en_scheme en = config_of [(''main'', main)] \<and> stage_name (en_sequence en) = ''main''
     \<and> (\<exists>h ph. en_hooks en ''pay'' = Some h \<and> hk_body h = PaymentHook ph)"

lemma example_start_ready: "pay_ready main (example_start main)"
proof -
  have "map_option hk_body (en_hooks (example_start main) ''pay'') =
      Some (PaymentHook (payment_hook_new (en_payment (example_engine main))))"
    by (simp add: example_start_hooks standard_hooks_def)
  then show ?thesis by (auto simp: pay_ready_def sequence_new_def stage_name_def)
qed

lemma complete_step:
  assumes "pay_ready complete_scheme en"
  shows "\<exists>en'. stage_step svc0 en = (Inr (), en') \<and> en_payment en' = payment_completed (en_payment en)"
proof -
  from assms obtain h ph where h: "en_hooks en ''pay'' = Some h" "hk_body h = PaymentHook ph"
    and s: "en_scheme en = config_of [(''main'', complete_scheme)]" "stage_name (en_sequence en) = ''main''"
    by (auto simp: pay_ready_def)
  obtain d where d: "stage_step svc0 en = eval_params svc0 ''main'' (engine_log svc0 d en)"
    using stage_step_log [of svc0 en] s by auto
  have "en_hooks (engine_log svc0 d en) ''pay'' = Some h" using h by (simp add: engine_log_def)
  from pay_result_completes [OF this h(2), of svc0] obtain en' where
    e: "evaluate_entry svc0 (''pay.result'', quoted ''completed'') (engine_log svc0 d en) = (Inr (), en')"
    and p: "en_payment en' = payment_completed (en_payment (engine_log svc0 d en))" by blast
  have "stage_step svc0 en = (Inr (), en')"
    unfolding d using e s
    by (simp add: eval_params_def config_get_section_def config_of_def engine_log_def prog_simps)
  with p show ?thesis by (simp add: engine_log_def)
qed

lemma complete_loop:
  "\<exists>en'. perform_stage svc0 UpgmModule 1 (example_engine complete_scheme) = Some en'
     \<and> en_payment en' = payment_completed (payment_from spay_new)"
proof -
  from complete_step [OF example_start_ready] obtain en' where
    "stage_step svc0 (example_start complete_scheme) = (Inr (), en')"
    and "en_payment en' = payment_completed (payment_from spay_new)" by auto
  then show ?thesis
    by (simp add: perform_stage_def example_prepare stage_loop_def stage_again_def finish_def
        state_undef_def payment_completed_def)
qed

theorem perform_stage_settles_witness:
  "\<exists>en'. perform_stage svc0 UpgmModule 1 (example_engine complete_scheme) = Some en'
     \<and> \<not> state_undef (en_payment en')"
  using complete_loop perform_stage_settles by blast

lemma perform_stage_bound_irrelevant_example:
  "\<exists>en'. perform_stage svc0 UpgmModule 1 (example_engine complete_scheme) = Some en'
     \<and> perform_stage svc0 UpgmModule 100 (example_engine complete_scheme) = Some en'"
  using complete_loop perform_stage_bound_irrelevant [of svc0 UpgmModule 1 "example_engine complete_scheme" _ 100]
  by auto

lemma perform_stage_returns_example:
  "\<exists>en'. perform_stage svc0 UpgmModule 1 (example_engine complete_scheme) = Some en'
     \<and> \<not> state_undef (en_payment en')"
proof (rule perform_stage_returns [OF example_prepare, where P = "pay_ready complete_scheme" and rank = "\<lambda>_. 0"])
  show "pay_ready complete_scheme (example_start complete_scheme)" by (rule example_start_ready)
  show "pay_ready complete_scheme v \<and> (0::nat) < 0"
    if "pay_ready complete_scheme u" and "stage_step svc0 u = (Inr (), v)" and "state_undef (en_payment v)" for u v
    using complete_step [OF that(1)] that(2,3) by (auto simp: state_undef_def payment_completed_def)
qed simp

text \<open>A scheme that writes to a hook that does not exist.\<close>

lemma path_nohook: "path_from_string ''nohook'' = Inr [''nohook'']"
  by (simp add: path_from_string_def path_init_def path_step_def Let_def append_sub_def)

abbreviation broken_scheme :: config_section where
  "broken_scheme \<equiv> [(''nohook'', quoted ''1'')]"

lemma broken_returns: "\<exists>en'. perform_stage svc0 UpgmModule 1 (example_engine broken_scheme) = Some en'"
proof -
  have "map_option hk_body (en_hooks (example_start broken_scheme) ''nohook'') = None"
    by (simp add: example_start_hooks standard_hooks_def)
  then have h: "en_hooks (example_start broken_scheme) ''nohook'' = None" by simp
  obtain d where d: "stage_step svc0 (example_start broken_scheme) =
      eval_params svc0 ''main'' (engine_log svc0 d (example_start broken_scheme))"
    using stage_step_log [of svc0 "example_start broken_scheme"] by (auto simp: sequence_new_def stage_name_def)
  have "\<exists>u. stage_step svc0 (example_start broken_scheme) = (Inl (HookUndef ''nohook''), u)"
    unfolding d using h path_nohook
    by (simp add: eval_params_def config_get_section_def config_of_def engine_log_def prog_simps
        evaluate_entry_def evaluate_config_value_def evaluate_config_param_def quoted_def hook_write_def)
  then show ?thesis
    by (auto simp: perform_stage_def example_prepare stage_loop_def stage_again_def)
qed

theorem no_completion_without_pay_witness:
  "\<exists>en' e. perform_stage svc0 UpgmModule 1 (example_engine broken_scheme) = Some en'
     \<and> en_payment en' = (if is_std_exception e
           then payment_sleep 600 (payment_error (c_str (exn_what svc0 e)) (payment_from spay_new))
           else payment_failed (payment_error ''Unknown error occured'' (payment_from spay_new)))"
proof -
  obtain en' where r: "perform_stage svc0 UpgmModule 1 (example_engine broken_scheme) = Some en'"
    using broken_returns by blast
  have "scheme_without_pay (en_scheme (example_engine broken_scheme))"
    by (simp add: example_defs scheme_without_pay_def entry_target_def path_nohook)
  moreover have "hooks_ok (en_hooks (example_engine broken_scheme))" by simp
  moreover have "en_payment (example_engine broken_scheme) = payment_from spay_new"
    by (simp add: example_defs)
  ultimately show ?thesis using no_completion_without_pay [OF _ _ _ r] r by blast
qed

text \<open>
  A scheme that reads and writes variables only: no bound is enough, the engine never returns.
\<close>

abbreviation idle_scheme :: config_section where
  "idle_scheme \<equiv> [(''print'', quoted ''x'')]"

lemma path_print: "path_from_string ''print'' = Inr [''print'']"
  by (simp add: path_from_string_def path_init_def path_step_def Let_def append_sub_def)

definition idle_ready :: "unit engine \<Rightarrow> bool" where
  "idle_ready en \<longleftrightarrow> en_scheme en = config_of [(''main'', idle_scheme)] \<and> stage_name (en_sequence en) = ''main''
     \<and> state_undef (en_payment en) \<and> (\<exists>h. en_hooks en ''print'' = Some h \<and> hk_body h = PrintHook)"

lemma idle_scheme_never_returns:
  "perform_stage svc0 UpgmModule n (example_engine idle_scheme) = None"
proof -
  have "map_option hk_body (en_hooks (example_start idle_scheme) ''print'') = Some PrintHook"
    by (simp add: example_start_hooks standard_hooks_def)
  then have start: "idle_ready (example_start idle_scheme)"
    by (auto simp: idle_ready_def sequence_new_def stage_name_def state_undef_def payment_from_def payment_new_def)
  have step: "stage_again r v \<and> idle_ready v" if "idle_ready u" and "stage_step svc0 u = (r, v)" for u r v
  proof -
    note that(1) [unfolded idle_ready_def]
    then obtain h where h: "en_hooks u ''print'' = Some h" "hk_body h = PrintHook" by blast
    have name: "stage_name (en_sequence u) = ''main''" using that(1) by (simp add: idle_ready_def)
    obtain d where d: "stage_step svc0 u = eval_params svc0 ''main'' (engine_log svc0 d u)"
      using stage_step_log [of svc0 u] unfolding name by blast
    let ?u = "engine_log svc0 d u"
    let ?s = "(en_shared ?u)\<lparr>sh_world := sv_stderr svc0 ('' * ['' @ ''x'' @ '']'' @ [CHR 0x0A]) (sh_world (en_shared ?u))\<rparr>"
    have "hook_write svc0 ''print'' [] ''x'' ?u = (Inr (), store_body ''print'' h (PrintHook, ?s) ?u)"
      using h by (simp add: hook_write_def engine_log_def hook_body_write_def on_world_def print_hook_write_def
          path_must_be_empty_def prog_simps c_str_def)
    from evaluate_quoted_entry [OF path_print _ _ this]
    have "stage_step svc0 u = (Inr (), store_body ''print'' h (PrintHook, ?s) ?u)"
      unfolding d using that(1)
      by (simp add: idle_ready_def eval_params_def config_get_section_def config_of_def engine_log_def prog_simps)
    with that h show ?thesis
      by (auto simp: idle_ready_def stage_again_def store_body_def engine_log_def)
  qed
  have "repeat_while (stage_step svc0) stage_again n (example_start idle_scheme) = None"
    by (rule repeat_while_diverges [of idle_ready, OF start step])
  then show ?thesis by (simp add: perform_stage_def example_prepare stage_loop_def)
qed

end
