(* ===== verification/Xml_Data.thy ===== *)
theory Xml_Data
  imports Data_Tree
begin

text \<open>
  The XML parser of answers (\<open>src/xml_parser.cpp\<close>): the document TinyXML builds from the text,
  copied into a tree of named values. Building the document is a parameter.
\<close>

section \<open>Documents and the copy\<close>

text \<open>
  A node as the code sees it: an element with its attributes and children in document order, a text,
  or anything else (comments, declarations).
\<close>

datatype xml_node =
    XmlElement string "(string \<times> string) list" "xml_node list"
  | XmlText string
  | XmlOther

fun is_element :: "xml_node \<Rightarrow> bool" where
  "is_element (XmlElement _ _ _) = True"
| "is_element _ = False"

text \<open>\<open>GetText()\<close>: the text of the first child when it is a text node.\<close>

definition get_text :: "xml_node list \<Rightarrow> string option" where
  "get_text children = (case children of XmlText s # _ \<Rightarrow> Some s | _ \<Rightarrow> None)"

text \<open>
  The attributes become variables, the elements among the children subtrees under their names, in
  document order, the text a variable with the empty name.
\<close>

fun populate_data_from :: "xml_node \<Rightarrow> data_tree"
  and populate_children :: "xml_node list \<Rightarrow> data_tree \<Rightarrow> data_tree" where
  "populate_data_from (XmlElement name attrs children) =
     (let t = populate_children children (put_all dt_set attrs dt_empty) in
      case get_text children of Some s \<Rightarrow> dt_set [] s t | None \<Rightarrow> t)"
| "populate_data_from _ = dt_empty"
| "populate_children [] t = t"
| "populate_children (XmlElement name attrs children # ns) t =
     populate_children ns (dt_set_node name (populate_data_from (XmlElement name attrs children)) t)"
| "populate_children (_ # ns) t = populate_children ns t"

text \<open>\<open>XmlParser::parse\<close>; the document is its top-level nodes.\<close>

definition xml_parse :: "(string \<Rightarrow> xml_node list) \<Rightarrow> string \<Rightarrow> data_tree" where
  "xml_parse document data = populate_children (document data) dt_empty"

section \<open>Reading answers by path\<close>

text \<open>
  What a path means in the document itself: every component but the last picks the last element of
  that name, the last one an attribute, or the text when it is empty.
\<close>

fun last_element :: "string \<Rightarrow> xml_node list \<Rightarrow> xml_node option" where
  "last_element name [] = None"
| "last_element name (n # ns) =
     (case last_element name ns of
        Some e \<Rightarrow> Some e
      | None \<Rightarrow> (case n of
            XmlElement nm _ _ \<Rightarrow> if nm = name then Some n else None
          | _ \<Rightarrow> None))"

definition xml_value :: "string \<Rightarrow> xml_node \<Rightarrow> string option" where
  "xml_value name e =
     (case e of
        XmlElement _ attrs children \<Rightarrow>
          (if name = [] then (case get_text children of Some s \<Rightarrow> Some s | None \<Rightarrow> map_of (rev attrs) name)
           else map_of (rev attrs) name)
      | _ \<Rightarrow> None)"

fun xml_lookup :: "path \<Rightarrow> xml_node \<Rightarrow> string option" where
  "xml_lookup [] e = None"
| "xml_lookup [name] e = xml_value name e"
| "xml_lookup (name # m # p) e =
     (case e of
        XmlElement _ _ children \<Rightarrow>
          (case last_element name children of Some c \<Rightarrow> xml_lookup (m # p) c | None \<Rightarrow> None)
      | _ \<Rightarrow> None)"

definition res_option :: "'a res \<Rightarrow> 'a option" where
  "res_option r = (case r of Inl _ \<Rightarrow> None | Inr x \<Rightarrow> Some x)"

lemma res_option_simps [simp]: "res_option (Inl e) = None" "res_option (Inr x) = Some x"
  by (simp_all add: res_option_def)

lemma populate_children_data [simp]: "tree_data (populate_children ns t) = tree_data t"
proof (induction ns arbitrary: t)
  case (Cons n ns)
  then show ?case by (cases n) (auto simp: dt_set_node_def)
qed simp

lemma populate_children_nodes:
  "result_map (populate_children ns t) name =
     (case last_element name ns of Some e \<Rightarrow> Some (populate_data_from e) | None \<Rightarrow> result_map t name)"
proof (induction ns arbitrary: t)
  case (Cons n ns)
  then show ?case by (cases n) (auto simp: nodes.get_put split: option.split)
qed simp

lemma put_all_dt_set_nodes [simp]: "result_map (put_all dt_set kvs t) = result_map t"
  by (induction kvs arbitrary: t) (auto simp: dt_set_def)

lemma populate_data_value:
  "tree_data (populate_data_from e) name = xml_value name e"
  by (cases e) (auto simp: xml_value_def dt_empty_def vars.get_put vars.get_put_all Let_def
      split: option.split)

lemma populate_data_child:
  "result_map (populate_data_from e) name =
     (case e of XmlElement _ _ ns \<Rightarrow> map_option populate_data_from (last_element name ns) | _ \<Rightarrow> None)"
  by (cases e) (auto simp: dt_empty_def dt_set_def populate_children_nodes Let_def split: option.split)

lemma res_option_dt_get: "res_option (dt_get name t) = tree_data t name"
  by (simp add: dt_get_def split: option.split)

lemma dt_lookup_populate: "res_option (dt_lookup p (populate_data_from e)) = xml_lookup p e"
proof (induction p e rule: xml_lookup.induct)
  case (3 name m p e)
  show ?case
  proof (cases e)
    case (XmlElement nm attrs ns)
    show ?thesis
    proof (cases "last_element name ns")
      case None
      with XmlElement show ?thesis by (simp add: dt_child_def populate_data_child del: populate_data_from.simps)
    next
      case (Some c)
      with XmlElement 3 show ?thesis
        by (simp add: dt_child_def populate_data_child del: populate_data_from.simps)
    qed
  qed (simp_all add: dt_child_def dt_empty_def)
qed (simp_all add: res_option_dt_get populate_data_value)

text \<open>
  C33: reading a path of at least two components from a parsed answer gives what the path means in the
  document: element by element (the last one of a name), then the attribute, or the text when the
  last component is empty; and it fails when the document has no such value.
\<close>

theorem xml_parse_lookup:
  "res_option (dt_lookup (name # m # p) (xml_parse document data)) =
     (case last_element name (document data) of
        Some e \<Rightarrow> xml_lookup (m # p) e
      | None \<Rightarrow> None)"
  by (simp add: xml_parse_def dt_child_def populate_children_nodes dt_empty_def dt_lookup_populate
      split: option.split)

text \<open>
  Two elements of one name: the first one is not readable. An attribute is, also when the text of
  the element is empty.
\<close>

lemma xml_first_sibling_lost:
  "xml_lookup [''a'', ''v''] (XmlElement ''r'' [] [XmlElement ''a'' [(''v'', ''1'')] [], XmlElement ''a'' [] []]) = None"
  by (simp add: xml_value_def)

end
