(* ===== verification/Http_Transport.thy ===== *)
theory Http_Transport
  imports Common_Hooks
begin

text \<open>
  The transport over HTTP (\<open>src/http_transport.cpp\<close>) and its client of the library curl
  (\<open>src/payguide_curl.cpp\<close>). The library is a parameter: a transfer takes the options set on the
  handle and delivers the answer in chunks, by calling back.
\<close>

section \<open>The client\<close>

datatype curl_option =
    SslVerifyPeer | SslVerifyHost | CaInfo | SslKey | SslKeyType | SslKeyPasswd
  | SslCert | SslCertType | SslCertPasswd | NoSignal | Port | Verbose | HttpHeader
  | Post | PostFields | Url | Timeout

datatype curl_value = Flag bool | Number int | Text string | Lines "string list"

datatype key_type = PEM | DER
datatype http_method = POST | GET

text \<open>
  The handle: the calls of \<open>curl_easy_setopt\<close> so far, in order, the header lines and the answer.
\<close>

record curl =
  cu_options :: "(curl_option \<times> curl_value) list"
  cu_slist :: "string list"
  cu_answer :: string

definition setopt :: "curl_option \<Rightarrow> curl_value \<Rightarrow> curl \<Rightarrow> curl" where
  "setopt opt v c = c\<lparr>cu_options := cu_options c @ [(opt, v)]\<rparr>"

definition curl_effective :: "curl_option \<Rightarrow> curl \<Rightarrow> curl_value option" where
  "curl_effective opt c = map_of (rev (cu_options c)) opt"

interpretation curl_options: store curl_effective setopt
  by unfold_locales (simp_all add: curl_effective_def setopt_def)

definition curl_new :: curl where
  "curl_new = setopt SslVerifyHost (Flag False) (setopt SslVerifyPeer (Flag False)
     \<lparr>cu_options = [], cu_slist = [], cu_answer = []\<rparr>)"

definition key_type_string :: "key_type \<Rightarrow> string" where
  "key_type_string k = (case k of PEM \<Rightarrow> ''PEM'' | DER \<Rightarrow> ''DER'')"

definition set_header :: "string \<Rightarrow> curl \<Rightarrow> curl" where
  "set_header header c = c\<lparr>cu_slist := cu_slist c @ [c_str header]\<rparr>"

definition set_server_certificate :: "string \<Rightarrow> curl \<Rightarrow> curl" where
  "set_server_certificate file c =
     setopt CaInfo (Text (c_str file)) (setopt SslVerifyHost (Flag True) (setopt SslVerifyPeer (Flag True) c))"

definition set_client_private_key_pw :: "string \<Rightarrow> string \<Rightarrow> key_type \<Rightarrow> curl \<Rightarrow> curl" where
  "set_client_private_key_pw file pw k c =
     setopt SslKeyPasswd (Text (c_str pw))
       (setopt SslKeyType (Text (key_type_string k)) (setopt SslKey (Text (c_str file)) c))"

definition set_client_private_key :: "string \<Rightarrow> key_type \<Rightarrow> curl \<Rightarrow> curl" where
  "set_client_private_key file k c =
     setopt SslKeyType (Text (key_type_string k)) (setopt SslKey (Text (c_str file)) c)"

definition set_client_certificate_pw :: "string \<Rightarrow> string \<Rightarrow> key_type \<Rightarrow> curl \<Rightarrow> curl" where
  "set_client_certificate_pw file pw k c =
     setopt SslCertPasswd (Text (c_str pw))
       (setopt SslCertType (Text (key_type_string k)) (setopt SslCert (Text (c_str file)) c))"

definition set_client_certificate :: "string \<Rightarrow> key_type \<Rightarrow> curl \<Rightarrow> curl" where
  "set_client_certificate file k c =
     setopt SslCertType (Text (key_type_string k)) (setopt SslCert (Text (c_str file)) c)"

definition set_private_key :: "string \<Rightarrow> key_type \<Rightarrow> curl \<Rightarrow> curl" where
  "set_private_key file k c =
     setopt SslKeyType (Text (key_type_string k)) (setopt SslKey (Text (c_str file)) c)"

definition set_private_key_pw :: "string \<Rightarrow> string \<Rightarrow> key_type \<Rightarrow> curl \<Rightarrow> curl" where
  "set_private_key_pw file pw k c =
     setopt SslKeyPasswd (Text (c_str pw))
       (setopt SslKeyType (Text (key_type_string k)) (setopt SslKey (Text (c_str file)) c))"

text \<open>
  The callback of a transfer: the first chunk creates the buffer, the others are appended. The
  library passes one byte for the size of a member, so a chunk is its characters.
\<close>

definition get_curl_data :: "string \<Rightarrow> string option \<Rightarrow> string option" where
  "get_curl_data chunk buff = (case buff of None \<Rightarrow> Some chunk | Some b \<Rightarrow> Some (b @ chunk))"

text \<open>The options of one request, set before the transfer.\<close>

definition request_options ::
  "string \<Rightarrow> int \<Rightarrow> string \<Rightarrow> http_method \<Rightarrow> int \<Rightarrow> curl \<Rightarrow> curl" where
  "request_options url port data meth timeout c =
     (let c1 = setopt Verbose (Flag True) (setopt Port (Number port) (setopt NoSignal (Number 1) c));
          c2 = (if cu_slist c1 \<noteq> [] then setopt HttpHeader (Lines (cu_slist c1)) c1 else c1);
          (c3, full_url) =
            (case meth of
               POST \<Rightarrow> (setopt PostFields (Text (c_str data)) (setopt Post (Flag True) c2), url)
             | GET \<Rightarrow> (setopt Post (Flag False) c2, url @ data));
          c4 = setopt Url (Text (c_str full_url)) c3
      in if \<not> timeout < 0 then setopt Timeout (Number timeout) c4 else c4)"

type_synonym 'w curl_perform = "(curl_option \<Rightarrow> curl_value option) \<Rightarrow> 'w \<Rightarrow> string list \<times> 'w"

definition send_request ::
  "'w curl_perform \<Rightarrow> string \<Rightarrow> int \<Rightarrow> string \<Rightarrow> http_method \<Rightarrow> int \<Rightarrow> (curl \<times> 'w, bool) prog" where
  "send_request perform url port data meth timeout cw =
     (case cw of (c, w) \<Rightarrow>
        let c1 = request_options url port data meth timeout (c\<lparr>cu_answer := []\<rparr>) in
        (case perform (\<lambda>opt. curl_effective opt c1) w of
           (chunks, w1) \<Rightarrow>
             (case fold get_curl_data chunks None of
                Some buff \<Rightarrow> (Inr True, (c1\<lparr>cu_answer := buff\<rparr>, w1))
              | None \<Rightarrow> (Inl (RuntimeError ''Network error (empty response)''), (c1, w1)))))"

section \<open>The transport\<close>

text \<open>
  \<open>writeImpl\<close>: the two values it needs, then the optional ones, each in a \<open>try\<close> of its own; a key
  or certificate without a password is set without one.
\<close>

definition with_option :: "string \<Rightarrow> data_tree \<Rightarrow> (string \<Rightarrow> curl \<Rightarrow> curl) \<Rightarrow> curl \<Rightarrow> curl" where
  "with_option name cfg f c = (case dt_get name cfg of Inl _ \<Rightarrow> c | Inr v \<Rightarrow> f v c)"

definition with_password ::
  "string \<Rightarrow> data_tree \<Rightarrow> (string \<Rightarrow> curl \<Rightarrow> curl) \<Rightarrow> (curl \<Rightarrow> curl) \<Rightarrow> curl \<Rightarrow> curl" where
  "with_password name cfg f g c = (case dt_get name cfg of Inl _ \<Rightarrow> g c | Inr pw \<Rightarrow> f pw c)"

definition configure_tls :: "data_tree \<Rightarrow> curl \<Rightarrow> curl" where
  "configure_tls cfg c =
     with_option ''private_key'' cfg
       (\<lambda>key. with_password ''private_key_password'' cfg
          (\<lambda>pw. set_private_key_pw key pw PEM) (set_private_key key PEM))
     (with_option ''client_certificate'' cfg
       (\<lambda>cert. with_password ''client_certificate_password'' cfg
          (\<lambda>pw. set_client_certificate_pw cert pw PEM) (set_client_certificate cert PEM))
     (with_option ''client_private_key'' cfg
       (\<lambda>key. with_password ''client_private_key_password'' cfg
          (\<lambda>pw. set_client_private_key_pw key pw PEM) (set_client_private_key key PEM))
     (with_option ''server_certificate'' cfg set_server_certificate c)))"

definition config_or :: "string \<Rightarrow> string \<Rightarrow> data_tree \<Rightarrow> string" where
  "config_or default_value name cfg = (case dt_get name cfg of Inl _ \<Rightarrow> default_value | Inr v \<Rightarrow> v)"

definition http_write_impl ::
  "'w curl_perform \<Rightarrow> data_tree \<Rightarrow> string \<Rightarrow> (curl \<times> 'w, unit) prog" where
  "http_write_impl perform cfg data cw =
     (case cw of (c, w) \<Rightarrow>
        (case bindr (dt_get ''url'' cfg) (\<lambda>url. bindr (dt_get ''port'' cfg) (\<lambda>port. Inr (url, atoi (c_str port)))) of
           Inl e \<Rightarrow> (Inl e, cw)
         | Inr (url, port) \<Rightarrow>
             let timeout = (case dt_get ''timeout'' cfg of Inl _ \<Rightarrow> 30 | Inr v \<Rightarrow> atoi (c_str v));
                 meth = (if config_or ''post'' ''method'' cfg = ''get'' then GET else POST)
             in (case send_request perform url port data meth timeout (configure_tls cfg c, w) of
                   (Inl e, cw1) \<Rightarrow> (Inl e, cw1)
                 | (Inr _, cw1) \<Rightarrow> (Inr (), cw1))))"

definition http_read_impl :: "(curl \<times> 'w, data_tree \<times> string) prog" where
  "http_read_impl cw = (Inr (dt_empty, cu_answer (fst cw)), cw)"

definition http_services :: "'w curl_perform \<Rightarrow> (curl \<times> 'w) services \<Rightarrow> (curl \<times> 'w) services" where
  "http_services perform svc =
     svc\<lparr>sv_transport_write := http_write_impl perform, sv_transport_read := http_read_impl\<rparr>"

section \<open>What a request carries\<close>

lemma get_curl_data_fold: "fold get_curl_data chunks (Some b) = Some (b @ concat chunks)"
  by (induction chunks arbitrary: b) (simp_all add: get_curl_data_def)

lemma get_curl_data_chunks:
  "fold get_curl_data chunks None = (if chunks = [] then None else Some (concat chunks))"
  by (cases chunks) (simp_all add: get_curl_data_def get_curl_data_fold)

lemma request_options_other:
  "opt \<in> {SslVerifyPeer, SslVerifyHost, CaInfo, SslKey, SslKeyType, SslKeyPasswd, SslCert, SslCertType, SslCertPasswd} \<Longrightarrow>
     curl_effective opt (request_options url port data meth timeout c) = curl_effective opt c"
  by (auto simp: request_options_def Let_def curl_options.get_put split: http_method.split)

lemma configure_tls_verify:
  "curl_effective SslVerifyPeer (configure_tls cfg c) =
     (if is_ok (dt_get ''server_certificate'' cfg) then Some (Flag True) else curl_effective SslVerifyPeer c)"
  "curl_effective CaInfo (configure_tls cfg c) =
     (case dt_get ''server_certificate'' cfg of Inr f \<Rightarrow> Some (Text (c_str f)) | Inl _ \<Rightarrow> curl_effective CaInfo c)"
  by (auto simp: configure_tls_def with_option_def with_password_def curl_options.get_put
      set_private_key_def set_private_key_pw_def set_client_certificate_def set_client_certificate_pw_def
      set_client_private_key_def set_client_private_key_pw_def set_server_certificate_def
      split: sum.split)

lemma request_options_set:
  "curl_effective Url (request_options url port data meth timeout c) =
     Some (Text (c_str (if meth = GET then url @ data else url)))"
  "curl_effective Post (request_options url port data meth timeout c) = Some (Flag (meth = POST))"
  "curl_effective Port (request_options url port data meth timeout c) = Some (Number port)"
  "meth = POST \<Longrightarrow> curl_effective PostFields (request_options url port data meth timeout c) =
     Some (Text (c_str data))"
  "0 \<le> timeout \<Longrightarrow> curl_effective Timeout (request_options url port data meth timeout c) =
     Some (Number timeout)"
  by (auto simp: request_options_def Let_def curl_options.get_put split: http_method.split)

lemma setopt_answer [simp]: "cu_answer (setopt opt v c) = cu_answer c"
  by (simp add: setopt_def)

lemma request_options_answer [simp]: "cu_answer (request_options url port data meth timeout c) = cu_answer c"
  by (auto simp: request_options_def Let_def split: http_method.split)

lemma curl_effective_answer [simp]: "curl_effective opt (c\<lparr>cu_answer := a\<rparr>) = curl_effective opt c"
  by (simp add: curl_effective_def)

text \<open>
  What one request of the transport carries and returns, for every configuration with an address
  and a port: the address (with the data behind it for a \<open>get\<close>), the data as the body otherwise, the
  port, the check of the server's certificate when one is configured; the answer is what the library
  delivered, whole and in order, and a transfer that delivers nothing is an error that leaves no
  answer of an earlier request behind.
\<close>

lemma http_request:
  assumes "dt_get ''url'' cfg = Inr url" and "dt_get ''port'' cfg = Inr port"
    and "is_get = (config_or ''post'' ''method'' cfg = ''get'')"
  shows "\<exists>c1. http_write_impl perform cfg data (c, w) =
       (case perform (\<lambda>opt. curl_effective opt c1) w of (chunks, w1) \<Rightarrow>
          if chunks = [] then (Inl (RuntimeError ''Network error (empty response)''), (c1, w1))
          else (Inr (), (c1\<lparr>cu_answer := concat chunks\<rparr>, w1)))
     \<and> cu_answer c1 = []
     \<and> curl_effective Url c1 = Some (Text (c_str (if is_get then url @ data else url)))
     \<and> curl_effective Post c1 = Some (Flag (\<not> is_get))
     \<and> (is_get \<or> curl_effective PostFields c1 = Some (Text (c_str data)))
     \<and> curl_effective Port c1 = Some (Number (atoi (c_str port)))
     \<and> curl_effective SslVerifyPeer c1 =
         (if is_ok (dt_get ''server_certificate'' cfg) then Some (Flag True) else curl_effective SslVerifyPeer c)"
proof -
  let ?timeout = "case dt_get ''timeout'' cfg of Inl _ \<Rightarrow> 30 | Inr v \<Rightarrow> atoi (c_str v)"
  let ?meth = "if is_get then GET else POST"
  let ?c1 = "request_options url (atoi (c_str port)) data ?meth ?timeout ((configure_tls cfg c)\<lparr>cu_answer := []\<rparr>)"
  have "http_write_impl perform cfg data (c, w) =
       (case perform (\<lambda>opt. curl_effective opt ?c1) w of (chunks, w1) \<Rightarrow>
          if chunks = [] then (Inl (RuntimeError ''Network error (empty response)''), (?c1, w1))
          else (Inr (), (?c1\<lparr>cu_answer := concat chunks\<rparr>, w1)))"
    using assms
    by (simp add: http_write_impl_def send_request_def Let_def get_curl_data_chunks split: prod.split)
  then show ?thesis
    by (intro exI [of _ ?c1] conjI)
       (simp_all add: request_options_set request_options_other configure_tls_verify)
qed

lemma http_request_example:
  "\<exists>c1. http_write_impl (\<lambda>opts w. ([''ok'', ''!''], w)) (DataTree Map.empty [''url'' \<mapsto> ''http://h'', ''port'' \<mapsto> ''80''])
       ''<r/>'' (curl_new, ()) = (Inr (), (c1\<lparr>cu_answer := ''ok!''\<rparr>, ()))
     \<and> curl_effective PostFields c1 = Some (Text ''<r/>'')
     \<and> curl_effective Port c1 = Some (Number 80)"
proof -
  let ?cfg = "DataTree Map.empty [''url'' \<mapsto> ''http://h'', ''port'' \<mapsto> ''80'']"
  have "dt_get ''url'' ?cfg = Inr ''http://h''" and "dt_get ''port'' ?cfg = Inr ''80''"
    and m: "False = (config_or ''post'' ''method'' ?cfg = ''get'')"
    by (simp_all add: dt_get_def config_or_def)
  moreover have "atoi (c_str ''80'') = 80" by code_simp
  ultimately show ?thesis
    using http_request [of ?cfg "''http://h''" "''80''" False "\<lambda>opts w. ([''ok'', ''!''], w)" "''<r/>''" curl_new "()"]
    by (auto simp: c_str_def)
qed

text \<open>
  The two settings for a private key write the same option of the library: when both are configured,
  \<open>private_key\<close> replaces \<open>client_private_key\<close>.
\<close>

lemma private_key_overrides:
  assumes "dt_get ''private_key'' cfg = Inr k"
  shows "curl_effective SslKey (configure_tls cfg c) = Some (Text (c_str k))"
  using assms
  by (simp add: configure_tls_def with_option_def with_password_def curl_options.get_put
      set_private_key_def set_private_key_pw_def split: sum.split)

end
