(* ===== verification/Mysql_Connection.thy ===== *)
theory Mysql_Connection
  imports Common_Hooks
begin

text \<open>
  The database behind the hook \<open>db\<close>: the connection several payments share, guarded by a semaphore
  (\<open>src/shared_mysql_connection.cpp\<close>, \<open>include/semaphore_lock.hpp\<close>), and the class that turns the
  exceptions of the client library into those of the engine (\<open>src/db_mysql.cpp\<close>). The client
  library is a parameter.
\<close>

section \<open>State and library\<close>

record 'w mysql_ops =
  my_ping :: "'w \<Rightarrow> bool \<times> 'w"
  my_connect :: "string \<Rightarrow> string \<Rightarrow> string \<Rightarrow> string \<Rightarrow> int \<Rightarrow> ('w, unit) prog"
  my_store :: "string \<Rightarrow> ('w, string list \<times> string list list) prog"
  my_escape :: "string \<Rightarrow> ('w, string) prog"

text \<open>The semaphore's value, whether the connection object exists, and the library's state.\<close>

record 'w shared_connection =
  sc_lock :: nat
  sc_connection :: bool
  sc_world :: 'w

definition shared_connection_new :: "'w \<Rightarrow> 'w shared_connection" where
  "shared_connection_new w = \<lparr>sc_lock = 1, sc_connection = False, sc_world = w\<rparr>"

text \<open>
  \<open>SemaphoreLock\<close>: the constructor waits, the destructor posts, also when an exception passes. A wait
  on a semaphore with value zero does not return: the operation then has no value.
\<close>

type_synonym ('w, 'a) locked = "'w shared_connection \<Rightarrow> ('a res \<times> 'w shared_connection) option"

definition with_lock :: "('w, 'a) locked \<Rightarrow> ('w, 'a) locked" where
  "with_lock m s =
     (case sc_lock s of
        0 \<Rightarrow> None
      | Suc n \<Rightarrow>
          (case m (s\<lparr>sc_lock := n\<rparr>) of
             None \<Rightarrow> None
           | Some (r, t) \<Rightarrow> Some (r, t\<lparr>sc_lock := Suc (sc_lock t)\<rparr>)))"

definition on_library :: "('w, 'a) prog \<Rightarrow> ('w, 'a) locked" where
  "on_library p s = (case p (sc_world s) of (r, w) \<Rightarrow> Some (r, s\<lparr>sc_world := w\<rparr>))"

definition check_connection :: "('w, 'a) locked \<Rightarrow> ('w, 'a) locked" where
  "check_connection m s =
     (if sc_connection s then m s else Some (Inl (RuntimeError ''Not connected''), s))"

section \<open>Operations\<close>

text \<open>One row: the columns in order, a later column of the same name replacing an earlier one.\<close>

definition make_row :: "string list \<Rightarrow> string list \<Rightarrow> db_row" where
  "make_row names vals = put_all (\<lambda>k v row. row(k \<mapsto> v)) (zip names vals) Map.empty"

definition shared_perform_request :: "'w mysql_ops \<Rightarrow> string \<Rightarrow> ('w, db_row list) locked" where
  "shared_perform_request ops request =
     with_lock (check_connection (on_library
       (bindp (my_store ops request) (\<lambda>(names, rows). retp (map (make_row names) rows)))))"


text \<open>One round of the loop in \<open>connect\<close>; a failed connection starts another one.\<close>

definition connect_round ::
  "'w mysql_ops \<Rightarrow> string \<Rightarrow> int \<Rightarrow> string \<Rightarrow> string \<Rightarrow> string \<Rightarrow> ('w, unit) prog" where
  "connect_round ops host port dbname username password w =
     (case my_ping ops w of
        (True, w1) \<Rightarrow> (Inr (), w1)
      | (False, w1) \<Rightarrow>
          my_connect ops (c_str dbname) (c_str host) (c_str username) (c_str password) port w1)"

definition connect_again :: "unit res \<Rightarrow> 'w \<Rightarrow> bool" where
  "connect_again r w = (case r of Inl (MysqlConnectionFailed _) \<Rightarrow> True | _ \<Rightarrow> False)"

definition shared_connect ::
  "'w mysql_ops \<Rightarrow> nat \<Rightarrow> string \<Rightarrow> int \<Rightarrow> string \<Rightarrow> string \<Rightarrow> string \<Rightarrow> ('w, unit) locked" where
  "shared_connect ops n host port dbname username password =
     with_lock (\<lambda>s.
       case repeat_while (connect_round ops host port dbname username password) connect_again n (sc_world s) of
         None \<Rightarrow> None
       | Some (r, w) \<Rightarrow> Some (r, s\<lparr>sc_connection := True, sc_world := w\<rparr>))"

definition shared_disconnect :: "('w, unit) locked" where
  "shared_disconnect s = Some (Inr (), s)"

text \<open>
  \<open>DbMysql\<close>: exceptions derived from \<open>mysqlpp::Exception\<close> become a \<open>DbException\<close>, others pass.
\<close>

definition wrap_mysql :: "('w, 'a) locked \<Rightarrow> ('w, 'a) locked" where
  "wrap_mysql m s =
     (case m s of
        Some (Inl (MysqlError what), t) \<Rightarrow> Some (Inl (DbException (''MySQL error '' @ what)), t)
      | Some (Inl (MysqlConnectionFailed what), t) \<Rightarrow> Some (Inl (DbException (''MySQL error '' @ what)), t)
      | x \<Rightarrow> x)"




definition db_mysql_delete :: "('w, unit) locked" where
  "db_mysql_delete = wrap_mysql shared_disconnect"

section \<open>The lock\<close>






section \<open>Connecting\<close>

text \<open>
  Connecting returns as soon as the server is there: when the connection fails \<open>k\<close> times and then
  succeeds, \<open>k + 1\<close> rounds are enough, the result is success and the statements that follow are no
  longer refused; before that, every statement is refused without reaching the library.
\<close>

lemma connect_retries:
  assumes "sc_lock s = 1" and "\<forall>i < k. \<exists>what. connect_round ops host port dbname username password (ws i) =
             (Inl (MysqlConnectionFailed what), ws (Suc i))"
    and "connect_round ops host port dbname username password (ws k) = (Inr (), w)" and "sc_world s = ws 0"
  shows "shared_connect ops (Suc k) host port dbname username password s =
       Some (Inr (), s\<lparr>sc_connection := True, sc_world := w\<rparr>)
     \<and> (\<not> sc_connection s \<longrightarrow>
          shared_perform_request ops request s = Some (Inl (RuntimeError ''Not connected''), s))"
proof -
  have loop: "j \<le> k \<Longrightarrow> repeat_while (connect_round ops host port dbname username password) connect_again
      (Suc j) (ws (k - j)) = Some (Inr (), w)" for j
  proof (induction j)
    case 0
    with assms(3) show ?case by (simp add: connect_again_def)
  next
    case (Suc j)
    then have "k - Suc j < k" and next_w: "Suc (k - Suc j) = k - j" by simp_all
    with assms(2) obtain what where
      "connect_round ops host port dbname username password (ws (k - Suc j)) =
        (Inl (MysqlConnectionFailed what), ws (k - j))" by metis
    with Suc show ?case by (simp add: connect_again_def)
  qed
  have "repeat_while (connect_round ops host port dbname username password) connect_again
      (Suc k) (sc_world s) = Some (Inr (), w)"
    using loop [of k] assms(4) by simp
  with assms(1) show ?thesis
    by (auto simp: shared_connect_def shared_perform_request_def with_lock_def check_connection_def
        simp del: repeat_while.simps)
qed

text \<open>A server that comes up at the third attempt; the world counts the attempts left.\<close>

definition waking_server :: "nat mysql_ops" where
  "waking_server =
     \<lparr>my_ping = (\<lambda>w. (False, w)),
      my_connect = (\<lambda>d h u p port w. case w of 0 \<Rightarrow> (Inr (), 0)
        | Suc n \<Rightarrow> (Inl (MysqlConnectionFailed ''down''), n)),
      my_store = (\<lambda>s. retp ([], [])), my_escape = retp\<rparr>"

lemma connect_retries_example:
  "shared_connect waking_server 3 ''h'' 3306 ''d'' ''u'' ''p'' (shared_connection_new 2) =
       Some (Inr (), (shared_connection_new 2)\<lparr>sc_connection := True, sc_world := 0\<rparr>)
     \<and> shared_perform_request waking_server ''select 1'' (shared_connection_new 2) =
         Some (Inl (RuntimeError ''Not connected''), shared_connection_new 2)"
proof -
  have r: "connect_round waking_server ''h'' 3306 ''d'' ''u'' ''p'' w =
      (case w of 0 \<Rightarrow> (Inr (), 0) | Suc n \<Rightarrow> (Inl (MysqlConnectionFailed ''down''), n))" for w
    by (simp add: connect_round_def waking_server_def)
  have 1: "\<forall>i < 2. \<exists>what. connect_round waking_server ''h'' 3306 ''d'' ''u'' ''p'' ((\<lambda>i. 2 - i) i) =
      (Inl (MysqlConnectionFailed what), (\<lambda>i. 2 - i) (Suc i))"
    by (simp add: r split: nat.split) presburger
  have 2: "connect_round waking_server ''h'' 3306 ''d'' ''u'' ''p'' ((\<lambda>i. 2 - i) 2) = (Inr (), 0)"
    by (simp add: r)
  show ?thesis
    using connect_retries [OF _ 1 2, of "shared_connection_new 2" "''select 1''"]
    by (simp add: shared_connection_new_def numeral_3_eq_3 numeral_2_eq_2)
qed

text \<open>A server that stays down: no bound on the rounds is enough, and the lock is held all the time.\<close>

lemma connect_never_returns:
  assumes "\<And>w. \<exists>what w1. connect_round ops host port dbname username password w =
     (Inl (MysqlConnectionFailed what), w1)"
  shows "shared_connect ops n host port dbname username password s = None"
proof -
  have "repeat_while (connect_round ops host port dbname username password) connect_again n w = None" for w
  proof (rule repeat_while_diverges [of "\<lambda>_. True"])
    fix u r v
    assume "connect_round ops host port dbname username password u = (r, v)"
    with assms [of u] show "connect_again r v \<and> True" by (auto simp: connect_again_def)
  qed simp
  then show ?thesis by (simp add: shared_connect_def with_lock_def split: nat.split)
qed

section \<open>Rows\<close>

interpretation rows: store "\<lambda>k row. row k" "\<lambda>k v row. row(k \<mapsto> v)"
  by unfold_locales simp_all

text \<open>
  The result of a statement has one row per row of the library, in order, and a field is found
  under its column's name when the names of the columns are distinct.
\<close>

lemma request_rows:
  assumes "my_store ops request (sc_world s) = (Inr (names, rows), w)" and "sc_connection s" and "sc_lock s = 1"
    and "distinct names" and "\<forall>row \<in> set rows. length row = length names"
  shows "\<exists>result. shared_perform_request ops request s = Some (Inr result, s\<lparr>sc_world := w\<rparr>)
     \<and> length result = length rows
     \<and> (\<forall>i < length rows. \<forall>j < length names. (result ! i) (names ! j) = Some (rows ! i ! j))"
proof -
  have row: "make_row names row (names ! j) = Some (row ! j)"
    if "length row = length names" and "j < length names" for row j
  proof -
    have "distinct (map fst (zip names row))" using assms(4) that by simp
    moreover have "(names ! j, row ! j) \<in> set (zip names row)" using that by (auto simp: set_zip)
    ultimately show ?thesis unfolding make_row_def by (rule rows.get_put_all_distinct)
  qed
  have "shared_perform_request ops request s = Some (Inr (map (make_row names) rows), s\<lparr>sc_world := w\<rparr>)"
    using assms(1-3)
    by (simp add: shared_perform_request_def with_lock_def check_connection_def on_library_def prog_simps)
  with row assms(5) show ?thesis by (intro exI [of _ "map (make_row names) rows"]) auto
qed

lemma request_rows_example:
  "\<exists>result. shared_perform_request (waking_server\<lparr>my_store := \<lambda>s. retp ([''stage'', ''kiosk''], [[''1'', ''42'']])\<rparr>)
       ''select'' ((shared_connection_new 0)\<lparr>sc_connection := True\<rparr>) =
         Some (Inr result, (shared_connection_new 0)\<lparr>sc_connection := True, sc_world := 0\<rparr>)
     \<and> (result ! 0) ''kiosk'' = Some ''42''"
  using request_rows [of "waking_server\<lparr>my_store := \<lambda>s. retp ([''stage'', ''kiosk''], [[''1'', ''42'']])\<rparr>"
      "''select''" "(shared_connection_new 0)\<lparr>sc_connection := True\<rparr>" "[''stage'', ''kiosk'']" "[[''1'', ''42'']]" 0]
  by (auto simp: shared_connection_new_def retp_def)

end
