(* ===== verification/Legacy_Base64.thy ===== *)
theory Legacy_Base64
  imports Upgm_Prelude "HOL-Library.Word"
begin

text \<open>
  Base64 in the payment server (\<open>B64encode\<close>, \<open>B64encodeMS\<close> and \<open>B64decode\<close> of
  \<open>legacy/payguide/src/core.cpp\<close>), on bytes of eight bits. Decoding searches the alphabet for every
  character and skips those it does not find, among them the padding.
\<close>

unbundle bit_operations_syntax

section \<open>Encoding\<close>

definition b64_alphabet :: string where
  "b64_alphabet = ''ABCDEFGHIJKLMNOPQRSTUVWXYZabcdefghijklmnopqrstuvwxyz0123456789+/''"

definition b64_char :: "8 word \<Rightarrow> char" where
  "b64_char i = b64_alphabet ! unat i"

text \<open>The indices of the four characters of a group.\<close>

definition b64_first :: "8 word \<Rightarrow> 8 word" where
  "b64_first a = drop_bit 2 a AND 0x3f"

definition b64_second :: "8 word \<Rightarrow> 8 word \<Rightarrow> 8 word" where
  "b64_second a b = (push_bit 4 a AND 0x30) + (drop_bit 4 b AND 0x0f)"

definition b64_third :: "8 word \<Rightarrow> 8 word \<Rightarrow> 8 word" where
  "b64_third b c = (push_bit 2 b AND 0x3c) + (drop_bit 6 c AND 0x03)"

fun b64_encode :: "8 word list \<Rightarrow> string" where
  "b64_encode [] = []"
| "b64_encode [a] = [b64_char (b64_first a), b64_char (push_bit 4 a AND 0x30)] @ ''==''"
| "b64_encode [a, b] =
     [b64_char (b64_first a), b64_char (b64_second a b), b64_char (push_bit 2 b AND 0x3c)] @ ''=''"
| "b64_encode (a # b # c # rest) =
     [b64_char (b64_first a), b64_char (b64_second a b), b64_char (b64_third b c), b64_char (c AND 0x3f)]
       @ b64_encode rest"

text \<open>\<open>B64encodeMS\<close> is a second copy of the same text.\<close>

definition b64_encode_ms :: "8 word list \<Rightarrow> string" where
  "b64_encode_ms input = b64_encode input"

section \<open>Decoding\<close>

type_synonym b64_group = "8 word \<times> 8 word \<times> 8 word"

text \<open>What character number \<open>k\<close> of a group adds when it is number \<open>j\<close> of the alphabet.\<close>

definition b64_update :: "nat \<Rightarrow> 8 word \<Rightarrow> b64_group \<Rightarrow> b64_group" where
  "b64_update k j outb =
     (case outb of (o0, o1, o2) \<Rightarrow>
        if k = 0 then (push_bit 2 j, o1, o2)
        else if k = 1 then (o0 OR drop_bit 6 (push_bit 2 j), push_bit 2 (push_bit 2 j), o2)
        else if k = 2 then (o0, o1 OR drop_bit 4 (push_bit 2 j), push_bit 4 (push_bit 2 j))
        else if k = 3 then (o0, o1, o2 OR j)
        else outb)"

definition b64_decode_char :: "nat \<Rightarrow> char \<Rightarrow> b64_group \<Rightarrow> b64_group" where
  "b64_decode_char k ch outb =
     fold (\<lambda>j outb. if ch = b64_alphabet ! j then b64_update k (word_of_nat j) outb else outb)
       [0..<length b64_alphabet] outb"

fun b64_decode_chars :: "nat \<Rightarrow> string \<Rightarrow> b64_group \<Rightarrow> b64_group" where
  "b64_decode_chars k [] outb = outb"
| "b64_decode_chars k (ch # chs) outb = b64_decode_chars (Suc k) chs (b64_decode_char k ch outb)"

text \<open>
  The loop over the groups, into a buffer of \<open>outmax\<close> bytes: as long as fewer than \<open>outmax\<close> bytes are written, three more are, also
  when there is no room for three; such a write behind the buffer has no value (\<open>None\<close>). \<open>Some None\<close> stands for the result \<open>-1\<close>, and
  otherwise the result is the number of bytes written.
\<close>

function b64_decode_loop :: "int \<Rightarrow> string \<Rightarrow> 8 word list \<Rightarrow> 8 word list option option" where
  "b64_decode_loop outmax input out =
     (if input = [] then Some (Some out)
      else case b64_decode_chars 0 (take 4 input) (0, 0, 0) of
             (o0, o1, o2) \<Rightarrow>
               if \<not> int (length out) < outmax then Some None
               else if outmax < int (length out) + 3 then None
               else b64_decode_loop outmax (drop 4 input) (out @ [o0, o1, o2]))"
  by pat_completeness auto
termination by (relation "measure (\<lambda>(outmax, input, out). length input)") auto

declare b64_decode_loop.simps [simp del]

definition b64_decode :: "string option \<Rightarrow> int \<Rightarrow> 8 word list option option" where
  "b64_decode input outmax =
     (case input of None \<Rightarrow> Some None | Some s \<Rightarrow> b64_decode_loop outmax s [])"

section \<open>Bits\<close>

lemma word8_eqI: "(\<And>n. n < 8 \<Longrightarrow> bit a n = bit b n) \<Longrightarrow> a = (b :: 8 word)"
  by (rule bit_word_eqI) simp

lemma less_8_cases:
  "(n::nat) < 8 \<Longrightarrow> n = 0 \<or> n = 1 \<or> n = 2 \<or> n = 3 \<or> n = 4 \<or> n = 5 \<or> n = 6 \<or> n = 7"
  by arith

lemma word8_disjoint_add:
  "(\<And>n. n < 8 \<Longrightarrow> \<not> bit a n \<or> \<not> bit b n) \<Longrightarrow> a + b = (a OR b :: 8 word)"
proof (rule disjunctive_add)
  fix n assume x: "\<And>n. n < 8 \<Longrightarrow> \<not> bit a n \<or> \<not> bit b n"
  show "\<not> bit a n \<or> \<not> bit b n"
    using x [of n] impossible_bit [of n a] impossible_bit [of n b] by (cases "n < 8") auto
qed

lemmas bits8 = bit_simps numeral_2_eq_2 [symmetric]

lemma b64_second_or: "b64_second a b = (push_bit 4 a AND 0x30) OR (drop_bit 4 b AND 0x0f)"
  unfolding b64_second_def
  by (rule word8_disjoint_add, drule less_8_cases) (auto simp: bits8)

lemma b64_third_or: "b64_third b c = (push_bit 2 b AND 0x3c) OR (drop_bit 6 c AND 0x03)"
  unfolding b64_third_def
  by (rule word8_disjoint_add, drule less_8_cases) (auto simp: bits8)

text \<open>The three bytes put together again from the four indices.\<close>

lemma b64_byte0: "push_bit 2 (b64_first a) OR drop_bit 6 (push_bit 2 (b64_second a b)) = a"
  unfolding b64_second_or b64_first_def
  by (rule word8_eqI, drule less_8_cases) (auto simp: bits8)

lemma b64_byte1: "push_bit 2 (push_bit 2 (b64_second a b)) OR drop_bit 4 (push_bit 2 (b64_third b c)) = b"
  unfolding b64_second_or b64_third_or
  by (rule word8_eqI, drule less_8_cases) (auto simp: bits8)

lemma b64_byte2: "push_bit 4 (push_bit 2 (b64_third b c)) OR (c AND 0x3f) = c"
  unfolding b64_third_or
  by (rule word8_eqI, drule less_8_cases) (auto simp: bits8)

lemma word8_less_64:
  assumes "x AND 0x3f = x"
  shows "unat (x :: 8 word) < 64"
proof -
  have "x \<le> 0x3f" using assms word_and_le1 [of x "0x3f"] by simp
  then show ?thesis by (simp add: word_le_nat_alt)
qed

lemma b64_index_bound:
  "unat (b64_first a) < 64" "unat (b64_second a b) < 64" "unat (b64_third b c) < 64"
  "unat (c AND (0x3f :: 8 word)) < 64" "unat (push_bit 4 a AND (0x30 :: 8 word)) < 64"
  "unat (push_bit 2 a AND (0x3c :: 8 word)) < 64"
  unfolding b64_first_def b64_second_or b64_third_or
  by (rule word8_less_64, rule word8_eqI, drule less_8_cases, auto simp: bits8)+

lemma b64_alphabet_facts: "length b64_alphabet = 64" "distinct b64_alphabet" "CHR ''='' \<notin> set b64_alphabet"
  by (simp_all add: b64_alphabet_def)

lemma fold_if_unique:
  assumes "distinct xs" and "x \<in> set xs" and "\<And>y. y \<in> set xs \<Longrightarrow> P y \<longleftrightarrow> y = x"
  shows "fold (\<lambda>y s. if P y then f y s else s) xs s = f x s"
proof -
  have "\<forall>y \<in> set ys. \<not> P y \<Longrightarrow> fold (\<lambda>y s. if P y then f y s else s) ys s = s" for ys s
    by (induction ys arbitrary: s) auto
  moreover obtain us vs where xs: "xs = us @ x # vs" using assms(2) by (meson split_list)
  moreover have "\<forall>y \<in> set us. \<not> P y" "\<forall>y \<in> set vs. \<not> P y" "P x"
    using assms xs by auto
  ultimately show ?thesis by simp
qed

lemma b64_decode_char_hit:
  assumes "unat i < 64"
  shows "b64_decode_char k (b64_char i) outb = b64_update k i outb"
proof -
  have "b64_decode_char k (b64_char i) outb = b64_update k (word_of_nat (unat i)) outb"
    unfolding b64_decode_char_def b64_char_def
    using assms b64_alphabet_facts
    by (intro fold_if_unique [where f = "\<lambda>j. b64_update k (word_of_nat j)"]) (auto simp: nth_eq_iff_index_eq)
  then show ?thesis by simp
qed

lemma b64_decode_char_miss: "b64_decode_char k (CHR ''='') outb = outb"
proof -
  have "\<forall>j \<in> set js. j < 64 \<Longrightarrow> fold (\<lambda>j outb. if CHR ''='' = b64_alphabet ! j
      then b64_update k (word_of_nat j) outb else outb) js outb = outb" for js outb
    using b64_alphabet_facts by (induction js arbitrary: outb) (auto simp: in_set_conv_nth)
  then show ?thesis by (simp add: b64_decode_char_def b64_alphabet_facts)
qed

lemma b64_decode_group:
  "b64_decode_chars 0 (b64_encode [a]) (0, 0, 0) = (a, 0, 0)"
  "b64_decode_chars 0 (b64_encode [a, b]) (0, 0, 0) = (a, b, 0)"
  "b64_decode_chars 0 [b64_char (b64_first a), b64_char (b64_second a b), b64_char (b64_third b c),
     b64_char (c AND 0x3f)] (0, 0, 0) = (a, b, c)"
proof -
  have second0: "b64_second a 0 = push_bit 4 a AND 0x30" and third0: "b64_third b 0 = push_bit 2 b AND 0x3c"
    for a b by (simp_all add: b64_second_def b64_third_def)
  show "b64_decode_chars 0 [b64_char (b64_first a), b64_char (b64_second a b), b64_char (b64_third b c),
      b64_char (c AND 0x3f)] (0, 0, 0) = (a, b, c)"
    using b64_byte0 b64_byte1 b64_byte2
    by (simp add: b64_decode_char_hit b64_index_bound b64_update_def)
  show "b64_decode_chars 0 (b64_encode [a, b]) (0, 0, 0) = (a, b, 0)"
    using b64_byte0 b64_byte1 [of a b 0] b64_byte2 [of b 0] unfolding third0
    by (simp add: b64_decode_char_hit b64_decode_char_miss b64_index_bound b64_update_def)
  show "b64_decode_chars 0 (b64_encode [a]) (0, 0, 0) = (a, 0, 0)"
    using b64_byte0 [of a 0] b64_byte1 [of a 0 0] unfolding second0
    by (simp add: b64_decode_char_hit b64_decode_char_miss b64_index_bound b64_update_def)
qed

section \<open>The round trip\<close>

text \<open>The bytes with the zeros that fill the last group, and what a buffer of \<open>outmax\<close> bytes that holds \<open>used\<close> makes of them.\<close>

definition b64_padded :: "8 word list \<Rightarrow> 8 word list" where
  "b64_padded bs = bs @ replicate ((3 - length bs mod 3) mod 3) 0"

lemma b64_padded_simps:
  "b64_padded [] = []" "b64_padded [a] = [a, 0, 0]" "b64_padded [a, b] = [a, b, 0]"
  "b64_padded (a # b # c # rest) = a # b # c # b64_padded rest"
  by (simp_all add: b64_padded_def numeral_2_eq_2)

definition b64_into :: "int \<Rightarrow> 8 word list \<Rightarrow> 8 word list \<Rightarrow> 8 word list option option" where
  "b64_into outmax out bs =
     (if bs = [] \<or> int (length out) + int (length (b64_padded bs)) \<le> outmax then Some (Some (out @ b64_padded bs))
      else if outmax \<le> int (length out) \<or> 3 dvd (outmax - int (length out)) then Some None else None)"

lemma b64_into_group:
  assumes "int (length out) + 3 \<le> outmax" "length xs = 3"
  shows "b64_into outmax (out @ xs) bs = b64_into outmax out (xs @ bs)"
proof -
  obtain a b c where xs: "xs = [a, b, c]" using assms(2) by (auto simp: length_Suc_conv numeral_3_eq_3)
  have "3 dvd (outmax - (int (length out) + 3)) \<longleftrightarrow> 3 dvd (outmax - int (length out))" by presburger
  moreover have "bs = [] \<or> 0 < length (b64_padded bs)" by (cases bs) (simp_all add: b64_padded_def)
  moreover have "3 dvd (outmax - int (length out))" if "outmax \<le> int (length out) + 3"
    using that assms(1) by presburger
  ultimately show ?thesis using assms(1)
    by (auto simp: b64_into_def xs b64_padded_simps algebra_simps)
qed

lemma b64_loop_round_trip: "b64_decode_loop outmax (b64_encode bs) out = b64_into outmax out bs"
proof (induction bs arbitrary: out rule: b64_encode.induct)
  case (1 out)
  then show ?case by (simp add: b64_decode_loop.simps b64_into_def b64_padded_simps)
next
  case (2 a out)
  have "int (length out) < outmax \<Longrightarrow> 3 dvd (outmax - int (length out)) \<Longrightarrow> int (length out) + 3 \<le> outmax" by presburger
  then show ?case using b64_decode_group(1) [of a]
    by (auto simp: b64_decode_loop.simps b64_into_def b64_padded_simps)
next
  case (3 a b out)
  have "int (length out) < outmax \<Longrightarrow> 3 dvd (outmax - int (length out)) \<Longrightarrow> int (length out) + 3 \<le> outmax" by presburger
  then show ?case using b64_decode_group(2) [of a b]
    by (auto simp: b64_decode_loop.simps b64_into_def b64_padded_simps)
next
  case (4 a b c rest out)
  have step: "b64_decode_loop outmax (b64_encode (a # b # c # rest)) out =
      (if \<not> int (length out) < outmax then Some None else if outmax < int (length out) + 3 then None
       else b64_decode_loop outmax (b64_encode rest) (out @ [a, b, c]))"
    using b64_decode_group(3) [of a b c] by (simp add: b64_decode_loop.simps [of _ "_ # _"])
  have tight: "outmax < int (length out) + 3 \<Longrightarrow> \<not> outmax \<le> int (length out) \<Longrightarrow> \<not> 3 dvd (outmax - int (length out))" by presburger
  show ?case
  proof (cases "int (length out) + 3 \<le> outmax")
    case True
    then show ?thesis using step "4.IH" [of "out @ [a, b, c]"] b64_into_group [OF True, of "[a, b, c]" rest] by simp
  next
    case False
    then show ?thesis using step tight by (auto simp: b64_into_def b64_padded_simps)
  qed
qed

text \<open>
  C38: every byte string is decoded from its encoding, into any buffer that has room for it and the zeros that fill the last group of
  three: the bytes come back with the zeros, and the result counts them. A buffer without that room gives the result \<open>-1\<close> when its size
  is a multiple of three, and is written over its end when it is not.
\<close>

theorem b64_round_trip:
  "b64_decode (Some (b64_encode bs)) outmax =
     (if bs = [] \<or> int (length (b64_padded bs)) \<le> outmax then Some (Some (b64_padded bs))
      else if outmax \<le> 0 \<or> 3 dvd outmax then Some None else None)
   \<and> (\<exists>k<3. b64_padded bs = bs @ replicate k 0)"
proof -
  have "(3 - length bs mod 3) mod 3 < 3" by simp
  then show ?thesis by (auto simp: b64_decode_def b64_loop_round_trip b64_into_def b64_padded_def)
qed

text \<open>
  The check against the size of the buffer does not count the three bytes that are about to be written: the
  bytes fit, and the padding is written behind the buffer.
\<close>

lemma b64_decode_overruns: "b64_decode (Some (b64_encode [77])) 1 = None"
  using b64_decode_group(1) [of 77] by (simp add: b64_decode_def b64_decode_loop.simps)

end
