(* ===== verification/Legacy_Codecs.thy ===== *)
theory Legacy_Codecs
  imports Legacy_Base64 Payment_Model Cyrillic_Tables
begin

text \<open>
  The other codecs of the payment server (\<open>legacy/payguide/src/core.cpp\<close>): texts in addresses
  (\<open>ConvertToUrlCode\<close>), numbers as short codes (\<open>NumberToHashCode\<close>) and numbers packed two digits to
  a byte (\<open>iso8583_code\<close>, \<open>iso8583_decode\<close>).
\<close>

section \<open>Texts in addresses\<close>

text \<open>\<open>isalnum\<close> of the locale \<open>C\<close>, in which it is false for the negative values of \<open>char\<close>.\<close>

definition is_alnum :: "char \<Rightarrow> bool" where
  "is_alnum c \<longleftrightarrow> (let n = of_char c :: nat in
     (48 \<le> n \<and> n \<le> 57) \<or> (65 \<le> n \<and> n \<le> 90) \<or> (97 \<le> n \<and> n \<le> 122))"

definition signed_char :: "char \<Rightarrow> int" where
  "signed_char c = (let n = of_char c :: nat in if n < 128 then int n else int n - 256)"

text \<open>The characters the code compares with, in order, and the two digits it writes for each.\<close>

definition url_table :: "(char \<times> string) list" where
  "url_table =
     [(CHR 0x0A, ''0A''), (CHR 0x0D, ''0D''), (CHR 0x20, ''20''), (CHR 0x2B, ''2B''),
      (CHR 0x3D, ''3D''), (CHR 0x2F, ''2F''), (CHR 0x2C, ''2C''), (CHR 0x25, ''25''),
      (CHR 0x24, ''24''), (CHR 0x3B, ''3B''), (CHR 0xE1, ''C0''), (CHR 0xE2, ''C1''),
      (CHR 0xF7, ''C2''), (CHR 0xE7, ''C3''), (CHR 0xE4, ''C4''), (CHR 0xE5, ''C5''),
      (CHR 0xB3, ''A8''), (CHR 0xF6, ''C6''), (CHR 0xFA, ''C7''), (CHR 0xE9, ''C8''),
      (CHR 0xEA, ''C9''), (CHR 0xEB, ''CA''), (CHR 0xEC, ''CB''), (CHR 0xED, ''CC''),
      (CHR 0xEE, ''CD''), (CHR 0xEF, ''CE''), (CHR 0xF0, ''CF''), (CHR 0xF2, ''D0''),
      (CHR 0xF3, ''D1''), (CHR 0xF4, ''D2''), (CHR 0xF5, ''D3''), (CHR 0xE6, ''D4''),
      (CHR 0xE8, ''D5''), (CHR 0xE3, ''D6''), (CHR 0xFE, ''D7''), (CHR 0xFB, ''D8''),
      (CHR 0xFD, ''D9''), (CHR 0xFF, ''DA''), (CHR 0xF9, ''DB''), (CHR 0xF8, ''DC''),
      (CHR 0xFC, ''DD''), (CHR 0xE0, ''DE''), (CHR 0xF1, ''DF''), (CHR 0xC1, ''E0''),
      (CHR 0xC2, ''E1''), (CHR 0xD7, ''E2''), (CHR 0xC7, ''E3''), (CHR 0xC4, ''E4''),
      (CHR 0xC5, ''E5''), (CHR 0xA3, ''B8''), (CHR 0xD6, ''E6''), (CHR 0xDA, ''E7''),
      (CHR 0xC9, ''E8''), (CHR 0xCA, ''E9''), (CHR 0xCB, ''EA''), (CHR 0xCC, ''EB''),
      (CHR 0xCD, ''EC''), (CHR 0xCE, ''ED''), (CHR 0xCF, ''EE''), (CHR 0xD0, ''EF''),
      (CHR 0xD2, ''F0''), (CHR 0xD3, ''F1''), (CHR 0xD4, ''F2''), (CHR 0xD5, ''F3''),
      (CHR 0xC6, ''F4''), (CHR 0xC8, ''F5''), (CHR 0xC3, ''F6''), (CHR 0xDE, ''F7''),
      (CHR 0xDB, ''F8''), (CHR 0xDD, ''F9''), (CHR 0xDF, ''FA''), (CHR 0xD9, ''FB''),
      (CHR 0xD8, ''FC''), (CHR 0xDC, ''FD''), (CHR 0xC0, ''FE''), (CHR 0xD1, ''FF'')]"

text \<open>The size of the array the function allocates, and what it writes before the null byte.\<close>

definition url_code_size :: "string \<Rightarrow> nat" where
  "url_code_size message =
     sum_list (map (\<lambda>c. if is_alnum c \<and> signed_char c + 256 < 192 then 1 else 3) message) + 2"

definition url_code_char :: "char \<Rightarrow> string" where
  "url_code_char c =
     (if is_alnum c \<and> signed_char c + 256 < 192 then [c]
      else case map_of url_table c of Some hex \<Rightarrow> CHR ''%'' # hex | None \<Rightarrow> [c])"

definition convert_to_url_code :: "string option \<Rightarrow> string option" where
  "convert_to_url_code message =
     (case message of None \<Rightarrow> None | Some s \<Rightarrow> Some (concat (map url_code_char s)))"

text \<open>How a server reads such a text back.\<close>

definition hex_val :: "char \<Rightarrow> nat" where
  "hex_val c = (if is_digit c then digit_val c else of_char c - 55)"

fun url_decode :: "string \<Rightarrow> string" where
  "url_decode [] = []"
| "url_decode [c] = [c]"
| "url_decode [c, d] = [c, d]"
| "url_decode (c # d # e # s) =
     (if c = CHR ''%'' then char_of (16 * hex_val d + hex_val e) # url_decode s
      else c # url_decode (d # e # s))"

text \<open>What a character means after that: the table applied, other characters as they are.\<close>

definition url_target :: "char \<Rightarrow> char" where
  "url_target c =
     (case map_of url_table c of
        Some hex \<Rightarrow> char_of (16 * hex_val (hex ! 0) + hex_val (hex ! 1)) | None \<Rightarrow> c)"

lemma alnum_positive: "is_alnum c \<Longrightarrow> \<not> signed_char c + 256 < 192"
  by (auto simp: is_alnum_def signed_char_def Let_def)

lemma url_code_char_table:
  "url_code_char c = (case map_of url_table c of Some hex \<Rightarrow> CHR ''%'' # hex | None \<Rightarrow> [c])"
  using alnum_positive [of c] by (auto simp: url_code_char_def)

lemma url_table_pairs: "list_all (\<lambda>(c, hex). length hex = 2) url_table"
  by (simp add: url_table_def)

lemma url_table_length: "map_of url_table c = Some hex \<Longrightarrow> length hex = 2"
  using url_table_pairs by (auto simp: list_all_iff dest: map_of_SomeD)

lemma url_table_percent: "map_of url_table (CHR ''%'') = Some ''25''"
  by (simp add: url_table_def)

lemma url_decode_Cons: "c \<noteq> CHR ''%'' \<Longrightarrow> url_decode (c # s) = c # url_decode s"
  by (cases s rule: remdups_adj.cases) simp_all

lemma url_decode_code: "url_decode (url_code_char c @ s) = url_target c # url_decode s"
proof (cases "map_of url_table c")
  case None
  then have "c \<noteq> CHR ''%''" using url_table_percent by auto
  with None show ?thesis by (simp add: url_code_char_table url_target_def url_decode_Cons)
next
  case (Some hex)
  then have "length hex = 2" by (rule url_table_length)
  then obtain d e where "hex = [d, e]" by (cases hex; cases "tl hex") auto
  with Some show ?thesis by (simp add: url_code_char_table url_target_def)
qed

lemma url_targets_cyrillic:
  "list_all (\<lambda>c. url_target c = convert_char core_koi8r core_win1251 c) core_koi8r"
  by code_simp

lemma url_code_length:
  "length (concat (map url_code_char s)) + 2 \<le> url_code_size s"
proof (induction s)
  case (Cons c s)
  have "length (url_code_char c) \<le> (if is_alnum c \<and> signed_char c + 256 < 192 then 1 else 3)"
    using alnum_positive [of c]
    by (auto simp: url_code_char_table dest: url_table_length split: option.split)
  with Cons show ?case by (simp add: url_code_size_def)
qed (simp add: url_code_size_def)

text \<open>
  A text in KOI8-R put into an address is read back, by a server that undoes the escapes, as the
  text in Windows-1251: no character is lost, the letters are converted as \<open>KOI8RTOWIN1251\<close> converts
  them, and what is written, with its null byte, stays inside the array allocated for it.
\<close>

lemma url_code_decodes:
  "\<exists>answ. convert_to_url_code (Some s) = Some answ \<and> url_decode answ = map url_target s
     \<and> length answ + 1 < url_code_size s
     \<and> (\<forall>c \<in> set core_koi8r. url_target c = convert_char core_koi8r core_win1251 c)"
proof -
  have "url_decode (concat (map url_code_char s)) = map url_target s"
    by (induction s) (simp_all add: url_decode_code)
  then show ?thesis
    using url_code_length [of s] url_targets_cyrillic
    by (simp add: convert_to_url_code_def list_all_iff)
qed

lemma url_code_decodes_example:
  "url_decode (concat (map url_code_char ''a b'')) = ''a b''
     \<and> url_target (CHR 0xC1) = convert_char core_koi8r core_win1251 (CHR 0xC1)"
proof -
  have "CHR 0xC1 \<in> set core_koi8r" by (simp add: core_koi8r_def)
  moreover have "map url_target ''a b'' = ''a b''" by code_simp
  ultimately show ?thesis using url_code_decodes [of "''a b''"] by (auto simp: convert_to_url_code_def)
qed

text \<open>The characters that separate the parts of an address are not escaped.\<close>

lemma url_code_keeps_separators: "convert_to_url_code (Some ''a&b?c#d'') = Some ''a&b?c#d''"
  by code_simp

section \<open>Numbers as short codes\<close>

definition hash_codes :: string where
  "hash_codes = ''QWERTYUIOPASDFGHJKLZXCVBNMqwertyuiopasdfghjklzxcvbnm''"

fun hash_loop :: "string \<Rightarrow> string" where
  "hash_loop [] = []"
| "hash_loop [c] = [c]"
| "hash_loop (c # d # s) =
     (let num = atoi [c] * 10 + atoi [d] in
      if num < 52 then hash_codes ! nat num # hash_loop s else c # hash_loop (d # s))"

definition number_to_hash_code :: "int \<Rightarrow> string" where
  "number_to_hash_code n = hash_loop (snprintf_into 127 (show_int n))"

text \<open>Reading a code back: a letter stands for the two digits of its number.\<close>

definition unhash_char :: "char \<Rightarrow> string" where
  "unhash_char c =
     (case find (\<lambda>i. hash_codes ! i = c) [0..<52] of
        Some i \<Rightarrow> [digit_char (i div 10), digit_char (i mod 10)] | None \<Rightarrow> [c])"

lemma digit_char_of: "d < 10 \<Longrightarrow> digit_char d = char_of (48 + d)"
  by (rule sym, erule less_10_cases) (simp_all add: digit_char_def nth_Cons' char_of_eq_iff)

lemma digit_char_val: "is_digit c \<Longrightarrow> digit_char (digit_val c) = c"
proof -
  assume c: "is_digit c"
  then have "digit_val c < 10" and "48 + digit_val c = (of_char c :: nat)"
    by (auto simp: is_digit_def digit_val_def)
  then show ?thesis by (simp add: digit_char_of)
qed

lemma digit_val_bound: "is_digit c \<Longrightarrow> digit_val c < 10"
  by (auto simp: is_digit_def digit_val_def)

lemma atoi_digit: "is_digit c \<Longrightarrow> atoi [c] = int (digit_val c)"
proof -
  assume c: "is_digit c"
  then have "show_nat (digit_val c) = [c]"
    by (subst show_nat.simps) (simp add: digit_char_val digit_val_bound)
  then show ?thesis using atoi_show_nat [of "digit_val c"] digit_val_bound [OF c] by simp
qed

lemma hash_codes_facts: "length hash_codes = 52" "distinct hash_codes" "list_all (\<lambda>c. \<not> is_digit c) hash_codes"
  by (simp_all add: hash_codes_def is_digit_def)

lemma unhash_letter:
  assumes "i < 52"
  shows "unhash_char (hash_codes ! i) = [digit_char (i div 10), digit_char (i mod 10)]"
proof -
  have "find (\<lambda>j. hash_codes ! j = hash_codes ! i) [0..<52] = Some i"
    using assms hash_codes_facts by (auto simp: find_Some_iff nth_eq_iff_index_eq intro!: exI [of _ i])
  then show ?thesis by (simp add: unhash_char_def)
qed

lemma unhash_digit: "is_digit c \<Longrightarrow> unhash_char c = [c]"
proof -
  assume c: "is_digit c"
  have "find (\<lambda>i. hash_codes ! i = c) [0..<52] = None"
    using c hash_codes_facts by (auto simp: find_None_iff list_all_length)
  then show ?thesis by (simp add: unhash_char_def)
qed

lemma hash_loop_reads_back:
  "\<forall>c \<in> set s. is_digit c \<Longrightarrow> concat (map unhash_char (hash_loop s)) = s"
proof (induction s rule: hash_loop.induct)
  case (2 c)
  then show ?case by (simp add: unhash_digit)
next
  case (3 c d s)
  let ?num = "atoi [c] * 10 + atoi [d]"
  have n: "?num = int (digit_val c * 10 + digit_val d)" using 3 by (simp add: atoi_digit)
  show ?case
  proof (cases "?num < 52")
    case True
    have d: "digit_val d < 10" using 3 digit_val_bound by simp
    have "unhash_char (hash_codes ! nat ?num) = [c, d]"
      using True unhash_letter [of "digit_val c * 10 + digit_val d"] d 3
      unfolding n nat_int by (simp add: digit_char_val)
    with True 3 show ?thesis by (simp add: Let_def)
  next
    case False
    with 3 show ?thesis by (simp add: Let_def unhash_digit)
  qed
qed simp

text \<open>
  The short code of a number that is not negative names the number: putting the digits back for
  the letters gives its decimal digits, so two numbers never share a code.
\<close>

lemma hash_code_reads_back:
  assumes "0 \<le> n" and "in_int64 n"
  shows "concat (map unhash_char (number_to_hash_code n)) = show_int n"
proof -
  have "length (show_int n) \<le> 126" using show_int_length [of 19 n] assms by (simp add: in_int64_def)
  then have "number_to_hash_code n = hash_loop (show_int n)"
    by (simp add: number_to_hash_code_def snprintf_into_def)
  with assms(1) hash_loop_reads_back [of "show_int n"] show_nat_digits show ?thesis
    by (simp add: show_int_def)
qed

lemma hash_code_reads_back_example:
  "concat (map unhash_char (number_to_hash_code 318517290795)) = show_int 318517290795"
  by (rule hash_code_reads_back) (simp_all add: in_int64_def)

text \<open>The sign of a negative number is read as a zero and lost.\<close>

lemma hash_code_drops_sign: "number_to_hash_code (- 5) = hash_loop ''05''"
  by (simp add: number_to_hash_code_def show_int_def show_nat.simps digit_char_def snprintf_into_def Let_def
      atoi_def strtol10_def is_space_def is_digit_def digits_val_def digit_val_def clamp64_def wrap32_def)

section \<open>Numbers packed two digits to a byte\<close>

text \<open>
  The loop of \<open>iso8583_code\<close>: \<open>room\<close> bytes are left, \<open>second\<close> tells which half of the byte \<open>c\<close> comes
  next. A character that is no digit counts as zero.
\<close>

definition iso8583_number :: "char \<Rightarrow> 8 word" where
  "iso8583_number ch = [0x0, 0x1, 0x2, 0x3, 0x4, 0x5, 0x6, 0x7, 0x8, 0x9] ! nat (atoi [ch])"

fun iso8583_loop :: "nat \<Rightarrow> bool \<Rightarrow> 8 word \<Rightarrow> string \<Rightarrow> 8 word list" where
  "iso8583_loop room second c [] = []"
| "iso8583_loop 0 second c (ch # p) = []"
| "iso8583_loop (Suc room) False c (ch # p) = iso8583_loop (Suc room) True (iso8583_number ch) p"
| "iso8583_loop (Suc room) True c (ch # p) =
     (let c' = push_bit 4 c OR iso8583_number ch in c' # iso8583_loop room False c' p)"

definition iso8583_code :: "int \<Rightarrow> int \<Rightarrow> 8 word list" where
  "iso8583_code buff_size number =
     (let tmp = snprintf_into 256 (show_int number) in
      if buff_size \<le> 0 then [] else iso8583_loop (nat buff_size) (odd (length tmp)) 0 tmp)"

text \<open>
  Decoding, for buffers of at most nine bytes: up to there the powers of ten are exact and the sum
  stays inside a \<open>long long\<close>.
\<close>

fun iso8583_decode_loop :: "8 word list \<Rightarrow> int \<Rightarrow> int \<Rightarrow> int" where
  "iso8583_decode_loop [] step result = result"
| "iso8583_decode_loop (c # p) step result =
     (let a = uint (drop_bit 4 c AND 0xF);
          (result1, step1) = (if step \<noteq> 0 then (result + a * 10 ^ nat step, step)
                              else (result + a, if a = 0 then step - 1 else step));
          b = uint (c AND 0xF);
          step2 = step1 - 1
      in iso8583_decode_loop p (step2 - 1) (result1 + b * 10 ^ nat step2))"

definition iso8583_decode :: "8 word list \<Rightarrow> int" where
  "iso8583_decode buff =
     (if buff = [] then 0 else iso8583_decode_loop buff (int (length buff) * 2 - 1) 0)"

lemma iso8583_number_digit:
  "is_digit ch \<Longrightarrow> iso8583_number ch = word_of_nat (digit_val ch)"
  using digit_val_bound [of ch]
  by (auto simp: iso8583_number_def atoi_digit elim: less_10_cases)

lemma iso8583_halves:
  assumes "a < 10" and "b < 10"
  shows "uint (drop_bit 4 (push_bit 4 (word_of_nat a) OR word_of_nat b) AND (0xF :: 8 word)) = int a
     \<and> uint ((push_bit 4 (word_of_nat a) OR word_of_nat b) AND (0xF :: 8 word)) = int b"
  using assms by (elim less_10_cases) simp_all

lemma digits_val_Cons: "digits_val (c # s) = digit_val c * 10 ^ length s + digits_val s"
proof (induction s rule: rev_induct)
  case (snoc x s)
  have "digits_val (c # s @ [x]) = 10 * digits_val (c # s) + digit_val x"
    using digits_val_append [of "c # s" x] by simp
  with snoc show ?case by (simp add: digits_val_append algebra_simps)
qed (simp add: digits_val_def)

lemma iso8583_loop_length:
  "even (length ds) \<Longrightarrow> length ds \<le> 2 * room \<Longrightarrow> length (iso8583_loop room False c ds) = length ds div 2"
proof (induction ds arbitrary: room c rule: induct_list012)
  case (3 x y ds)
  then obtain k where "room = Suc k" by (cases room) auto
  with 3 show ?case by (simp add: Let_def)
qed auto

lemma iso8583_decode_encoded:
  assumes "even (length ds)" and "length ds \<le> 2 * room" and "\<forall>ch \<in> set ds. is_digit ch"
  shows "iso8583_decode_loop (iso8583_loop room False c ds) (int (length ds) - 1) r = r + int (digits_val ds)"
  using assms
proof (induction "length ds" arbitrary: ds room c r rule: less_induct)
  case less
  show ?case
  proof (cases ds rule: remdups_adj.cases)
    case 1
    then show ?thesis by (simp add: digits_val_def)
  next
    case (2 x)
    with less.prems show ?thesis by simp
  next
    case (3 x y rest)
    then obtain k where k: "room = Suc k" using less.prems by (cases room) auto
    have dx: "digit_val x < 10" "digit_val y < 10" "is_digit x" "is_digit y"
      using less.prems 3 digit_val_bound by simp_all
    let ?c = "push_bit 4 (word_of_nat (digit_val x)) OR (word_of_nat (digit_val y) :: 8 word)"
    have loop: "iso8583_loop room False c ds = ?c # iso8583_loop k False ?c rest"
      using 3 k dx by (simp add: iso8583_number_digit Let_def)
    have "iso8583_decode_loop (iso8583_loop room False c ds) (int (length ds) - 1) r =
        iso8583_decode_loop (iso8583_loop k False ?c rest) (int (length rest) - 1)
          (r + int (digit_val x) * 10 ^ (length rest + 1) + int (digit_val y) * 10 ^ length rest)"
      unfolding loop using 3 iso8583_halves [OF dx(1,2)] by (simp add: Let_def nat_add_distrib algebra_simps)
    also have "\<dots> = r + int (digit_val x) * 10 ^ (length rest + 1) + int (digit_val y) * 10 ^ length rest
        + int (digits_val rest)"
      using less.prems 3 k by (intro less.hyps) auto
    finally show ?thesis using 3 by (simp add: digits_val_Cons algebra_simps)
  qed
qed

lemma iso8583_odd:
  assumes "0 < room"
  shows "iso8583_loop room True 0 (ch # p) = iso8583_loop room False c (CHR ''0'' # ch # p)"
proof -
  have "iso8583_number (CHR ''0'') = 0"
    using iso8583_number_digit [of "CHR ''0''"] by (simp add: is_digit_def digit_val_def)
  with assms show ?thesis by (cases room) (simp_all add: Let_def)
qed

text \<open>
  A number that is not negative and has at most eighteen digits is decoded from its packed form,
  in any buffer with a byte for every two digits.
\<close>

lemma iso8583_round_trip:
  assumes "0 \<le> n" and "n < 10 ^ 18" and "9 \<le> buff_size"
  shows "iso8583_decode (iso8583_code buff_size n) = n"
proof -
  let ?s = "show_int n"
  have len: "length ?s \<le> 18" and ne: "?s \<noteq> []"
    using show_nat_length [of 18 "nat n"] assms(1,2) by (simp_all add: show_int_def nat_less_iff)
  have digits: "\<forall>ch \<in> set ?s. is_digit ch" and val: "int (digits_val ?s) = n"
    using assms(1) show_nat_digits by (simp_all add: show_int_def digits_val_show_nat)
  have tmp: "snprintf_into 256 ?s = ?s" using len by (simp add: snprintf_into_def)
  define ds where "ds = (if odd (length ?s) then CHR ''0'' # ?s else ?s)"
  have ev: "even (length ds)" and dsd: "\<forall>ch \<in> set ds. is_digit ch" and dsv: "digits_val ds = digits_val ?s"
    using digits by (auto simp: ds_def digits_val_Cons is_digit_def digit_val_def)
  have dsl: "length ds \<le> 2 * nat buff_size" "ds \<noteq> []"
  proof -
    have "18 \<le> 2 * nat buff_size" using assms(3) by simp
    moreover have "length ds \<le> 18" using len ev by (auto simp: ds_def) presburger
    ultimately show "length ds \<le> 2 * nat buff_size" by simp
    show "ds \<noteq> []" using ne by (simp add: ds_def)
  qed
  have "iso8583_loop (nat buff_size) (odd (length ?s)) 0 ?s = iso8583_loop (nat buff_size) False 0 ds"
    using ne assms(3) by (cases ?s) (auto simp: ds_def iso8583_odd)
  then have code: "iso8583_code buff_size n = iso8583_loop (nat buff_size) False 0 ds"
    using assms(3) by (simp add: iso8583_code_def tmp Let_def)
  have l: "2 * length (iso8583_code buff_size n) = length ds"
    unfolding code using iso8583_loop_length [OF ev dsl(1)] ev by simp
  then have "iso8583_code buff_size n \<noteq> []" using dsl(2) by auto
  moreover have "int (length (iso8583_code buff_size n)) * 2 - 1 = int (length ds) - 1" using l by simp
  ultimately show ?thesis
    using iso8583_decode_encoded [OF ev dsl(1) dsd, of 0 0] val dsv
    by (simp add: iso8583_decode_def code)
qed

lemma iso8583_round_trip_example: "iso8583_decode (iso8583_code 16 1024) = 1024"
  by (rule iso8583_round_trip) simp_all

text \<open>A buffer that is too small drops the last digits without a sign of it.\<close>

lemma iso8583_code_truncates: "iso8583_decode (iso8583_code 1 1234) = 12"
  by code_simp

end
