(* ===== verification/Legacy_Text.thy ===== *)
theory Legacy_Text
  imports Legacy_Codecs Hook_Laws
begin

text \<open>
  Texts and payments in the payment server (\<open>legacy/payguide/src/core.cpp\<close>): the fields of the data
  of a payment (\<open>ParseX$Params\<close>), a value between two tags (\<open>XMLSimpleParse\<close>), signatures
  (\<open>CreateMD5HexSign\<close>) and terminal numbers (\<open>GenerateTerm\<close>).
\<close>

section \<open>Fields of the data\<close>

text \<open>\<open>strstr(data + k, "$")\<close>, as a position in the data.\<close>

definition dollar_from :: "string \<Rightarrow> nat \<Rightarrow> nat option" where
  "dollar_from data k = map_option ((+) k) (find_sub ''$'' (drop k data))"

text \<open>The loop: \<open>m\<close> rounds at most, \<open>c\<close> done, between the last separator and the next.\<close>

fun parse_x_loop ::
  "string \<Rightarrow> nat \<Rightarrow> nat \<Rightarrow> nat \<Rightarrow> nat option \<Rightarrow> nat \<times> nat \<times> nat option" where
  "parse_x_loop data 0 c ptr_prev ptr = (c, ptr_prev, ptr)"
| "parse_x_loop data (Suc m) c ptr_prev None = (c, ptr_prev, None)"
| "parse_x_loop data (Suc m) c ptr_prev (Some p) =
     parse_x_loop data m (Suc c) p (dollar_from data (p + 1))"

definition parse_x_params :: "string option \<Rightarrow> nat \<Rightarrow> string" where
  "parse_x_params data param_num =
     (case data of
        None \<Rightarrow> []
      | Some d \<Rightarrow>
          (case parse_x_loop d param_num 0 0 (dollar_from d 0) of
             (c, ptr_prev, ptr) \<Rightarrow>
               let prev = (if 0 < c then ptr_prev + 1 else ptr_prev) in
               if c \<noteq> param_num then []
               else (case ptr of
                       None \<Rightarrow> drop prev d
                     | Some p \<Rightarrow> take (p - prev) (drop prev d))))"

text \<open>The fields of a text, the empty ones included.\<close>

fun split_on :: "char \<Rightarrow> string \<Rightarrow> string list" where
  "split_on c [] = [[]]"
| "split_on c (x # s) =
     (if x = c then [] # split_on c s
      else case split_on c s of [] \<Rightarrow> [[x]] | f # fs \<Rightarrow> (x # f) # fs)"

lemma split_on_nonempty [simp]: "split_on c s \<noteq> []"
  by (induction s) (auto split: list.split)

lemma split_on_none: "c \<notin> set s \<Longrightarrow> split_on c s = [s]"
  by (induction s) auto

lemma split_on_some: "c \<notin> set s \<Longrightarrow> split_on c (s @ c # r) = s # split_on c r"
  by (induction s) auto

lemma dollar_from_cases:
  assumes "k \<le> length d"
  shows "(dollar_from d k = None \<and> split_on (CHR ''$'') (drop k d) = [drop k d])
     \<or> (\<exists>p. dollar_from d k = Some p \<and> k \<le> p \<and> p < length d
          \<and> split_on (CHR ''$'') (drop k d) = take (p - k) (drop k d) # split_on (CHR ''$'') (drop (p + 1) d))"
proof (cases "find_sub ''$'' (drop k d)")
  case None
  then have "CHR ''$'' \<notin> set (drop k d)" by (rule find_sub_single_None)
  with None show ?thesis by (simp add: dollar_from_def split_on_none)
next
  case (Some n)
  have "CHR ''$'' \<in> set (drop k d)" using Some find_sub_no_single by fastforce
  then obtain a r where ar: "drop k d = a @ CHR ''$'' # r" and a: "CHR ''$'' \<notin> set a"
    by (meson split_list_first)
  have n: "n = length a" using Some a find_sub_single [OF a, of r] ar by simp
  have "drop (k + n + 1) d = r"
  proof -
    have "drop (n + 1) (drop k d) = r" unfolding ar n by simp
    then show ?thesis by (simp add: add.commute add.left_commute)
  qed
  moreover have "k + n < length d"
  proof -
    have "n < length (drop k d)" unfolding ar n by simp
    then show ?thesis by simp
  qed
  ultimately show ?thesis
    using Some ar n split_on_some [OF a, of r] by (intro disjI2 exI [of _ "k + n"]) (simp add: dollar_from_def)
qed

lemma parse_x_loop_fields:
  assumes "start \<le> length d" and "start = (if 0 < c then prev + 1 else prev)"
    and "ptr = dollar_from d start"
  shows "(case parse_x_loop d m c prev ptr of (c', prev', ptr') \<Rightarrow>
            let q = (if 0 < c' then prev' + 1 else prev') in
            if c' \<noteq> c + m then []
            else (case ptr' of None \<Rightarrow> drop q d | Some p \<Rightarrow> take (p - q) (drop q d))) =
         (if m < length (split_on (CHR ''$'') (drop start d))
          then split_on (CHR ''$'') (drop start d) ! m else [])"
  using assms
proof (induction m arbitrary: c prev ptr start)
  case 0
  then show ?case using dollar_from_cases [of start d] by auto
next
  case (Suc m)
  show ?case
  proof (cases ptr)
    case None
    with Suc.prems dollar_from_cases [of start d] show ?thesis by auto
  next
    case (Some p)
    with Suc.prems dollar_from_cases [of start d] have "p + 1 \<le> length d"
      and s: "split_on (CHR ''$'') (drop start d) =
        take (p - start) (drop start d) # split_on (CHR ''$'') (drop (p + 1) d)" by auto
    from Suc.IH [OF this(1), of "Suc c" p "dollar_from d (p + 1)"] Some s show ?thesis by simp
  qed
qed

lemma parse_x_params_field:
  "parse_x_params (Some d) n =
     (if n < length (split_on (CHR ''$'') d) then split_on (CHR ''$'') d ! n else [])"
  using parse_x_loop_fields [of 0 d 0 0 "dollar_from d 0" n] by (simp add: parse_x_params_def)

text \<open>Splitting as the hook \<open>pay\<close> does it leaves out an empty last field only.\<close>

lemma split_from_split_on:
  "split_from [c] d = Some (if last (split_on c d) = [] then butlast (split_on c d) else split_on c d)"
proof (induction d rule: length_induct)
  case (1 d)
  show ?case
  proof (cases "c \<in> set d")
    case True
    then obtain a r where d: "d = a @ c # r" and a: "c \<notin> set a" by (meson split_list_first)
    from 1 d have "split_from [c] r =
        Some (if last (split_on c r) = [] then butlast (split_on c r) else split_on c r)" by simp
    with d a show ?thesis by (simp add: split_from_Cons split_on_some)
  next
    case False
    then show ?thesis by (cases "d = []") (simp_all add: split_from_last split_on_none)
  qed
qed

text \<open>
  C40: the payment server reads the fields of a payment's data between dollar signs: field \<open>n\<close>, or the
  empty text when there are fewer; the hook \<open>pay\<close> of the gateway, configured with the separator
  \<open>$\<close>, gives the same text for every index it accepts.
\<close>

theorem server_and_hook_fields_agree:
  "parse_x_params (Some d) n =
     (if n < length (split_on (CHR ''$'') d) then split_on (CHR ''$'') d ! n else [])
   \<and> (\<forall>parts. array_from_string_with_separators d ''$'' = Some parts \<and> n < length parts \<longrightarrow>
        parts ! n = parse_x_params (Some d) n)"
  by (auto simp: parse_x_params_field array_from_string_with_separators_def split_from_split_on nth_butlast)

theorem server_and_hook_fields_agree_witness:
  "array_from_string_with_separators ''Z1$7926$$x'' ''$'' = Some [''Z1'', ''7926'', [], ''x'']
     \<and> [''Z1'', ''7926'', [], ''x''] ! 3 = parse_x_params (Some ''Z1$7926$$x'') 3"
proof -
  have a: "array_from_string_with_separators ''Z1$7926$$x'' ''$'' = Some [''Z1'', ''7926'', [], ''x'']"
    by (simp add: array_from_string_with_separators_def split_from_split_on)
  with server_and_hook_fields_agree [of "''Z1$7926$$x''" 3] show ?thesis by simp
qed

section \<open>A value between two tags\<close>

definition xml_simple_parse :: "string option \<Rightarrow> string option \<Rightarrow> string option \<Rightarrow> string" where
  "xml_simple_parse text tag_start tag_end =
     (case (text, tag_start, tag_end) of
        (Some t, Some ts, Some te) \<Rightarrow>
          (case find_sub ts t of
             None \<Rightarrow> []
           | Some i \<Rightarrow>
               let rest = drop (i + length ts) t in
               (case find_sub te rest of None \<Rightarrow> [] | Some j \<Rightarrow> take j rest))
      | _ \<Rightarrow> [])"

lemma find_sub_first:
  "c \<notin> set s \<Longrightarrow> find_sub (c # w) (s @ (c # w) @ r) = Some (length s)"
  by (induction s) (auto simp: starts_with_iff)

text \<open>
  The value of the first element is found: with tags that begin with a character that occurs
  neither before the first tag nor in the value, what stands between the tags is returned, whatever
  follows.
\<close>

lemma xml_simple_parse_first:
  assumes "c \<notin> set before" and "c \<notin> set val"
  shows "xml_simple_parse (Some (before @ (c # ts) @ val @ (c # te) @ rest)) (Some (c # ts)) (Some (c # te)) = val"
  using find_sub_first [OF assms(1), of ts "val @ (c # te) @ rest"] find_sub_first [OF assms(2), of te rest]
  by (simp add: xml_simple_parse_def Let_def)

lemma xml_simple_parse_first_example:
  "xml_simple_parse (Some (''x'' @ ''<br>'' @ ''alex'' @ ''</br>'' @ ''<br>vera</br>''))
     (Some ''<br>'') (Some ''</br>'') = ''alex''"
  by (rule xml_simple_parse_first [of "CHR ''<''" "''x''" "''alex''" "''br>''" "''/br>''" "''<br>vera</br>''"]) simp_all

section \<open>Signatures\<close>

text \<open>
  The hexadecimal form of an MD5 digest of sixteen bytes; the digest itself is a parameter. The
  buffer must have room for eight characters per byte although two are written.
\<close>

definition hex_digit :: "nat \<Rightarrow> char" where
  "hex_digit n = ''0123456789abcdef'' ! n"

definition hex_byte :: "8 word \<Rightarrow> string" where
  "hex_byte b = [hex_digit (unat b div 16), hex_digit (unat b mod 16)]"

definition create_md5_hex_sign ::
  "(string \<Rightarrow> 8 word list) \<Rightarrow> string \<Rightarrow> int \<Rightarrow> string option" where
  "create_md5_hex_sign md5 txt buff_size =
     (if buff_size < 16 * 8 + 1 then None else Some (concat (map hex_byte (md5 txt))))"

definition hex_digit_val :: "char \<Rightarrow> nat" where
  "hex_digit_val c = (if is_digit c then digit_val c else of_char c - 87)"

fun unhex :: "string \<Rightarrow> 8 word list" where
  "unhex (a # b # s) = word_of_nat (16 * hex_digit_val a + hex_digit_val b) # unhex s"
| "unhex _ = []"

lemma hex_digit_val_hex_digit: "n < 16 \<Longrightarrow> hex_digit_val (hex_digit n) = n"
proof -
  have "list_all (\<lambda>n. hex_digit_val (hex_digit n) = n) [0..<16]" by code_simp
  then show "n < 16 \<Longrightarrow> ?thesis" by (simp add: list_all_iff)
qed

lemma unhex_hex: "unhex (concat (map hex_byte bs)) = bs"
proof (induction bs)
  case (Cons b bs)
  have "unat b < 2 ^ LENGTH(8)" by (rule unsigned_less)
  then have "unat b < 256" by simp
  then have "unat b div 16 < 16" by (simp add: less_mult_imp_div_less)
  then have "16 * hex_digit_val (hex_digit (unat b div 16)) + hex_digit_val (hex_digit (unat b mod 16)) = unat b"
    by (simp add: hex_digit_val_hex_digit)
  with Cons show ?case by (simp add: hex_byte_def)
qed simp

text \<open>
  A signature is the digest, written in hexadecimal digits: it has two characters per byte and
  the digest is read back from it; the buffer is refused exactly when it is smaller than 129.
\<close>

lemma md5_sign_names_digest:
  assumes "length (md5 txt) = 16"
  shows "case create_md5_hex_sign md5 txt buff_size of
       None \<Rightarrow> buff_size < 129
     | Some sign \<Rightarrow> 129 \<le> buff_size \<and> length sign = 32 \<and> unhex sign = md5 txt"
proof -
  have "length (concat (map hex_byte bs)) = 2 * length bs" for bs
    by (induction bs) (simp_all add: hex_byte_def)
  then show ?thesis using assms by (simp add: create_md5_hex_sign_def unhex_hex)
qed

lemma md5_sign_names_digest_example:
  "create_md5_hex_sign (\<lambda>_. replicate 16 0xAB) ''x'' 200 \<noteq> None
     \<and> (case create_md5_hex_sign (\<lambda>_. replicate 16 0xAB) ''x'' 200 of
       None \<Rightarrow> (200::int) < 129
     | Some sign \<Rightarrow> 129 \<le> (200::int) \<and> length sign = 32 \<and> unhex sign = replicate 16 0xAB)"
  using md5_sign_names_digest [of "\<lambda>_. replicate 16 0xAB" "''x''" 200]
  by (simp add: create_md5_hex_sign_def)

section \<open>Terminal numbers\<close>

text \<open>\<open>rand()\<close> is a parameter, at least zero.\<close>

definition generate_term :: "int \<Rightarrow> int \<Rightarrow> int \<Rightarrow> string" where
  "generate_term rnd start end =
     (if 1 < end - start then snprintf_into 511 (show_int (start + rnd mod \<bar>end - start - 1\<bar> + 1))
      else snprintf_into 511 (show_int start))"

text \<open>
  A generated terminal number lies strictly inside its range, when the range has a number inside;
  every number inside is possible; otherwise it is the start of the range.
\<close>

lemma generate_term_in_range:
  assumes "in_int32 start" and "in_int32 end"
  shows "(1 < end - start \<longrightarrow>
            (\<forall>rnd. 0 \<le> rnd \<longrightarrow> start < atoi (generate_term rnd start end) \<and> atoi (generate_term rnd start end) < end)
          \<and> (\<forall>v. start < v \<and> v < end \<longrightarrow> (\<exists>rnd \<ge> 0. generate_term rnd start end = show_int v)))
     \<and> (end - start \<le> 1 \<longrightarrow> generate_term rnd start end = show_int start)"
proof -
  have exact: "snprintf_into 511 (show_int v) = show_int v" if "in_int32 v" for v
    using show_int_length [of 10 v] that by (simp add: snprintf_into_def in_int32_def)
  have inside: "start < start + r mod \<bar>end - start - 1\<bar> + 1 \<and> start + r mod \<bar>end - start - 1\<bar> + 1 < end"
    if "1 < end - start" for r
  proof -
    from that have "0 < \<bar>end - start - 1\<bar>" by simp
    then have "0 \<le> r mod \<bar>end - start - 1\<bar>" and "r mod \<bar>end - start - 1\<bar> < \<bar>end - start - 1\<bar>" by simp_all
    with that show ?thesis by linarith
  qed
  have between: "in_int32 v" if "start < v" "v < end" for v
    using assms that by (simp add: in_int32_def)
  have 1: "start < atoi (generate_term r start end) \<and> atoi (generate_term r start end) < end"
    if "1 < end - start" for r
    using inside [OF that, of r] between that
    by (simp add: generate_term_def exact atoi_show_int)
  have 2: "\<exists>r \<ge> 0. generate_term r start end = show_int v" if "1 < end - start" "start < v" "v < end" for v
  proof (intro exI conjI)
    show "0 \<le> v - start - 1" using that by simp
    have "(v - start - 1) mod \<bar>end - start - 1\<bar> = v - start - 1" using that by (simp add: mod_pos_pos_trivial)
    then show "generate_term (v - start - 1) start end = show_int v"
      using that between by (simp add: generate_term_def exact)
  qed
  show ?thesis using 1 2 assms by (auto simp: generate_term_def exact)
qed

lemma generate_term_in_range_example:
  "10 < atoi (generate_term 12345 10 20) \<and> atoi (generate_term 12345 10 20) < 20"
  using generate_term_in_range [of 10 20] by (simp add: in_int32_def)

section \<open>Transfers\<close>

text \<open>\<open>GetCurlData\<close> of the server: chunks of a transfer collected as text.\<close>

definition server_curl_data :: "string \<Rightarrow> string option \<Rightarrow> string option" where
  "server_curl_data chunk buff =
     (case buff of None \<Rightarrow> Some (strncpy (length chunk) chunk) | Some b \<Rightarrow> Some (b @ strncpy (length chunk) chunk))"

end
