(* ===== verification/Legacy_Query.thy ===== *)
theory Legacy_Query
  imports Upgm_Prelude
begin

text \<open>
  Statements of the payment server (\<open>my_db_query\<close>, \<open>RestoreSQLConnection\<close> and
  \<open>my_simple_db_query\<close> of \<open>legacy/payguide/src/core.cpp\<close>): a statement is repeated over a restored
  connection until it succeeds. The client library is a parameter.
\<close>

section \<open>Library and codes\<close>

record 'w sql_ops =
  sq_query :: "string \<Rightarrow> 'w \<Rightarrow> int \<times> 'w"
  sq_errno :: "'w \<Rightarrow> int"
  sq_close :: "'w \<Rightarrow> 'w"
  sq_init :: "'w \<Rightarrow> 'w"
  sq_connect :: "string \<Rightarrow> string \<Rightarrow> string \<Rightarrow> string \<Rightarrow> 'w \<Rightarrow> bool \<times> 'w"
  sq_ping :: "'w \<Rightarrow> 'w"

text \<open>The error codes of the library the code names.\<close>

record sql_codes =
  er_parse_error :: int
  er_bad_field_error :: int
  er_empty_query :: int
  er_no_such_table :: int
  er_dup_entry :: int
  cr_server_gone_error :: int
  cr_server_lost :: int

text \<open>What a call ends with: a result code, or the end of the process.\<close>

datatype query_end = Returned int | Shutdown

section \<open>Operations\<close>

definition restore_sql_connection ::
  "'w sql_ops \<Rightarrow> string \<Rightarrow> string \<Rightarrow> string \<Rightarrow> string \<Rightarrow> 'w \<Rightarrow> int \<times> 'w" where
  "restore_sql_connection ops host user password db_name w =
     (case sq_connect ops host user password db_name (sq_init ops (sq_close ops w)) of
        (ok, w1) \<Rightarrow> (if ok then 0 else - 1, w1))"

definition restore_again :: "int \<Rightarrow> 'w \<Rightarrow> bool" where
  "restore_again r w \<longleftrightarrow> r \<noteq> 0"

text \<open>
  One round of the outer loop: restore the connection (at most \<open>n\<close> attempts in the model), set the
  encoding, repeat the statement. The error is that of the first of the two that fails.
\<close>

definition retry_query ::
  "'w sql_ops \<Rightarrow> nat \<Rightarrow> string \<Rightarrow> string \<Rightarrow> string \<Rightarrow> string \<Rightarrow> string \<Rightarrow> 'w \<Rightarrow> int option \<times> 'w" where
  "retry_query ops n query host user password db_name w =
     (case repeat_while (restore_sql_connection ops host user password db_name) restore_again n w of
        None \<Rightarrow> (None, w)
      | Some (_, w1) \<Rightarrow>
          (case sq_query ops ''set names koi8r'' w1 of
             (err, w2) \<Rightarrow>
               if err = 0 then (case sq_query ops query w2 of (err2, w3) \<Rightarrow> (Some err2, w3))
               else (Some err, w2)))"

definition retry_again :: "int option \<Rightarrow> 'w \<Rightarrow> bool" where
  "retry_again r w \<longleftrightarrow> (\<exists>err. r = Some err \<and> err \<noteq> 0)"

lemma retry_again_code [code, simp]: "retry_again r w = (case r of None \<Rightarrow> False | Some err \<Rightarrow> err \<noteq> 0)"
  by (simp add: retry_again_def split: option.split)

text \<open>\<open>my_db_query\<close> with a bound \<open>n\<close> on both loops; the null pointers are \<open>None\<close>.\<close>

definition my_db_query ::
  "'w sql_ops \<Rightarrow> sql_codes \<Rightarrow> nat \<Rightarrow> bool \<Rightarrow> string option \<Rightarrow> string \<Rightarrow> string \<Rightarrow> string \<Rightarrow> string
    \<Rightarrow> 'w \<Rightarrow> (query_end \<times> 'w) option" where
  "my_db_query ops codes n connected query host user password db_name w =
     (case query of
        None \<Rightarrow> Some (Returned (- 1), w)
      | Some q \<Rightarrow>
          if \<not> connected then Some (Returned (- 1), w)
          else (case sq_query ops q w of (err, w1) \<Rightarrow>
            if err = 0 then Some (Returned 0, w1)
            else let sql_err = sq_errno ops w1 in
              if sql_err \<in> {er_parse_error codes, er_bad_field_error codes, er_empty_query codes, er_no_such_table codes}
              then Some (Shutdown, w1)
              else if sql_err = er_dup_entry codes then Some (Returned sql_err, w1)
              else (case repeat_while (retry_query ops n q host user password db_name) retry_again n w1 of
                      Some (Some _, w2) \<Rightarrow> Some (Returned 0, w2)
                    | _ \<Rightarrow> None)))"

definition my_simple_db_query ::
  "'w sql_ops \<Rightarrow> sql_codes \<Rightarrow> bool \<Rightarrow> string option \<Rightarrow> 'w \<Rightarrow> int \<times> 'w" where
  "my_simple_db_query ops codes connected query w =
     (case query of
        None \<Rightarrow> (- 1, w)
      | Some q \<Rightarrow>
          if \<not> connected then (- 1, w)
          else (case sq_query ops q w of (err, w1) \<Rightarrow>
            if err \<noteq> 0 then
              (let sql_err = sq_errno ops w1 in
               if sql_err = cr_server_gone_error codes \<or> sql_err = cr_server_lost codes
               then sq_query ops q (sq_ping ops w1) else (err, w1))
            else (err, w1)))"

section \<open>What a returned statement has done\<close>

text \<open>
  C39: when a call returns success, the statement was executed without error, at once or over a
  restored connection after \<open>set names\<close>, and the state is the one that execution left: a statement is
  never given up and never reported as done without having been done.
\<close>

theorem query_success_executed:
  assumes "my_db_query ops codes n True (Some q) host user password db_name w = Some (Returned 0, w')"
    and "er_dup_entry codes \<noteq> 0"
  shows "\<exists>u. sq_query ops q u = (0, w')
     \<and> (u = w \<or> (\<exists>v. sq_query ops ''set names koi8r'' v = (0, u)
          \<and> (\<exists>x. restore_sql_connection ops host user password db_name x = (0, v))))"
proof -
  obtain err w1 where q1: "sq_query ops q w = (err, w1)" by fastforce
  show ?thesis
  proof (cases "err = 0")
    case True
    with q1 assms(1) show ?thesis by (auto simp: my_db_query_def)
  next
    case False
    then have "\<exists>e. repeat_while (retry_query ops n q host user password db_name) retry_again n w1 = Some (Some e, w')"
      using assms q1
      by (auto simp: my_db_query_def Let_def split: if_splits option.splits)
    then obtain e where "repeat_while (retry_query ops n q host user password db_name) retry_again n w1 = Some (Some e, w')"
      by blast
    from repeat_while_stops [OF this] obtain u where e: "e = 0"
      and r: "retry_query ops n q host user password db_name u = (Some 0, w')" by auto
    then obtain r0 v where restore: "repeat_while (restore_sql_connection ops host user password db_name) restore_again n u = Some (r0, v)"
      by (auto simp: retry_query_def split: option.splits prod.splits)
    from repeat_while_stops [OF restore] obtain x where "restore_sql_connection ops host user password db_name x = (0, v)"
      by (auto simp: restore_again_def)
    moreover from r restore obtain w2 where "sq_query ops ''set names koi8r'' v = (0, w2)"
      and "sq_query ops q w2 = (0, w')"
      by (auto simp: retry_query_def split: prod.splits if_splits)
    ultimately show ?thesis by blast
  qed
qed

text \<open>A server whose first statement fails because the connection is lost.\<close>

definition lossy_server :: "nat sql_ops" where
  "lossy_server =
     \<lparr>sq_query = (\<lambda>q w. case w of 0 \<Rightarrow> (1, 1) | _ \<Rightarrow> (0, Suc w)), sq_errno = (\<lambda>w. 2013),
      sq_close = (\<lambda>w. w), sq_init = (\<lambda>w. w), sq_connect = (\<lambda>h u p d w. (True, w)), sq_ping = (\<lambda>w. w)\<rparr>"

definition mysql_codes :: sql_codes where
  "mysql_codes = \<lparr>er_parse_error = 1064, er_bad_field_error = 1054, er_empty_query = 1065,
     er_no_such_table = 1146, er_dup_entry = 1062, cr_server_gone_error = 2006, cr_server_lost = 2013\<rparr>"

lemma lossy_query:
  "my_db_query lossy_server mysql_codes 2 True (Some ''update'') ''h'' ''u'' ''p'' ''d'' 0 = Some (Returned 0, 3)"
  by code_simp

theorem query_success_executed_witness:
  "\<exists>u. sq_query lossy_server ''update'' u = (0, 3)
     \<and> (u = 0 \<or> (\<exists>v. sq_query lossy_server ''set names koi8r'' v = (0, u)
          \<and> (\<exists>x. restore_sql_connection lossy_server ''h'' ''u'' ''p'' ''d'' x = (0, v))))"
  using query_success_executed [OF lossy_query] by (simp add: mysql_codes_def)

text \<open>
  The errors that end the process or the call are looked at after the first execution only: a
  statement that fails for a reason of its own once the connection is restored, for instance an
  insertion that was executed before the connection broke and is now a duplicate, is repeated for
  ever.
\<close>

lemma retried_failure_never_returns:
  assumes "sq_query ops q w = (err, w1)" and "err \<noteq> 0"
    and "sq_errno ops w1 \<notin> {er_parse_error codes, er_bad_field_error codes, er_empty_query codes,
           er_no_such_table codes, er_dup_entry codes}"
    and "\<And>u. fst (restore_sql_connection ops host user password db_name u) = 0"
    and "\<And>u. fst (sq_query ops ''set names koi8r'' u) = 0" and "\<And>u. fst (sq_query ops q u) \<noteq> 0"
  shows "my_db_query ops codes (Suc n) True (Some q) host user password db_name w = None"
proof -
  have "retry_again r v" if "retry_query ops (Suc n) q host user password db_name u = (r, v)" for u r v
  proof -
    obtain v1 where 1: "restore_sql_connection ops host user password db_name u = (0, v1)"
      using assms(4) by (metis prod.collapse)
    obtain v2 where 2: "sq_query ops ''set names koi8r'' v1 = (0, v2)"
      using assms(5) by (metis prod.collapse)
    obtain e v3 where 3: "sq_query ops q v2 = (e, v3)" by fastforce
    then have "e \<noteq> 0" using assms(6) [of v2] by simp
    with that 1 2 3 show ?thesis by (auto simp: retry_query_def restore_again_def)
  qed
  then have "repeat_while (retry_query ops (Suc n) q host user password db_name) retry_again (Suc n) w1 = None"
    by (intro repeat_while_diverges [of "\<lambda>_. True"]) auto
  with assms(1-3) show ?thesis by (simp add: my_db_query_def del: repeat_while.simps)
qed

end
