(* ===== verification/Server_Config.thy ===== *)
theory Server_Config
  imports Payment_Model
begin

text \<open>
  The configuration files of the payment server (\<open>legacy/payguide/src/parser.h\<close>, \<open>parser.cpp\<close>): an
  older language than that of the gateway, with its own parser. The parser works with pointers into
  a buffer that has no null byte at its end; positions are offsets here, \<open>-1\<close> the null pointer, and an
  access outside the buffer has no value.
\<close>

section \<open>State\<close>

record config_element =
  ce_section :: "string option"
  ce_param :: string
  ce_value :: string

type_synonym server_config = "config_element list"

record server_scan =
  ss_new_line :: bool
  ss_section_mode :: bool
  ss_comment_mode :: bool
  ss_paramstart :: int
  ss_paramsize :: int
  ss_valuestart :: int
  ss_sectionstart :: int
  ss_sectionsize :: int
  ss_node :: server_config

definition server_scan_new :: "server_config \<Rightarrow> server_scan" where
  "server_scan_new nodes = \<lparr>ss_new_line = True, ss_section_mode = False, ss_comment_mode = False,
     ss_paramstart = 0, ss_paramsize = 0, ss_valuestart = - 1, ss_sectionstart = 0, ss_sectionsize = 0,
     ss_node = nodes\<rparr>"

section \<open>Parsing\<close>

text \<open>
  \<open>strncpy\<close> of \<open>n\<close> characters from a position: up to a null byte, and undefined when it reads behind
  the end of the buffer or the size has become negative.
\<close>

definition copy_chars :: "string \<Rightarrow> int \<Rightarrow> int \<Rightarrow> string option" where
  "copy_chars buffer start n =
     (if 0 \<le> start \<and> 0 \<le> n \<and> start + n \<le> int (length buffer)
      then Some (c_str (take (nat n) (drop (nat start) buffer))) else None)"

text \<open>The loops that skip line breaks at the start of a section name or a parameter name.\<close>

definition skip_breaks :: "string \<Rightarrow> int \<Rightarrow> int \<Rightarrow> (int \<times> int) option" where
  "skip_breaks buffer start n =
     (if 0 \<le> start \<and> start \<le> int (length buffer) then
        let rest = drop (nat start) buffer; k = int (length (takeWhile (\<lambda>c. c = CHR 0x0A) rest)) in
        if start + k < int (length buffer) then Some (start + k, n - k) else None
      else None)"

definition store_entry :: "string \<Rightarrow> int \<Rightarrow> server_scan \<Rightarrow> server_scan option" where
  "store_entry buffer ptr st =
     Option.bind (if ss_sectionsize st \<noteq> 0
                  then skip_breaks buffer (ss_sectionstart st) (ss_sectionsize st)
                  else Some (ss_sectionstart st, 0)) (\<lambda>(sstart, ssize).
     Option.bind (if ss_sectionsize st \<noteq> 0
                  then map_option Some (copy_chars buffer sstart ssize) else Some None) (\<lambda>sec.
     Option.bind (skip_breaks buffer (ss_paramstart st) (ss_paramsize st)) (\<lambda>(pstart, psize).
     Option.bind (copy_chars buffer pstart psize) (\<lambda>param.
     Option.bind (copy_chars buffer (ss_valuestart st) (ptr - ss_valuestart st)) (\<lambda>val.
       Some (st\<lparr>ss_sectionstart := sstart, ss_sectionsize := ssize,
                ss_node := ss_node st @ [\<lparr>ce_section = (if sec = Some ''end'' then None else sec),
                                          ce_param = param, ce_value = val\<rparr>]\<rparr>))))))"

text \<open>The first branch of the loop body: the end of a line, of a section name or of the buffer.\<close>

definition server_line_start :: "int \<Rightarrow> char \<Rightarrow> server_scan \<Rightarrow> server_scan" where
  "server_line_start ptr chr st =
     (let st1 = (if chr = CHR '']'' then
                   st\<lparr>ss_paramstart := ptr + 2,
                      ss_sectionsize := (if ss_section_mode st then ptr - ss_sectionstart st
                                         else ss_sectionsize st)\<rparr>
                 else st)
      in if chr = CHR 0x0A then
           st1\<lparr>ss_new_line := True, ss_section_mode := False, ss_comment_mode := False\<rparr>
         else st1\<lparr>ss_new_line := False\<rparr>)"

definition server_line_end :: "string \<Rightarrow> int \<Rightarrow> server_scan \<Rightarrow> server_scan option" where
  "server_line_end buffer ptr st =
     map_option (\<lambda>st1. st1\<lparr>ss_paramstart := ptr + 1, ss_paramsize := 0, ss_valuestart := ptr + 1\<rparr>)
       (if ss_paramstart st < ss_valuestart st then store_entry buffer ptr st else Some st)"

definition server_step :: "string \<Rightarrow> int \<Rightarrow> char option \<Rightarrow> server_scan \<Rightarrow> server_scan option" where
  "server_step buffer ptr chr_opt st =
     (case chr_opt of
        None \<Rightarrow> server_line_end buffer ptr st
      | Some chr \<Rightarrow>
          if chr = CHR 0x0A \<or> (ss_section_mode st \<and> chr = CHR '']'') then
            (let st1 = server_line_start ptr chr st in
             if ss_paramsize st1 = 0 \<or> ss_comment_mode st1 then
               Some (st1\<lparr>ss_paramstart := ptr + 1, ss_paramsize := 0\<rparr>)
             else server_line_end buffer ptr st1)
          else if chr = CHR ''='' \<and> ss_paramsize st = 0 then
            Some (st\<lparr>ss_paramsize := ptr - ss_paramstart st, ss_valuestart := ptr + 1\<rparr>)
          else if chr = CHR ''#'' \<and> ss_new_line st then Some (st\<lparr>ss_comment_mode := True\<rparr>)
          else if chr = CHR ''['' then Some (st\<lparr>ss_section_mode := True, ss_sectionstart := ptr + 1\<rparr>)
          else Some st)"

text \<open>\<open>while (ptr - buffer <= size)\<close>: every character, then once at the end.\<close>

fun server_loop :: "string \<Rightarrow> int \<Rightarrow> string \<Rightarrow> server_scan \<Rightarrow> server_scan option" where
  "server_loop buffer ptr [] st = server_step buffer ptr None st"
| "server_loop buffer ptr (chr # rest) st =
     Option.bind (server_step buffer ptr (Some chr) st) (server_loop buffer (ptr + 1) rest)"

definition parse_buffer :: "string \<Rightarrow> server_config \<Rightarrow> server_config option" where
  "parse_buffer buffer nodes =
     map_option ss_node (server_loop buffer 0 buffer (server_scan_new nodes))"

text \<open>
  Reading a file: \<open>-1\<close> when it cannot be opened, is empty or larger than 100 kilobytes; the entries
  read before are gone in any case. The outer option is the one of the parser.
\<close>

definition read_file :: "string option \<Rightarrow> (int \<times> server_config) option" where
  "read_file contents =
     (case contents of
        None \<Rightarrow> Some (- 1, [])
      | Some buffer \<Rightarrow>
          if 100 * 1024 < length buffer \<or> buffer = [] then Some (- 1, [])
          else map_option (\<lambda>nodes. (0, nodes)) (parse_buffer buffer []))"

section \<open>Entries\<close>

definition element_matches :: "string \<Rightarrow> string option \<Rightarrow> config_element \<Rightarrow> bool" where
  "element_matches aparam sec n =
     (case (sec, ce_section n) of
        (Some s, Some t) \<Rightarrow> aparam = ce_param n \<and> s = t
      | (Some _, None) \<Rightarrow> False
      | (None, Some _) \<Rightarrow> False
      | (None, None) \<Rightarrow> aparam = ce_param n)"

fun get_value :: "string \<Rightarrow> string option \<Rightarrow> server_config \<Rightarrow> string option" where
  "get_value aparam sec [] = None"
| "get_value aparam sec (n # ns) =
     (if element_matches aparam sec n then Some (ce_value n) else get_value aparam sec ns)"

fun set_value :: "string \<Rightarrow> string option \<Rightarrow> string \<Rightarrow> server_config \<Rightarrow> int \<times> server_config" where
  "set_value aparam sec v [] = (- 1, [])"
| "set_value aparam sec v (n # ns) =
     (if element_matches aparam sec n then (0, n\<lparr>ce_value := v\<rparr> # ns)
      else case set_value aparam sec v ns of (r, ns1) \<Rightarrow> (r, n # ns1))"

definition set_value_opt ::
  "string \<Rightarrow> string option \<Rightarrow> string option \<Rightarrow> server_config \<Rightarrow> int \<times> server_config" where
  "set_value_opt aparam sec new_value ns =
     (case new_value of None \<Rightarrow> (- 1, ns) | Some v \<Rightarrow> set_value aparam sec v ns)"

lemma element_matches_iff: "element_matches aparam sec n \<longleftrightarrow> ce_param n = aparam \<and> ce_section n = sec"
  by (auto simp: element_matches_def split: option.split)

lemma set_value_result: "fst (set_value p s v ns) = (if get_value p s ns = None then - 1 else 0)"
  by (induction ns) (auto split: prod.split)

lemma get_set_value:
  "get_value p' s' (snd (set_value p s v ns)) =
     (if p' = p \<and> s' = s \<and> get_value p s ns \<noteq> None then Some v else get_value p' s' ns)"
  by (induction ns) (auto simp: element_matches_iff split: prod.split)

text \<open>
  Changing an entry succeeds exactly when the entry exists, gives the new value to every later
  read of it, in its own section only, and changes no other entry; nothing is ever added.
\<close>

lemma set_value_store:
  "fst (set_value_opt p s (Some v) ns) = (if get_value p s ns = None then - 1 else 0)
     \<and> get_value p' s' (snd (set_value_opt p s (Some v) ns)) =
         (if p' = p \<and> s' = s \<and> get_value p s ns \<noteq> None then Some v else get_value p' s' ns)
     \<and> length (snd (set_value_opt p s (Some v) ns)) = length ns"
proof -
  have "length (snd (set_value p s v ns)) = length ns" by (induction ns) (auto split: prod.split)
  then show ?thesis by (simp add: set_value_opt_def set_value_result get_set_value)
qed

section \<open>The notation\<close>

text \<open>
  The notation, as lines: a section, an entry, a line without an assignment (empty, or a comment).
  What the lines mean: the entries in order, each with the section above it, \<open>end\<close> closing a section.
\<close>

datatype server_item = Section string | Entry string string | Remark string

fun print_item :: "server_item \<Rightarrow> string" where
  "print_item (Section s) = ''['' @ s @ '']'' @ [CHR 0x0A]"
| "print_item (Entry p v) = p @ ''='' @ v @ [CHR 0x0A]"
| "print_item (Remark c) = c @ [CHR 0x0A]"

definition print_items :: "server_item list \<Rightarrow> string" where
  "print_items items = concat (map print_item items)"

fun items_meaning :: "string option \<Rightarrow> server_item list \<Rightarrow> server_config" where
  "items_meaning sec [] = []"
| "items_meaning sec (Section s # is) = items_meaning (Some s) is"
| "items_meaning sec (Entry p v # is) =
     \<lparr>ce_section = (if sec = Some ''end'' then None else sec), ce_param = p, ce_value = v\<rparr>
       # items_meaning sec is"
| "items_meaning sec (Remark c # is) = items_meaning sec is"

definition plain_text :: "string \<Rightarrow> bool" where
  "plain_text s \<longleftrightarrow> CHR 0x00 \<notin> set s \<and> CHR 0x0A \<notin> set s \<and> CHR ''['' \<notin> set s"

fun item_ok :: "server_item \<Rightarrow> bool" where
  "item_ok (Section s) \<longleftrightarrow> s \<noteq> [] \<and> plain_text s \<and> CHR '']'' \<notin> set s \<and> CHR ''='' \<notin> set s"
| "item_ok (Entry p v) \<longleftrightarrow> p \<noteq> [] \<and> plain_text p \<and> CHR ''='' \<notin> set p \<and> plain_text v"
| "item_ok (Remark c) \<longleftrightarrow> plain_text c \<and> CHR ''='' \<notin> set c"

text \<open>The state between two lines, at offset \<open>ptr\<close>, in the section \<open>sec\<close>.\<close>

definition between_lines :: "string \<Rightarrow> int \<Rightarrow> string option \<Rightarrow> server_scan \<Rightarrow> bool" where
  "between_lines buffer ptr sec st \<longleftrightarrow>
     \<not> ss_section_mode st \<and> \<not> ss_comment_mode st \<and> ss_paramstart st = ptr \<and> ss_paramsize st = 0 \<and> ss_valuestart st \<le> ptr
     \<and> (case sec of
          None \<Rightarrow> ss_sectionsize st = 0
        | Some s \<Rightarrow> s \<noteq> [] \<and> plain_text s \<and> ss_sectionsize st = int (length s) \<and> 0 \<le> ss_sectionstart st
            \<and> take (length s) (drop (nat (ss_sectionstart st)) buffer) = s)"

text \<open>Characters of a line that only may open a comment.\<close>

lemma server_loop_plain:
  assumes "plain_text s" "CHR ''='' \<notin> set s \<or> ss_paramsize st \<noteq> 0" "ss_section_mode st \<longrightarrow> CHR '']'' \<notin> set s"
  shows "\<exists>b. server_loop buffer ptr (s @ r) st
           = server_loop buffer (ptr + int (length s)) r (st\<lparr>ss_comment_mode := b\<rparr>)"
  using assms
proof (induction s arbitrary: ptr st)
  case Nil
  show ?case by (rule exI [of _ "ss_comment_mode st"]) simp
next
  case (Cons c s)
  obtain b where step: "server_step buffer ptr (Some c) st = Some (st\<lparr>ss_comment_mode := b\<rparr>)"
  proof -
    have "server_step buffer ptr (Some c) st = Some (st\<lparr>ss_comment_mode := (if c = CHR ''#'' \<and> ss_new_line st then True else ss_comment_mode st)\<rparr>)"
      using Cons.prems by (auto simp: server_step_def plain_text_def)
    then show ?thesis by (rule that)
  qed
  from Cons.prems have "plain_text s" "CHR ''='' \<notin> set s \<or> ss_paramsize (st\<lparr>ss_comment_mode := b\<rparr>) \<noteq> 0"
    "ss_section_mode (st\<lparr>ss_comment_mode := b\<rparr>) \<longrightarrow> CHR '']'' \<notin> set s"
    by (auto simp: plain_text_def)
  from Cons.IH [OF this, of "ptr + 1"] step show ?case by (auto simp: algebra_simps)
qed

lemma server_loop_plain_off:
  assumes "plain_text s" "CHR ''='' \<notin> set s \<or> ss_paramsize st \<noteq> 0" "\<not> ss_section_mode st"
  shows "\<exists>b. server_loop buffer ptr (s @ CHR 0x0A # r) st =
     Option.bind (server_step buffer (ptr + int (length s)) (Some (CHR 0x0A)) (st\<lparr>ss_comment_mode := b\<rparr>))
       (server_loop buffer (ptr + int (length s) + 1) r)"
  using server_loop_plain [of s st buffer ptr "CHR 0x0A # r"] assms by auto

lemma c_str_plain: "plain_text s \<Longrightarrow> c_str s = s"
  by (auto simp: plain_text_def c_str_def takeWhile_eq_all_conv)

lemma copy_chars_at:
  assumes "take n (drop (nat k) buffer) = s" "length s = n" "plain_text s" "0 \<le> k" "s \<noteq> []"
  shows "copy_chars buffer k (int n) = Some s"
proof -
  have "n \<le> length buffer - nat k" using assms(1,2) by auto
  moreover have "n \<noteq> 0" using assms(2,5) by auto
  ultimately have "k + int n \<le> int (length buffer)" using assms(4) by linarith
  then show ?thesis using assms by (simp add: copy_chars_def c_str_plain)
qed

lemma skip_breaks_none:
  assumes "take n (drop (nat k) buffer) = s" "length s = n" "plain_text s" "0 \<le> k" "s \<noteq> []"
  shows "skip_breaks buffer k m = Some (k, m)"
proof -
  have n: "n \<noteq> 0" using assms(2,5) by auto
  have l: "n \<le> length buffer - nat k" using assms(1,2) by auto
  obtain c t where d: "drop (nat k) buffer = c # t" using n l by (cases "drop (nat k) buffer") auto
  then have "c \<in> set s" using assms(1) n by (cases n) auto
  then have "c \<noteq> CHR 0x0A" using assms(3) by (auto simp: plain_text_def)
  then show ?thesis using n l assms(4) by (simp add: skip_breaks_def d)
qed

lemma server_remark:
  assumes "between_lines buffer ptr sec st" "item_ok (Remark c)"
  shows "\<exists>st'. server_loop buffer ptr (print_item (Remark c) @ r) st
             = server_loop buffer (ptr + int (length (print_item (Remark c)))) r st'
           \<and> between_lines buffer (ptr + int (length (print_item (Remark c)))) sec st' \<and> ss_node st' = ss_node st"
proof -
  obtain b where l: "server_loop buffer ptr (c @ CHR 0x0A # r) st =
     Option.bind (server_step buffer (ptr + int (length c)) (Some (CHR 0x0A)) (st\<lparr>ss_comment_mode := b\<rparr>))
       (server_loop buffer (ptr + int (length c) + 1) r)"
    using server_loop_plain_off [of c st buffer ptr r] assms by (auto simp: between_lines_def)
  let ?st = "st\<lparr>ss_comment_mode := False, ss_new_line := True, ss_section_mode := False,
     ss_paramstart := ptr + int (length c) + 1, ss_paramsize := 0\<rparr>"
  have "server_step buffer (ptr + int (length c)) (Some (CHR 0x0A)) (st\<lparr>ss_comment_mode := b\<rparr>) = Some ?st"
    using assms by (simp add: server_step_def server_line_start_def between_lines_def)
  then show ?thesis using l assms
    by (intro exI [of _ ?st]) (auto simp: between_lines_def algebra_simps split: option.splits)
qed

lemma server_section:
  assumes "between_lines buffer ptr sec st" "item_ok (Section s)"
    and "buffer = pre @ print_item (Section s) @ r" "ptr = int (length pre)"
  shows "\<exists>st'. server_loop buffer ptr (print_item (Section s) @ r) st
             = server_loop buffer (ptr + int (length (print_item (Section s)))) r st'
           \<and> between_lines buffer (ptr + int (length (print_item (Section s)))) (Some s) st' \<and> ss_node st' = ss_node st"
proof -
  let ?s1 = "st\<lparr>ss_section_mode := True, ss_sectionstart := ptr + 1\<rparr>"
  have s: "server_step buffer ptr (Some (CHR ''['')) st = Some ?s1"
    by (simp add: server_step_def)
  obtain b where l: "server_loop buffer (ptr + 1) (s @ CHR '']'' # CHR 0x0A # r) ?s1 =
      server_loop buffer (ptr + 1 + int (length s)) (CHR '']'' # CHR 0x0A # r) (?s1\<lparr>ss_comment_mode := b\<rparr>)"
    using server_loop_plain [of s ?s1 buffer "ptr + 1" "CHR '']'' # CHR 0x0A # r"] assms(2) by auto
  let ?p = "ptr + 1 + int (length s)"
  let ?s2 = "?s1\<lparr>ss_comment_mode := b, ss_paramstart := ?p + 1, ss_sectionsize := int (length s),
     ss_new_line := False, ss_paramsize := 0\<rparr>"
  have s2: "server_step buffer ?p (Some (CHR '']'')) (?s1\<lparr>ss_comment_mode := b\<rparr>) = Some ?s2"
    using assms(1) by (simp add: server_step_def server_line_start_def between_lines_def)
  let ?s3 = "?s2\<lparr>ss_comment_mode := False, ss_section_mode := False, ss_new_line := True, ss_paramstart := ?p + 2\<rparr>"
  have s3: "server_step buffer (?p + 1) (Some (CHR 0x0A)) ?s2 = Some ?s3"
    by (simp add: server_step_def server_line_start_def)
  have "server_loop buffer ptr (print_item (Section s) @ r) st = server_loop buffer (?p + 2) r ?s3"
    using s l s2 s3 by (simp add: algebra_simps)
  moreover have "between_lines buffer (?p + 2) (Some s) ?s3"
    using assms by (auto simp: between_lines_def nat_add_distrib)
  ultimately show ?thesis by (intro exI [of _ ?s3]) (simp add: algebra_simps)
qed

lemma copy_chars_part:
  assumes "buffer = pre @ s @ r" "plain_text s"
  shows "copy_chars buffer (int (length pre)) (int (length s)) = Some s"
  using assms by (simp add: copy_chars_def c_str_plain)

lemma store_entry_section:
  assumes "between_lines buffer ptr sec st"
  shows "\<exists>a b. store_entry buffer e (st\<lparr>ss_comment_mode := c, ss_paramsize := k, ss_valuestart := v\<rparr>) =
     Option.bind (skip_breaks buffer ptr k) (\<lambda>(pstart, psize).
     Option.bind (copy_chars buffer pstart psize) (\<lambda>param.
     Option.bind (copy_chars buffer v (e - v)) (\<lambda>val.
       Some (st\<lparr>ss_comment_mode := c, ss_paramsize := k, ss_valuestart := v, ss_sectionstart := a, ss_sectionsize := b,
                ss_node := ss_node st @ [\<lparr>ce_section = (if sec = Some ''end'' then None else sec),
                                          ce_param = param, ce_value = val\<rparr>]\<rparr>))))
     \<and> (sec = None \<longrightarrow> b = 0) \<and> (sec \<noteq> None \<longrightarrow> a = ss_sectionstart st \<and> b = ss_sectionsize st)"
proof (cases sec)
  case None
  then show ?thesis using assms
    by (intro exI [of _ "ss_sectionstart st"] exI [of _ 0]) (simp add: store_entry_def between_lines_def)
next
  case (Some s)
  let ?n = "length s" and ?k = "ss_sectionstart st"
  have f: "take ?n (drop (nat ?k) buffer) = s" "plain_text s" "0 \<le> ?k" "s \<noteq> []" "ss_sectionsize st = int ?n"
      "ss_paramstart st = ptr"
    using assms Some by (auto simp: between_lines_def)
  note k = skip_breaks_none [OF f(1) refl f(2-4)] copy_chars_at [OF f(1) refl f(2-4)]
  show ?thesis using Some f k
    by (intro exI [of _ "ss_sectionstart st"] exI [of _ "ss_sectionsize st"]) (simp add: store_entry_def)
qed

lemma server_step_break:
  "server_line_start ptr (CHR 0x0A) st = t \<Longrightarrow> ss_paramsize t \<noteq> 0 \<Longrightarrow> \<not> ss_comment_mode t
     \<Longrightarrow> server_step buffer ptr (Some (CHR 0x0A)) st = server_line_end buffer ptr t"
  by (simp add: server_step_def Let_def)

lemma server_line_end_store:
  "store_entry buffer ptr t = Some u \<Longrightarrow> ss_paramstart t < ss_valuestart t
     \<Longrightarrow> server_line_end buffer ptr t
           = Some (u\<lparr>ss_paramstart := ptr + 1, ss_paramsize := 0, ss_valuestart := ptr + 1\<rparr>)"
  by (simp add: server_line_end_def)

lemma server_entry:
  assumes inv: "between_lines buffer ptr sec st" and ok: "item_ok (Entry p v)"
    and buf: "buffer = pre @ print_item (Entry p v) @ r" and ptr: "ptr = int (length pre)"
  shows "\<exists>st'. server_loop buffer ptr (print_item (Entry p v) @ r) st
             = server_loop buffer (ptr + int (length (print_item (Entry p v)))) r st'
           \<and> between_lines buffer (ptr + int (length (print_item (Entry p v)))) sec st'
           \<and> ss_node st' = ss_node st @ items_meaning sec [Entry p v]"
proof -
  let ?e = "ptr + int (length p)"
  obtain b where l1: "server_loop buffer ptr (p @ CHR ''='' # v @ CHR 0x0A # r) st =
      server_loop buffer ?e (CHR ''='' # v @ CHR 0x0A # r) (st\<lparr>ss_comment_mode := b\<rparr>)"
    using server_loop_plain [of p st buffer ptr "CHR ''='' # v @ CHR 0x0A # r"] ok inv
    by (auto simp: between_lines_def)
  let ?s1 = "st\<lparr>ss_comment_mode := b, ss_paramsize := int (length p), ss_valuestart := ?e + 1\<rparr>"
  have s1: "server_step buffer ?e (Some (CHR ''='')) (st\<lparr>ss_comment_mode := b\<rparr>) = Some ?s1"
    using inv by (simp add: server_step_def between_lines_def)
  let ?q = "?e + 1 + int (length v)"
  obtain c where l2: "server_loop buffer (?e + 1) (v @ CHR 0x0A # r) ?s1 =
     Option.bind (server_step buffer ?q (Some (CHR 0x0A)) (?s1\<lparr>ss_comment_mode := c\<rparr>))
       (server_loop buffer (?q + 1) r)"
    using server_loop_plain_off [of v ?s1 buffer "?e + 1" r] inv ok by (auto simp: between_lines_def)
  have p1: "take (length p) (drop (nat ptr) buffer) = p" "0 \<le> ptr" and p2: "plain_text p" "p \<noteq> []" "plain_text v"
    using buf ptr ok by auto
  note sp = skip_breaks_none [OF p1(1) refl p2(1) p1(2) p2(2)]
  have cp: "copy_chars buffer ptr (int (length p)) = Some p"
    using copy_chars_part [of buffer pre p "''='' @ v @ [CHR 0x0A] @ r"] buf ptr p2 by simp
  have cv: "copy_chars buffer (?e + 1) (?q - (?e + 1)) = Some v"
    using copy_chars_part [of buffer "pre @ p @ ''=''" v "[CHR 0x0A] @ r"] buf ptr p2
    by (simp add: algebra_simps)
  have inv': "between_lines buffer ptr sec (st\<lparr>ss_new_line := True, ss_section_mode := False\<rparr>)"
    using inv by (auto simp: between_lines_def split: option.splits)
  let ?t = "st\<lparr>ss_new_line := True, ss_section_mode := False\<rparr>"
  let ?t2 = "?t\<lparr>ss_comment_mode := False, ss_paramsize := int (length p), ss_valuestart := ?e + 1\<rparr>"
  obtain x y where store: "store_entry buffer ?q ?t2 = Some (?t2\<lparr>ss_sectionstart := x, ss_sectionsize := y,
                ss_node := ss_node st @ [\<lparr>ce_section = (if sec = Some ''end'' then None else sec),
                                          ce_param = p, ce_value = v\<rparr>]\<rparr>)"
      and xy: "sec = None \<longrightarrow> y = 0" "sec \<noteq> None \<longrightarrow> x = ss_sectionstart st \<and> y = ss_sectionsize st"
    using store_entry_section [OF inv', where e = ?q and c = False and k = "int (length p)" and v = "?e + 1"] sp cp cv by auto
  let ?s3 = "?t2\<lparr>ss_sectionstart := x, ss_sectionsize := y,
                ss_node := ss_node st @ [\<lparr>ce_section = (if sec = Some ''end'' then None else sec),
                                          ce_param = p, ce_value = v\<rparr>],
                ss_paramstart := ?q + 1, ss_paramsize := 0, ss_valuestart := ?q + 1\<rparr>"
  have start: "server_line_start ?q (CHR 0x0A) (?s1\<lparr>ss_comment_mode := c\<rparr>) = ?t2"
    by (cases st) (simp add: server_line_start_def)
  have c: "ss_paramstart ?t2 < ss_valuestart ?t2" "ss_paramsize ?t2 \<noteq> 0" "\<not> ss_comment_mode ?t2"
    using inv p2 by (auto simp: between_lines_def)
  have s3: "server_step buffer ?q (Some (CHR 0x0A)) (?s1\<lparr>ss_comment_mode := c\<rparr>) = Some ?s3"
    using server_line_end_store [OF store c(1)] server_step_break [OF start c(2,3)] by simp
  have "between_lines buffer (?q + 1) sec ?s3"
    using inv xy by (auto simp: between_lines_def split: option.splits)
  moreover have "server_loop buffer ptr (print_item (Entry p v) @ r) st = server_loop buffer (?q + 1) r ?s3"
    using l1 s1 l2 s3 by simp
  ultimately show ?thesis by (intro exI [of _ ?s3]) (simp add: algebra_simps)
qed

lemma server_items:
  assumes "between_lines buffer ptr sec st" "\<forall>i\<in>set items. item_ok i"
    and "buffer = pre @ print_items items" "ptr = int (length pre)"
  shows "\<exists>st'. server_loop buffer ptr (print_items items) st
     = Some st' \<and> ss_node st' = ss_node st @ items_meaning sec items"
  using assms
proof (induction items arbitrary: pre ptr sec st)
  case Nil
  then show ?case by (auto simp: print_items_def server_step_def server_line_end_def between_lines_def)
next
  case (Cons i items)
  let ?n = "int (length (print_item i))" and ?r = "print_items items"
  let ?sec = "case i of Section s \<Rightarrow> Some s | _ \<Rightarrow> sec"
  have pr: "print_items (i # items) = print_item i @ ?r" by (simp add: print_items_def)
  have ok: "item_ok i" and buf: "buffer = pre @ print_item i @ ?r" using Cons.prems pr by auto
  have "\<exists>st'. server_loop buffer ptr (print_item i @ ?r) st = server_loop buffer (ptr + ?n) ?r st'
     \<and> between_lines buffer (ptr + ?n) ?sec st' \<and> ss_node st' = ss_node st @ items_meaning sec [i]"
  proof (cases i)
    case (Section s)
    then show ?thesis
      using server_section [of buffer ptr sec st s pre ?r] Cons.prems(1,4) ok buf by simp
  next
    case (Entry p v)
    then show ?thesis
      using server_entry [of buffer ptr sec st p v pre ?r] Cons.prems(1,4) ok buf by simp
  next
    case (Remark c)
    then show ?thesis
      using server_remark [of buffer ptr sec st c ?r] Cons.prems(1) ok by simp
  qed
  then obtain st' where st': "server_loop buffer ptr (print_item i @ ?r) st = server_loop buffer (ptr + ?n) ?r st'"
      "between_lines buffer (ptr + ?n) ?sec st'" "ss_node st' = ss_node st @ items_meaning sec [i]" by blast
  obtain st'' where "server_loop buffer (ptr + ?n) ?r st' = Some st''"
      "ss_node st'' = ss_node st' @ items_meaning ?sec items"
    using Cons.IH [OF st'(2), of "pre @ print_item i"] Cons.prems(2,4) buf by auto
  then show ?case using st' pr by (cases i) auto
qed

text \<open>
  C35: reading a file in the notation yields exactly its entries, in order, each in its section:
  remarks and lines without an assignment leave no trace, a value may contain \<open>=\<close>, \<open>#\<close> and \<open>]\<close>, and
  the parser never reads outside its buffer.
\<close>

theorem server_config_print_parse:
  assumes "\<forall>i\<in>set items. item_ok i" "items \<noteq> []" "length (print_items items) \<le> 100 * 1024"
  shows "read_file (Some (print_items items)) = Some (0, items_meaning None items)"
proof -
  have "between_lines (print_items items) 0 None (server_scan_new [])"
    by (simp add: between_lines_def server_scan_new_def)
  from server_items [OF this assms(1), of "[]"]
  have "parse_buffer (print_items items) [] = Some (items_meaning None items)"
    by (auto simp: parse_buffer_def server_scan_new_def)
  moreover have "print_items items \<noteq> []"
    using assms(2) by (cases items; cases "hd items") (auto simp: print_items_def)
  ultimately show ?thesis using assms(3) by (simp add: read_file_def)
qed

theorem server_config_print_parse_witness:
  "read_file (Some (print_items [Remark ''# main'', Entry ''port'' ''1=2'', Section ''db'', Entry ''host'' ''#1'']))
     = Some (0, [\<lparr>ce_section = None, ce_param = ''port'', ce_value = ''1=2''\<rparr>,
                 \<lparr>ce_section = Some ''db'', ce_param = ''host'', ce_value = ''#1''\<rparr>])"
  by (subst server_config_print_parse) (simp_all add: plain_text_def print_items_def)

text \<open>Outside the notation: a bracket in a value moves the section, an assignment in a remark is kept.\<close>

lemma server_bracket_value:
  "read_file (Some (''[a]'' @ [CHR 0x0A] @ ''w=[0]'' @ [CHR 0x0A] @ ''x=1'' @ [CHR 0x0A]))
     = Some (0, [\<lparr>ce_section = Some ''0'', ce_param = ''x'', ce_value = ''1''\<rparr>])"
  by (simp add: read_file_def parse_buffer_def server_scan_new_def server_step_def server_line_start_def
      server_line_end_def store_entry_def copy_chars_def skip_breaks_def c_str_def)

lemma server_comment_kept:
  "read_file (Some (''#a=1'' @ [CHR 0x0A]))
     = Some (0, [\<lparr>ce_section = None, ce_param = ''#a'', ce_value = ''1''\<rparr>])"
  by (simp add: read_file_def parse_buffer_def server_scan_new_def server_step_def server_line_start_def
      server_line_end_def store_entry_def copy_chars_def skip_breaks_def c_str_def)


end
