(* ===== verification/Server_Lock.thy ===== *)
theory Server_Lock
  imports Upgm_Prelude
begin

text \<open>
  The lock between readers and writers of the payment server (\<open>legacy/payguide/src/sem.h\<close>,
  \<open>sem.cpp\<close>): a semaphore with ten permits, of which a reader takes one and a writer all, and a
  semaphore that lets one writer at a time collect permits. The steps of the threads interleave
  in any order; a thread between two calls of semaphores is at a program counter.
\<close>

section \<open>State and steps\<close>

definition parallel_readers :: nat where
  "parallel_readers = 10"

text \<open>
  Where a thread is: outside, holding a read lock, in \<open>LockWrite\<close> with so many permits collected,
  holding the write lock, in \<open>UnLockWrite\<close> with so many permits given back.
\<close>

datatype lock_pc = Outside | Reading | Collecting nat | Writing | Returning nat

record rw_lock =
  main_lock :: nat
  self_lock :: nat
  pcs :: "nat \<Rightarrow> lock_pc"

definition rw_lock_new :: rw_lock where
  "rw_lock_new = \<lparr>main_lock = parallel_readers, self_lock = 1, pcs = (\<lambda>_. Outside)\<rparr>"

text \<open>One step of one of \<open>n\<close> threads: a call of \<open>sem_wait\<close> that gets its permit, or of \<open>sem_post\<close>.\<close>

inductive lock_step :: "nat \<Rightarrow> rw_lock \<Rightarrow> rw_lock \<Rightarrow> bool" for n where
  lock_read: "i < n \<Longrightarrow> pcs s i = Outside \<Longrightarrow> 0 < main_lock s \<Longrightarrow>
     lock_step n s (s\<lparr>main_lock := main_lock s - 1, pcs := (pcs s)(i := Reading)\<rparr>)"
| unlock_read: "i < n \<Longrightarrow> pcs s i = Reading \<Longrightarrow>
     lock_step n s (s\<lparr>main_lock := main_lock s + 1, pcs := (pcs s)(i := Outside)\<rparr>)"
| write_enter: "i < n \<Longrightarrow> pcs s i = Outside \<Longrightarrow> 0 < self_lock s \<Longrightarrow>
     lock_step n s (s\<lparr>self_lock := self_lock s - 1, pcs := (pcs s)(i := Collecting 0)\<rparr>)"
| write_collect: "i < n \<Longrightarrow> pcs s i = Collecting k \<Longrightarrow> k < parallel_readers \<Longrightarrow> 0 < main_lock s \<Longrightarrow>
     lock_step n s (s\<lparr>main_lock := main_lock s - 1, pcs := (pcs s)(i := Collecting (k + 1))\<rparr>)"
| write_locked: "i < n \<Longrightarrow> pcs s i = Collecting parallel_readers \<Longrightarrow>
     lock_step n s (s\<lparr>self_lock := self_lock s + 1, pcs := (pcs s)(i := Writing)\<rparr>)"
| write_leave: "i < n \<Longrightarrow> pcs s i = Writing \<Longrightarrow>
     lock_step n s (s\<lparr>pcs := (pcs s)(i := Returning 0)\<rparr>)"
| write_return: "i < n \<Longrightarrow> pcs s i = Returning k \<Longrightarrow> k < parallel_readers \<Longrightarrow>
     lock_step n s (s\<lparr>main_lock := main_lock s + 1, pcs := (pcs s)(i := Returning (k + 1))\<rparr>)"
| write_left: "i < n \<Longrightarrow> pcs s i = Returning parallel_readers \<Longrightarrow>
     lock_step n s (s\<lparr>pcs := (pcs s)(i := Outside)\<rparr>)"

inductive lock_reachable :: "nat \<Rightarrow> rw_lock \<Rightarrow> bool" for n where
  lock_start: "lock_reachable n rw_lock_new"
| lock_next: "lock_reachable n s \<Longrightarrow> lock_step n s t \<Longrightarrow> lock_reachable n t"

inductive_cases lock_stepE: "lock_step n s t"

section \<open>Permits\<close>

fun permits :: "lock_pc \<Rightarrow> nat" where
  "permits Outside = 0"
| "permits Reading = 1"
| "permits (Collecting k) = k"
| "permits Writing = parallel_readers"
| "permits (Returning k) = parallel_readers - k"

fun collects :: "lock_pc \<Rightarrow> nat" where
  "collects (Collecting k) = 1"
| "collects _ = 0"

fun pc_ok :: "lock_pc \<Rightarrow> bool" where
  "pc_ok (Collecting k) \<longleftrightarrow> k \<le> parallel_readers"
| "pc_ok (Returning k) \<longleftrightarrow> k \<le> parallel_readers"
| "pc_ok _ \<longleftrightarrow> True"

definition lock_inv :: "nat \<Rightarrow> rw_lock \<Rightarrow> bool" where
  "lock_inv n s \<longleftrightarrow> main_lock s + (\<Sum>i<n. permits (pcs s i)) = parallel_readers
     \<and> self_lock s + (\<Sum>i<n. collects (pcs s i)) = 1 \<and> (\<forall>i. pc_ok (pcs s i))"

lemma sum_upd:
  fixes f :: "'a \<Rightarrow> nat" and n :: nat
  assumes "i < n"
  shows "(\<Sum>j<n. f ((p(i := x)) j)) + f (p i) = (\<Sum>j<n. f (p j)) + f x"
proof -
  have "(\<Sum>j<n. f ((p(i := x)) j)) = f x + (\<Sum>j\<in>{..<n} - {i}. f (p j))"
    using assms by (subst sum.remove [of "{..<n}" i]) (auto intro: sum.cong)
  moreover have "(\<Sum>j<n. f (p j)) = f (p i) + (\<Sum>j\<in>{..<n} - {i}. f (p j))"
    using assms by (subst sum.remove [of "{..<n}" i]) auto
  ultimately show ?thesis by simp
qed

text \<open>A move of one thread that keeps the permits together.\<close>

lemma lock_inv_move:
  assumes "lock_inv n s" "i < n" "pc_ok b" "m + permits b = main_lock s + permits (pcs s i)"
    and "k + collects b = self_lock s + collects (pcs s i)"
    and "main_lock t = m" "self_lock t = k" "pcs t = (pcs s)(i := b)"
  shows "lock_inv n t"
  using assms sum_upd [OF assms(2), of permits "pcs s" b] sum_upd [OF assms(2), of collects "pcs s" b]
  by (auto simp: lock_inv_def simp del: fun_upd_apply) (auto simp: fun_upd_apply)

lemma lock_step_inv: "lock_step n s t \<Longrightarrow> lock_inv n s \<Longrightarrow> lock_inv n t"
proof (induction rule: lock_step.induct)
  case (write_collect i s k)
  then show ?case by (intro lock_inv_move [OF write_collect.prems]) auto
next
  case (write_return i s k)
  then show ?case by (intro lock_inv_move [OF write_return.prems]) auto
qed (erule lock_inv_move; force)+

lemma lock_reachable_inv: "lock_reachable n s \<Longrightarrow> lock_inv n s"
proof (induction rule: lock_reachable.induct)
  case lock_start
  show ?case by (simp add: lock_inv_def rw_lock_new_def)
next
  case (lock_next s t)
  then show ?case by (blast intro: lock_step_inv)
qed

lemma sum_two:
  fixes f :: "nat \<Rightarrow> nat"
  assumes "i < n" "j < n" "i \<noteq> j"
  shows "f i + f j \<le> (\<Sum>k<n. f k)"
proof -
  have "sum f {i, j} \<le> (\<Sum>k<n. f k)" using assms by (intro sum_mono2) auto
  then show ?thesis using assms(3) by simp
qed

text \<open>
  C26: whatever the interleaving of readers and writers, while a thread holds the write lock no other
  thread holds it for reading or writing, and no more than ten threads read at once.
\<close>

theorem rw_lock_excludes:
  assumes "lock_reachable n s"
  shows "(\<forall>i j. i < n \<and> j < n \<and> i \<noteq> j \<and> pcs s i = Writing \<longrightarrow> pcs s j \<noteq> Reading \<and> pcs s j \<noteq> Writing)
     \<and> card {i. i < n \<and> pcs s i = Reading} \<le> parallel_readers"
proof -
  have inv: "(\<Sum>i<n. permits (pcs s i)) \<le> parallel_readers"
    using lock_reachable_inv [OF assms] by (simp add: lock_inv_def)
  have w: "pcs s j \<noteq> Reading \<and> pcs s j \<noteq> Writing" if "i < n" "j < n" "i \<noteq> j" "pcs s i = Writing" for i j
  proof -
    have "permits (pcs s i) + permits (pcs s j) \<le> (\<Sum>k<n. permits (pcs s k))" by (rule sum_two [OF that(1-3)])
    then have "permits (pcs s j) = 0" using inv that(4) by simp
    then show ?thesis by (auto simp: parallel_readers_def)
  qed
  have "card {i. i < n \<and> pcs s i = Reading} = (\<Sum>i\<in>{i. i < n \<and> pcs s i = Reading}. permits (pcs s i))" by simp
  also have "\<dots> \<le> (\<Sum>i<n. permits (pcs s i))" by (intro sum_mono2) auto
  finally show ?thesis using inv w by auto
qed

text \<open>
  C27: no interleaving of readers and writers blocks them all: in every reachable state some thread can
  take its next step. This is what the second semaphore is for: one writer at a time collects permits.
\<close>

theorem rw_lock_never_stuck:
  assumes "lock_reachable n s" "0 < n"
  shows "\<exists>t. lock_step n s t"
proof (rule ccontr)
  assume stuck: "\<not> ?thesis"
  have inv: "lock_inv n s" by (rule lock_reachable_inv [OF assms(1)])
  have no: "pcs s i \<noteq> Reading" "pcs s i \<noteq> Writing" "pcs s i \<noteq> Collecting parallel_readers" "pcs s i \<noteq> Returning k"
    if "i < n" for i k
    using that stuck inv unlock_read write_leave write_locked write_left [of i n s] write_return [of i n s k]
    unfolding lock_inv_def by (metis pc_ok.simps(2) le_neq_implies_less)+
  have pc: "pcs s i = Outside \<or> (\<exists>k<parallel_readers. pcs s i = Collecting k)" if "i < n" for i
    using no [OF that] inv unfolding lock_inv_def by (metis lock_pc.exhaust pc_ok.simps(1) le_neq_implies_less)
  have "main_lock s = 0 \<or> (\<forall>i<n. pcs s i \<noteq> Outside \<and> (\<forall>k. pcs s i \<noteq> Collecting k))"
    using stuck lock_read write_collect pc by (metis neq0_conv lock_pc.inject(1))
  then have m: "main_lock s = 0" using pc assms(2) by blast
  then have all: "(\<Sum>i<n. permits (pcs s i)) = parallel_readers" using inv by (simp add: lock_inv_def)
  have "(\<Sum>i<n. collects (pcs s i)) \<le> 1" using inv by (simp add: lock_inv_def)
  show False
  proof (cases "\<exists>i<n. pcs s i \<noteq> Outside")
    case False
    then show False using all by (simp add: parallel_readers_def)
  next
    case True
    then obtain i k where i: "i < n" "pcs s i = Collecting k" "k < parallel_readers" using pc by blast
    have "pcs s j = Outside" if "j < n" "j \<noteq> i" for j
    proof -
      have "collects (pcs s i) + collects (pcs s j) \<le> 1"
        using sum_two [of i n j "\<lambda>i. collects (pcs s i)"] i that inv by (simp add: lock_inv_def)
      then show ?thesis using i pc [OF that(1)] by auto
    qed
    then have "(\<Sum>j\<in>{..<n} - {i}. permits (pcs s j)) = 0" by simp
    then have "(\<Sum>j<n. permits (pcs s j)) = k" using i(1,2) by (simp add: sum.remove [of "{..<n}" i])
    then show False using all i(3) by simp
  qed
qed

text \<open>Two threads: one reads while the other waits to write, then writes.\<close>

definition two_threads :: "lock_pc \<Rightarrow> lock_pc \<Rightarrow> nat \<Rightarrow> nat \<Rightarrow> rw_lock" where
  "two_threads a b m k = \<lparr>main_lock = m, self_lock = k, pcs = (\<lambda>_. Outside)(0 := a, 1 := b)\<rparr>"

lemma two_threads_collect:
  "lock_reachable 2 (two_threads Outside (Collecting 0) m 0) \<Longrightarrow> m = parallel_readers \<Longrightarrow> k \<le> parallel_readers
     \<Longrightarrow> lock_reachable 2 (two_threads Outside (Collecting k) (parallel_readers - k) 0)"
proof (induction k)
  case (Suc k)
  then have "lock_reachable 2 (two_threads Outside (Collecting k) (parallel_readers - k) 0)" by simp
  then show ?case
    by (rule lock_next) (use Suc.prems(3) lock_step.write_collect [of 1 2 "two_threads Outside (Collecting k) (parallel_readers - k) 0" k]
      in \<open>auto simp: two_threads_def\<close>)
qed (simp add: two_threads_def)

lemma writer_reachable: "lock_reachable 2 (two_threads Outside Writing 0 1)"
proof -
  have "rw_lock_new = two_threads Outside Outside parallel_readers 1" by (auto simp: rw_lock_new_def two_threads_def)
  moreover have "lock_step 2 (two_threads Outside Outside parallel_readers 1)
      (two_threads Outside (Collecting 0) parallel_readers 0)"
    using lock_step.write_enter [of 1 2 "two_threads Outside Outside parallel_readers 1"] by (simp add: two_threads_def)
  ultimately have "lock_reachable 2 (two_threads Outside (Collecting 0) parallel_readers 0)"
    using lock_next [OF lock_start [of 2]] by metis
  from two_threads_collect [OF this, of parallel_readers]
  have "lock_reachable 2 (two_threads Outside (Collecting parallel_readers) 0 0)" by simp
  then show ?thesis
    by (rule lock_next) (use lock_step.write_locked [of 1 2 "two_threads Outside (Collecting parallel_readers) 0 0"]
      in \<open>auto simp: two_threads_def\<close>)
qed

theorem rw_lock_excludes_witness:
  "pcs (two_threads Outside Writing 0 1) 0 \<noteq> Reading \<and> pcs (two_threads Outside Writing 0 1) 0 \<noteq> Writing"
proof -
  have "\<forall>i j. i < 2 \<and> j < 2 \<and> i \<noteq> j \<and> pcs (two_threads Outside Writing 0 1) i = Writing
      \<longrightarrow> pcs (two_threads Outside Writing 0 1) j \<noteq> Reading \<and> pcs (two_threads Outside Writing 0 1) j \<noteq> Writing"
    using rw_lock_excludes [OF writer_reachable] by blast
  then show ?thesis by (elim allE [of _ 1] allE [of _ 0]) (simp add: two_threads_def)
qed

theorem rw_lock_never_stuck_witness: "\<exists>t. lock_step 2 (two_threads Outside Writing 0 1) t"
  by (rule rw_lock_never_stuck [OF writer_reachable]) simp

end
