(* ===== verification/Server_List.thy ===== *)
theory Server_List
  imports Upgm_Prelude "HOL-Library.Monad_Syntax"
begin

text \<open>
  The list of the payment server (\<open>legacy/payguide/src/ulist.h\<close>, \<open>uelement.h\<close>): doubly linked cells between
  two sentinels, with one cursor. The memory is explicit: cells by address, a freed cell is gone, an access to
  a null pointer or a freed cell has no value (\<open>None\<close>). A cell owns its element: freeing the cell deletes it.
  The theorems show that every operation does on the cells what a plain operation does on a list with a
  position, for every sequence of operations.
\<close>

section \<open>Cells\<close>

record 'e cell =
  cl_next :: "nat option"
  cl_prev :: "nat option"
  cl_value :: "'e option"

type_synonym 'e heap = "nat \<rightharpoonup> 'e cell"

record 'e ulist =
  ul_len :: int
  ul_zero :: nat
  ul_cursor :: "nat option"
  ul_last :: nat
  ul_heap :: "'e heap"
  ul_free :: nat
  ul_deleted :: "'e list"

definition set_next :: "nat \<Rightarrow> nat option \<Rightarrow> 'e heap \<Rightarrow> 'e heap option" where
  "set_next a p h = map_option (\<lambda>c. h(a \<mapsto> c\<lparr>cl_next := p\<rparr>)) (h a)"

definition set_prev :: "nat \<Rightarrow> nat option \<Rightarrow> 'e heap \<Rightarrow> 'e heap option" where
  "set_prev a p h = map_option (\<lambda>c. h(a \<mapsto> c\<lparr>cl_prev := p\<rparr>)) (h a)"

text \<open>\<open>delete\<close> of a cell: its element is deleted first.\<close>

definition free_cell :: "nat \<Rightarrow> 'e ulist \<Rightarrow> 'e ulist option" where
  "free_cell a u = map_option (\<lambda>c. u\<lparr>ul_heap := (ul_heap u)(a := None),
       ul_deleted := ul_deleted u @ (case cl_value c of None \<Rightarrow> [] | Some v \<Rightarrow> [v])\<rparr>) (ul_heap u a)"

section \<open>Operations\<close>

text \<open>The constructor leaves the cursor uninitialised: what it holds is an argument.\<close>

definition ulist_new :: "nat option \<Rightarrow> 'e ulist" where
  "ulist_new garbage = \<lparr>ul_len = 0, ul_zero = 0, ul_cursor = garbage, ul_last = 1,
     ul_heap = [0 \<mapsto> \<lparr>cl_next = Some 1, cl_prev = None, cl_value = None\<rparr>,
                1 \<mapsto> \<lparr>cl_next = None, cl_prev = Some 0, cl_value = None\<rparr>],
     ul_free = 2, ul_deleted = []\<rparr>"

definition add_item :: "'e option \<Rightarrow> 'e ulist \<Rightarrow> 'e ulist option" where
  "add_item e u =
     (if e = None then Some u
      else do {
        lastc \<leftarrow> ul_heap u (ul_last u);
        let t = ul_free u;
        let h1 = (ul_heap u)(t \<mapsto> \<lparr>cl_next = Some (ul_last u), cl_prev = cl_prev lastc, cl_value = e\<rparr>);
        p \<leftarrow> cl_prev lastc;
        h2 \<leftarrow> set_next p (Some t) h1;
        h3 \<leftarrow> set_prev (ul_last u) (Some t) h2;
        Some (u\<lparr>ul_heap := h3, ul_free := t + 1, ul_len := ul_len u + 1\<rparr>)
      })"

text \<open>Unlinking a cell from its neighbours, where it has them.\<close>

definition unlink :: "'e cell \<Rightarrow> 'e heap \<Rightarrow> 'e heap option" where
  "unlink c h = do {
     h1 \<leftarrow> (case cl_next c of None \<Rightarrow> Some h | Some n \<Rightarrow> set_prev n (cl_prev c) h);
     (case cl_prev c of None \<Rightarrow> Some h1 | Some p \<Rightarrow> set_next p (cl_next c) h1)
   }"

definition remove_cell :: "nat \<Rightarrow> 'e ulist \<Rightarrow> 'e ulist option" where
  "remove_cell t u = do {
     c \<leftarrow> ul_heap u t;
     let cur = (if ul_cursor u = Some t then cl_prev c else ul_cursor u);
     h \<leftarrow> unlink c (ul_heap u);
     u1 \<leftarrow> free_cell t (u\<lparr>ul_cursor := cur, ul_heap := h\<rparr>);
     Some (u1\<lparr>ul_len := ul_len u1 - 1\<rparr>)
   }"

fun remove_item_loop :: "nat \<Rightarrow> int \<Rightarrow> int \<Rightarrow> nat option \<Rightarrow> 'e ulist \<Rightarrow> 'e ulist option" where
  "remove_item_loop 0 i k t u = Some u"
| "remove_item_loop (Suc n) i k t u =
     (if i = k then Option.bind t (\<lambda>a. remove_cell a u)
      else do { a \<leftarrow> t; c \<leftarrow> ul_heap u a; remove_item_loop n (i + 1) k (cl_next c) u })"

definition remove_item :: "int \<Rightarrow> 'e ulist \<Rightarrow> 'e ulist option" where
  "remove_item k u =
     (if ul_len u \<le> k \<or> k < 0 then Some u
      else do { z \<leftarrow> ul_heap u (ul_zero u); remove_item_loop (nat (ul_len u)) 0 k (cl_next z) u })"

definition get_next :: "'e ulist \<Rightarrow> ('e option \<times> 'e ulist) option" where
  "get_next u =
     (case ul_cursor u of
        None \<Rightarrow> Some (None, u)
      | Some a \<Rightarrow> do {
          c \<leftarrow> ul_heap u a;
          let b = (case cl_next c of None \<Rightarrow> a | Some n \<Rightarrow> n);
          d \<leftarrow> ul_heap u b;
          Some (cl_value d, u\<lparr>ul_cursor := Some b\<rparr>)
        })"

definition reset_cursor :: "'e ulist \<Rightarrow> 'e ulist" where
  "reset_cursor u = u\<lparr>ul_cursor := Some (ul_zero u)\<rparr>"

definition get_len :: "'e ulist \<Rightarrow> int" where
  "get_len u = abs (ul_len u)"

fun get_by_id_loop :: "nat \<Rightarrow> int \<Rightarrow> int \<Rightarrow> nat option \<Rightarrow> 'e heap \<Rightarrow> 'e option option" where
  "get_by_id_loop 0 i k t h = Some None"
| "get_by_id_loop (Suc n) i k t h = do {
     a \<leftarrow> t;
     c \<leftarrow> h a;
     if i = k then Some (cl_value c)
     else if cl_next c = None then Some None
     else get_by_id_loop n (i + 1) k (cl_next c) h
   }"

definition get_by_id :: "int \<Rightarrow> 'e ulist \<Rightarrow> 'e option option" where
  "get_by_id k u = do {
     z \<leftarrow> ul_heap u (ul_zero u);
     get_by_id_loop (nat (ul_len u)) 0 k (cl_next z) (ul_heap u)
   }"

fun clear_loop :: "nat \<Rightarrow> nat option \<Rightarrow> 'e heap \<Rightarrow> 'e heap option" where
  "clear_loop 0 t h = Some h"
| "clear_loop (Suc n) t h = do {
     a \<leftarrow> t;
     c \<leftarrow> h a;
     clear_loop n (cl_next c) (h(a \<mapsto> c\<lparr>cl_value := None\<rparr>))
   }"

definition clear_to_null :: "'e ulist \<Rightarrow> 'e ulist option" where
  "clear_to_null u = do {
     z \<leftarrow> ul_heap u (ul_zero u);
     h \<leftarrow> clear_loop (nat (ul_len u)) (cl_next z) (ul_heap u);
     Some (u\<lparr>ul_heap := h\<rparr>)
   }"

definition remove_this :: "'e ulist \<Rightarrow> 'e ulist option" where
  "remove_this u =
     (case ul_cursor u of
        None \<Rightarrow> Some u
      | Some a \<Rightarrow> do {
          c \<leftarrow> ul_heap u a;
          if cl_prev c = None \<or> cl_next c = None then Some u
          else do {
            h \<leftarrow> unlink c (ul_heap u);
            u1 \<leftarrow> free_cell a (u\<lparr>ul_heap := h\<rparr>);
            Some (u1\<lparr>ul_len := ul_len u1 - 1, ul_cursor := cl_prev c\<rparr>)
          }
        })"

text \<open>The destructor: the cell behind the cursor is freed at every step, the last sentinel at the end.\<close>

partial_function (option) destroy_loop :: "nat \<Rightarrow> 'e ulist \<Rightarrow> 'e ulist option" where
  "destroy_loop a u = do {
     c \<leftarrow> ul_heap u a;
     (case cl_next c of
        None \<Rightarrow> do { u1 \<leftarrow> free_cell (ul_last u) u; Some (u1\<lparr>ul_cursor := None\<rparr>) }
      | Some b \<Rightarrow> do {
          d \<leftarrow> ul_heap u b;
          (case cl_prev d of
             Some p \<Rightarrow> do {
               u1 \<leftarrow> free_cell p u;
               h \<leftarrow> set_prev b None (ul_heap u1);
               destroy_loop b (u1\<lparr>ul_heap := h\<rparr>)
             }
           | None \<Rightarrow> do { u1 \<leftarrow> free_cell (ul_last u) u; destroy_loop b u1 })
        })
   }"

definition ulist_delete :: "'e ulist \<Rightarrow> 'e ulist option" where
  "ulist_delete u = destroy_loop (ul_zero u) u"

section \<open>The cells of a list\<close>

definition drop_nth :: "nat \<Rightarrow> 'a list \<Rightarrow> 'a list" where
  "drop_nth k xs = take k xs @ drop (Suc k) xs"

lemma length_drop_nth [simp]: "k < length xs \<Longrightarrow> length (drop_nth k xs) = length xs - 1"
  by (simp add: drop_nth_def)

lemma nth_drop_nth: "k < length xs \<Longrightarrow> i < length xs - 1 \<Longrightarrow> drop_nth k xs ! i = xs ! (if i < k then i else Suc i)"
  by (auto simp: drop_nth_def nth_append)

lemma set_drop_nth: "distinct xs \<Longrightarrow> k < length xs \<Longrightarrow> set (drop_nth k xs) = set xs - {xs ! k}"
proof -
  assume d: "distinct xs" and k: "k < length xs"
  have x: "xs = take k xs @ xs ! k # drop (Suc k) xs" using k by (simp add: id_take_nth_drop)
  then have "set xs = set (take k xs) \<union> {xs ! k} \<union> set (drop (Suc k) xs)"
    by (metis Un_insert_right list.simps(15) set_append sup_bot.right_neutral Un_assoc insert_is_Un)
  moreover have "xs ! k \<notin> set (take k xs) \<union> set (drop (Suc k) xs)" using d x
    by (metis Un_iff distinct_append distinct.simps(2) disjoint_iff list.set_intros(1) set_append)
  ultimately show ?thesis by (auto simp: drop_nth_def)
qed

lemma distinct_drop_nth: "distinct xs \<Longrightarrow> distinct (drop_nth k xs)"
  unfolding drop_nth_def using set_take_disj_set_drop_if_distinct [of xs k "Suc k"] by auto

definition node :: "nat list \<Rightarrow> 'e option list \<Rightarrow> nat \<Rightarrow> 'e cell" where
  "node ns vs i = \<lparr>cl_next = (if Suc i < length ns then Some (ns ! Suc i) else None),
     cl_prev = (if i = 0 then None else Some (ns ! (i - 1))), cl_value = vs ! i\<rparr>"

definition chain :: "'e heap \<Rightarrow> nat list \<Rightarrow> 'e option list \<Rightarrow> bool" where
  "chain h ns vs \<longleftrightarrow> distinct ns \<and> length vs = length ns \<and> dom h = set ns
     \<and> (\<forall>i<length ns. h (ns ! i) = Some (node ns vs i))"

lemma chainD:
  assumes "chain h ns vs"
  shows "distinct ns" "length vs = length ns" "dom h = set ns" "i < length ns \<Longrightarrow> h (ns ! i) = Some (node ns vs i)"
  using assms by (auto simp: chain_def)

lemma chain_remove:
  assumes c: "chain h ns vs" and k: "0 < k" "Suc k < length ns"
  shows "\<exists>h'. unlink (node ns vs k) h = Some h' \<and> h' (ns ! k) = Some (node ns vs k)
     \<and> chain (h'(ns ! k := None)) (drop_nth k ns) (drop_nth k vs)"
proof -
  have d: "distinct ns" by (rule chainD [OF c])
  have ix: "ns ! i = ns ! j \<longleftrightarrow> i = j" if "i < length ns" "j < length ns" for i j
    using d that by (simp add: nth_eq_iff_index_eq)
  let ?n = "node ns vs"
  let ?h = "h(ns ! Suc k \<mapsto> ?n (Suc k)\<lparr>cl_prev := Some (ns ! (k - 1))\<rparr>,
              ns ! (k - 1) \<mapsto> ?n (k - 1)\<lparr>cl_next := Some (ns ! Suc k)\<rparr>)"
  have "k - 1 < length ns" "Suc k \<noteq> k - 1" using k by auto
  then have u: "unlink (?n k) h = Some ?h"
    using k ix [of "Suc k" "k - 1"] chainD(4) [OF c, of "Suc k"] chainD(4) [OF c, of "k - 1"]
    by (simp add: unlink_def node_def set_prev_def set_next_def)
  have hk: "?h (ns ! k) = Some (?n k)"
    using k chainD(4) [OF c, of k] ix [of k "Suc k"] ix [of k "k - 1"] by simp
  have dm: "dom (?h(ns ! k := None)) = set ns - {ns ! k}"
    using k chainD(3) [OF c] by (auto simp: dom_def)
  have nd: "(?h(ns ! k := None)) (drop_nth k ns ! i) = Some (node (drop_nth k ns) (drop_nth k vs) i)"
    if i: "i < length ns - 1" for i
  proof -
    consider "Suc i < k" | "k = Suc i" | "i = k" | "k < i" by linarith
    then show ?thesis
    proof cases
      case 1
      then show ?thesis using k i ix chainD(2,4) [OF c] by (auto simp: nth_drop_nth node_def)
    next
      case 2
      have "ns ! i \<noteq> ns ! Suc i" using ix [of i "Suc i"] i by simp
      moreover have "i - Suc 0 < Suc i" "Suc i < length ns - Suc 0" using 2 k by auto
      ultimately show ?thesis using 2 k i chainD(2) [OF c] by (simp add: nth_drop_nth node_def)
    next
      case 3
      have "ns ! Suc k \<noteq> ns ! (k - 1)" "ns ! Suc k \<noteq> ns ! k"
        using ix [of "Suc k" "k - 1"] ix [of "Suc k" k] k by auto
      moreover have "Suc (Suc k) < length ns \<longleftrightarrow> Suc k < length ns - Suc 0" by auto
      ultimately show ?thesis using 3 k i chainD(2) [OF c] by (simp add: nth_drop_nth node_def)
    next
      case 4
      then show ?thesis using k i ix chainD(2,4) [OF c] by (auto simp: nth_drop_nth node_def)
    qed
  qed
  have "chain (?h(ns ! k := None)) (drop_nth k ns) (drop_nth k vs)"
    using k dm nd chainD(2) [OF c] by (simp add: chain_def set_drop_nth [OF d] distinct_drop_nth [OF d])
  then show ?thesis using u hk by blast
qed

lemma chain_insert:
  assumes c: "chain h (bs @ [z]) (ws @ [w])" and t: "t \<notin> set (bs @ [z])" and b: "bs \<noteq> []"
    and h1: "h1 = h(t \<mapsto> \<lparr>cl_next = Some z, cl_prev = Some (last bs), cl_value = e\<rparr>)"
  shows "\<exists>h2 h3. set_next (last bs) (Some t) h1 = Some h2 \<and> set_prev z (Some t) h2 = Some h3
     \<and> chain h3 (bs @ [t, z]) (ws @ [e, w])"
proof -
  let ?m = "length bs" and ?n = "node (bs @ [z]) (ws @ [w])" and ?n' = "node (bs @ [t, z]) (ws @ [e, w])"
  have d: "distinct (bs @ [z])" and len: "length ws = ?m" using chainD(1,2) [OF c] by auto
  have m: "0 < ?m" "last bs = bs ! (?m - 1)" using b by (auto simp: last_conv_nth)
  have hz: "h z = Some (?n ?m)" using chainD(4) [OF c, of ?m] by (simp add: nth_append)
  have hl: "h (last bs) = Some (?n (?m - 1))" using chainD(4) [OF c, of "?m - 1"] m by (simp add: nth_append)
  have ne: "last bs \<noteq> z" "last bs \<noteq> t" "z \<noteq> t" using d t b by auto
  let ?h3 = "h1(last bs \<mapsto> ?n (?m - 1)\<lparr>cl_next := Some t\<rparr>, z \<mapsto> ?n ?m\<lparr>cl_prev := Some t\<rparr>)"
  have s: "set_next (last bs) (Some t) h1 = Some (h1(last bs \<mapsto> ?n (?m - 1)\<lparr>cl_next := Some t\<rparr>))"
    "set_prev z (Some t) (h1(last bs \<mapsto> ?n (?m - 1)\<lparr>cl_next := Some t\<rparr>)) = Some ?h3"
    using hz hl ne by (simp_all add: h1 set_next_def set_prev_def)
  have nd: "?h3 ((bs @ [t, z]) ! i) = Some (?n' i)" if i: "i < ?m + 2" for i
  proof -
    consider "Suc i < ?m" | "?m = Suc i" | "i = ?m" | "i = Suc ?m" using i by linarith
    then show ?thesis
    proof cases
      case 1
      have "bs ! i \<noteq> last bs" using d m 1 nth_eq_iff_index_eq [of bs i "?m - 1"] by auto
      moreover have "bs ! i \<in> set bs" using 1 by simp
      then have "bs ! i \<noteq> t" "bs ! i \<noteq> z" using t d by auto
      moreover have "i - Suc 0 < length bs" using 1 by simp
      ultimately show ?thesis using 1 len b chainD(4) [OF c, of i] by (simp add: h1 nth_append node_def)
    next
      case 2
      then show ?thesis using ne len m by (simp add: nth_append node_def diff_less_Suc)
    next
      case 3
      then show ?thesis using ne len m by (simp add: h1 nth_append node_def)
    next
      case 4
      then show ?thesis using ne len m by (simp add: nth_append node_def)
    qed
  qed
  have "dom ?h3 = set (bs @ [t, z])"
    using chainD(3) [OF c] b by (auto simp: h1)
  then have "chain ?h3 (bs @ [t, z]) (ws @ [e, w])"
    using d t len nd by (simp add: chain_def)
  then show ?thesis using s by blast
qed

text \<open>The pointer after some steps, and clearing the elements.\<close>

lemma clear_loop_chain:
  assumes "chain h ns vs" "k + n < length ns"
  shows "\<exists>h'. clear_loop n (Some (ns ! k)) h = Some h'
     \<and> chain h' ns (take k vs @ replicate n None @ drop (k + n) vs)"
  using assms
proof (induction n arbitrary: k h vs)
  case 0
  then show ?case by (auto intro: exI [of _ h])
next
  case (Suc n)
  have k: "Suc k < length ns" using Suc.prems by simp
  let ?c = "node ns vs k"
  let ?h = "h(ns ! k \<mapsto> ?c\<lparr>cl_value := None\<rparr>)" and ?vs = "vs[k := None]"
  have h: "h (ns ! k) = Some ?c" "cl_next ?c = Some (ns ! Suc k)"
    using chainD(4) [OF Suc.prems(1), of k] k by (auto simp: node_def)
  have "?h (ns ! i) = Some (node ns ?vs i)" if "i < length ns" for i
    using chainD(1,2) [OF Suc.prems(1)] chainD(4) [OF Suc.prems(1), of i] that k
    by (cases "i = k") (auto simp: node_def nth_eq_iff_index_eq)
  then have "chain ?h ns ?vs"
    using Suc.prems(1) k unfolding chain_def by (auto simp: dom_def)
  moreover have "Suc k + n < length ns" using Suc.prems(2) by simp
  ultimately obtain h' where
    "clear_loop n (Some (ns ! Suc k)) ?h = Some h'"
    "chain h' ns (take (Suc k) ?vs @ replicate n None @ drop (Suc k + n) ?vs)" using Suc.IH by blast
  moreover have "take (Suc k) ?vs = take k vs @ [None]"
    using chainD(2) [OF Suc.prems(1)] k by (simp add: take_Suc_conv_app_nth)
  ultimately show ?case using h by simp
qed

section \<open>The list behind the cells\<close>

text \<open>
  The elements (a cell may hold none), the position of the cursor (0 the first sentinel, one more than the
  length the last) and the deleted elements.
\<close>

record 'e seq =
  sq_items :: "'e option list"
  sq_pos :: nat
  sq_gone :: "'e list"

definition values_of :: "'e option \<Rightarrow> 'e list" where
  "values_of v = (case v of None \<Rightarrow> [] | Some x \<Rightarrow> [x])"

definition seq_add :: "'e option \<Rightarrow> 'e seq \<Rightarrow> 'e seq" where
  "seq_add e s = (if e = None then s else s\<lparr>sq_items := sq_items s @ [e],
     sq_pos := (if sq_pos s = Suc (length (sq_items s)) then Suc (sq_pos s) else sq_pos s)\<rparr>)"

definition seq_remove :: "int \<Rightarrow> 'e seq \<Rightarrow> 'e seq" where
  "seq_remove k s = (if 0 \<le> k \<and> k < int (length (sq_items s))
     then s\<lparr>sq_items := drop_nth (nat k) (sq_items s),
            sq_pos := (if nat k < sq_pos s then sq_pos s - 1 else sq_pos s),
            sq_gone := sq_gone s @ values_of (sq_items s ! nat k)\<rparr> else s)"

definition seq_remove_this :: "'e seq \<Rightarrow> 'e seq" where
  "seq_remove_this s = seq_remove (int (sq_pos s) - 1) s"

definition seq_at :: "nat \<Rightarrow> 'e seq \<Rightarrow> 'e option" where
  "seq_at p s = (if 0 < p \<and> p \<le> length (sq_items s) then sq_items s ! (p - 1) else None)"

definition seq_next :: "'e seq \<Rightarrow> 'e option \<times> 'e seq" where
  "seq_next s = (let p = min (Suc (sq_pos s)) (Suc (length (sq_items s))) in (seq_at p s, s\<lparr>sq_pos := p\<rparr>))"

definition seq_get :: "int \<Rightarrow> 'e seq \<Rightarrow> 'e option" where
  "seq_get k s = (if 0 \<le> k then seq_at (Suc (nat k)) s else None)"

definition seq_clear :: "'e seq \<Rightarrow> 'e seq" where
  "seq_clear s = s\<lparr>sq_items := replicate (length (sq_items s)) None\<rparr>"

definition seq_reset :: "'e seq \<Rightarrow> 'e seq" where
  "seq_reset s = s\<lparr>sq_pos := 0\<rparr>"

definition ulist_cells :: "'e ulist \<Rightarrow> nat list \<Rightarrow> 'e option list \<Rightarrow> bool" where
  "ulist_cells u ns xs \<longleftrightarrow> chain (ul_heap u) ns (None # xs @ [None]) \<and> ul_zero u = ns ! 0
     \<and> ul_last u = ns ! Suc (length xs) \<and> ul_len u = int (length xs) \<and> (\<forall>a\<in>set ns. a < ul_free u)"

definition ulist_rep :: "'e ulist \<Rightarrow> 'e seq \<Rightarrow> bool" where
  "ulist_rep u s \<longleftrightarrow> (\<exists>ns. ulist_cells u ns (sq_items s) \<and> sq_pos s < length ns
     \<and> ul_cursor u = Some (ns ! sq_pos s)) \<and> ul_deleted u = sq_gone s"

lemma ulist_cellsD:
  assumes "ulist_cells u ns xs"
  shows "chain (ul_heap u) ns (None # xs @ [None])" "length ns = length xs + 2" "distinct ns"
    "i < length ns \<Longrightarrow> ul_heap u (ns ! i) = Some (node ns (None # xs @ [None]) i)"
    "ul_zero u = ns ! 0" "ul_last u = ns ! Suc (length xs)" "ul_len u = int (length xs)"
    "a \<in> set ns \<Longrightarrow> a < ul_free u"
proof -
  show c: "chain (ul_heap u) ns (None # xs @ [None])" using assms by (simp add: ulist_cells_def)
  show "length ns = length xs + 2" "distinct ns" using chainD(1,2) [OF c] by auto
  show "i < length ns \<Longrightarrow> ul_heap u (ns ! i) = Some (node ns (None # xs @ [None]) i)" using chainD(4) [OF c] by simp
qed (use assms in \<open>auto simp: ulist_cells_def\<close>)

lemma ulist_new_cells: "ulist_cells (ulist_new g) [0, 1] []"
  by (auto simp: ulist_cells_def ulist_new_def chain_def node_def nth_Cons split: nat.split)

lemma reset_rep: "ulist_cells u ns xs \<Longrightarrow> ulist_rep (reset_cursor u) \<lparr>sq_items = xs, sq_pos = 0, sq_gone = ul_deleted u\<rparr>"
  unfolding ulist_rep_def using ulist_cellsD(2,5) [of u ns xs]
  by (intro conjI exI [of _ ns]) (auto simp: reset_cursor_def ulist_cells_def)

lemma add_item_cells:
  assumes "ulist_cells u ns xs"
  shows "\<exists>u'. add_item (Some e) u = Some u' \<and> ulist_cells u' (butlast ns @ [ul_free u, last ns]) (xs @ [Some e])
    \<and> ul_cursor u' = ul_cursor u \<and> ul_deleted u' = ul_deleted u"
proof -
  note D = ulist_cellsD [OF assms]
  let ?t = "ul_free u"
  obtain bs z where ns: "ns = bs @ [z]" using D(2) by (cases ns rule: rev_cases) auto
  have len: "length bs = Suc (length xs)" using D(2) ns by simp
  then have b: "bs \<noteq> []" by auto
  have z: "ul_last u = z" using D(6) len ns by (simp add: nth_append)
  have c: "chain (ul_heap u) (bs @ [z]) ((None # xs) @ [None])" using D(1) ns by simp
  have t: "?t \<notin> set (bs @ [z])" using D(8) ns by (metis less_irrefl)
  have lz: "ul_heap u z = Some (node ns (None # xs @ [None]) (Suc (length xs)))"
    using D(4) [of "Suc (length xs)"] D(2,6) z by simp
  have "(bs @ [z]) ! length xs = last bs" using b len by (simp add: last_conv_nth nth_append)
  then have pz: "cl_prev (node ns (None # xs @ [None]) (Suc (length xs))) = Some (last bs)"
    by (simp add: node_def ns)
  let ?h1 = "(ul_heap u)(?t \<mapsto> \<lparr>cl_next = Some z, cl_prev = Some (last bs), cl_value = Some e\<rparr>)"
  obtain h2 h3 where h: "set_next (last bs) (Some ?t) ?h1 = Some h2" "set_prev z (Some ?t) h2 = Some h3"
      "chain h3 (bs @ [?t, z]) ((None # xs) @ [Some e, None])"
    using chain_insert [OF c t b refl] by blast
  let ?u = "u\<lparr>ul_heap := h3, ul_free := ?t + 1, ul_len := ul_len u + 1\<rparr>"
  have "add_item (Some e) u = Some ?u" using z lz pz h(1,2) by (simp add: add_item_def)
  moreover have "ulist_cells ?u (bs @ [?t, z]) (xs @ [Some e])"
    unfolding ulist_cells_def
  proof (intro conjI)
    show "ul_zero ?u = (bs @ [?t, z]) ! 0" using D(5) b ns by (simp add: nth_append)
    show "ul_last ?u = (bs @ [?t, z]) ! Suc (length (xs @ [Some e]))" using z len by (simp add: nth_append)
    show "\<forall>a\<in>set (bs @ [?t, z]). a < ul_free ?u" using D(8) ns by (auto simp: less_Suc_eq)
  qed (use h(3) D(7) in simp_all)
  ultimately show ?thesis using ns by auto
qed

lemma drop_nth_frame:
  "k < length xs \<Longrightarrow> drop_nth (Suc k) (a # xs @ [b]) = a # drop_nth k xs @ [b]"
  by (simp add: drop_nth_def)

lemma remove_cells:
  assumes "ulist_cells u ns xs" and k: "k < length xs"
  shows "\<exists>h. unlink (node ns (None # xs @ [None]) (Suc k)) (ul_heap u) = Some h
     \<and> free_cell (ns ! Suc k) (u\<lparr>ul_cursor := cur, ul_heap := h\<rparr>)
         = Some (u\<lparr>ul_cursor := cur, ul_heap := h(ns ! Suc k := None), ul_deleted := ul_deleted u @ values_of (xs ! k)\<rparr>)
     \<and> (\<forall>d cur'. ulist_cells (u\<lparr>ul_cursor := cur', ul_heap := h(ns ! Suc k := None), ul_deleted := d, ul_len := ul_len u - 1\<rparr>)
          (drop_nth (Suc k) ns) (drop_nth k xs))"
proof -
  note D = ulist_cellsD [OF assms(1)]
  obtain h where h: "unlink (node ns (None # xs @ [None]) (Suc k)) (ul_heap u) = Some h"
      "h (ns ! Suc k) = Some (node ns (None # xs @ [None]) (Suc k))"
      "chain (h(ns ! Suc k := None)) (drop_nth (Suc k) ns) (None # drop_nth k xs @ [None])"
    using chain_remove [OF D(1), of "Suc k"] k D(2) drop_nth_frame [OF k, of None None] by auto
  have "\<forall>a\<in>set (drop_nth (Suc k) ns). a < ul_free u" using D(8) set_drop_nth [OF D(3), of "Suc k"] D(2) k by auto
  moreover have "drop_nth (Suc k) ns ! 0 = ns ! 0" "drop_nth (Suc k) ns ! Suc (length xs - Suc 0) = ns ! Suc (length xs)"
  proof -
    have "Suc (length xs - Suc 0) = length xs" "\<not> length xs - Suc 0 < k" using k by auto
    then show "drop_nth (Suc k) ns ! 0 = ns ! 0" "drop_nth (Suc k) ns ! Suc (length xs - Suc 0) = ns ! Suc (length xs)"
      using k D(2) by (simp_all add: nth_drop_nth)
  qed
  ultimately show ?thesis using h k D(5-7)
    by (intro exI [of _ h]) (auto simp: ulist_cells_def free_cell_def node_def values_of_def nth_append split: option.splits)
qed

lemma add_item_rep:
  assumes "ulist_rep u s"
  shows "\<exists>u'. add_item e u = Some u' \<and> ulist_rep u' (seq_add e s)"
proof (cases e)
  case None
  then show ?thesis using assms by (simp add: add_item_def seq_add_def)
next
  case (Some x)
  obtain ns where ns: "ulist_cells u ns (sq_items s)" "sq_pos s < length ns" "ul_cursor u = Some (ns ! sq_pos s)"
      "ul_deleted u = sq_gone s" using assms by (auto simp: ulist_rep_def)
  obtain u' where u': "add_item (Some x) u = Some u'"
      "ulist_cells u' (butlast ns @ [ul_free u, last ns]) (sq_items s @ [Some x])"
      "ul_cursor u' = ul_cursor u" "ul_deleted u' = ul_deleted u" using add_item_cells [OF ns(1)] by blast
  have len: "length ns = length (sq_items s) + 2" by (rule ulist_cellsD(2) [OF ns(1)])
  obtain bs z where bz: "ns = bs @ [z]" using len by (cases ns rule: rev_cases) auto
  show ?thesis
    using u' ns(2-4) Some bz len unfolding ulist_rep_def
    by (intro exI [of _ u']) (auto simp: seq_add_def nth_append intro!: exI [of _ "bs @ [ul_free u, z]"])
qed

lemma remove_cell_rep:
  assumes "ulist_cells u ns (sq_items s)" "sq_pos s < length ns" "ul_cursor u = Some (ns ! sq_pos s)"
      "ul_deleted u = sq_gone s" and k: "k < length (sq_items s)"
  shows "\<exists>u'. remove_cell (ns ! Suc k) u = Some u' \<and> ulist_rep u' (seq_remove (int k) s)"
proof -
  note D = ulist_cellsD [OF assms(1)]
  let ?c = "node ns (None # sq_items s @ [None]) (Suc k)"
  let ?cur = "if ul_cursor u = Some (ns ! Suc k) then cl_prev ?c else ul_cursor u"
  obtain h where h: "unlink ?c (ul_heap u) = Some h"
     "free_cell (ns ! Suc k) (u\<lparr>ul_cursor := ?cur, ul_heap := h\<rparr>) = Some (u\<lparr>ul_cursor := ?cur,
         ul_heap := h(ns ! Suc k := None), ul_deleted := ul_deleted u @ values_of (sq_items s ! k)\<rparr>)"
     "\<And>d cur'. ulist_cells (u\<lparr>ul_cursor := cur', ul_heap := h(ns ! Suc k := None), ul_deleted := d, ul_len := ul_len u - 1\<rparr>)
          (drop_nth (Suc k) ns) (drop_nth k (sq_items s))"
    using remove_cells [OF assms(1) k, of ?cur] by blast
  have hk: "ul_heap u (ns ! Suc k) = Some ?c" using D(4) [of "Suc k"] k D(2) by simp
  have cur: "?cur = Some (drop_nth (Suc k) ns ! (if k < sq_pos s then sq_pos s - 1 else sq_pos s))"
    using assms(2,3) k D(2,3)
    by (auto simp: nth_drop_nth node_def nth_eq_iff_index_eq)
  show ?thesis
    using h hk k assms(2,4) D(2) cur unfolding ulist_rep_def
    by (auto simp: remove_cell_def seq_remove_def Let_def intro!: exI [of _ "drop_nth (Suc k) ns"])
qed

lemma ulist_repE:
  assumes "ulist_rep u s"
  obtains ns where "ulist_cells u ns (sq_items s)" "sq_pos s < length ns" "ul_cursor u = Some (ns ! sq_pos s)"
    "ul_deleted u = sq_gone s" "length ns = length (sq_items s) + 2" "distinct ns"
    "\<forall>i<length ns. ul_heap u (ns ! i) = Some (node ns (None # sq_items s @ [None]) i)"
    "ul_len u = int (length (sq_items s))" "ul_zero u = ns ! 0"
proof -
  from assms obtain ns where r: "ulist_cells u ns (sq_items s)" "sq_pos s < length ns"
    "ul_cursor u = Some (ns ! sq_pos s)" "ul_deleted u = sq_gone s" by (auto simp: ulist_rep_def)
  note D = ulist_cellsD [OF r(1)]
  show thesis by (rule that [OF r D(2,3) _ D(7,5)]) (simp add: D(4))
qed

lemma seq_at_value: "p < length (sq_items s) + 2 \<Longrightarrow> (None # sq_items s @ [None]) ! p = seq_at p s"
  by (cases p) (auto simp: seq_at_def nth_append)

lemma get_next_rep:
  assumes "ulist_rep u s"
  shows "\<exists>u'. get_next u = Some (fst (seq_next s), u') \<and> ulist_rep u' (snd (seq_next s))"
proof -
  obtain ns where D: "ulist_cells u ns (sq_items s)" "sq_pos s < length ns" "ul_cursor u = Some (ns ! sq_pos s)"
    "ul_deleted u = sq_gone s" "length ns = length (sq_items s) + 2" "distinct ns"
    "\<forall>i<length ns. ul_heap u (ns ! i) = Some (node ns (None # sq_items s @ [None]) i)"
    "ul_len u = int (length (sq_items s))" "ul_zero u = ns ! 0"
    using assms by (rule ulist_repE)
  define p where "p = min (Suc (sq_pos s)) (Suc (length (sq_items s)))"
  have p: "p < length ns" using D(5) by (simp add: p_def)
  have n: "(case cl_next (node ns (None # sq_items s @ [None]) (sq_pos s)) of None \<Rightarrow> ns ! sq_pos s | Some n \<Rightarrow> n) = ns ! p"
    using D(2,5) by (auto simp: node_def p_def min_def intro: arg_cong [of _ _ "(!) ns"])
  have "cl_value (node ns (None # sq_items s @ [None]) p) = seq_at p s"
    using seq_at_value [of p s] p D(5) by (simp add: node_def)
  then have "get_next u = Some (seq_at p s, u\<lparr>ul_cursor := Some (ns ! p)\<rparr>)"
    using D(3) D(7) [rule_format, OF D(2)] D(7) [rule_format, OF p] n by (simp add: get_next_def)
  moreover have "ulist_rep (u\<lparr>ul_cursor := Some (ns ! p)\<rparr>) (s\<lparr>sq_pos := p\<rparr>)"
    unfolding ulist_rep_def using D(1,4) p by (auto simp: ulist_cells_def)
  ultimately show ?thesis by (simp only: seq_next_def Let_def p_def [symmetric]) simp
qed

lemma remove_this_rep:
  assumes "ulist_rep u s"
  shows "\<exists>u'. remove_this u = Some u' \<and> ulist_rep u' (seq_remove_this s)"
proof -
  obtain ns where D: "ulist_cells u ns (sq_items s)" "sq_pos s < length ns" "ul_cursor u = Some (ns ! sq_pos s)"
    "ul_deleted u = sq_gone s" "length ns = length (sq_items s) + 2" "distinct ns"
    "\<forall>i<length ns. ul_heap u (ns ! i) = Some (node ns (None # sq_items s @ [None]) i)"
    "ul_len u = int (length (sq_items s))" "ul_zero u = ns ! 0"
    using assms by (rule ulist_repE)
  let ?c = "node ns (None # sq_items s @ [None]) (sq_pos s)"
  show ?thesis
  proof (cases "0 < sq_pos s \<and> sq_pos s \<le> length (sq_items s)")
    case False
    then have "cl_prev ?c = None \<or> cl_next ?c = None" using D(2,5) by (auto simp: node_def)
    then have "remove_this u = Some u" using D(3) D(7) [rule_format, OF D(2)] by (simp add: remove_this_def)
    moreover have "seq_remove_this s = s" using False by (auto simp: seq_remove_this_def seq_remove_def)
    ultimately show ?thesis using assms by simp
  next
    case True
    then obtain k where k: "sq_pos s = Suc k" "k < length (sq_items s)" by (cases "sq_pos s") auto
    obtain h where h: "unlink ?c (ul_heap u) = Some h"
     "free_cell (ns ! Suc k) (u\<lparr>ul_cursor := ul_cursor u, ul_heap := h\<rparr>) = Some (u\<lparr>ul_cursor := ul_cursor u,
         ul_heap := h(ns ! Suc k := None), ul_deleted := ul_deleted u @ values_of (sq_items s ! k)\<rparr>)"
     "\<And>d cur'. ulist_cells (u\<lparr>ul_cursor := cur', ul_heap := h(ns ! Suc k := None), ul_deleted := d, ul_len := ul_len u - 1\<rparr>)
          (drop_nth (Suc k) ns) (drop_nth k (sq_items s))"
      using remove_cells [OF D(1) k(2), of "ul_cursor u"] k(1) by auto
    obtain n where c: "cl_prev ?c = Some (drop_nth (Suc k) ns ! k)" "cl_next ?c = Some n"
      using k D(5) by (auto simp: node_def nth_drop_nth)
    have uc: "u\<lparr>ul_cursor := ul_cursor u, ul_heap := h\<rparr> = u\<lparr>ul_heap := h\<rparr>" by simp
    let ?u = "u\<lparr>ul_cursor := Some (drop_nth (Suc k) ns ! k), ul_heap := h(ns ! Suc k := None),
        ul_deleted := ul_deleted u @ values_of (sq_items s ! k), ul_len := ul_len u - 1\<rparr>"
    have "remove_this u = Some ?u"
      using D(3) D(7) [rule_format, OF D(2)] h(1) h(2) [unfolded uc] k(1) c by (simp add: remove_this_def)
    moreover have "ulist_rep ?u (seq_remove_this s)"
      unfolding ulist_rep_def using h(3) k D(4,5)
      by (auto simp: seq_remove_this_def seq_remove_def intro!: exI [of _ "drop_nth (Suc k) ns"])
    ultimately show ?thesis by blast
  qed
qed

lemma remove_item_loop_walk:
  assumes "\<And>j. j < length ns \<Longrightarrow> ul_heap u (ns ! j) = Some (node ns vs j)" "i \<le> k" "k < i + n" "k + 2 < length ns"
  shows "remove_item_loop n (int i) (int k) (Some (ns ! Suc i)) u = remove_cell (ns ! Suc k) u"
  using assms(2-)
proof (induction n arbitrary: i)
  case (Suc n)
  show ?case
  proof (cases "i = k")
    case False
    then have "remove_item_loop n (int (Suc i)) (int k) (Some (ns ! Suc (Suc i))) u = remove_cell (ns ! Suc k) u"
      using Suc.IH [of "Suc i"] Suc.prems by simp
    then show ?thesis using False Suc.prems assms(1) [of "Suc i"] by (simp add: node_def add.commute)
  qed simp
qed simp

lemma remove_item_rep:
  assumes "ulist_rep u s"
  shows "\<exists>u'. remove_item k u = Some u' \<and> ulist_rep u' (seq_remove k s)"
proof -
  obtain ns where D: "ulist_cells u ns (sq_items s)" "sq_pos s < length ns" "ul_cursor u = Some (ns ! sq_pos s)"
    "ul_deleted u = sq_gone s" "length ns = length (sq_items s) + 2" "distinct ns"
    "\<forall>i<length ns. ul_heap u (ns ! i) = Some (node ns (None # sq_items s @ [None]) i)"
    "ul_len u = int (length (sq_items s))" "ul_zero u = ns ! 0"
    using assms by (rule ulist_repE)
  show ?thesis
  proof (cases "0 \<le> k \<and> k < int (length (sq_items s))")
    case False
    then show ?thesis using assms D(8) by (auto simp: remove_item_def seq_remove_def)
  next
    case True
    then obtain m where m: "k = int m" "m < length (sq_items s)" by (metis nat_0_le of_nat_less_iff)
    have "remove_item k u = remove_cell (ns ! Suc m) u"
      using m D(5,8,9) D(7) [rule_format, of 0] remove_item_loop_walk [of ns u "None # sq_items s @ [None]" 0 m "length (sq_items s)", OF D(7) [rule_format]]
      by (simp add: remove_item_def node_def)
    then show ?thesis using remove_cell_rep [OF D(1-4) m(2)] m(1) by simp
  qed
qed

lemma get_by_id_loop_walk:
  assumes "\<And>j. j < length ns \<Longrightarrow> h (ns ! j) = Some (node ns vs j)" "i + n + 2 \<le> length ns"
  shows "get_by_id_loop n (int i) k (Some (ns ! Suc i)) h
     = Some (if int i \<le> k \<and> k < int (i + n) then vs ! Suc (nat k) else None)"
  using assms(2)
proof (induction n arbitrary: i)
  case (Suc n)
  have "get_by_id_loop n (int (Suc i)) k (Some (ns ! Suc (Suc i))) h
     = Some (if int (Suc i) \<le> k \<and> k < int (Suc i + n) then vs ! Suc (nat k) else None)"
    using Suc.IH [of "Suc i"] Suc.prems by simp
  then show ?case using Suc.prems assms(1) [of "Suc i"] by (auto simp: node_def add.commute)
qed auto

lemma get_by_id_rep:
  assumes "ulist_rep u s"
  shows "get_by_id k u = Some (seq_get k s)"
proof -
  obtain ns where D: "ulist_cells u ns (sq_items s)" "sq_pos s < length ns" "ul_cursor u = Some (ns ! sq_pos s)"
    "ul_deleted u = sq_gone s" "length ns = length (sq_items s) + 2" "distinct ns"
    "\<forall>i<length ns. ul_heap u (ns ! i) = Some (node ns (None # sq_items s @ [None]) i)"
    "ul_len u = int (length (sq_items s))" "ul_zero u = ns ! 0"
    using assms by (rule ulist_repE)
  have "get_by_id_loop (length (sq_items s)) (int 0) k (Some (ns ! Suc 0)) (ul_heap u)
     = Some (if int 0 \<le> k \<and> k < int (0 + length (sq_items s)) then (None # sq_items s @ [None]) ! Suc (nat k) else None)"
    using D(5) by (intro get_by_id_loop_walk) (simp_all add: D(7))
  then show ?thesis
    using D(5,8,9) D(7) [rule_format, of 0] by (auto simp: get_by_id_def node_def seq_get_def seq_at_def nth_append)
qed

lemma clear_to_null_rep:
  assumes "ulist_rep u s"
  shows "\<exists>u'. clear_to_null u = Some u' \<and> ulist_rep u' (seq_clear s)"
proof -
  obtain ns where D: "ulist_cells u ns (sq_items s)" "sq_pos s < length ns" "ul_cursor u = Some (ns ! sq_pos s)"
    "ul_deleted u = sq_gone s" "length ns = length (sq_items s) + 2" "distinct ns"
    "\<forall>i<length ns. ul_heap u (ns ! i) = Some (node ns (None # sq_items s @ [None]) i)"
    "ul_len u = int (length (sq_items s))" "ul_zero u = ns ! 0"
    using assms by (rule ulist_repE)
  obtain h' where h: "clear_loop (length (sq_items s)) (Some (ns ! 1)) (ul_heap u) = Some h'"
     "chain h' ns (None # replicate (length (sq_items s)) None @ [None])"
    using clear_loop_chain [OF ulist_cellsD(1) [OF D(1)], of 1 "length (sq_items s)"] D(5) by auto
  have "clear_to_null u = Some (u\<lparr>ul_heap := h'\<rparr>)"
    using h(1) D(5,8,9) D(7) [rule_format, of 0] by (simp add: clear_to_null_def node_def)
  moreover have "ulist_rep (u\<lparr>ul_heap := h'\<rparr>) (seq_clear s)"
    unfolding ulist_rep_def using D(1-4) h(2) by (auto simp: ulist_cells_def seq_clear_def)
  ultimately show ?thesis by blast
qed

section \<open>Any sequence of operations\<close>

datatype 'e list_op = Add "'e option" | Remove_at int | Remove_this | Next | By_id int | Clear | Reset | Len

datatype 'e list_answer = Done | Element "'e option" | Length int

fun list_step :: "'e list_op \<Rightarrow> 'e ulist \<Rightarrow> ('e list_answer \<times> 'e ulist) option" where
  "list_step (Add e) u = map_option (Pair Done) (add_item e u)"
| "list_step (Remove_at k) u = map_option (Pair Done) (remove_item k u)"
| "list_step Remove_this u = map_option (Pair Done) (remove_this u)"
| "list_step Next u = map_option (\<lambda>(e, u1). (Element e, u1)) (get_next u)"
| "list_step (By_id k) u = map_option (\<lambda>e. (Element e, u)) (get_by_id k u)"
| "list_step Clear u = map_option (Pair Done) (clear_to_null u)"
| "list_step Reset u = Some (Done, reset_cursor u)"
| "list_step Len u = Some (Length (get_len u), u)"

fun seq_step :: "'e list_op \<Rightarrow> 'e seq \<Rightarrow> 'e list_answer \<times> 'e seq" where
  "seq_step (Add e) s = (Done, seq_add e s)"
| "seq_step (Remove_at k) s = (Done, seq_remove k s)"
| "seq_step Remove_this s = (Done, seq_remove_this s)"
| "seq_step Next s = (Element (fst (seq_next s)), snd (seq_next s))"
| "seq_step (By_id k) s = (Element (seq_get k s), s)"
| "seq_step Clear s = (Done, seq_clear s)"
| "seq_step Reset s = (Done, seq_reset s)"
| "seq_step Len s = (Length (int (length (sq_items s))), s)"

fun list_run :: "'e list_op list \<Rightarrow> 'e ulist \<Rightarrow> ('e list_answer list \<times> 'e ulist) option" where
  "list_run [] u = Some ([], u)"
| "list_run (p # ps) u = do {
     (a, u1) \<leftarrow> list_step p u;
     (as, u2) \<leftarrow> list_run ps u1;
     Some (a # as, u2)
   }"

fun seq_run :: "'e list_op list \<Rightarrow> 'e seq \<Rightarrow> 'e list_answer list \<times> 'e seq" where
  "seq_run [] s = ([], s)"
| "seq_run (p # ps) s =
     (case seq_step p s of (a, s1) \<Rightarrow> case seq_run ps s1 of (as, s2) \<Rightarrow> (a # as, s2))"

lemma list_step_rep:
  assumes "ulist_rep u s"
  shows "\<exists>u'. list_step p u = Some (fst (seq_step p s), u') \<and> ulist_rep u' (snd (seq_step p s))"
proof (cases p)
  case (Add e)
  then show ?thesis using add_item_rep [OF assms, of e] by auto
next
  case (Remove_at k)
  then show ?thesis using remove_item_rep [OF assms, of k] by auto
next
  case Remove_this
  then show ?thesis using remove_this_rep [OF assms] by auto
next
  case Next
  then show ?thesis using get_next_rep [OF assms] by auto
next
  case (By_id k)
  then show ?thesis using get_by_id_rep [OF assms, of k] assms by auto
next
  case Clear
  then show ?thesis using clear_to_null_rep [OF assms] by auto
next
  case Reset
  obtain ns where "ulist_cells u ns (sq_items s)" "ul_deleted u = sq_gone s" using assms by (rule ulist_repE)
  then have "ulist_rep (reset_cursor u) \<lparr>sq_items = sq_items s, sq_pos = 0, sq_gone = sq_gone s\<rparr>"
    using reset_rep by metis
  then show ?thesis using Reset by (cases s) (simp add: seq_reset_def)
next
  case Len
  obtain ns where "ul_len u = int (length (sq_items s))" using assms by (rule ulist_repE)
  then show ?thesis using Len assms by (simp add: get_len_def)
qed

lemma list_run_rep:
  assumes "ulist_rep u s"
  shows "\<exists>u'. list_run ps u = Some (fst (seq_run ps s), u') \<and> ulist_rep u' (snd (seq_run ps s))"
  using assms
proof (induction ps arbitrary: u s)
  case (Cons p ps)
  obtain u1 where u1: "list_step p u = Some (fst (seq_step p s), u1)" "ulist_rep u1 (snd (seq_step p s))"
    using list_step_rep [OF Cons.prems] by blast
  from Cons.IH [OF this(2)] u1(1) show ?case by (auto split: prod.split)
qed simp

lemma destroy_loop_frees:
  assumes "distinct ns" "k < length ns" "length vs = length ns" "ul_last u = ns ! (length ns - 1)"
    and "dom (ul_heap u) = set (drop k ns)"
    and "map_option (cl_prev_update (\<lambda>_. None)) (ul_heap u (ns ! k)) = Some (node ns vs k\<lparr>cl_prev := None\<rparr>)"
    and "\<forall>i. k < i \<and> i < length ns \<longrightarrow> ul_heap u (ns ! i) = Some (node ns vs i)"
  shows "\<exists>u'. destroy_loop (ns ! k) u = Some u' \<and> ul_heap u' = Map.empty
     \<and> ul_deleted u' = ul_deleted u @ concat (map values_of (drop k vs))"
  using assms
proof (induction "length ns - k" arbitrary: k u rule: less_induct)
  case less
  obtain c where c: "ul_heap u (ns ! k) = Some c" "cl_next c = cl_next (node ns vs k)" "cl_value c = vs ! k"
  proof -
    obtain c where "ul_heap u (ns ! k) = Some c" "c\<lparr>cl_prev := None\<rparr> = node ns vs k\<lparr>cl_prev := None\<rparr>"
      using less.prems(6) by auto
    then show ?thesis by (cases c) (auto simp: node_def intro: that)
  qed
  show ?case
  proof (cases "Suc k < length ns")
    case False
    then have k: "length ns = Suc k" using less.prems(2) by simp
    then have "drop k ns = [ns ! k]" "drop k vs = [vs ! k]"
      using less.prems(3) by (metis Cons_nth_drop_Suc drop_all lessI order_refl)+
    then show ?thesis using c k less.prems(4,5)
      by (subst destroy_loop.simps) (auto simp: node_def free_cell_def values_of_def fun_eq_iff dom_def)
  next
    case True
    define b where "b = ns ! Suc k"
    have cn: "cl_next c = Some b" using c(2) True by (simp add: node_def b_def)
    have hb: "ul_heap u b = Some (node ns vs (Suc k))" using less.prems(7) True by (simp add: b_def)
    have pb: "cl_prev (node ns vs (Suc k)) = Some (ns ! k)" by (simp add: node_def)
    have ne: "b \<noteq> ns ! k" using less.prems(1) True by (simp add: b_def nth_eq_iff_index_eq)
    let ?h1 = "(ul_heap u)(ns ! k := None)"
    let ?h = "?h1(b \<mapsto> node ns vs (Suc k)\<lparr>cl_prev := None\<rparr>)"
    let ?u = "u\<lparr>ul_deleted := ul_deleted u @ values_of (vs ! k), ul_heap := ?h\<rparr>"
    have unf: "destroy_loop (ns ! k) u = destroy_loop b ?u"
      using c(1,3) cn hb pb ne
      by (subst destroy_loop.simps) (simp add: free_cell_def set_prev_def values_of_def)
    have dk: "drop k ns = ns ! k # drop (Suc k) ns" "drop k vs = vs ! k # drop (Suc k) vs"
      using True less.prems(2,3) by (simp_all add: Cons_nth_drop_Suc)
    have nk: "ns ! k \<notin> set (drop (Suc k) ns)"
      using less.prems(1) dk(1) by (metis distinct.simps(2) distinct_drop)
    have bi: "b \<in> set (drop (Suc k) ns)" using True by (metis Cons_nth_drop_Suc b_def list.set_intros(1))
    have "\<exists>u'. destroy_loop (ns ! Suc k) ?u = Some u' \<and> ul_heap u' = Map.empty
       \<and> ul_deleted u' = ul_deleted ?u @ concat (map values_of (drop (Suc k) vs))"
    proof (rule less.hyps)
      show "length ns - Suc k < length ns - k" using True by simp
      show "dom (ul_heap ?u) = set (drop (Suc k) ns)"
        using less.prems(5) dk(1) nk bi by auto
      show "map_option (cl_prev_update (\<lambda>_. None)) (ul_heap ?u (ns ! Suc k)) = Some (node ns vs (Suc k)\<lparr>cl_prev := None\<rparr>)"
        by (simp add: b_def)
      show "\<forall>i. Suc k < i \<and> i < length ns \<longrightarrow> ul_heap ?u (ns ! i) = Some (node ns vs i)"
        using less.prems(1,7) True by (auto simp: b_def nth_eq_iff_index_eq)
    qed (use less.prems True in simp_all)
    then show ?thesis using unf dk(2) by (simp add: b_def)
  qed
qed

lemma ulist_delete_rep:
  assumes "ulist_cells u ns xs"
  shows "\<exists>u'. ulist_delete u = Some u' \<and> ul_heap u' = Map.empty
     \<and> ul_deleted u' = ul_deleted u @ concat (map values_of xs)"
proof -
  note D = ulist_cellsD [OF assms]
  have "\<exists>u'. destroy_loop (ns ! 0) u = Some u' \<and> ul_heap u' = Map.empty
     \<and> ul_deleted u' = ul_deleted u @ concat (map values_of (drop 0 (None # xs @ [None])))"
    using D(1-4,6) chainD(3) [OF D(1)] by (intro destroy_loop_frees) auto
  then show ?thesis using D(5) by (simp add: ulist_delete_def values_of_def)
qed

text \<open>
  C24: on a new list, once the cursor is reset, every sequence of operations behaves as on a plain list with a
  position: no operation ever follows a null or freed pointer, and the answers are those of the plain list.
  Deleting the list afterwards frees every cell, and every element that was ever taken out or is still in the
  list is deleted exactly once, in that order.
\<close>

theorem ulist_refines:
  "\<exists>u u'. list_run ps (reset_cursor (ulist_new garbage))
       = Some (fst (seq_run ps \<lparr>sq_items = [], sq_pos = 0, sq_gone = []\<rparr>), u)
     \<and> ulist_delete u = Some u' \<and> ul_heap u' = Map.empty
     \<and> ul_deleted u' = sq_gone (snd (seq_run ps \<lparr>sq_items = [], sq_pos = 0, sq_gone = []\<rparr>))
          @ concat (map values_of (sq_items (snd (seq_run ps \<lparr>sq_items = [], sq_pos = 0, sq_gone = []\<rparr>))))"
proof -
  let ?s = "\<lparr>sq_items = [], sq_pos = 0, sq_gone = []\<rparr>"
  have "ulist_rep (reset_cursor (ulist_new garbage)) ?s"
    using reset_rep [OF ulist_new_cells [of garbage]] by (simp add: ulist_new_def)
  then obtain u where u: "list_run ps (reset_cursor (ulist_new garbage)) = Some (fst (seq_run ps ?s), u)"
      "ulist_rep u (snd (seq_run ps ?s))" using list_run_rep by blast
  obtain ns where ns: "ulist_cells u ns (sq_items (snd (seq_run ps ?s)))" "ul_deleted u = sq_gone (snd (seq_run ps ?s))"
    using u(2) by (rule ulist_repE)
  from ulist_delete_rep [OF ns(1)] ns(2) u(1) show ?thesis by auto
qed

text \<open>Without the reset, the first step follows whatever the cursor holds.\<close>

lemma cursor_uninitialised: "get_next (ulist_new (Some 7)) = None"
  by (simp add: get_next_def ulist_new_def)

section \<open>Loops over a list\<close>

text \<open>
  \<open>ResetCursor(); for (i = 0; i < GetLen(); i++) { e = GetNext(); ... }\<close>: the length is taken anew
  in every round, the body may remove the element under the cursor, return early, or be undefined.
\<close>

fun seq_each ::
  "nat \<Rightarrow> nat \<Rightarrow> ('e option \<Rightarrow> 'e seq \<Rightarrow> 's \<Rightarrow> ('r option \<times> 'e seq \<times> 's) option) \<Rightarrow> 'e seq \<Rightarrow> 's
    \<Rightarrow> ('r option \<times> 'e seq \<times> 's) option" where
  "seq_each 0 i body l s = Some (None, l, s)"
| "seq_each (Suc n) i body l s =
     (if length (sq_items l) \<le> i then Some (None, l, s)
      else do {
        (r, l1, s1) \<leftarrow> body (fst (seq_next l)) (snd (seq_next l)) s;
        if r = None then seq_each n (Suc i) body l1 s1 else Some (r, l1, s1)
      })"

definition for_each ::
  "('e option \<Rightarrow> 'e seq \<Rightarrow> 's \<Rightarrow> ('r option \<times> 'e seq \<times> 's) option) \<Rightarrow> 'e seq \<Rightarrow> 's
    \<Rightarrow> ('r option \<times> 'e seq \<times> 's) option" where
  "for_each body l s = seq_each (length (sq_items l)) 0 body (seq_reset l) s"

lemma seq_next_at:
  "sq_pos l < length (sq_items l) \<Longrightarrow> seq_next l = (sq_items l ! sq_pos l, l\<lparr>sq_pos := Suc (sq_pos l)\<rparr>)"
  by (simp add: seq_next_def seq_at_def Let_def)

text \<open>A search: the first element with a property, nothing changed but the cursor.\<close>

lemma seq_each_search:
  assumes "\<And>e l'. e \<in> set (sq_items l) \<Longrightarrow>
      body e l' s = Some (if P e then (Some (f e), h l', s) else (None, l', s))"
    and "sq_pos l = i" "n + i = length (sq_items l)"
    and "\<And>l'. sq_items (h l') = sq_items l'" "\<And>l'. sq_gone (h l') = sq_gone l'"
  shows "\<exists>l'. seq_each n i body l s = Some (map_option f (find P (drop i (sq_items l))), l', s)
     \<and> sq_items l' = sq_items l \<and> sq_gone l' = sq_gone l"
  using assms(1-3)
proof (induction n arbitrary: i l)
  case (Suc n)
  let ?e = "sq_items l ! i" and ?l = "l\<lparr>sq_pos := Suc i\<rparr>"
  have i: "i < length (sq_items l)" using Suc.prems(3) by simp
  have d: "drop i (sq_items l) = ?e # drop (Suc i) (sq_items l)" using i by (rule Cons_nth_drop_Suc [symmetric])
  have nx: "seq_next l = (?e, ?l)" using i Suc.prems(2) seq_next_at [of l] by simp
  have b: "body ?e ?l s = Some (if P ?e then (Some (f ?e), h ?l, s) else (None, ?l, s))"
    using Suc.prems(1) i by simp
  show ?case
  proof (cases "P ?e")
    case True
    then show ?thesis using i nx b d assms(4,5) by auto
  next
    case False
    have "\<exists>l'. seq_each n (Suc i) body ?l s = Some (map_option f (find P (drop (Suc i) (sq_items ?l))), l', s)
     \<and> sq_items l' = sq_items ?l \<and> sq_gone l' = sq_gone ?l"
      using Suc.prems by (intro Suc.IH) auto
    then show ?thesis using False i nx b d by auto
  qed
qed simp

lemma for_each_search:
  assumes "\<And>e l'. e \<in> set (sq_items l) \<Longrightarrow>
      body e l' s = Some (if P e then (Some (f e), h l', s) else (None, l', s))"
    and "\<And>l'. sq_items (h l') = sq_items l'" "\<And>l'. sq_gone (h l') = sq_gone l'"
  shows "\<exists>l'. for_each body l s = Some (map_option f (find P (sq_items l)), l', s)
     \<and> sq_items l' = sq_items l \<and> sq_gone l' = sq_gone l"
  using seq_each_search [of "seq_reset l" body s P f h 0 "length (sq_items l)"] assms
  by (simp add: for_each_def seq_reset_def)

text \<open>A pass over all elements that only changes the state.\<close>

lemma seq_each_pass:
  assumes "\<And>e l' s. e \<in> set (sq_items l) \<Longrightarrow> body e l' s = map_option (\<lambda>s'. (None, l', s')) (g e s)"
    and "sq_pos l = i" "n + i = length (sq_items l)"
  shows "\<exists>p. seq_each n i body l s =
      map_option (\<lambda>s'. (None, l\<lparr>sq_pos := p\<rparr>, s')) (fold (\<lambda>e r. Option.bind r (g e)) (drop i (sq_items l)) (Some s))"
  using assms
proof (induction n arbitrary: i l s)
  case 0
  then show ?case by (auto intro: exI [of _ i])
next
  case (Suc n)
  let ?e = "sq_items l ! i" and ?l = "l\<lparr>sq_pos := Suc i\<rparr>"
  have i: "i < length (sq_items l)" using Suc.prems(3) by simp
  have d: "drop i (sq_items l) = ?e # drop (Suc i) (sq_items l)" using i by (rule Cons_nth_drop_Suc [symmetric])
  have nx: "seq_next l = (?e, ?l)" using i Suc.prems(2) seq_next_at [of l] by simp
  have b: "body ?e ?l s = map_option (\<lambda>s'. (None, ?l, s')) (g ?e s)" using Suc.prems(1) i by simp
  have none: "fold (\<lambda>e r. Option.bind r (g e)) es None = None" for es by (induction es) auto
  show ?case
  proof (cases "g ?e s")
    case None
    then show ?thesis using i nx b d none by simp
  next
    case (Some s1)
    have "\<exists>p. seq_each n (Suc i) body ?l s1 =
      map_option (\<lambda>s'. (None, ?l\<lparr>sq_pos := p\<rparr>, s')) (fold (\<lambda>e r. Option.bind r (g e)) (drop (Suc i) (sq_items ?l)) (Some s1))"
      using Suc.prems by (intro Suc.IH) auto
    then show ?thesis using Some i nx b d by auto
  qed
qed

text \<open>What every round keeps, whatever the position of the cursor, the loop keeps.\<close>

lemma seq_each_inv:
  assumes step: "\<And>e l s r l' s'. I l s \<Longrightarrow> e = seq_at (sq_pos l) l \<Longrightarrow> body e l s = Some (r, l', s') \<Longrightarrow> I l' s'"
    and pos: "\<And>l s p. I l s \<Longrightarrow> I (l\<lparr>sq_pos := p\<rparr>) s"
    and run: "seq_each n i body l s = Some (r, l', s')" and init: "I l s"
  shows "I l' s'"
  using run init
proof (induction n arbitrary: i l s)
  case (Suc n)
  let ?e = "fst (seq_next l)" and ?l = "snd (seq_next l)"
  have e: "?e = seq_at (sq_pos ?l) ?l" "I ?l s"
    using pos [OF Suc.prems(2)] by (simp_all add: seq_next_def Let_def seq_at_def)
  show ?case
  proof (cases "length (sq_items l) \<le> i")
    case True
    then show ?thesis using Suc.prems by simp
  next
    case False
    then obtain r1 l1 s1 where b: "body ?e ?l s = Some (r1, l1, s1)"
        "(if r1 = None then seq_each n (Suc i) body l1 s1 else Some (r1, l1, s1)) = Some (r, l', s')"
      using Suc.prems(1) by (auto split: Option.bind_splits)
    have "I l1 s1" by (rule step [OF e(2,1) b(1)])
    then show ?thesis using b(2) Suc.IH by (auto split: if_splits)
  qed
qed simp

lemma for_each_inv:
  assumes "\<And>e l s r l' s'. I l s \<Longrightarrow> e = seq_at (sq_pos l) l \<Longrightarrow> body e l s = Some (r, l', s') \<Longrightarrow> I l' s'"
    and "\<And>l s p. I l s \<Longrightarrow> I (l\<lparr>sq_pos := p\<rparr>) s"
    and "for_each body l s = Some (r, l', s')" and "I l s"
  shows "I l' s'"
proof (rule seq_each_inv [where I = I and body = body])
  show "seq_each (length (sq_items l)) 0 body (l\<lparr>sq_pos := 0\<rparr>) s = Some (r, l', s')"
    using assms(3) by (simp add: for_each_def seq_reset_def)
  show "I (l\<lparr>sq_pos := 0\<rparr>) s" by (rule assms(2) [OF assms(4)])
qed (rule assms(1,2); assumption)+

text \<open>A loop is defined when every round is.\<close>

lemma seq_each_defined:
  assumes step: "\<And>e l s. I l s \<Longrightarrow> e = seq_at (sq_pos l) l \<Longrightarrow> \<exists>r l' s'. body e l s = Some (r, l', s') \<and> I l' s'"
    and pos: "\<And>l s p. I l s \<Longrightarrow> I (l\<lparr>sq_pos := p\<rparr>) s"
    and init: "I l s"
  shows "\<exists>r l' s'. seq_each n i body l s = Some (r, l', s') \<and> I l' s'"
  using init
proof (induction n arbitrary: i l s)
  case (Suc n)
  let ?e = "fst (seq_next l)" and ?l = "snd (seq_next l)"
  have e: "?e = seq_at (sq_pos ?l) ?l" "I ?l s"
    using pos [OF Suc.prems] by (simp_all add: seq_next_def Let_def seq_at_def)
  obtain r1 l1 s1 where "body ?e ?l s = Some (r1, l1, s1)" "I l1 s1" using step [OF e(2,1)] by blast
  then show ?case using Suc.prems Suc.IH [of l1 s1 "Suc i"] by auto
qed simp

lemma for_each_defined:
  assumes "\<And>e l s. I l s \<Longrightarrow> e = seq_at (sq_pos l) l \<Longrightarrow> \<exists>r l' s'. body e l s = Some (r, l', s') \<and> I l' s'"
    and "\<And>l s p. I l s \<Longrightarrow> I (l\<lparr>sq_pos := p\<rparr>) s"
    and "I l s"
  shows "\<exists>r l' s'. for_each body l s = Some (r, l', s') \<and> I l' s'"
  unfolding for_each_def seq_reset_def
proof (rule seq_each_defined [where I = I and body = body])
  show "I (l\<lparr>sq_pos := 0\<rparr>) s" by (rule assms(2) [OF assms(3)])
qed (rule assms(1,2); assumption)+

text \<open>An early return comes from a round on the element under the cursor; without one, all rounds were passed.\<close>

lemma seq_each_cases:
  assumes step: "\<And>e l s l' s'. I l s \<Longrightarrow> e = seq_at (sq_pos l) l \<Longrightarrow> body e l s = Some (None, l', s') \<Longrightarrow> I l' s'"
    and pos: "\<And>l s p. I l s \<Longrightarrow> I (l\<lparr>sq_pos := p\<rparr>) s"
    and run: "seq_each n i body l s = Some (r, l', s')" and init: "I l s"
  shows "case r of None \<Rightarrow> I l' s' | Some x \<Rightarrow> \<exists>l s. I l s \<and> body (seq_at (sq_pos l) l) l s = Some (Some x, l', s')"
  using run init
proof (induction n arbitrary: i l s)
  case (Suc n)
  let ?e = "fst (seq_next l)" and ?l = "snd (seq_next l)"
  have e: "?e = seq_at (sq_pos ?l) ?l" "I ?l s"
    using pos [OF Suc.prems(2)] by (simp_all add: seq_next_def Let_def seq_at_def)
  show ?case
  proof (cases "length (sq_items l) \<le> i")
    case True
    then show ?thesis using Suc.prems by auto
  next
    case False
    then obtain r1 l1 s1 where b: "body ?e ?l s = Some (r1, l1, s1)"
        "(if r1 = None then seq_each n (Suc i) body l1 s1 else Some (r1, l1, s1)) = Some (r, l', s')"
      using Suc.prems(1) by (auto split: Option.bind_splits)
    show ?thesis
    proof (cases r1)
      case None
      then have "I l1 s1" using step [OF e(2,1)] b(1) by simp
      then show ?thesis using b(2) None Suc.IH [of "Suc i" l1 s1] by simp
    next
      case (Some x)
      then have "I ?l s \<and> body (seq_at (sq_pos ?l) ?l) ?l s = Some (Some x, l', s')" "r = Some x" using b e by auto
      then show ?thesis by (simp del: split_paired_Ex) blast
    qed
  qed
qed auto

lemma for_each_cases:
  assumes "\<And>e l s l' s'. I l s \<Longrightarrow> e = seq_at (sq_pos l) l \<Longrightarrow> body e l s = Some (None, l', s') \<Longrightarrow> I l' s'"
    and "\<And>l s p. I l s \<Longrightarrow> I (l\<lparr>sq_pos := p\<rparr>) s"
    and "for_each body l s = Some (r, l', s')" and "I l s"
  shows "case r of None \<Rightarrow> I l' s' | Some x \<Rightarrow> \<exists>l s. I l s \<and> body (seq_at (sq_pos l) l) l s = Some (Some x, l', s')"
proof (rule seq_each_cases [where I = I and body = body])
  show "seq_each (length (sq_items l)) 0 body (l\<lparr>sq_pos := 0\<rparr>) s = Some (r, l', s')"
    using assms(3) by (simp add: for_each_def seq_reset_def)
  show "I (l\<lparr>sq_pos := 0\<rparr>) s" by (rule assms(2) [OF assms(4)])
qed (rule assms(1,2); assumption)+

end
