(* ===== verification/Server_Modules.thy ===== *)
theory Server_Modules
  imports Server_List Server_Config
begin

text \<open>
  The payment modules of the payment server (\<open>legacy/payguide/src/paysys.h\<close>, \<open>paysys.cpp\<close>): loading
  a module from a shared object, finding it by name, marking it as unloaded and freeing it once it is
  not in use. The dynamic linker and the files are a parameter. The modules are objects at
  addresses; the list of modules holds addresses, in a list as in \<open>Server_List\<close>. What the code
  of a module does is not modelled; the calls of its entry points are recorded.
\<close>

section \<open>A module\<close>

record pay_module =
  mo_name :: string
  mo_short_name :: string
  mo_broken :: int
  mo_unloaded :: bool
  mo_use_count :: int
  mo_check_support :: bool
  mo_config :: server_config
  mo_open :: bool
  mo_send_data :: bool
  mo_clean :: bool
  mo_init :: bool
  mo_init_ext :: bool
  mo_load_so :: bool
  mo_unload_so :: bool
  mo_thread_start :: bool
  mo_thread_end :: bool
  mo_call :: bool

definition pay_module_new :: pay_module where
  "pay_module_new = \<lparr>mo_name = ''-'', mo_short_name = ''-'', mo_broken = 0, mo_unloaded = False, mo_use_count = 0,
     mo_check_support = False, mo_config = [], mo_open = False, mo_send_data = False, mo_clean = False,
     mo_init = False, mo_init_ext = False, mo_load_so = False, mo_unload_so = False,
     mo_thread_start = False, mo_thread_end = False, mo_call = False\<rparr>"

text \<open>The outside: which shared objects open, which symbols they have, files, directories.\<close>

record module_env =
  me_opens :: "string \<Rightarrow> bool"
  me_symbol :: "string \<Rightarrow> string \<Rightarrow> bool"
  me_file :: "string \<Rightarrow> string option"
  me_dir :: "string \<Rightarrow> string list option"

text \<open>\<open>LoadFunc\<close>: the entry points, in order; a missing one of the required ones breaks the module.\<close>

definition load_func_required :: "(string \<Rightarrow> bool) \<Rightarrow> pay_module \<Rightarrow> int \<times> pay_module" where
  "load_func_required symb m =
     (if \<not> symb ''SendData'' then (1, m)
      else let m1 = m\<lparr>mo_send_data := True\<rparr> in
      if \<not> symb ''CleanUp'' then (1, m1)
      else let m2 = m1\<lparr>mo_clean := True\<rparr> in
      if \<not> symb ''PayInit'' \<and> \<not> symb ''PayInitExt'' then (1, m2)
      else let m3 = (if symb ''PayInit'' then m2\<lparr>mo_init := True\<rparr> else m2\<lparr>mo_init_ext := True\<rparr>) in
      if \<not> symb ''Load'' then (1, m3)
      else let m4 = m3\<lparr>mo_load_so := True\<rparr> in
      if \<not> symb ''UnLoad'' then (1, m4)
      else (0, m4\<lparr>mo_unload_so := True\<rparr>))"

definition load_func :: "(string \<Rightarrow> bool) \<Rightarrow> pay_module \<Rightarrow> int \<times> pay_module" where
  "load_func symb m =
     (case load_func_required symb m of (broken, m1) \<Rightarrow>
        if broken \<noteq> 0 then (broken, m1)
        else (0, m1\<lparr>mo_check_support := symb ''PayCheckSupport'', mo_thread_start := symb ''ThreadStart'',
                    mo_thread_end := symb ''ThreadEnd'', mo_call := symb ''Call''\<rparr>))"

text \<open>The configuration of a module lies beside it; the default module has none.\<close>

definition load_config :: "module_env \<Rightarrow> bool \<Rightarrow> pay_module \<Rightarrow> (int \<times> pay_module) option" where
  "load_config env is_default m =
     (if is_default then Some (0, m)
      else map_option (\<lambda>(r, nodes). (r, m\<lparr>mo_config := nodes\<rparr>)) (read_file (me_file env (mo_name m @ ''.cfg''))))"

text \<open>\<open>Load\<close>: the result is the flag \<open>broken\<close>; the last component says whether \<open>Load\<close> of the module was called.\<close>

definition module_load :: "module_env \<Rightarrow> bool \<Rightarrow> string option \<Rightarrow> string option \<Rightarrow> pay_module
    \<Rightarrow> (int \<times> pay_module \<times> bool) option" where
  "module_load env is_default file_name short_file_name m =
     (case (file_name, short_file_name) of
        (Some f, Some s) \<Rightarrow>
          let m1 = m\<lparr>mo_broken := 0, mo_name := strncpy 99 f, mo_short_name := strncpy 49 s,
                     mo_open := me_opens env f\<rparr> in
          if \<not> me_opens env f then Some (1, m1\<lparr>mo_broken := 1\<rparr>, False)
          else (case load_func (me_symbol env f) m1 of (b, m2) \<Rightarrow>
            if b \<noteq> 0 then Some (b, m2\<lparr>mo_broken := b\<rparr>, False)
            else map_option (\<lambda>(r, m3). (0, m3, True)) (load_config env is_default (m2\<lparr>mo_broken := b\<rparr>)))
      | _ \<Rightarrow> Some (- 1, m, False))"

definition module_use :: "pay_module \<Rightarrow> int \<times> pay_module" where
  "module_use m = (mo_use_count m + 1, m\<lparr>mo_use_count := mo_use_count m + 1\<rparr>)"

definition module_unuse :: "pay_module \<Rightarrow> int \<times> pay_module" where
  "module_unuse m =
     (let n = (if 0 < mo_use_count m then mo_use_count m - 1 else mo_use_count m) in (n, m\<lparr>mo_use_count := n\<rparr>))"

text \<open>Which entry point \<open>InitPay\<close>, \<open>SendPay\<close> and \<open>CleanUp\<close> call.\<close>

definition init_pay_entry :: "pay_module \<Rightarrow> string" where
  "init_pay_entry m = (if mo_init m then ''PayInit'' else ''PayInitExt'')"

definition result_failed :: int where
  "result_failed = 105"

definition broken_message :: string where
  "broken_message =
    [CHR 0xE6, CHR 0xE1, CHR 0xEA, CHR 0xEC, CHR 0x20, CHR 0x2A, CHR 0x2E, CHR 0x53, CHR 0x4F, CHR 0x20, CHR 0xF7, CHR 0x20, CHR 0xEE, CHR 0xE5,
     CHR 0xF7, CHR 0xE5, CHR 0xF2, CHR 0xEE, CHR 0xEF, CHR 0xED, CHR 0x20, CHR 0xE6, CHR 0xEF, CHR 0xF2, CHR 0xED, CHR 0xE1, CHR 0xF4, CHR 0xE5,
     CHR 0x2E, CHR 0x20, CHR 0xF3, CHR 0xEF, CHR 0xEF, CHR 0xE2, CHR 0xFD, CHR 0xE9, CHR 0xF4, CHR 0xE5, CHR 0x20, CHR 0xE1, CHR 0xE4, CHR 0xED,
     CHR 0xE9, CHR 0xEE, CHR 0xE9, CHR 0xF3, CHR 0xF4, CHR 0xF2, CHR 0xE1, CHR 0xF4, CHR 0xEF, CHR 0xF2, CHR 0xF5, CHR 0x2E]"

definition send_pay :: "(pay_module \<Rightarrow> 'w \<Rightarrow> spay_result \<times> 'w) \<Rightarrow> pay_module \<Rightarrow> 'w \<Rightarrow> spay_result \<times> 'w" where
  "send_pay send_data m w =
     (if mo_broken m \<noteq> 0 then
        (\<lparr>pr_code = result_failed, pr_sleep = 0, pr_msg = strncpy 1024 broken_message,
          pr_sender_name = strncpy 25 (mo_short_name m)\<rparr>, w)
      else send_data m w)"

definition clean_up :: "(pay_module \<Rightarrow> 'w \<Rightarrow> 'w) \<Rightarrow> pay_module \<Rightarrow> 'w \<Rightarrow> 'w" where
  "clean_up clean m w = (if mo_broken m \<noteq> 0 then w else clean m w)"

section \<open>The list of modules\<close>

record module_state =
  ms_list :: "nat seq"
  ms_store :: "nat \<rightharpoonup> pay_module"
  ms_null :: "nat option"
  ms_cleanup :: bool
  ms_path :: string
  ms_free :: nat
  ms_calls :: "(string \<times> string) list"

definition set_module :: "nat \<Rightarrow> pay_module \<Rightarrow> module_state \<Rightarrow> module_state" where
  "set_module a m st = st\<lparr>ms_store := (ms_store st)(a \<mapsto> m)\<rparr>"

text \<open>\<open>new CPaySys\<close> and its destructor: a module that is not broken is told to unload.\<close>

definition module_delete :: "nat \<Rightarrow> module_state \<Rightarrow> module_state option" where
  "module_delete a st = do {
     m \<leftarrow> ms_store st a;
     Some (st\<lparr>ms_store := (ms_store st)(a := None),
              ms_calls := (if mo_broken m = 0 then ms_calls st @ [(mo_short_name m, ''UnLoad'')] else ms_calls st)\<rparr>)
   }"

definition use_module :: "nat \<Rightarrow> module_state \<Rightarrow> module_state option" where
  "use_module a st = map_option (\<lambda>m. set_module a (snd (module_use m)) st) (ms_store st a)"

definition unuse_module :: "nat \<Rightarrow> module_state \<Rightarrow> module_state option" where
  "unuse_module a st =
     map_option (\<lambda>m. (set_module a (snd (module_unuse m)) st)\<lparr>ms_cleanup := True\<rparr>) (ms_store st a)"

definition paysys_matches ::
  "string option \<Rightarrow> nat option \<Rightarrow> nat seq \<Rightarrow> module_state \<Rightarrow> (nat option \<times> nat seq \<times> module_state) option" where
  "paysys_matches so_name e l st =
     (case e of
        None \<Rightarrow> Some (None, l, st)
      | Some a \<Rightarrow> do {
          m \<leftarrow> ms_store st a;
          n \<leftarrow> so_name;
          Some (if mo_short_name m = n \<and> \<not> mo_unloaded m then (Some a, seq_reset l, st) else (None, l, st))
        })"

text \<open>\<open>GetPaySysBySoName\<close>: a module that is not there is the default module.\<close>

definition get_paysys_by_so_name :: "string option \<Rightarrow> module_state \<Rightarrow> (nat option \<times> module_state) option" where
  "get_paysys_by_so_name so_name st = do {
     (r, l, st1) \<leftarrow> for_each (paysys_matches so_name) (ms_list st) st;
     Some (case r of Some a \<Rightarrow> Some a | None \<Rightarrow> ms_null st, st1\<lparr>ms_list := l\<rparr>)
   }"

definition get_paysys_default :: "module_state \<Rightarrow> nat option" where
  "get_paysys_default st = ms_null st"

definition get_paysys_engine_limit :: "module_state \<Rightarrow> (nat option \<times> module_state) option" where
  "get_paysys_engine_limit st = get_paysys_by_so_name (Some ''_limit.so'') st"

text \<open>\<open>new CPaySys\<close>, \<open>Load\<close>, and \<open>AddItem\<close> or \<open>delete\<close>.\<close>

definition load_module :: "module_env \<Rightarrow> string \<Rightarrow> string \<Rightarrow> module_state \<Rightarrow> (int \<times> module_state) option" where
  "load_module env file short st = do {
     let a = ms_free st;
     (r, m, called) \<leftarrow> module_load env (ms_null st = Some a) (Some file) (Some short) pay_module_new;
     let st1 = (set_module a m st)\<lparr>ms_free := a + 1,
       ms_calls := (if called then ms_calls st @ [(mo_short_name m, ''Load'')] else ms_calls st)\<rparr>;
     if r = 0 then Some (r, st1\<lparr>ms_list := seq_add (Some a) (ms_list st1)\<rparr>)
     else map_option (Pair r) (module_delete a st1)
   }"

definition already_loaded ::
  "string \<Rightarrow> nat option \<Rightarrow> nat seq \<Rightarrow> (bool \<times> module_state) \<Rightarrow> (unit option \<times> nat seq \<times> (bool \<times> module_state)) option" where
  "already_loaded short e l p =
     (case e of
        None \<Rightarrow> Some (None, l, p)
      | Some a \<Rightarrow> do {
          m \<leftarrow> ms_store (snd p) a;
          Some (None, l, if mo_short_name m = short \<and> \<not> mo_unloaded m then (True, snd p) else p)
        })"

definition load_paysys :: "module_env \<Rightarrow> string \<Rightarrow> module_state \<Rightarrow> (int \<times> module_state) option" where
  "load_paysys env short st = do {
     (_, l, loaded, st1) \<leftarrow> for_each (already_loaded short) (ms_list st) (False, st);
     let st2 = st1\<lparr>ms_list := l\<rparr>;
     if loaded then Some (1024, st2)
     else load_module env (take 511 (c_str (ms_path st2)) @ take 511 (c_str short)) short st2
   }"

definition module_named ::
  "string \<Rightarrow> nat option \<Rightarrow> nat seq \<Rightarrow> module_state \<Rightarrow> (int option \<times> nat seq \<times> module_state) option" where
  "module_named short e l st =
     (case e of
        None \<Rightarrow> Some (None, l, st)
      | Some a \<Rightarrow> do {
          m \<leftarrow> ms_store st a;
          Some (if mo_short_name m = short
                then (Some 0, l, (set_module a (m\<lparr>mo_unloaded := True\<rparr>) st)\<lparr>ms_cleanup := True\<rparr>)
                else (None, l, st))
        })"

text \<open>\<open>UnLoadPaySys\<close>: the first module of the name is marked, whether it is loaded or already marked.\<close>

definition unload_paysys :: "string \<Rightarrow> module_state \<Rightarrow> (int \<times> module_state) option" where
  "unload_paysys short st = do {
     (r, l, st1) \<leftarrow> for_each (module_named short) (ms_list st) st;
     Some (case r of Some k \<Rightarrow> k | None \<Rightarrow> - 1, st1\<lparr>ms_list := l\<rparr>)
   }"

text \<open>\<open>RemoveUnloadedModules\<close>: the state of the loop is the number removed and the number still in use.\<close>

definition remove_unloaded ::
  "nat option \<Rightarrow> nat seq \<Rightarrow> (nat \<times> nat \<times> module_state) \<Rightarrow> (unit option \<times> nat seq \<times> (nat \<times> nat \<times> module_state)) option" where
  "remove_unloaded e l p =
     (case (e, p) of
        (None, _) \<Rightarrow> Some (None, l, p)
      | (Some a, c, rest, st) \<Rightarrow> do {
          m \<leftarrow> ms_store st a;
          if \<not> mo_unloaded m then Some (None, l, p)
          else (case module_use m of (n, m1) \<Rightarrow>
            let st1 = set_module a m1 st in
            if n = 1 then do {
              st2 \<leftarrow> module_delete a st1;
              Some (None, seq_remove_this l, (c + 1, rest, st2))
            }
            else Some (None, l, (c, rest + 1, (set_module a (snd (module_unuse m1)) st1)\<lparr>ms_cleanup := True\<rparr>)))
        })"

definition remove_unloaded_modules :: "module_state \<Rightarrow> (nat \<times> module_state) option" where
  "remove_unloaded_modules st = do {
     (_, l, c, rest, st1) \<leftarrow> for_each remove_unloaded (ms_list st) (0, 0, st);
     Some (c, (if rest = 0 then st1\<lparr>ms_cleanup := False\<rparr> else st1)\<lparr>ms_list := l\<rparr>)
   }"

text \<open>\<open>ReloadPaySysConfigs\<close>: the sum of the results.\<close>

definition reload_config_of ::
  "module_env \<Rightarrow> nat option \<Rightarrow> nat seq \<Rightarrow> (int \<times> module_state) \<Rightarrow> (unit option \<times> nat seq \<times> (int \<times> module_state)) option" where
  "reload_config_of env e l p =
     (case (e, p) of
        (None, _) \<Rightarrow> Some (None, l, p)
      | (Some a, res, st) \<Rightarrow> do {
          m \<leftarrow> ms_store st a;
          (r, m1) \<leftarrow> load_config env (ms_null st = Some a) (m\<lparr>mo_config := []\<rparr>);
          Some (None, l, (res + r, set_module a m1 st))
        })"

definition reload_paysys_configs :: "module_env \<Rightarrow> module_state \<Rightarrow> (int \<times> module_state) option" where
  "reload_paysys_configs env st = do {
     (_, l, r, st1) \<leftarrow> for_each (reload_config_of env) (ms_list st) (0, st);
     Some (r, st1\<lparr>ms_list := l\<rparr>)
   }"

text \<open>\<open>LoadModules\<close>: every entry of the directory whose name ends with the first \<open>.so\<close> in it.\<close>

definition has_suffix :: "string \<Rightarrow> string \<Rightarrow> bool" where
  "has_suffix ext name = (case find_sub ext name of None \<Rightarrow> False | Some k \<Rightarrow> k + length ext = length name)"

fun load_entries :: "module_env \<Rightarrow> string \<Rightarrow> string list \<Rightarrow> module_state \<Rightarrow> module_state option" where
  "load_entries env dir [] st = Some st"
| "load_entries env dir (f # fs) st =
     (if f \<noteq> ''.'' \<and> f \<noteq> ''..'' \<and> has_suffix ''.so'' f
      then do { (_, st1) \<leftarrow> load_module env (take 511 dir @ take 511 f) f st; load_entries env dir fs st1 }
      else load_entries env dir fs st)"

definition load_modules :: "module_env \<Rightarrow> string \<Rightarrow> module_state \<Rightarrow> module_state option" where
  "load_modules env dir st =
     (let st1 = st\<lparr>ms_list := \<lparr>sq_items = [], sq_pos = 0, sq_gone = []\<rparr>\<rparr> in
      case me_dir env dir of None \<Rightarrow> Some st1 | Some fs \<Rightarrow> load_entries env dir fs st1)"

section \<open>The modules and their list\<close>

definition mods_ok :: "module_state \<Rightarrow> bool" where
  "mods_ok st \<longleftrightarrow> distinct (sq_items (ms_list st)) \<and> set (sq_items (ms_list st)) = Some ` dom (ms_store st)
     \<and> (\<forall>a m. ms_store st a = Some m \<longrightarrow> a < ms_free st \<and> 0 \<le> mo_use_count m \<and> mo_broken m = 0)"

lemma mods_okD:
  assumes "mods_ok st"
  shows "distinct (sq_items (ms_list st))" "set (sq_items (ms_list st)) = Some ` dom (ms_store st)"
    "ms_store st a = Some m \<Longrightarrow> a < ms_free st" "ms_store st a = Some m \<Longrightarrow> 0 \<le> mo_use_count m"
    "ms_store st a = Some m \<Longrightarrow> mo_broken m = 0"
  using assms by (auto simp: mods_ok_def)

text \<open>Changing a module in place, moving the cursor.\<close>

lemma mods_ok_set:
  assumes "mods_ok st" "ms_store st a = Some m" "0 \<le> mo_use_count m'" "mo_broken m' = mo_broken m"
  shows "mods_ok (set_module a m' st)"
proof -
  have "dom (ms_store (set_module a m' st)) = dom (ms_store st)"
    using assms(2) by (auto simp: set_module_def)
  then show ?thesis using assms by (auto simp: mods_ok_def set_module_def)
qed

lemma mods_ok_items: "mods_ok st \<Longrightarrow> sq_items l = sq_items (ms_list st) \<Longrightarrow> mods_ok (st\<lparr>ms_list := l\<rparr>)"
  by (auto simp: mods_ok_def)

lemma mods_ok_cleanup [simp]: "mods_ok (st\<lparr>ms_cleanup := b\<rparr>) = mods_ok st"
  by (simp add: mods_ok_def)

lemma use_module_ok: "mods_ok st \<Longrightarrow> use_module a st = Some st' \<Longrightarrow> mods_ok st'"
  by (auto simp: use_module_def module_use_def mods_okD intro!: mods_ok_set)

lemma unuse_module_ok: "mods_ok st \<Longrightarrow> unuse_module a st = Some st' \<Longrightarrow> mods_ok st'"
  by (auto simp: unuse_module_def module_unuse_def Let_def mods_okD intro!: mods_ok_set)

text \<open>Finding a module.\<close>

definition loaded_as :: "module_state \<Rightarrow> string \<Rightarrow> nat option \<Rightarrow> bool" where
  "loaded_as st n e \<longleftrightarrow> (case e of None \<Rightarrow> False | Some a \<Rightarrow>
     (case ms_store st a of None \<Rightarrow> False | Some m \<Rightarrow> mo_short_name m = n \<and> \<not> mo_unloaded m))"

lemma get_paysys_find:
  assumes "mods_ok st"
  shows "\<exists>l. get_paysys_by_so_name (Some n) st = Some (case find (loaded_as st n) (sq_items (ms_list st)) of
           Some (Some a) \<Rightarrow> Some a | _ \<Rightarrow> ms_null st, st\<lparr>ms_list := l\<rparr>) \<and> sq_items l = sq_items (ms_list st)"
proof -
  have "paysys_matches (Some n) e l' st = Some (if loaded_as st n e then (Some (the e), seq_reset l', st) else (None, l', st))"
    if "e \<in> set (sq_items (ms_list st))" for e l'
    using that mods_okD(2) [OF assms] by (auto simp: paysys_matches_def loaded_as_def)
  from for_each_search [where body = "paysys_matches (Some n)" and s = st and P = "loaded_as st n"
      and f = the and h = seq_reset and l = "ms_list st", OF this]
  obtain l' where l': "for_each (paysys_matches (Some n)) (ms_list st) st =
      Some (map_option the (find (loaded_as st n) (sq_items (ms_list st))), l', st)" "sq_items l' = sq_items (ms_list st)"
    by (auto simp: seq_reset_def)
  have "find (loaded_as st n) xs \<noteq> Some None" for xs
    by (auto simp: find_Some_iff loaded_as_def)
  then show ?thesis using l'
    by (intro exI [of _ l']) (auto simp: get_paysys_by_so_name_def split: option.split)
qed

text \<open>
  Asking for a module by name gives a loaded module of that name, which is not broken and not marked
  as unloaded, when the list has one, and the default module otherwise; no module is changed.
\<close>

lemma module_lookup:
  assumes "mods_ok st"
  shows "\<exists>r l. get_paysys_by_so_name (Some n) st = Some (r, st\<lparr>ms_list := l\<rparr>) \<and> sq_items l = sq_items (ms_list st)
     \<and> (if \<exists>a m. ms_store st a = Some m \<and> mo_short_name m = n \<and> \<not> mo_unloaded m
        then \<exists>a m. r = Some a \<and> ms_store st a = Some m \<and> mo_short_name m = n \<and> \<not> mo_unloaded m \<and> mo_broken m = 0
        else r = ms_null st)"
proof -
  obtain l where l: "get_paysys_by_so_name (Some n) st = Some (case find (loaded_as st n) (sq_items (ms_list st)) of
           Some (Some a) \<Rightarrow> Some a | _ \<Rightarrow> ms_null st, st\<lparr>ms_list := l\<rparr>)" "sq_items l = sq_items (ms_list st)"
    using get_paysys_find [OF assms] by blast
  show ?thesis
  proof (cases "find (loaded_as st n) (sq_items (ms_list st))")
    case None
    then have "\<not> loaded_as st n (Some a)" if "a \<in> dom (ms_store st)" for a
      using that mods_okD(2) [OF assms] by (auto simp: find_None_iff)
    then show ?thesis using l None by (fastforce simp: loaded_as_def)
  next
    case (Some e)
    then have "loaded_as st n e" by (auto simp: find_Some_iff)
    then show ?thesis using l Some mods_okD(5) [OF assms] by (fastforce simp: loaded_as_def split: option.splits)
  qed
qed

lemma module_lookup_example:
  "\<exists>r l. get_paysys_by_so_name (Some ''a.so'')
       \<lparr>ms_list = \<lparr>sq_items = [Some 3], sq_pos = 0, sq_gone = []\<rparr>, ms_store = [3 \<mapsto> pay_module_new\<lparr>mo_short_name := ''a.so''\<rparr>],
        ms_null = None, ms_cleanup = False, ms_path = [], ms_free = 4, ms_calls = []\<rparr> = Some (r, l) \<and> r = Some 3"
proof -
  let ?st = "\<lparr>ms_list = \<lparr>sq_items = [Some 3], sq_pos = 0, sq_gone = []\<rparr>, ms_store = [3 \<mapsto> pay_module_new\<lparr>mo_short_name := ''a.so''\<rparr>],
        ms_null = None, ms_cleanup = False, ms_path = [], ms_free = 4, ms_calls = []\<rparr>"
  have "mods_ok ?st" by (auto simp: mods_ok_def pay_module_new_def split: if_splits)
  from module_lookup [OF this, of "''a.so''"] show ?thesis
    by (auto simp: pay_module_new_def split: if_splits)
qed

section \<open>Every operation keeps the list in order\<close>

lemma loops_reset_pos [simp]: "mods_ok (st\<lparr>ms_list := l\<lparr>sq_pos := p\<rparr>\<rparr>) = mods_ok (st\<lparr>ms_list := l\<rparr>)"
  by (simp add: mods_ok_def)

lemma module_load_zero:
  assumes "module_load env d f s m = Some (0, m', c)"
  shows "mo_broken m' = 0 \<and> mo_use_count m' = mo_use_count m \<and> mo_unloaded m' = mo_unloaded m
     \<and> (\<exists>n. s = Some n \<and> mo_short_name m' = strncpy 49 n) \<and> mo_send_data m' \<and> mo_clean m' \<and> (mo_init m' \<or> mo_init_ext m') \<and> c"
proof -
  have r: "mo_send_data m2 \<and> mo_clean m2 \<and> (mo_init m2 \<or> mo_init_ext m2) \<and> mo_use_count m2 = mo_use_count m1
      \<and> mo_unloaded m2 = mo_unloaded m1 \<and> mo_short_name m2 = mo_short_name m1"
    if "load_func symb m1 = (0, m2)" for symb m1 m2
    using that by (auto simp: load_func_def load_func_required_def Let_def split: if_splits)
  show ?thesis using assms r
    by (fastforce simp: module_load_def load_config_def Let_def split: option.splits if_splits prod.splits)
qed

lemma load_module_ok:
  assumes "mods_ok st" "load_module env file short st = Some (r, st')"
  shows "mods_ok st' \<and> (\<forall>a m. ms_store st a = Some m \<longrightarrow> ms_store st' a = Some m)
     \<and> (r = 0 \<longrightarrow> (\<exists>m. ms_store st' (ms_free st) = Some m \<and> mo_short_name m = strncpy 49 short
          \<and> \<not> mo_unloaded m \<and> sq_items (ms_list st') = sq_items (ms_list st) @ [Some (ms_free st)]))
     \<and> (r \<noteq> 0 \<longrightarrow> ms_store st' = ms_store st \<and> sq_items (ms_list st') = sq_items (ms_list st))"
proof -
  let ?a = "ms_free st"
  have fresh: "?a \<notin> dom (ms_store st)" using mods_okD(3) [OF assms(1)] by auto
  then have new: "Some ?a \<notin> set (sq_items (ms_list st))" using mods_okD(2) [OF assms(1)] by auto
  obtain m c where ml: "module_load env (ms_null st = Some ?a) (Some file) (Some short) pay_module_new = Some (r, m, c)"
    using assms(2) by (auto simp: load_module_def Let_def split: Option.bind_splits if_splits)
  define calls where "calls = (if c then ms_calls st @ [(mo_short_name m, ''Load'')] else ms_calls st)"
  define st1 where "st1 = (set_module ?a m st)\<lparr>ms_free := ?a + 1, ms_calls := calls\<rparr>"
  show ?thesis
  proof (cases "r = 0")
    case True
    have st': "st' = st1\<lparr>ms_list := seq_add (Some ?a) (ms_list st1)\<rparr>"
      using assms(2) ml True by (simp add: load_module_def st1_def calls_def Let_def)
    have m: "mo_broken m = 0" "mo_use_count m = 0" "\<not> mo_unloaded m" "mo_short_name m = strncpy 49 short"
      using module_load_zero [OF ml [unfolded True]] by (auto simp: pay_module_new_def)
    have "mods_ok st'"
      using assms(1) new m(1,2) unfolding st' st1_def mods_ok_def
      by (auto simp: set_module_def seq_add_def less_Suc_eq split: if_splits)
    moreover have "\<forall>a m'. ms_store st a = Some m' \<longrightarrow> ms_store st' a = Some m'"
      using fresh by (auto simp: st' st1_def set_module_def)
    ultimately show ?thesis using m True by (simp add: st' st1_def set_module_def seq_add_def)
  next
    case False
    obtain calls' where st': "st' = st1\<lparr>ms_store := (ms_store st1)(?a := None), ms_calls := calls'\<rparr>"
      using assms(2) ml False
      by (auto simp: load_module_def st1_def calls_def Let_def module_delete_def set_module_def)
    have eq: "ms_store st' = ms_store st" "ms_list st' = ms_list st" "ms_free st' = ?a + 1"
      using fresh by (auto simp: st' st1_def set_module_def fun_upd_idem dom_def)
    have "mods_ok st'" using assms(1) by (auto simp: mods_ok_def eq less_SucI)
    then show ?thesis using False eq by simp
  qed
qed

lemma load_paysys_scan:
  assumes "for_each (already_loaded short) (ms_list st) (False, st) = Some (r, l, loaded, st1)"
  shows "st1 = st \<and> sq_items l = sq_items (ms_list st)"
proof -
  have "(snd (loaded, st1) = st \<and> sq_items l = sq_items (ms_list st))"
    by (rule for_each_inv [where I = "\<lambda>l p. snd p = st \<and> sq_items l = sq_items (ms_list st)", OF _ _ assms])
      (auto simp: already_loaded_def split: option.splits Option.bind_splits if_splits)
  then show ?thesis by simp
qed

lemma load_paysys_ok:
  assumes "mods_ok st" "load_paysys env short st = Some (r, st')"
  shows "mods_ok st' \<and> (\<forall>a m. ms_store st a = Some m \<longrightarrow> ms_store st' a = Some m)"
proof -
  obtain r0 l loaded st1 where f: "for_each (already_loaded short) (ms_list st) (False, st) = Some (r0, l, loaded, st1)"
      "(if loaded then Some (1024, st1\<lparr>ms_list := l\<rparr>)
        else load_module env (take 511 (c_str (ms_path (st1\<lparr>ms_list := l\<rparr>))) @ take 511 (c_str short)) short (st1\<lparr>ms_list := l\<rparr>)) = Some (r, st')"
    using assms(2) by (auto simp: load_paysys_def Let_def split: Option.bind_splits)
  have st1: "st1 = st" "sq_items l = sq_items (ms_list st)" using load_paysys_scan [OF f(1)] by auto
  have ok: "mods_ok (st\<lparr>ms_list := l\<rparr>)" by (rule mods_ok_items [OF assms(1) st1(2)])
  show ?thesis
  proof (cases loaded)
    case True
    then show ?thesis using f(2) ok st1 by auto
  next
    case False
    with f(2) st1 have "load_module env (take 511 (c_str (ms_path st)) @ take 511 (c_str short)) short (st\<lparr>ms_list := l\<rparr>) = Some (r, st')"
      by simp
    from load_module_ok [OF ok this] show ?thesis by simp
  qed
qed

definition use_counts :: "module_state \<Rightarrow> nat \<Rightarrow> int option" where
  "use_counts ms a = map_option mo_use_count (ms_store ms a)"

lemma use_counts_dom: "use_counts a = use_counts b \<Longrightarrow> dom (ms_store a) = dom (ms_store b)"
  by (auto simp: use_counts_def fun_eq_iff dom_def) (metis map_option_is_None not_None_eq)+

lemma use_counts_simps [simp]: "use_counts (ms\<lparr>ms_list := l\<rparr>) = use_counts ms" "use_counts (ms\<lparr>ms_cleanup := b\<rparr>) = use_counts ms"
  by (simp_all add: use_counts_def fun_eq_iff)

lemma use_counts_set: "ms_store s a = Some m \<Longrightarrow> mo_use_count m' = mo_use_count m \<Longrightarrow> use_counts (set_module a m' s) = use_counts s"
  by (auto simp: use_counts_def set_module_def fun_eq_iff)

lemma unload_paysys_ok:
  assumes "mods_ok st" "unload_paysys short st = Some (r, st')"
  shows "mods_ok st' \<and> use_counts st' = use_counts st"
proof -
  obtain r0 l st1 where f: "for_each (module_named short) (ms_list st) st = Some (r0, l, st1)"
      "st' = st1\<lparr>ms_list := l\<rparr>"
    using assms(2) by (auto simp: unload_paysys_def split: Option.bind_splits)
  have "mods_ok (st1\<lparr>ms_list := l\<rparr>) \<and> use_counts st1 = use_counts st"
  proof (rule for_each_inv [where I = "\<lambda>l s. mods_ok (s\<lparr>ms_list := l\<rparr>) \<and> use_counts s = use_counts st", OF _ _ f(1)])
    fix e l s r l' s'
    assume inv: "mods_ok (s\<lparr>ms_list := l\<rparr>) \<and> use_counts s = use_counts st"
      and b: "module_named short e l s = Some (r, l', s')"
    show "mods_ok (s'\<lparr>ms_list := l'\<rparr>) \<and> use_counts s' = use_counts st"
    proof (cases e)
      case None
      then show ?thesis using inv b by (auto simp: module_named_def)
    next
      case (Some a)
      obtain m where m: "ms_store s a = Some m" using b Some by (auto simp: module_named_def split: Option.bind_splits)
      let ?m = "m\<lparr>mo_unloaded := True\<rparr>"
      have ok: "mods_ok (set_module a ?m (s\<lparr>ms_list := l\<rparr>))"
        by (rule mods_ok_set [of _ _ m]) (use inv m mods_okD(4) [of "s\<lparr>ms_list := l\<rparr>" a m] in simp_all)
      show ?thesis
      proof (cases "mo_short_name m = short")
        case True
        then have "l' = l" "s' = (set_module a ?m s)\<lparr>ms_cleanup := True\<rparr>" using b Some m by (simp_all add: module_named_def)
        moreover have "mods_ok (((set_module a ?m s)\<lparr>ms_cleanup := True\<rparr>)\<lparr>ms_list := l\<rparr>)"
          using ok by (simp add: mods_ok_def set_module_def)
        ultimately show ?thesis using inv use_counts_set [OF m, of ?m] by simp
      next
        case False
        then show ?thesis using inv b Some m by (simp add: module_named_def)
      qed
    qed
  qed (use assms(1) in auto)
  then show ?thesis using f(2) by simp
qed

lemma reload_configs_ok:
  assumes "mods_ok st" "reload_paysys_configs env st = Some (r, st')"
  shows "mods_ok st' \<and> use_counts st' = use_counts st"
proof -
  obtain r0 l k st1 where f: "for_each (reload_config_of env) (ms_list st) (0, st) = Some (r0, l, k, st1)"
      "st' = st1\<lparr>ms_list := l\<rparr>"
    using assms(2) by (auto simp: reload_paysys_configs_def split: Option.bind_splits)
  have "mods_ok (snd (k, st1)\<lparr>ms_list := l\<rparr>) \<and> use_counts (snd (k, st1)) = use_counts st"
  proof (rule for_each_inv [where I = "\<lambda>l s. mods_ok (snd s\<lparr>ms_list := l\<rparr>) \<and> use_counts (snd s) = use_counts st", OF _ _ f(1)])
    fix e l r l' and s s' :: "int \<times> module_state"
    assume inv: "mods_ok (snd s\<lparr>ms_list := l\<rparr>) \<and> use_counts (snd s) = use_counts st"
      and b: "reload_config_of env e l s = Some (r, l', s')"
    show "mods_ok (snd s'\<lparr>ms_list := l'\<rparr>) \<and> use_counts (snd s') = use_counts st"
    proof (cases e)
      case None
      then show ?thesis using inv b by (auto simp: reload_config_of_def)
    next
      case (Some a)
      obtain m r1 m1 where m: "ms_store (snd s) a = Some m"
          "load_config env (ms_null (snd s) = Some a) (m\<lparr>mo_config := []\<rparr>) = Some (r1, m1)"
          "l' = l" "snd s' = set_module a m1 (snd s)"
        using b Some by (auto simp: reload_config_of_def split: Option.bind_splits prod.splits)
      have c: "mo_use_count m1 = mo_use_count m \<and> mo_broken m1 = mo_broken m"
        using m(2) by (auto simp: load_config_def split: if_splits)
      from c have "mods_ok (set_module a m1 (snd s\<lparr>ms_list := l\<rparr>))"
        by (intro mods_ok_set) (use inv m mods_okD(4) [of "snd s\<lparr>ms_list := l\<rparr>"] in \<open>auto\<close>)
      then show ?thesis using inv m(3,4) use_counts_set [OF m(1), of m1] c by (simp add: mods_ok_def set_module_def)
    qed
  qed (use assms(1) in auto)
  then show ?thesis using f(2) by simp
qed

text \<open>Freeing the modules that are marked and not in use.\<close>

definition cleans :: "module_state \<Rightarrow> nat seq \<Rightarrow> nat \<times> nat \<times> module_state \<Rightarrow> bool" where
  "cleans st l p \<longleftrightarrow> mods_ok (snd (snd p)\<lparr>ms_list := l\<rparr>)
     \<and> (\<forall>a. a \<notin> dom (ms_store (snd (snd p))) \<longrightarrow> (\<forall>m. ms_store st a = Some m \<longrightarrow> mo_unloaded m \<and> mo_use_count m = 0))
     \<and> (\<forall>a m. ms_store (snd (snd p)) a = Some m \<longrightarrow> ms_store st a = Some m)"

lemma remove_unloaded_step:
  assumes inv: "cleans st l p" and e: "e = seq_at (sq_pos l) l"
  shows "\<exists>r l' p'. remove_unloaded e l p = Some (r, l', p') \<and> cleans st l' p'"
proof -
  obtain c rest s where p: "p = (c, rest, s)" by (cases p) auto
  have ok: "mods_ok (s\<lparr>ms_list := l\<rparr>)"
    and gone: "\<forall>a. a \<notin> dom (ms_store s) \<longrightarrow> (\<forall>m. ms_store st a = Some m \<longrightarrow> mo_unloaded m \<and> mo_use_count m = 0)"
    and same: "\<forall>a m. ms_store s a = Some m \<longrightarrow> ms_store st a = Some m"
    using inv by (simp_all add: cleans_def p)
  show ?thesis
  proof (cases e)
    case None
    then show ?thesis using inv by (simp add: remove_unloaded_def p)
  next
    case (Some a)
    have pos: "0 < sq_pos l" "sq_pos l \<le> length (sq_items l)" "sq_items l ! (sq_pos l - 1) = Some a"
      using e Some by (auto simp: seq_at_def split: if_splits)
    then have "Some a \<in> set (sq_items l)" by (metis One_nat_def diff_less less_le_trans nth_mem zero_less_one)
    then obtain m where m: "ms_store s a = Some m" using mods_okD(2) [OF ok] by auto
    have n: "0 \<le> mo_use_count m" using mods_okD(4) [OF ok, of a m] m by simp
    show ?thesis
    proof (cases "mo_unloaded m")
      case False
      then show ?thesis using inv Some m by (simp add: remove_unloaded_def p)
    next
      case unl: True
      show ?thesis
      proof (cases "mo_use_count m = 0")
        case True
        let ?s = "s\<lparr>ms_store := (ms_store s)(a := None),
              ms_calls := ms_calls s @ (if mo_broken m = 0 then [(mo_short_name m, ''UnLoad'')] else [])\<rparr>"
        have step: "remove_unloaded e l p = Some (None, seq_remove_this l, c + 1, rest, ?s)"
          using Some m unl True
          by (simp add: remove_unloaded_def p module_use_def module_delete_def set_module_def Let_def fun_upd_def cong: if_cong)
        have rem: "seq_remove_this l = l\<lparr>sq_items := drop_nth (sq_pos l - 1) (sq_items l), sq_pos := sq_pos l - 1,
            sq_gone := sq_gone l @ [a]\<rparr>"
          using pos by (auto simp: seq_remove_this_def seq_remove_def values_of_def nat_diff_distrib)
        have "set (drop_nth (sq_pos l - 1) (sq_items l)) = Some ` (dom (ms_store s) - {a})"
          using pos mods_okD(1,2) [OF ok] by (subst set_drop_nth) auto
        then have "mods_ok (?s\<lparr>ms_list := seq_remove_this l\<rparr>)"
          using ok pos unfolding rem by (auto simp: mods_ok_def distinct_drop_nth split: if_splits)
        moreover have "\<forall>b. b \<notin> dom (ms_store ?s) \<longrightarrow> (\<forall>k. ms_store st b = Some k \<longrightarrow> mo_unloaded k \<and> mo_use_count k = 0)"
          using gone same m unl True by (auto simp: dom_def)
        ultimately show ?thesis using step same by (auto simp: cleans_def split: if_splits)
      next
        case False
        let ?s = "(set_module a m s)\<lparr>ms_cleanup := True\<rparr>"
        have "m\<lparr>mo_use_count := mo_use_count m\<rparr> = m" by simp
        then have step: "remove_unloaded e l p = Some (None, l, c, rest + 1, ?s)"
          using Some m unl False n
          by (simp add: remove_unloaded_def p module_use_def module_unuse_def set_module_def Let_def)
        have "ms_store ?s = ms_store s" using m by (simp add: set_module_def fun_upd_idem)
        then show ?thesis using step inv by (simp add: cleans_def p mods_ok_def set_module_def)
      qed
    qed
  qed
qed

lemma remove_unloaded_ok:
  assumes "mods_ok st"
  shows "\<exists>c st'. remove_unloaded_modules st = Some (c, st') \<and> mods_ok st'
     \<and> (\<forall>a m. ms_store st a = Some m \<and> \<not> (mo_unloaded m \<and> mo_use_count m = 0) \<longrightarrow> ms_store st' a = Some m)
     \<and> (\<forall>a m. ms_store st' a = Some m \<longrightarrow> ms_store st a = Some m)"
proof -
  have "\<exists>r l' p'. for_each remove_unloaded (ms_list st) (0, 0, st) = Some (r, l', p') \<and> cleans st l' p'"
  proof (rule for_each_defined [where I = "cleans st"])
    show "cleans st (ms_list st) (0, 0, st)" using assms by (auto simp: cleans_def)
    show "cleans st (l\<lparr>sq_pos := p\<rparr>) s" if "cleans st l s" for l s p using that by (simp add: cleans_def)
  qed (rule remove_unloaded_step)
  then obtain r l' c rest s where f: "for_each remove_unloaded (ms_list st) (0, 0, st) = Some (r, l', c, rest, s)"
      "cleans st l' (c, rest, s)" by auto
  let ?s = "(if rest = 0 then s\<lparr>ms_cleanup := False\<rparr> else s)\<lparr>ms_list := l'\<rparr>"
  have A: "remove_unloaded_modules st = Some (c, ?s)" using f(1) by (simp add: remove_unloaded_modules_def)
  have B: "mods_ok ?s" "ms_store ?s = ms_store s" using f(2) by (simp_all add: cleans_def mods_ok_def)
  have C: "ms_store ?s a = Some m" if "ms_store st a = Some m" "\<not> (mo_unloaded m \<and> mo_use_count m = 0)" for a m
  proof (cases "ms_store s a")
    case None
    then have "a \<notin> dom (ms_store s)" by auto
    then show ?thesis using f(2) that by (simp add: cleans_def)
  next
    case (Some m')
    then have "ms_store st a = Some m'" using f(2) by (simp add: cleans_def)
    then show ?thesis using Some that B(2) by simp
  qed
  have D: "ms_store st a = Some m" if "ms_store ?s a = Some m" for a m using f(2) B(2) that by (simp add: cleans_def)
  show ?thesis using A B(1) C D by blast
qed

text \<open>The operations a running server performs on its modules.\<close>

datatype module_op = Load_module string | Unload_module string | Remove_unloaded | Reload_configs
  | Find_module string | Use_module nat | Unuse_module nat

fun module_step :: "module_env \<Rightarrow> module_op \<Rightarrow> module_state \<Rightarrow> module_state option" where
  "module_step env (Load_module n) st = map_option snd (load_paysys env n st)"
| "module_step env (Unload_module n) st = map_option snd (unload_paysys n st)"
| "module_step env Remove_unloaded st = map_option snd (remove_unloaded_modules st)"
| "module_step env Reload_configs st = map_option snd (reload_paysys_configs env st)"
| "module_step env (Find_module n) st = map_option snd (get_paysys_by_so_name (Some n) st)"
| "module_step env (Use_module a) st = use_module a st"
| "module_step env (Unuse_module a) st = unuse_module a st"

text \<open>
  C25: no operation on the modules breaks their list (every entry is an object of its own that was loaded
  without an error, every object is in the list), and none frees a module that is in use or was never marked as
  unloaded; removing the unloaded modules never touches an object that is already freed.
\<close>

theorem modules_stay_ok:
  assumes "mods_ok st"
  shows "(\<forall>st'. module_step env p st = Some st' \<longrightarrow> mods_ok st'
       \<and> (\<forall>a m. ms_store st a = Some m \<and> (0 < mo_use_count m \<or> \<not> mo_unloaded m) \<longrightarrow> a \<in> dom (ms_store st')))
     \<and> remove_unloaded_modules st \<noteq> None"
proof -
  obtain c s where r: "remove_unloaded_modules st = Some (c, s)" "mods_ok s"
      "\<forall>a m. ms_store st a = Some m \<and> \<not> (mo_unloaded m \<and> mo_use_count m = 0) \<longrightarrow> ms_store s a = Some m"
    using remove_unloaded_ok [OF assms] by blast
  have "mods_ok st' \<and> (\<forall>a m. ms_store st a = Some m \<and> (0 < mo_use_count m \<or> \<not> mo_unloaded m) \<longrightarrow> a \<in> dom (ms_store st'))"
    if s': "module_step env p st = Some st'" for st'
  proof (cases p)
    case (Load_module n)
    then show ?thesis using s' load_paysys_ok [OF assms, of env n] by auto
  next
    case (Unload_module n)
    then show ?thesis using s' unload_paysys_ok [OF assms, of n] by (auto dest!: use_counts_dom; metis domD domI)
  next
    case Remove_unloaded
    then have s: "s = st'" using s' r(1) by simp
    have "a \<in> dom (ms_store s)" if "ms_store st a = Some m" "0 < mo_use_count m \<or> \<not> mo_unloaded m" for a m
    proof -
      have "\<not> (mo_unloaded m \<and> mo_use_count m = 0)" using that(2) by auto
      then show ?thesis using that(1) r(3) by blast
    qed
    then show ?thesis using r(2) s by blast
  next
    case Reload_configs
    then show ?thesis using s' reload_configs_ok [OF assms, of env] by (auto dest!: use_counts_dom; metis domD domI)
  next
    case (Find_module n)
    then show ?thesis using s' get_paysys_find [OF assms, of n] mods_ok_items [OF assms] by auto
  next
    case (Use_module a)
    then show ?thesis using s' use_module_ok [OF assms, of a] by (auto simp: use_module_def set_module_def)
  next
    case (Unuse_module a)
    then show ?thesis using s' unuse_module_ok [OF assms, of a] by (auto simp: unuse_module_def set_module_def)
  qed
  then show ?thesis using r(1) by simp
qed

text \<open>Two modules of one name, the first marked as unloaded or both, in use or not.\<close>

definition two_modules :: "int \<Rightarrow> bool \<Rightarrow> module_state" where
  "two_modules uses second =
     \<lparr>ms_list = \<lparr>sq_items = [Some 0, Some 1], sq_pos = 0, sq_gone = []\<rparr>,
      ms_store = [0 \<mapsto> pay_module_new\<lparr>mo_short_name := ''a.so'', mo_unloaded := True, mo_use_count := uses\<rparr>,
                  1 \<mapsto> pay_module_new\<lparr>mo_short_name := ''a.so'', mo_unloaded := second\<rparr>],
      ms_null = Some 0, ms_cleanup = True, ms_path = [], ms_free = 2, ms_calls = []\<rparr>"

lemma two_modules_ok: "0 \<le> uses \<Longrightarrow> mods_ok (two_modules uses second)"
  by (auto simp: mods_ok_def two_modules_def pay_module_new_def split: if_splits)

theorem modules_stay_ok_witness:
  "\<forall>e. \<exists>st'. module_step e Remove_unloaded (two_modules 1 False) = Some st' \<and> mods_ok st' \<and> 0 \<in> dom (ms_store st')"
  (is "\<forall>e. ?P e")
proof (intro allI)
  fix e
  have "mods_ok (two_modules 1 False)" by (simp add: two_modules_ok)
  from modules_stay_ok [OF this, of e Remove_unloaded] show "?P e"
    by (auto simp: two_modules_def split: if_splits)
qed

text \<open>
  The loop of the removal counts up while the list gets shorter: of two unused modules, both marked, the second
  stays, and the note that modules are to be removed is taken back.
\<close>

lemma remove_unloaded_skips:
  "\<exists>st'. remove_unloaded_modules (two_modules 0 True) = Some (1, st') \<and> \<not> ms_cleanup st'
     \<and> (\<exists>m. ms_store st' 1 = Some m \<and> mo_unloaded m \<and> mo_use_count m = 0)"
  by (simp add: remove_unloaded_modules_def for_each_def two_modules_def seq_reset_def seq_next_def seq_at_def
      remove_unloaded_def module_use_def module_delete_def set_module_def seq_remove_this_def seq_remove_def
      drop_nth_def pay_module_new_def numeral_2_eq_2 values_of_def)

text \<open>Unloading a module that was loaded again marks the old one, so the new one stays.\<close>

lemma unload_marks_old:
  "\<exists>st'. unload_paysys ''a.so'' (two_modules 1 False) = Some (0, st')
     \<and> (\<exists>m. ms_store st' 1 = Some m \<and> \<not> mo_unloaded m)"
  by (simp add: unload_paysys_def for_each_def two_modules_def seq_reset_def seq_next_def seq_at_def
      module_named_def set_module_def pay_module_new_def numeral_2_eq_2)

text \<open>The default module can be unloaded and freed like any other; it is then a freed object.\<close>

lemma default_module_freed:
  "\<exists>c st'. remove_unloaded_modules (two_modules 0 False) = Some (c, st')
     \<and> get_paysys_default st' = Some 0 \<and> ms_store st' 0 = None"
  by (simp add: remove_unloaded_modules_def for_each_def two_modules_def seq_reset_def seq_next_def seq_at_def
      remove_unloaded_def module_use_def module_delete_def set_module_def seq_remove_this_def seq_remove_def
      drop_nth_def pay_module_new_def numeral_2_eq_2 values_of_def get_paysys_default_def)

end
