(* ===== verification/Server_Operator.thy ===== *)
theory Server_Operator
  imports Server_Modules Legacy_Query
begin

text \<open>
  The operators of the payment server (\<open>legacy/payguide/src/operator.h\<close>, \<open>operator.cpp\<close>,
  \<open>format.cpp\<close>): their configuration, the formats of the payment data, and the choice of the module
  that performs a payment, with the limits on the use of an engine. Regular expressions, the database
  and the files are parameters. A step that is undefined, never returns or ends the process has
  no value.
\<close>

section \<open>Formats\<close>

record 'p regexps =
  rx_compile :: "string \<Rightarrow> 'p option"
  rx_exec :: "'p \<Rightarrow> string \<Rightarrow> int"

definition valid_data :: "'p regexps \<Rightarrow> 'p option \<Rightarrow> string option \<Rightarrow> int" where
  "valid_data rx format data =
     (case (format, data) of
        (Some p, Some d) \<Rightarrow> (if rx_exec rx p d < 0 then 0 else 1)
      | _ \<Rightarrow> 2)"

section \<open>An operator\<close>

record 'p server_operator =
  op_wre :: "'p option"
  op_bre :: "'p option"
  op_operator_id :: int
  op_config :: "server_config option"
  op_filename :: string
  op_use_count :: int
  op_white_data_format :: "string option"
  op_black_data_format :: "string option"

definition server_operator_new :: "'p server_operator" where
  "server_operator_new = \<lparr>op_wre = None, op_bre = None, op_operator_id = - 1, op_config = None, op_filename = [],
     op_use_count = 0, op_white_data_format = None, op_black_data_format = None\<rparr>"

text \<open>\<open>Load\<close>: the result is 0 even when the file cannot be read; a file without \<open>operator_id\<close> is undefined.\<close>

definition operator_load :: "'p regexps \<Rightarrow> module_env \<Rightarrow> string \<Rightarrow> 'p server_operator \<Rightarrow> (int \<times> 'p server_operator) option" where
  "operator_load rx env file_name p = do {
     let p1 = p\<lparr>op_filename := file_name, op_config := Some [], op_wre := None, op_bre := None\<rparr>;
     (r, nodes) \<leftarrow> read_file (me_file env file_name);
     let p2 = p1\<lparr>op_config := Some nodes\<rparr>;
     if r = 0 then do {
       v \<leftarrow> get_value ''operator_id'' None nodes;
       let white = get_value ''white_list'' None nodes;
       let black = get_value ''black_list'' None nodes;
       Some (0, p2\<lparr>op_operator_id := atoi v, op_white_data_format := white, op_black_data_format := black,
                  op_wre := Option.bind white (rx_compile rx), op_bre := Option.bind black (rx_compile rx)\<rparr>)
     }
     else Some (0, p2)
   }"

definition operator_reload_config :: "'p regexps \<Rightarrow> module_env \<Rightarrow> 'p server_operator \<Rightarrow> (int \<times> 'p server_operator) option" where
  "operator_reload_config rx env p = operator_load rx env (op_filename p) p"

definition operator_use :: "'p server_operator \<Rightarrow> int \<times> 'p server_operator" where
  "operator_use p = (op_use_count p + 1, p\<lparr>op_use_count := op_use_count p + 1\<rparr>)"

section \<open>Rules, engines and limits\<close>

record 'w operator_state =
  os_rules :: "server_config option"
  os_engines :: "server_config option"
  os_limits :: "server_config option"
  os_limits_loaded :: bool
  os_need_free :: bool
  os_bad_connection :: bool
  os_world :: 'w

record server_pay = spay +
  sv_conv_sub :: "string option"

text \<open>The limit of an engine: \<open>n\<close> is no limit; a number is kept as text of at most 14 characters.\<close>

definition count_limit :: "int \<Rightarrow> string \<Rightarrow> server_config \<Rightarrow> (int \<times> server_config) option" where
  "count_limit d engine limits =
     (case get_value ''value'' (Some engine) limits of
        None \<Rightarrow> None
      | Some limit \<Rightarrow>
          if limit = ''n'' then None
          else let lim = wrap32 (atoi limit + d) in
            Some (lim, snd (set_value ''value'' (Some engine) (snprintf_into 15 (show_int lim)) limits)))"

definition operator_unuse ::
  "string option \<Rightarrow> 'p server_operator \<Rightarrow> 'w operator_state \<Rightarrow> int \<times> 'p server_operator \<times> 'w operator_state" where
  "operator_unuse engine_name p st =
     (let st1 = (case (engine_name, os_limits st) of
          (Some e, Some limits) \<Rightarrow>
            (case count_limit 1 e limits of None \<Rightarrow> st | Some (_, limits1) \<Rightarrow> st\<lparr>os_limits := Some limits1\<rparr>)
        | _ \<Rightarrow> st);
        n = (if 0 < op_use_count p then op_use_count p - 1 else op_use_count p)
      in (n, p\<lparr>op_use_count := n\<rparr>, st1))"

text \<open>
  The rest of an account, 1 when it is not known. \<open>rows\<close> is the first column of the first row of the
  last statement: no row, or a null value (undefined), or a text.
\<close>

definition atol :: "string \<Rightarrow> int" where
  "atol s = strtol10 s"

definition get_rest ::
  "'w sql_ops \<Rightarrow> sql_codes \<Rightarrow> ('w \<Rightarrow> string option option) \<Rightarrow> nat \<Rightarrow> string option \<Rightarrow> 'w operator_state
    \<Rightarrow> (int \<times> 'w operator_state) option" where
  "get_rest ops codes rows n rest_id st =
     (case rest_id of
        None \<Rightarrow> Some (1, st)
      | Some i \<Rightarrow>
          if os_bad_connection st then Some (1, st)
          else do {
            (e, w) \<leftarrow> my_db_query ops codes n True (Some (snprintf_into 511 (''select value from rests where id='' @ i)))
                       ''localhost'' ''pays_daemon'' ''masteranubis'' ''electropay_db1'' (os_world st);
            let st1 = st\<lparr>os_world := w\<rparr>;
            (case e of
               Shutdown \<Rightarrow> None
             | Returned err \<Rightarrow>
                 if err \<noteq> 0 then Some (1, st1)
                 else (case rows w of
                         None \<Rightarrow> Some (1, st1)
                       | Some None \<Rightarrow> None
                       | Some (Some v) \<Rightarrow> Some (atol v, st1)))
          })"

section \<open>Choosing the module\<close>

definition NO_TEST :: int where "NO_TEST = 0"
definition FORMAT_TEST :: int where "FORMAT_TEST = 1"
definition CHECKSYS_TEST :: int where "CHECKSYS_TEST = 2"
definition FULL_TEST :: int where "FULL_TEST = 3"
definition OK_TEST :: int where "OK_TEST = 4"
definition NOK_TEST :: int where "NOK_TEST = 5"

text \<open>The kind of a test payment, as the operator configures it; true when the default module is to be used.\<close>

definition check_type :: "server_config \<Rightarrow> server_pay \<Rightarrow> bool \<times> server_pay" where
  "check_type cfg pay =
     (if sp_test pay = NO_TEST then (False, pay)
      else case get_value ''checktype'' None cfg of
        None \<Rightarrow> (False, pay)
      | Some t \<Rightarrow>
          if t = ''full'' then (False, pay\<lparr>sp_test := FULL_TEST\<rparr>)
          else if t = ''format'' then (True, pay\<lparr>sp_test := FORMAT_TEST\<rparr>)
          else if t = ''so_only'' then (False, pay\<lparr>sp_test := CHECKSYS_TEST\<rparr>)
          else if t = ''ok'' then (True, pay\<lparr>sp_test := OK_TEST\<rparr>)
          else if t = ''nok'' then (True, pay\<lparr>sp_test := NOK_TEST\<rparr>)
          else (False, pay))"

text \<open>A module that can perform payments: \<open>None\<close> when there is none, it is broken or unloaded.\<close>

definition usable_module :: "nat option \<Rightarrow> module_state \<Rightarrow> nat option option" where
  "usable_module t ms =
     (case t of
        None \<Rightarrow> Some None
      | Some a \<Rightarrow> map_option (\<lambda>m. if mo_broken m \<noteq> 0 \<or> mo_unloaded m then None else Some a) (ms_store ms a))"

definition usable_or_default :: "nat option \<Rightarrow> module_state \<Rightarrow> nat option option" where
  "usable_or_default t ms =
     map_option (\<lambda>u. case u of None \<Rightarrow> get_paysys_default ms | Some a \<Rightarrow> Some a) (usable_module t ms)"

text \<open>The module a name stands for: through the rules, or by itself when there are none.\<close>

definition module_by_rules :: "server_config option \<Rightarrow> string \<Rightarrow> module_state \<Rightarrow> (nat option \<times> module_state) option" where
  "module_by_rules rules nm ms =
     (case rules of
        Some r \<Rightarrow> (case get_value nm None r of None \<Rightarrow> Some (None, ms) | Some v \<Rightarrow> get_paysys_by_so_name (Some v) ms)
      | None \<Rightarrow> get_paysys_by_so_name (Some nm) ms)"

definition named_by_rules :: "server_config option \<Rightarrow> string \<Rightarrow> bool" where
  "named_by_rules rules nm = (case rules of Some r \<Rightarrow> get_value nm None r \<noteq> None | None \<Rightarrow> True)"

definition is_minus_one :: "c_float \<Rightarrow> bool" where
  "is_minus_one x =
     (case x of Finite neg m e \<Rightarrow> neg \<and> (if 0 \<le> e then m = 1 \<and> e = 0 else m = 2 ^ nat (- e)) | _ \<Rightarrow> False)"

text \<open>The module for checks: \<open>atof\<close> of the sum of a check is a parameter.\<close>

definition check_module ::
  "(string \<Rightarrow> c_float) \<Rightarrow> server_config option \<Rightarrow> server_config \<Rightarrow> string \<Rightarrow> server_pay \<Rightarrow> module_state
    \<Rightarrow> (nat option \<times> server_pay \<times> module_state) option" where
  "check_module atof rules cfg nm pay ms = do {
     (t, ms1) \<leftarrow> module_by_rules rules nm ms;
     let pay1 = (if named_by_rules rules nm then pay\<lparr>sp_paysys_codename := Some nm\<rparr> else pay);
     u \<leftarrow> usable_module t ms1;
     (case u of
        None \<Rightarrow> Some (get_paysys_default ms1, pay1, ms1)
      | Some a \<Rightarrow>
          Some (Some a, (case get_value ''checksum'' None cfg of
              Some s \<Rightarrow> if is_minus_one (sp_summ pay1) then pay1\<lparr>sp_summ := atof s\<rparr> else pay1
            | None \<Rightarrow> pay1), ms1))
   }"

text \<open>
  The search through \<open>paysys_1\<close>, \<open>paysys_2\<close>, ... for the engine of the payment: either the entries end
  first (\<open>Inl\<close>) or the name of the engine is found (\<open>Inr\<close>). With a bound on the rounds.
\<close>

definition paysys_name :: "nat \<Rightarrow> string" where
  "paysys_name i = ''paysys_'' @ show_int (int i)"

fun engine_loop ::
  "server_config \<Rightarrow> server_config option \<Rightarrow> nat \<Rightarrow> int \<Rightarrow> nat \<Rightarrow> string \<Rightarrow> string option \<Rightarrow> server_pay
    \<Rightarrow> (server_pay + string \<times> string option \<times> server_pay) option" where
  "engine_loop cfg engines 0 e_num i nm tmp pay = None"
| "engine_loop cfg engines (Suc n) e_num i nm tmp pay =
     (if e_num = sp_pay_engine pay \<or> 32000 \<le> e_num then Some (Inr (nm, tmp, pay))
      else case get_value (paysys_name i) None cfg of
        None \<Rightarrow> Some (Inl pay)
      | Some nm1 \<Rightarrow> do {
          eng \<leftarrow> engines;
          let e1 = (case get_value nm1 None eng of Some v \<Rightarrow> atoi v | None \<Rightarrow> - 1);
          engine_loop cfg engines n e1 (i + 1) nm1 (Some (paysys_name i)) (pay\<lparr>sp_paysys_codename := Some nm1\<rparr>)
        })"

text \<open>
  The limit of the engine: used up by one whatever comes of it. True when the engine may not be used: the
  limit is exhausted, or the account is down to its minimum.
\<close>

definition engine_limited ::
  "'w sql_ops \<Rightarrow> sql_codes \<Rightarrow> ('w \<Rightarrow> string option option) \<Rightarrow> nat \<Rightarrow> string \<Rightarrow> 'w operator_state
    \<Rightarrow> (bool \<times> 'w operator_state) option" where
  "engine_limited ops codes rows n nm st =
     (case os_limits st of
        None \<Rightarrow> Some (False, st)
      | Some limits \<Rightarrow>
          (case count_limit (- 1) nm limits of
             None \<Rightarrow> Some (False, st)
           | Some (lim, limits1) \<Rightarrow>
               let st1 = st\<lparr>os_limits := Some limits1\<rparr>;
                   rst_min = (case get_value ''rest_min'' (Some nm) limits of Some v \<Rightarrow> atol v | None \<Rightarrow> 0)
               in if lim \<le> - 1 then Some (True, st1)
                  else map_option (\<lambda>(rest, st2). (rest - rst_min \<le> 0, st2))
                         (get_rest ops codes rows n (get_value ''rest_id'' (Some nm) limits) st1)))"

definition engine_module ::
  "server_config option \<Rightarrow> server_config \<Rightarrow> string \<Rightarrow> string option \<Rightarrow> server_pay \<Rightarrow> module_state
    \<Rightarrow> (nat option \<times> server_pay \<times> module_state) option" where
  "engine_module rules cfg nm tmp pay ms =
     (case rules of
        Some r \<Rightarrow>
          (case get_value nm None r of
             None \<Rightarrow> Some (get_paysys_default ms, pay, ms)
           | Some true_name \<Rightarrow> do {
               (t, ms1) \<leftarrow> get_paysys_by_so_name (Some true_name) ms;
               u \<leftarrow> usable_or_default t ms1;
               Some (u, pay\<lparr>sv_conv_sub := get_value ''conv_sub'' (Some true_name) cfg\<rparr>, ms1)
             })
      | None \<Rightarrow> do {
          name \<leftarrow> tmp;
          (t, ms1) \<leftarrow> get_paysys_by_so_name (get_value name None cfg) ms;
          u \<leftarrow> usable_or_default t ms1;
          Some (u, pay, ms1)
        })"

definition module_by_engine ::
  "'w sql_ops \<Rightarrow> sql_codes \<Rightarrow> ('w \<Rightarrow> string option option) \<Rightarrow> nat \<Rightarrow> server_config \<Rightarrow> server_pay \<Rightarrow> 'w operator_state
    \<Rightarrow> module_state \<Rightarrow> (nat option \<times> server_pay \<times> 'w operator_state \<times> module_state) option" where
  "module_by_engine ops codes rows n cfg pay st ms = do {
     found \<leftarrow> engine_loop cfg (os_engines st) n (- 1) 1 ''libnull.so'' None pay;
     (case found of
        Inl pay1 \<Rightarrow> Some (get_paysys_default ms, pay1, st, ms)
      | Inr (nm, tmp, pay1) \<Rightarrow> do {
          (limited, st1) \<leftarrow> engine_limited ops codes rows n nm st;
          if limited then do {
            (t, ms1) \<leftarrow> get_paysys_engine_limit ms;
            Some (t, pay1, st1, ms1)
          }
          else do {
            (t, pay2, ms1) \<leftarrow> engine_module (os_rules st1) cfg nm tmp pay1 ms;
            Some (t, pay2, st1, ms1)
          }
        })
   }"

text \<open>\<open>GetValidPaySys\<close>.\<close>

definition get_valid_paysys ::
  "'w sql_ops \<Rightarrow> sql_codes \<Rightarrow> ('w \<Rightarrow> string option option) \<Rightarrow> (string \<Rightarrow> c_float) \<Rightarrow> nat \<Rightarrow> 'p server_operator \<Rightarrow> server_pay
    \<Rightarrow> 'w operator_state \<Rightarrow> module_state \<Rightarrow> (nat option \<times> server_pay \<times> 'w operator_state \<times> module_state) option" where
  "get_valid_paysys ops codes rows atof n p pay st ms =
     (case op_config p of
        None \<Rightarrow> Some (get_paysys_default ms, pay, st, ms)
      | Some cfg \<Rightarrow>
          (case check_type cfg pay of (by_default, pay1) \<Rightarrow>
             if by_default then Some (get_paysys_default ms, pay1, st, ms)
             else (case (if sp_test pay1 \<noteq> NO_TEST then get_value ''checksys'' None cfg else None) of
               Some nm \<Rightarrow> do {
                 (t, pay2, ms1) \<leftarrow> check_module atof (os_rules st) cfg nm pay1 ms;
                 Some (t, pay2, st, ms1)
               }
             | None \<Rightarrow>
               (case get_value ''paysys'' None cfg of
                  Some nm \<Rightarrow> do {
                    (t, ms1) \<leftarrow> module_by_rules (os_rules st) nm ms;
                    u \<leftarrow> usable_or_default t ms1;
                    Some (u, pay1, st, ms1)
                  }
                | None \<Rightarrow> module_by_engine ops codes rows n cfg pay1 st ms))))"

section \<open>Loading the operators\<close>

definition load_optional :: "module_env \<Rightarrow> string \<Rightarrow> server_config option option" where
  "load_optional env file =
     map_option (\<lambda>(r, nodes). if r = 0 then Some nodes else None) (read_file (me_file env file))"

text \<open>Without a directory: rules, engines and limits are dropped.\<close>

definition drop_operators :: "'w operator_state \<Rightarrow> 'w operator_state" where
  "drop_operators st = st\<lparr>os_rules := None, os_engines := None,
     os_limits := None, os_limits_loaded := (if os_limits st = None then os_limits_loaded st else False)\<rparr>"

definition reconnect_operators :: "'w sql_ops \<Rightarrow> 'w operator_state \<Rightarrow> 'w operator_state" where
  "reconnect_operators ops st =
     (let w1 = (if os_need_free st then sq_close ops (os_world st) else os_world st) in
      case sq_connect ops ''localhost'' ''pays_daemon'' ''masteranubis'' ''electropay_db1'' w1 of
        (ok, w2) \<Rightarrow> st\<lparr>os_world := w2, os_need_free := ok,
                      os_bad_connection := (if ok then os_bad_connection st else True)\<rparr>)"

fun load_operator_entries ::
  "'p regexps \<Rightarrow> module_env \<Rightarrow> string \<Rightarrow> string list \<Rightarrow> ('p server_operator list) option" where
  "load_operator_entries rx env dir [] = Some []"
| "load_operator_entries rx env dir (f # fs) =
     (if f \<noteq> ''.'' \<and> f \<noteq> ''..'' \<and> has_suffix ''op'' f
      then do {
        (r, p) \<leftarrow> operator_load rx env (take 49 dir @ take 49 f) server_operator_new;
        ps \<leftarrow> load_operator_entries rx env dir fs;
        Some (if r = 0 then p # ps else ps)
      }
      else load_operator_entries rx env dir fs)"

definition load_operators ::
  "'w sql_ops \<Rightarrow> 'p regexps \<Rightarrow> module_env \<Rightarrow> string option \<Rightarrow> 'w operator_state
    \<Rightarrow> ('p server_operator list option \<times> 'w operator_state) option" where
  "load_operators ops rx env dir st =
     (let st1 = reconnect_operators ops st in
      case dir of
        None \<Rightarrow> Some (None, drop_operators st1)
      | Some d \<Rightarrow> do {
          rules \<leftarrow> load_optional env (d @ ''000_rules.cfg'');
          engines \<leftarrow> load_optional env (d @ ''000_engines.cfg'');
          (limits, loaded) \<leftarrow> (if os_limits_loaded st1 then Some (os_limits st1, True)
            else map_option (\<lambda>l. (l, l \<noteq> None)) (load_optional env (d @ ''000_limits.cfg'')));
          ps \<leftarrow> load_operator_entries rx env d (case me_dir env d of None \<Rightarrow> [] | Some fs \<Rightarrow> fs);
          Some (Some ps, st1\<lparr>os_rules := rules, os_engines := engines, os_limits := limits, os_limits_loaded := loaded\<rparr>)
        })"

section \<open>Where a payment goes\<close>

definition same_order :: "server_pay \<Rightarrow> server_pay \<Rightarrow> bool" where
  "same_order p q \<longleftrightarrow> sp_id q = sp_id p \<and> sp_pay_engine q = sp_pay_engine p \<and> sp_provider_id q = sp_provider_id p
     \<and> sp_data q = sp_data p \<and> sp_terminal_id q = sp_terminal_id p \<and> sp_amount q = sp_amount p
     \<and> sp_back_summ q = sp_back_summ p \<and> (sp_test p = NO_TEST \<longleftrightarrow> sp_test q = NO_TEST)
     \<and> (sp_test p = NO_TEST \<longrightarrow> sp_summ q = sp_summ p)"

lemma same_orderI [simp]:
  "same_order p p"
  "same_order p (p\<lparr>sp_paysys_codename := c\<rparr>)"
  "same_order p (p\<lparr>sv_conv_sub := v\<rparr>)"
  by (simp_all add: same_order_def)

lemma same_order_trans: "same_order p q \<Longrightarrow> same_order q r \<Longrightarrow> same_order p r"
  by (auto simp: same_order_def)

lemmas test_kinds = NO_TEST_def FORMAT_TEST_def CHECKSYS_TEST_def FULL_TEST_def OK_TEST_def NOK_TEST_def

lemma check_type_same: "check_type cfg pay = (d, q) \<Longrightarrow> same_order pay q"
  by (auto simp: check_type_def same_order_def test_kinds split: option.splits if_splits)

text \<open>The module is the default one or one that can perform payments; the list of modules keeps its elements.\<close>

definition well_routed :: "module_state \<Rightarrow> nat option \<Rightarrow> module_state \<Rightarrow> bool" where
  "well_routed ms t ms' \<longleftrightarrow> (\<exists>l. ms' = ms\<lparr>ms_list := l\<rparr> \<and> sq_items l = sq_items (ms_list ms))
     \<and> (t = ms_null ms \<or> (\<exists>a m. t = Some a \<and> ms_store ms a = Some m \<and> \<not> mo_unloaded m \<and> mo_broken m = 0))"

lemma well_routed_default [simp]: "well_routed ms (get_paysys_default ms) ms"
  by (auto simp: well_routed_def get_paysys_default_def intro: exI [of _ "ms_list ms"])

lemma find_loaded: "find (loaded_as ms n) es = Some (Some a) \<Longrightarrow> \<exists>m. ms_store ms a = Some m \<and> \<not> mo_unloaded m"
  by (auto simp: find_Some_iff loaded_as_def split: option.splits)

lemma lookup_routed:
  assumes ok: "mods_ok ms" and l: "get_paysys_by_so_name name ms = Some (t, ms')"
  shows "well_routed ms t ms'"
proof (cases name)
  case None
  show ?thesis
  proof (cases "sq_items (ms_list ms)")
    case Nil
    then show ?thesis using l by (auto simp: get_paysys_by_so_name_def for_each_def seq_reset_def well_routed_def)
  next
    case (Cons e es)
    then have "e \<in> Some ` dom (ms_store ms)" using mods_okD(2) [OF ok] by (metis list.set_intros(1))
    then obtain a m where "e = Some a" "ms_store ms a = Some m" by auto
    then show ?thesis using l None Cons
      by (auto simp: get_paysys_by_so_name_def for_each_def seq_reset_def seq_next_def seq_at_def paysys_matches_def)
  qed
next
  case (Some n)
  obtain l' where l': "get_paysys_by_so_name (Some n) ms = Some (case find (loaded_as ms n) (sq_items (ms_list ms)) of
           Some (Some a) \<Rightarrow> Some a | _ \<Rightarrow> ms_null ms, ms\<lparr>ms_list := l'\<rparr>)" "sq_items l' = sq_items (ms_list ms)"
    using get_paysys_find [OF ok] by blast
  show ?thesis using l l' Some find_loaded [of ms n "sq_items (ms_list ms)"] mods_okD(5) [OF ok]
    by (fastforce simp: well_routed_def split: option.splits)
qed

lemma well_routed_usable:
  assumes "well_routed ms t ms'" "usable_module t ms' = Some u"
  shows "well_routed ms (case u of None \<Rightarrow> get_paysys_default ms' | Some a \<Rightarrow> Some a) ms'"
  using assms by (auto simp: well_routed_def usable_module_def get_paysys_default_def split: option.splits if_splits)

lemma well_routed_or_default:
  assumes "well_routed ms t ms'" "usable_or_default t ms' = Some u"
  shows "well_routed ms u ms'"
  using assms well_routed_usable [OF assms(1)] by (auto simp: usable_or_default_def)

lemma module_by_rules_routed:
  assumes "mods_ok ms" "module_by_rules rules nm ms = Some (t, ms')"
  shows "well_routed ms t ms' \<or> (t = None \<and> ms' = ms)"
  using assms lookup_routed [OF assms(1)] by (auto simp: module_by_rules_def split: option.splits)

lemma usable_none [simp]: "usable_module None ms = Some None" "usable_or_default None ms = Some (get_paysys_default ms)"
  by (simp_all add: usable_module_def usable_or_default_def)

lemma check_module_routed:
  assumes ok: "mods_ok ms" and t: "sp_test pay \<noteq> NO_TEST"
    and c: "check_module atof rules cfg nm pay ms = Some (t, pay', ms')"
  shows "well_routed ms t ms' \<and> same_order pay pay'"
proof -
  define pay1 where "pay1 = (if named_by_rules rules nm then pay\<lparr>sp_paysys_codename := Some nm\<rparr> else pay)"
  obtain t0 ms1 u where m: "module_by_rules rules nm ms = Some (t0, ms1)" "usable_module t0 ms1 = Some u" "ms' = ms1"
      "t = (case u of None \<Rightarrow> get_paysys_default ms1 | Some a \<Rightarrow> Some a)"
      "pay' = pay1 \<or> (\<exists>v. pay' = pay1\<lparr>sp_summ := v\<rparr>)"
  proof -
    obtain t0 ms1 where x: "module_by_rules rules nm ms = Some (t0, ms1)"
      using c by (cases "module_by_rules rules nm ms") (auto simp: check_module_def)
    obtain u where u: "usable_module t0 ms1 = Some u"
      using c x by (cases "usable_module t0 ms1") (auto simp: check_module_def)
    have c': "(case u of None \<Rightarrow> Some (get_paysys_default ms1, pay1, ms1)
      | Some a \<Rightarrow> Some (Some a, (case get_value ''checksum'' None cfg of
              Some s \<Rightarrow> if is_minus_one (sp_summ pay1) then pay1\<lparr>sp_summ := atof s\<rparr> else pay1
            | None \<Rightarrow> pay1), ms1)) = Some (t, pay', ms')"
      using c x u unfolding check_module_def Let_def pay1_def [symmetric] by simp
    show thesis
    proof (rule that [OF x u])
      show "ms' = ms1" using c' by (cases u) auto
      show "t = (case u of None \<Rightarrow> get_paysys_default ms1 | Some a \<Rightarrow> Some a)" using c' by (cases u) auto
      show "pay' = pay1 \<or> (\<exists>v. pay' = pay1\<lparr>sp_summ := v\<rparr>)"
        using c' by (cases u; cases "get_value ''checksum'' None cfg"; cases "is_minus_one (sp_summ pay1)") auto
    qed
  qed
  have "well_routed ms t ms'"
    using module_by_rules_routed [OF ok m(1)] well_routed_usable [of ms t0 ms1 u] m by auto
  moreover have "same_order pay pay'"
    using m(5) t by (auto simp: pay1_def same_order_def split: if_splits)
  ultimately show ?thesis by simp
qed

lemma engine_loop_same:
  "engine_loop cfg engines n e i nm tmp pay = Some r \<Longrightarrow>
     same_order pay (case r of Inl q \<Rightarrow> q | Inr (_, _, q) \<Rightarrow> q)"
proof (induction n arbitrary: e i nm tmp pay)
  case (Suc n)
  show ?case
  proof (cases "e = sp_pay_engine pay \<or> 32000 \<le> e")
    case True
    then show ?thesis using Suc.prems by auto
  next
    case False
    show ?thesis
    proof (cases "get_value (paysys_name i) None cfg")
      case None
      then show ?thesis using Suc.prems False by auto
    next
      case (Some nm1)
      then obtain e1 where "engine_loop cfg engines n e1 (i + 1) nm1 (Some (paysys_name i)) (pay\<lparr>sp_paysys_codename := Some nm1\<rparr>) = Some r"
        using Suc.prems False by (auto simp: Let_def split: Option.bind_splits)
      from Suc.IH [OF this] show ?thesis by (rule same_order_trans [OF same_orderI(2)])
    qed
  qed
qed simp

lemma engine_module_routed:
  assumes ok: "mods_ok ms" and e: "engine_module rules cfg nm tmp pay ms = Some (t, pay', ms')"
  shows "well_routed ms t ms' \<and> same_order pay pay'"
proof (cases "\<exists>r. rules = Some r \<and> get_value nm None r = None")
  case True
  then show ?thesis using e by (auto simp: engine_module_def)
next
  case False
  then obtain name t0 u where r: "get_paysys_by_so_name name ms = Some (t0, ms')" "usable_or_default t0 ms' = Some u" "t = u"
      "same_order pay pay'"
    using e by (auto simp: engine_module_def split: Option.bind_splits option.splits)
  from lookup_routed [OF ok r(1)] r(2-4) show ?thesis using well_routed_or_default by blast
qed

lemma module_by_engine_routed:
  assumes ok: "mods_ok ms" and e: "module_by_engine ops codes rows n cfg pay st ms = Some (t, pay', st', ms')"
  shows "well_routed ms t ms' \<and> same_order pay pay'"
proof -
  obtain r where r: "engine_loop cfg (os_engines st) n (- 1) 1 ''libnull.so'' None pay = Some r"
    using e by (auto simp: module_by_engine_def split: Option.bind_splits)
  show ?thesis
  proof (cases r)
    case (Inl q)
    then show ?thesis using e r engine_loop_same [OF r] by (auto simp: module_by_engine_def)
  next
    case (Inr x)
    then obtain nm tmp q where x: "r = Inr (nm, tmp, q)" by (cases x) auto
    have q: "same_order pay q" using engine_loop_same [OF r] x by simp
    obtain lim st1 where l: "engine_limited ops codes rows n nm st = Some (lim, st1)"
      using e r x by (auto simp: module_by_engine_def split: Option.bind_splits)
    show ?thesis
    proof (cases lim)
      case True
      then have "get_paysys_engine_limit ms = Some (t, ms')" "pay' = q"
        using e r x l by (auto simp: module_by_engine_def split: Option.bind_splits)
      then show ?thesis using lookup_routed [OF ok] q by (simp add: get_paysys_engine_limit_def)
    next
      case False
      then have "engine_module (os_rules st1) cfg nm tmp q ms = Some (t, pay', ms')"
        using e r x l by (auto simp: module_by_engine_def split: Option.bind_splits)
      then show ?thesis using engine_module_routed [OF ok] same_order_trans [OF q] by blast
    qed
  qed
qed

lemma get_valid_paysys_routed:
  assumes "mods_ok ms" "get_valid_paysys ops codes rows atof n p pay st ms = Some (t, pay', st', ms')"
  shows "well_routed ms t ms' \<and> same_order pay pay'"
proof (cases "op_config p")
  case None
  then show ?thesis using assms(2) by (auto simp: get_valid_paysys_def)
next
  case (Some cfg)
  obtain d q where q: "check_type cfg pay = (d, q)" by fastforce
  have s: "same_order pay q" by (rule check_type_same [OF q])
  show ?thesis
  proof (cases d)
    case True
    then show ?thesis using assms(2) Some q s by (auto simp: get_valid_paysys_def)
  next
    case d: False
    show ?thesis
    proof (cases "sp_test q \<noteq> NO_TEST \<and> get_value ''checksys'' None cfg \<noteq> None")
      case True
      then obtain nm where nm: "get_value ''checksys'' None cfg = Some nm" by auto
      then have "check_module atof (os_rules st) cfg nm q ms = Some (t, pay', ms')"
        using assms(2) Some q d True by (auto simp: get_valid_paysys_def split: Option.bind_splits)
      with check_module_routed [OF assms(1)] True same_order_trans [OF s] show ?thesis by blast
    next
      case False
      then have ck: "(if sp_test q \<noteq> NO_TEST then get_value ''checksys'' None cfg else None) = None" by auto
      show ?thesis
      proof (cases "get_value ''paysys'' None cfg")
        case (Some nm)
        then obtain t0 u where r: "module_by_rules (os_rules st) nm ms = Some (t0, ms')"
            "usable_or_default t0 ms' = Some u" "t = u" "pay' = q"
          using assms(2) \<open>op_config p = Some cfg\<close> q d ck
          by (auto simp: get_valid_paysys_def split: Option.bind_splits option.splits)
        from module_by_rules_routed [OF assms(1) r(1)] r(2-4) s show ?thesis
          using well_routed_or_default by auto
      next
        case None
        then have "module_by_engine ops codes rows n cfg q st ms = Some (t, pay', st', ms')"
          using assms(2) Some q d ck by (simp add: get_valid_paysys_def)
        from module_by_engine_routed [OF assms(1) this] show ?thesis using same_order_trans [OF s] by blast
      qed
    qed
  qed
qed

text \<open>
  C23: whatever the configuration, a payment goes to the default module or to a module that is loaded without
  an error and not marked as unloaded; the choice changes nothing of the order (number, engine, operator, data,
  terminal, amount), makes no payment of a test and no test of a payment, and leaves the sum of a payment alone.
\<close>

theorem payment_well_routed:
  assumes "mods_ok ms" "get_valid_paysys ops codes rows atof n p pay st ms = Some (t, pay', st', ms')"
  shows "(t = ms_null ms \<or> (\<exists>a m. t = Some a \<and> ms_store ms a = Some m \<and> \<not> mo_unloaded m \<and> mo_broken m = 0))
     \<and> mods_ok ms' \<and> same_order pay pay'"
  using get_valid_paysys_routed [OF assms] mods_ok_items [OF assms(1)] by (auto simp: well_routed_def)

section \<open>The search for the engine\<close>

definition engine_number :: "server_config \<Rightarrow> string \<Rightarrow> int" where
  "engine_number eng nm = (case get_value nm None eng of Some v \<Rightarrow> atoi v | None \<Rightarrow> - 1)"

definition engine_stops :: "server_pay \<Rightarrow> int \<Rightarrow> bool" where
  "engine_stops pay e \<longleftrightarrow> e = sp_pay_engine pay \<or> 32000 \<le> e"

text \<open>The entries \<open>paysys_i\<close> from a number on; every round uses one up.\<close>

lemma paysys_name_inj: "paysys_name i = paysys_name j \<Longrightarrow> i = j"
proof -
  assume "paysys_name i = paysys_name j"
  then have "show_nat i = show_nat j" by (simp add: paysys_name_def show_int_def)
  then show "i = j" by (metis digits_val_show_nat)
qed

definition entry_from :: "nat \<Rightarrow> config_element \<Rightarrow> bool" where
  "entry_from i n \<longleftrightarrow> (\<exists>j\<ge>i. ce_param n = paysys_name j)"

definition entries_from :: "nat \<Rightarrow> server_config \<Rightarrow> nat" where
  "entries_from i cfg = length (filter (entry_from i) cfg)"

lemma entries_from_le: "entries_from i cfg \<le> length cfg"
  by (simp add: entries_from_def)

lemma get_value_entry: "get_value p s cfg = Some v \<Longrightarrow> \<exists>n\<in>set cfg. ce_param n = p"
  by (induction cfg) (auto simp: element_matches_iff split: if_splits)

lemma entries_from_Suc:
  assumes "get_value (paysys_name i) None cfg = Some v"
  shows "entries_from (Suc i) cfg < entries_from i cfg"
proof -
  obtain n where n: "n \<in> set cfg" "ce_param n = paysys_name i" using get_value_entry [OF assms] by blast
  obtain xs ys where cfg: "cfg = xs @ n # ys" using n(1) by (meson split_list)
  have mono: "entry_from (Suc i) z \<Longrightarrow> entry_from i z" for z unfolding entry_from_def by (meson Suc_leD)
  have le: "length (filter (entry_from (Suc i)) zs) \<le> length (filter (entry_from i) zs)" for zs
    by (induction zs) (auto dest: mono)
  have "\<not> entry_from (Suc i) n" using n(2) paysys_name_inj by (fastforce simp: entry_from_def)
  moreover have "entry_from i n" using n(2) by (auto simp: entry_from_def)
  ultimately show ?thesis using le [of xs] le [of ys] by (simp add: entries_from_def cfg)
qed

lemma engine_loop_finds:
  assumes "entries_from i cfg < n"
  shows "\<exists>r. engine_loop cfg (Some eng) n e i nm tmp pay = Some r \<and>
     (if engine_stops pay e then r = Inr (nm, tmp, pay)
      else \<exists>k\<ge>i. (\<forall>j. i \<le> j \<and> j < k \<longrightarrow> (\<exists>x. get_value (paysys_name j) None cfg = Some x \<and> \<not> engine_stops pay (engine_number eng x)))
        \<and> (case get_value (paysys_name k) None cfg of
             None \<Rightarrow> (\<exists>q. r = Inl q)
           | Some x \<Rightarrow> engine_stops pay (engine_number eng x)
               \<and> r = Inr (x, Some (paysys_name k), pay\<lparr>sp_paysys_codename := Some x\<rparr>)))"
  using assms
proof (induction n arbitrary: e i nm tmp pay)
  case (Suc n)
  show ?case
  proof (cases "engine_stops pay e")
    case True
    then show ?thesis by (simp add: engine_stops_def)
  next
    case no: False
    show ?thesis
    proof (cases "get_value (paysys_name i) None cfg")
      case None
      then show ?thesis using no by (auto simp: engine_stops_def intro!: exI [of _ i])
    next
      case (Some x)
      let ?pay = "pay\<lparr>sp_paysys_codename := Some x\<rparr>"
      have stops: "engine_stops ?pay = engine_stops pay" by (simp add: engine_stops_def fun_eq_iff)
      have col: "?pay\<lparr>sp_paysys_codename := y\<rparr> = pay\<lparr>sp_paysys_codename := y\<rparr>" for y by simp
      have "entries_from (Suc i) cfg < n" using Suc.prems entries_from_Suc [OF Some] by simp
      note ex = Suc.IH [OF this, of "engine_number eng x" x "Some (paysys_name i)" ?pay]
      obtain r where r: "engine_loop cfg (Some eng) n (engine_number eng x) (Suc i) x (Some (paysys_name i)) ?pay = Some r"
        and c: "if engine_stops pay (engine_number eng x) then r = Inr (x, Some (paysys_name i), ?pay)
          else \<exists>k\<ge>Suc i. (\<forall>j. Suc i \<le> j \<and> j < k \<longrightarrow> (\<exists>x. get_value (paysys_name j) None cfg = Some x \<and> \<not> engine_stops pay (engine_number eng x)))
            \<and> (case get_value (paysys_name k) None cfg of
                 None \<Rightarrow> (\<exists>q. r = Inl q)
               | Some x \<Rightarrow> engine_stops pay (engine_number eng x)
                   \<and> r = Inr (x, Some (paysys_name k), pay\<lparr>sp_paysys_codename := Some x\<rparr>))"
        using ex unfolding stops col by blast
      have loop: "engine_loop cfg (Some eng) (Suc n) e i nm tmp pay = Some r"
        using no Some r by (simp add: engine_stops_def engine_number_def)
      show ?thesis
      proof (cases "engine_stops pay (engine_number eng x)")
        case True
        then show ?thesis using loop no c Some by (auto intro!: exI [of _ i])
      next
        case False
        then obtain k where k: "k \<ge> Suc i"
            "\<forall>j. Suc i \<le> j \<and> j < k \<longrightarrow> (\<exists>x. get_value (paysys_name j) None cfg = Some x \<and> \<not> engine_stops pay (engine_number eng x))"
            "case get_value (paysys_name k) None cfg of
                 None \<Rightarrow> (\<exists>q. r = Inl q)
               | Some x \<Rightarrow> engine_stops pay (engine_number eng x)
                   \<and> r = Inr (x, Some (paysys_name k), pay\<lparr>sp_paysys_codename := Some x\<rparr>)"
          using c by auto
        have "\<forall>j. i \<le> j \<and> j < k \<longrightarrow> (\<exists>x. get_value (paysys_name j) None cfg = Some x \<and> \<not> engine_stops pay (engine_number eng x))"
          using k(2) Some False by (metis Suc_leI le_neq_implies_less)
        then show ?thesis using loop no k(1,3) by (auto intro!: exI [of _ k])
      qed
    qed
  qed
qed simp

text \<open>
  The search for the engine of a payment ends within as many rounds as the operator's configuration has
  entries, and finds the first of \<open>paysys_1\<close>, \<open>paysys_2\<close>, ... whose engine has the number of the payment (or a
  number from 32000 on, which ends the search too); it gives up exactly at the first number without an entry.
\<close>

lemma engine_search_first:
  assumes "length cfg < n" "sp_pay_engine pay \<noteq> - 1"
  shows "\<exists>r k. engine_loop cfg (Some eng) n (- 1) 1 nm None pay = Some r \<and> 1 \<le> k
     \<and> (\<forall>j. 1 \<le> j \<and> j < k \<longrightarrow> (\<exists>x. get_value (paysys_name j) None cfg = Some x
          \<and> engine_number eng x \<noteq> sp_pay_engine pay \<and> engine_number eng x < 32000))
     \<and> (case get_value (paysys_name k) None cfg of
          None \<Rightarrow> (\<exists>q. r = Inl q)
        | Some x \<Rightarrow> (engine_number eng x = sp_pay_engine pay \<or> 32000 \<le> engine_number eng x)
            \<and> r = Inr (x, Some (paysys_name k), pay\<lparr>sp_paysys_codename := Some x\<rparr>))"
proof -
  have n: "entries_from 1 cfg < n" using assms(1) entries_from_le [of 1 cfg] by simp
  have "\<not> engine_stops pay (- 1)" using assms(2) by (simp add: engine_stops_def)
  then obtain r k where "engine_loop cfg (Some eng) n (- 1) 1 nm None pay = Some r" "1 \<le> k"
      "\<forall>j. 1 \<le> j \<and> j < k \<longrightarrow> (\<exists>x. get_value (paysys_name j) None cfg = Some x \<and> \<not> engine_stops pay (engine_number eng x))"
      "case get_value (paysys_name k) None cfg of
             None \<Rightarrow> (\<exists>q. r = Inl q)
           | Some x \<Rightarrow> engine_stops pay (engine_number eng x)
               \<and> r = Inr (x, Some (paysys_name k), pay\<lparr>sp_paysys_codename := Some x\<rparr>)"
    using engine_loop_finds [OF n, of eng "- 1" nm None pay] by auto
  then show ?thesis
    by (intro exI [of _ r] exI [of _ k]) (auto simp: engine_stops_def not_le split: option.splits)
qed

definition engine_entries :: server_config where
  "engine_entries =
     [\<lparr>ce_section = None, ce_param = ''paysys_1'', ce_value = ''visa''\<rparr>,
      \<lparr>ce_section = None, ce_param = ''paysys_2'', ce_value = ''cell''\<rparr>]"

definition engine_numbers :: "string \<Rightarrow> server_config" where
  "engine_numbers visa =
     [\<lparr>ce_section = None, ce_param = ''visa'', ce_value = visa\<rparr>,
      \<lparr>ce_section = None, ce_param = ''cell'', ce_value = ''7''\<rparr>]"

definition some_pay :: server_pay where
  "some_pay = spay.extend (spay_new\<lparr>sp_pay_engine := 7\<rparr>) \<lparr>sv_conv_sub = None\<rparr>"

lemma engine_examples [simp]:
  "paysys_name 1 = ''paysys_1''" "paysys_name (Suc 0) = ''paysys_1''" "paysys_name (Suc (Suc 0)) = ''paysys_2''"
  "paysys_name (Suc (Suc (Suc 0))) = ''paysys_3''"
  "sp_pay_engine some_pay = 7" "sp_test some_pay = 0" "sp_paysys_codename some_pay = None"
  by (simp_all add: paysys_name_def show_int_def show_nat.simps digit_char_def some_pay_def spay.defs spay_new_def)

lemma engine_search_first_example:
  "\<exists>r k. engine_loop engine_entries (Some (engine_numbers ''5'')) 3 (- 1) 1 ''libnull.so'' None some_pay = Some r \<and> (1::nat) \<le> k"
proof -
  have "length engine_entries < 3" "sp_pay_engine some_pay \<noteq> - 1" by (simp_all add: engine_entries_def)
  from engine_search_first [OF this, of "engine_numbers ''5''" "''libnull.so''"] show ?thesis
    by (elim exE conjE) (intro exI conjI, assumption+)
qed

theorem payment_well_routed_witness:
  "\<forall>ops codes rows atof w. \<exists>t q st ms. get_valid_paysys ops codes rows atof 3 ((server_operator_new :: unit server_operator)\<lparr>op_config := Some [\<lparr>ce_section = None, ce_param = ''paysys'', ce_value = ''a.so''\<rparr>]\<rparr>)
       some_pay \<lparr>os_rules = None, os_engines = None, os_limits = None, os_limits_loaded = False, os_need_free = False,
                 os_bad_connection = False, os_world = w\<rparr> (two_modules 0 False) = Some (t, q, st, ms)
     \<and> mods_ok ms \<and> same_order some_pay q"
  (is "\<forall>ops codes rows atof w. ?P ops codes rows atof w")
proof (intro allI)
  fix ops :: "'a sql_ops" and codes and rows :: "'a \<Rightarrow> string option option" and atof :: "string \<Rightarrow> c_float" and w :: 'a
  let ?p = "(server_operator_new :: unit server_operator)\<lparr>op_config := Some [\<lparr>ce_section = None, ce_param = ''paysys'', ce_value = ''a.so''\<rparr>]\<rparr>"
  let ?st = "\<lparr>os_rules = None, os_engines = None, os_limits = None, os_limits_loaded = False, os_need_free = False,
                 os_bad_connection = False, os_world = w\<rparr>"
  have "\<exists>x. get_valid_paysys ops codes rows atof 3 ?p some_pay ?st (two_modules 0 False) = Some x"
    by (simp add: get_valid_paysys_def check_type_def test_kinds element_matches_def module_by_rules_def
        get_paysys_by_so_name_def for_each_def two_modules_def seq_reset_def seq_next_def seq_at_def
        paysys_matches_def pay_module_new_def numeral_2_eq_2 usable_or_default_def usable_module_def)
  then obtain t q st ms where r: "get_valid_paysys ops codes rows atof 3 ?p some_pay ?st (two_modules 0 False) = Some (t, q, st, ms)"
    by auto
  have "mods_ok ms" "same_order some_pay q" using payment_well_routed [OF two_modules_ok r] by simp_all
  with r show "?P ops codes rows atof w" by (intro exI conjI)
qed

section \<open>Limits\<close>

lemma snprintf_int: "in_int32 k \<Longrightarrow> snprintf_into 15 (show_int k) = show_int k"
  using show_int_length [of 10 k] by (simp add: snprintf_into_def in_int32_def)

lemma count_limit_number:
  assumes "get_value ''value'' (Some e) limits = Some (show_int k)" "in_int32 k" "in_int32 (k + d)"
  shows "count_limit d e limits = Some (k + d, snd (set_value ''value'' (Some e) (show_int (k + d)) limits))"
proof -
  have "show_int k \<noteq> ''n''"
    using show_nat_digits [of "nat k"] show_nat_digits [of "nat (- k)"] by (auto simp: show_int_def is_digit_def)
  then show ?thesis using assms by (simp add: count_limit_def atoi_show_int wrap32_id snprintf_int Let_def)
qed

lemma get_rest_limits: "get_rest ops codes rows n i st = Some (x, st') \<Longrightarrow> os_limits st' = os_limits st"
  by (auto simp: get_rest_def Let_def split: option.splits if_splits Option.bind_splits query_end.splits)

text \<open>
  Choosing an engine uses its limit up by one and the end of the payment gives it back: whatever the
  outcome, after both every entry of the limits reads as before.
\<close>

lemma limits_balanced:
  assumes "engine_limited ops codes rows n nm st = Some (b, st1)" "os_limits st = Some limits"
    and "get_value ''value'' (Some nm) limits = Some (show_int k)" "in_int32 k" "in_int32 (k - 1)"
  shows "(\<exists>l. os_limits st1 = Some l \<and> get_value ''value'' (Some nm) l = Some (show_int (k - 1)))
     \<and> (\<exists>l. os_limits (snd (snd (operator_unuse (Some nm) p st1))) = Some l \<and> (\<forall>q s. get_value q s l = get_value q s limits))"
proof -
  let ?l1 = "snd (set_value ''value'' (Some nm) (show_int (k - 1)) limits)"
  have c: "count_limit (- 1) nm limits = Some (k - 1, ?l1)" using count_limit_number [OF assms(3,4), of "- 1"] assms(5) by simp
  have st1: "os_limits st1 = Some ?l1"
    using assms(1,2) c by (auto simp: engine_limited_def Let_def split: if_splits option.splits dest!: get_rest_limits)
  have v: "get_value ''value'' (Some nm) ?l1 = Some (show_int (k - 1))" using assms(3) by (simp add: get_set_value)
  have "count_limit 1 nm ?l1 = Some (k, snd (set_value ''value'' (Some nm) (show_int k) ?l1))"
    using count_limit_number [OF v assms(5), of 1] assms(4) by simp
  then have "os_limits (snd (snd (operator_unuse (Some nm) p st1))) = Some (snd (set_value ''value'' (Some nm) (show_int k) ?l1))"
    using st1 by (simp add: operator_unuse_def Let_def)
  moreover have "get_value q s (snd (set_value ''value'' (Some nm) (show_int k) ?l1)) = get_value q s limits" for q s
    using assms(3) by (auto simp: get_set_value)
  ultimately show ?thesis using st1 v by auto
qed

definition one_limit :: "string \<Rightarrow> string \<Rightarrow> server_config" where
  "one_limit engine v = [\<lparr>ce_section = Some engine, ce_param = ''value'', ce_value = v\<rparr>]"

definition limited_state :: "server_config \<Rightarrow> nat operator_state" where
  "limited_state limits = \<lparr>os_rules = None, os_engines = Some (engine_numbers ''5''), os_limits = Some limits, os_limits_loaded = True,
     os_need_free = False, os_bad_connection = True, os_world = 0\<rparr>"

lemma limits_balanced_example:
  "\<forall>ops codes rows. \<exists>b st1. engine_limited ops codes rows 0 ''cell'' (limited_state (one_limit ''cell'' ''3'')) = Some (b, st1)
     \<and> (\<exists>l. os_limits st1 = Some l \<and> get_value ''value'' (Some ''cell'') l = Some ''2'')"
  (is "\<forall>ops codes rows. ?P ops codes rows")
proof (intro allI)
  fix ops :: "nat sql_ops" and codes and rows :: "nat \<Rightarrow> string option option"
  have v: "show_int 3 = ''3''" "show_int 2 = ''2''" by (simp_all add: show_int_def show_nat.simps digit_char_def)
  let ?l = "one_limit ''cell'' ''3''"
  have g: "get_value ''value'' (Some ''cell'') ?l = Some (show_int 3)" by (simp add: one_limit_def element_matches_def v)
  have c: "count_limit (- 1) ''cell'' ?l = Some (3 + - 1, snd (set_value ''value'' (Some ''cell'') (show_int (3 + - 1)) ?l))"
    by (rule count_limit_number [OF g]) (simp_all add: in_int32_def)
  have "\<exists>b st1. engine_limited ops codes rows 0 ''cell'' (limited_state ?l) = Some (b, st1)"
    using c by (auto simp: engine_limited_def limited_state_def get_rest_def one_limit_def element_matches_def Let_def)
  then obtain b st1 where e: "engine_limited ops codes rows 0 ''cell'' (limited_state ?l) = Some (b, st1)" by blast
  from limits_balanced [OF e _ g, of server_operator_new] v e show "?P ops codes rows"
    by (auto simp: limited_state_def in_int32_def)
qed

text \<open>
  A payment for which no engine is found bears the name of the last engine that was tried: its end raises
  the limit of that engine, which was never lowered.
\<close>

lemma unmatched_raises_limit:
  "\<exists>q st ms. get_valid_paysys ops codes rows atof 3 (server_operator_new\<lparr>op_config := Some engine_entries\<rparr>)
       (some_pay\<lparr>sp_pay_engine := 9\<rparr>) (limited_state (one_limit ''cell'' ''3'')) (two_modules 0 False)
     = Some (get_paysys_default (two_modules 0 False), q, st, ms) \<and> st = limited_state (one_limit ''cell'' ''3'')
     \<and> sp_paysys_codename q = Some ''cell''
     \<and> os_limits (snd (snd (operator_unuse (sp_paysys_codename q) p st))) = Some (one_limit ''cell'' ''4'')"
proof -
  have v: "show_int 3 = ''3''" "show_int 4 = ''4''" by (simp_all add: show_int_def show_nat.simps digit_char_def)
  have g: "get_value ''value'' (Some ''cell'') (one_limit ''cell'' ''3'') = Some (show_int 3)" by (simp add: one_limit_def element_matches_def v)
  have c: "count_limit 1 ''cell'' (one_limit ''cell'' ''3'') = Some (4, one_limit ''cell'' ''4'')"
    using count_limit_number [OF g, of 1] by (simp add: in_int32_def v one_limit_def element_matches_def)
  have n: "atoi ''5'' = 5" "atoi ''7'' = 7" by code_simp+
  show ?thesis
    by (simp add: get_valid_paysys_def check_type_def test_kinds engine_entries_def element_matches_def module_by_engine_def
        limited_state_def engine_numbers_def eval_nat_numeral n operator_unuse_def Let_def)
      (simp add: c)
qed

text \<open>An engine with a number from 32000 on takes every payment whose engine is not listed before it.\<close>

lemma large_engine_takes_all:
  "engine_loop engine_entries (Some (engine_numbers ''32000'')) 3 (- 1) 1 ''libnull.so'' None some_pay
     = Some (Inr (''visa'', Some ''paysys_1'', some_pay\<lparr>sp_paysys_codename := Some ''visa''\<rparr>))"
proof -
  have "show_int 32000 = ''32000''" by (simp add: show_int_def show_nat.simps digit_char_def)
  then have n: "atoi ''32000'' = 32000" using atoi_show_int [of 32000] by (simp add: in_int32_def)
  show ?thesis by (simp add: engine_entries_def engine_numbers_def element_matches_def numeral_3_eq_3 n)
qed

text \<open>Without a file of engines, a payment that has to be searched for is undefined.\<close>

lemma no_engines_undefined:
  "engine_loop engine_entries None (Suc n) (- 1) 1 ''libnull.so'' None some_pay = None"
  by (simp add: engine_entries_def element_matches_def)

text \<open>Once connecting has failed, accounts count as unknown for good: a later success does not clear the mark.\<close>

lemma bad_connection_stays:
  "os_bad_connection st \<Longrightarrow> os_bad_connection (reconnect_operators ops st)"
  by (simp add: reconnect_operators_def Let_def split: prod.split)

end
