(* ===== verification/Server_Worker.thy ===== *)
theory Server_Worker
  imports Server_Operator
begin

text \<open>
  The work of one thread on one payment (\<open>WorkEx\<close> of \<open>legacy/payguide/src/worker.cpp\<close>): the validator, the
  kinds of tests, the formats of the operator, the module, and the one state that is reported. The
  result is the sequence of what the thread does: locks taken and given back, calls of modules, the state
  set. What the validator, the module and the conversion of the data answer is a parameter.
\<close>

section \<open>Results\<close>

definition RESULT_SUCESS :: int where "RESULT_SUCESS = 0"
definition RESULT_ONLINECHECK_NOTSUPP :: int where "RESULT_ONLINECHECK_NOTSUPP = 13"
definition RESULT_SAVE_STATE :: int where "RESULT_SAVE_STATE = 65"
definition RESULT_FAILED :: int where "RESULT_FAILED = 105"
definition RESULT_TEST :: int where "RESULT_TEST = 200"

lemmas result_codes = RESULT_SUCESS_def RESULT_ONLINECHECK_NOTSUPP_def RESULT_SAVE_STATE_def RESULT_FAILED_def RESULT_TEST_def

text \<open>\<open>DBSetState\<close> with separate arguments, and the result a variable has before it is assigned.\<close>

definition pay_result :: "int \<Rightarrow> int \<Rightarrow> string option \<Rightarrow> string option \<Rightarrow> spay_result" where
  "pay_result code slp msg sender = \<lparr>pr_code = code, pr_sleep = slp,
     pr_msg = (case msg of None \<Rightarrow> [] | Some s \<Rightarrow> strncpy 1024 s),
     pr_sender_name = (case sender of None \<Rightarrow> [] | Some s \<Rightarrow> strncpy 25 s)\<rparr>"

definition format_matches_message :: string where
  "format_matches_message =
    [CHR 0xE4, CHR 0xC1, CHR 0xCE, CHR 0xCE, CHR 0xD9, CHR 0xC5, CHR 0x20, CHR 0xD0, CHR 0xCC, CHR 0xC1, CHR 0xD4, CHR 0xC5, CHR 0xD6, CHR 0xC1,
     CHR 0x20, CHR 0xD3, CHR 0xCF, CHR 0xCF, CHR 0xD4, CHR 0xD7, CHR 0xC5, CHR 0xD4, CHR 0xD3, CHR 0xD4, CHR 0xD7, CHR 0xD5, CHR 0xC0, CHR 0xD4,
     CHR 0x20, CHR 0xC6, CHR 0xCF, CHR 0xD2, CHR 0xCD, CHR 0xC1, CHR 0xD4, CHR 0xD5, CHR 0x20, CHR 0xC4, CHR 0xC1, CHR 0xCE, CHR 0xCE, CHR 0xD9,
     CHR 0xC8, CHR 0x20, CHR 0xCF, CHR 0xD0, CHR 0xC5, CHR 0xD2, CHR 0xC1, CHR 0xD4, CHR 0xCF, CHR 0xD2, CHR 0xC1]"

definition format_differs_message :: string where
  "format_differs_message =
    [CHR 0xE4, CHR 0xC1, CHR 0xCE, CHR 0xCE, CHR 0xD9, CHR 0xC5, CHR 0x20, CHR 0xD0, CHR 0xCC, CHR 0xC1, CHR 0xD4, CHR 0xC5, CHR 0xD6, CHR 0xC1,
     CHR 0x20, CHR 0xCE, CHR 0xC5, CHR 0x20, CHR 0xD3, CHR 0xCF, CHR 0xCF, CHR 0xD4, CHR 0xD7, CHR 0xC5, CHR 0xD4, CHR 0xD3, CHR 0xD4, CHR 0xD7,
     CHR 0xD5, CHR 0xC0, CHR 0xD4, CHR 0x20, CHR 0xC6, CHR 0xCF, CHR 0xD2, CHR 0xCD, CHR 0xC1, CHR 0xD4, CHR 0xD5, CHR 0x20, CHR 0xC4, CHR 0xC1,
     CHR 0xCE, CHR 0xCE, CHR 0xD9, CHR 0xC8, CHR 0x20, CHR 0xCF, CHR 0xD0, CHR 0xC5, CHR 0xD2, CHR 0xC1, CHR 0xD4, CHR 0xCF, CHR 0xD2, CHR 0xC1]"

section \<open>What a thread does\<close>

datatype lock_name = Paysys_lock | Operator_lock | Validator_lock | Pay_lock

datatype work_action = Lock_read lock_name | Unlock_read lock_name | Lock_write lock_name | Unlock_write lock_name
  | Validate | Convert | Init_pay | Send_pay | Clean_up | Set_state spay_result

record worker_env =
  we_validator :: "server_pay \<Rightarrow> spay_result \<times> server_pay"
  we_module :: "pay_module \<Rightarrow> server_pay \<Rightarrow> spay_result \<times> server_pay"
  we_convert :: "string \<Rightarrow> string \<Rightarrow> int \<times> string"

definition operator_setting :: "'p server_operator option \<Rightarrow> string \<Rightarrow> string option" where
  "operator_setting operat key = Option.bind (Option.bind operat op_config) (get_value key None)"

definition validator_runs :: "'p server_operator option \<Rightarrow> bool \<Rightarrow> bool" where
  "validator_runs operat validator \<longleftrightarrow> validator \<and> operator_setting operat ''validator'' \<noteq> Some ''off''"

definition warnings_count :: "'p server_operator option \<Rightarrow> bool \<Rightarrow> bool" where
  "warnings_count operat validator \<longleftrightarrow>
     validator_runs operat validator \<and> operator_setting operat ''validator_ignore_warnings'' = Some ''off''"

definition validate :: "worker_env \<Rightarrow> bool \<Rightarrow> server_pay \<Rightarrow> spay_result \<times> server_pay \<times> work_action list" where
  "validate env runs pay =
     (if runs then
        (case we_validator env pay of (r, pay1) \<Rightarrow>
           (r, pay1, [Lock_read Validator_lock, Lock_write Pay_lock, Validate, Unlock_read Validator_lock, Unlock_write Pay_lock]))
      else (pay_result RESULT_SUCESS 0 None None, pay, []))"

definition take_locks :: "'p server_operator option \<Rightarrow> work_action list" where
  "take_locks operat = Lock_read Paysys_lock # (if operat = None then [] else [Lock_read Operator_lock])"

definition give_locks :: "'p server_operator option \<Rightarrow> work_action list" where
  "give_locks operat = (if operat = None then [] else [Unlock_read Operator_lock]) @ [Unlock_read Paysys_lock]"

text \<open>The data of a payment converted by a routine of the operator, when it has one and the routine succeeds.\<close>

definition convert_data :: "worker_env \<Rightarrow> server_pay \<Rightarrow> server_pay \<times> work_action list" where
  "convert_data env pay =
     (case sv_conv_sub pay of
        None \<Rightarrow> (pay, [])
      | Some sub \<Rightarrow>
          (case we_convert env (sp_data pay) sub of (r, new_data) \<Rightarrow>
             (if r = 0 then pay\<lparr>sp_data := strncpy 2048 new_data\<rparr> else pay,
              [Lock_write Pay_lock, Convert, Unlock_write Pay_lock])))"

text \<open>The call of the module.\<close>

definition perform_pay ::
  "worker_env \<Rightarrow> pay_module \<Rightarrow> 'p server_operator option \<Rightarrow> spay_result \<Rightarrow> server_pay \<Rightarrow> work_action list \<times> server_pay" where
  "perform_pay env paysys operat validated pay =
     (case convert_data env pay of (pay1, conv) \<Rightarrow>
      case send_pay (we_module env) paysys pay1 of (work_result, pay2) \<Rightarrow>
        let res = (if pr_code work_result = RESULT_SUCESS \<and> pr_code validated = RESULT_SAVE_STATE \<and> sp_test pay2 \<noteq> NO_TEST
                   then validated else work_result)
        in (conv @ [Lock_read Pay_lock, Init_pay] @ give_locks operat @ [Send_pay, Clean_up, Unlock_read Pay_lock, Set_state res],
            pay2))"

definition format_ok :: "'p regexps \<Rightarrow> 'p server_operator option \<Rightarrow> server_pay \<Rightarrow> bool" where
  "format_ok rx operat pay \<longleftrightarrow>
     (case operat of
        None \<Rightarrow> True
      | Some p \<Rightarrow> valid_data rx (op_wre p) (Some (sp_data pay)) \<noteq> 0 \<and> valid_data rx (op_bre p) (Some (sp_data pay)) \<noteq> 1)"

text \<open>What follows a validation without an error.\<close>

definition work_validated ::
  "'p regexps \<Rightarrow> worker_env \<Rightarrow> pay_module \<Rightarrow> 'p server_operator option \<Rightarrow> bool \<Rightarrow> spay_result \<Rightarrow> server_pay
    \<Rightarrow> work_action list \<times> server_pay" where
  "work_validated rx env paysys operat warnings validated pay =
     (if sp_test pay = OK_TEST then (give_locks operat @ [Set_state validated], pay)
      else if sp_test pay = NOK_TEST then
        (give_locks operat @ [Set_state (pay_result RESULT_FAILED 0 (Some ''Failed'') (Some ''checker_d''))], pay)
      else if sp_test pay = FORMAT_TEST then
        (give_locks operat @ [Set_state
           (if format_ok rx operat pay then
              (if pr_code validated = RESULT_SUCESS
               then pay_result RESULT_SUCESS 0 (Some format_matches_message) (Some ''checker_d'') else validated)
            else pay_result RESULT_FAILED 0 (Some format_differs_message) (Some ''checker_d''))], pay)
      else if sp_test pay = FULL_TEST \<and> \<not> mo_check_support paysys then
        (give_locks operat @ [Set_state (pay_result RESULT_ONLINECHECK_NOTSUPP 0
           (Some ''Module doesn't support online-check'') (Some ''checker_d''))], pay)
      else if format_ok rx operat pay then
        (if warnings \<and> pr_code validated = RESULT_SAVE_STATE then ([Set_state validated], pay)
         else perform_pay env paysys operat validated pay)
      else (give_locks operat @ [Set_state (pay_result RESULT_FAILED 0 (Some format_differs_message) (Some ''format_d''))], pay))"

definition work_on_pay ::
  "'p regexps \<Rightarrow> worker_env \<Rightarrow> pay_module \<Rightarrow> 'p server_operator option \<Rightarrow> bool \<Rightarrow> server_pay \<Rightarrow> work_action list \<times> server_pay" where
  "work_on_pay rx env paysys operat validator pay =
     (case validate env (validator_runs operat validator) pay of (validated, pay1, acts) \<Rightarrow>
      case (if pr_code validated = RESULT_TEST then (give_locks operat @ [Set_state validated], pay1)
            else if pr_code validated = RESULT_SUCESS \<or> pr_code validated = RESULT_SAVE_STATE
            then work_validated rx env paysys operat (warnings_count operat validator) validated pay1
            else (give_locks operat @ [Set_state validated], pay1)) of (rest, pay2) \<Rightarrow>
        (take_locks operat @ acts @ rest, pay2))"

section \<open>What the work guarantees\<close>

definition states_set :: "work_action list \<Rightarrow> spay_result list" where
  "states_set acts = concat (map (\<lambda>a. case a of Set_state r \<Rightarrow> [r] | _ \<Rightarrow> []) acts)"

lemma states_set_simps [simp]:
  "states_set [] = []"
  "states_set (a # acts) = (case a of Set_state r \<Rightarrow> [r] | _ \<Rightarrow> []) @ states_set acts"
  "states_set (xs @ ys) = states_set xs @ states_set ys"
  by (simp_all add: states_set_def)

text \<open>How often a lock is taken for reading and given back, at every moment of the work.\<close>

fun held_reads :: "lock_name \<Rightarrow> work_action list \<Rightarrow> int" where
  "held_reads l [] = 0"
| "held_reads l (Lock_read k # acts) = (if k = l then 1 else 0) + held_reads l acts"
| "held_reads l (Unlock_read k # acts) = (if k = l then - 1 else 0) + held_reads l acts"
| "held_reads l (_ # acts) = held_reads l acts"

fun held_writes :: "lock_name \<Rightarrow> work_action list \<Rightarrow> int" where
  "held_writes l [] = 0"
| "held_writes l (Lock_write k # acts) = (if k = l then 1 else 0) + held_writes l acts"
| "held_writes l (Unlock_write k # acts) = (if k = l then - 1 else 0) + held_writes l acts"
| "held_writes l (_ # acts) = held_writes l acts"

lemma held_append [simp]:
  "held_reads l (xs @ ys) = held_reads l xs + held_reads l ys"
  "held_writes l (xs @ ys) = held_writes l xs + held_writes l ys"
  by (induction l xs rule: held_reads.induct; simp) (induction l xs rule: held_writes.induct; simp)

definition balanced :: "work_action list \<Rightarrow> bool" where
  "balanced acts \<longleftrightarrow> (\<forall>l. held_reads l acts = 0 \<and> held_writes l acts = 0)"

lemma lock_calls [simp]:
  "states_set (take_locks operat) = []" "states_set (give_locks operat) = []"
  "held_reads l (take_locks operat) + held_reads l (give_locks operat) = 0"
  "held_writes l (take_locks operat) = 0" "held_writes l (give_locks operat) = 0"
  "Send_pay \<notin> set (take_locks operat)" "Send_pay \<notin> set (give_locks operat)"
  by (auto simp: take_locks_def give_locks_def)

lemma give_take: "held_reads l (give_locks operat) = - held_reads l (take_locks operat)"
  using lock_calls(3) [of l operat] by linarith

lemma validate_acts:
  assumes "validate env runs pay = (r, q, acts)"
  shows "states_set acts = []" "balanced acts" "Send_pay \<notin> set acts"
    "q = (if runs then snd (we_validator env pay) else pay)"
    "r = (if runs then fst (we_validator env pay) else pay_result RESULT_SUCESS 0 None None)"
  using assms by (auto simp: validate_def balanced_def split: if_splits prod.splits)

lemma convert_acts:
  assumes "convert_data env pay = (q, acts)"
  shows "states_set acts = []" "balanced acts" "Send_pay \<notin> set acts" "sp_test q = sp_test pay"
  using assms by (auto simp: convert_data_def balanced_def split: option.splits if_splits prod.splits)

text \<open>The one path on which the locks of the module and of the operator stay taken.\<close>

definition keeps_locks :: "'p regexps \<Rightarrow> pay_module \<Rightarrow> 'p server_operator option \<Rightarrow> bool \<Rightarrow> spay_result \<Rightarrow> server_pay \<Rightarrow> bool" where
  "keeps_locks rx paysys operat warnings validated pay \<longleftrightarrow>
     warnings \<and> pr_code validated = RESULT_SAVE_STATE \<and> format_ok rx operat pay
     \<and> sp_test pay \<notin> {OK_TEST, NOK_TEST, FORMAT_TEST} \<and> \<not> (sp_test pay = FULL_TEST \<and> \<not> mo_check_support paysys)"

lemma perform_pay_acts:
  assumes "perform_pay env paysys operat validated pay = (acts, q)"
  shows "\<exists>r xs. acts = xs @ [Set_state r] \<and> states_set xs = [] \<and> held_writes l acts = 0
     \<and> held_reads l acts = - held_reads l (take_locks operat) \<and> count_list acts Send_pay = 1
     \<and> (pr_code r = RESULT_SUCESS \<longrightarrow> (\<exists>p. r = fst (send_pay (we_module env) paysys p)))"
proof -
  obtain p1 conv where c: "convert_data env pay = (p1, conv)" by fastforce
  obtain w p2 where s: "send_pay (we_module env) paysys p1 = (w, p2)" by fastforce
  define r where "r = (if pr_code w = RESULT_SUCESS \<and> pr_code validated = RESULT_SAVE_STATE \<and> sp_test p2 \<noteq> NO_TEST
                   then validated else w)"
  have a: "acts = (conv @ [Lock_read Pay_lock, Init_pay] @ give_locks operat @ [Send_pay, Clean_up, Unlock_read Pay_lock]) @ [Set_state r]"
    and q: "q = p2" using assms c s by (auto simp: perform_pay_def r_def Let_def)
  have "count_list conv Send_pay = 0" "count_list (give_locks operat) Send_pay = 0"
    using convert_acts(3) [OF c] lock_calls(7) [of operat] by (simp_all add: count_list_0_iff)
  moreover have "pr_code r = RESULT_SUCESS \<longrightarrow> r = fst (send_pay (we_module env) paysys p1)"
    using s by (auto simp: r_def result_codes)
  ultimately show ?thesis unfolding a using convert_acts(1,2) [OF c]
    by (intro exI [of _ r] exI [of _ "conv @ [Lock_read Pay_lock, Init_pay] @ give_locks operat @ [Send_pay, Clean_up, Unlock_read Pay_lock]"])
      (auto simp: balanced_def give_take)
qed

lemma work_validated_acts:
  assumes "work_validated rx env paysys operat warnings validated pay = (acts, q)"
  shows "\<exists>r xs. acts = xs @ [Set_state r] \<and> states_set xs = [] \<and> held_writes l acts = 0
     \<and> held_reads l acts = (if keeps_locks rx paysys operat warnings validated pay then 0 else - held_reads l (take_locks operat))
     \<and> count_list acts Send_pay \<le> 1"
proof (cases "sp_test pay \<notin> {OK_TEST, NOK_TEST, FORMAT_TEST} \<and> \<not> (sp_test pay = FULL_TEST \<and> \<not> mo_check_support paysys)
     \<and> format_ok rx operat pay \<and> \<not> (warnings \<and> pr_code validated = RESULT_SAVE_STATE)")
  case True
  then have "perform_pay env paysys operat validated pay = (acts, q)" "\<not> keeps_locks rx paysys operat warnings validated pay"
    using assms by (auto simp: work_validated_def keeps_locks_def)
  from perform_pay_acts [OF this(1), of l] this(2) show ?thesis by force
next
  case False
  have "count_list (give_locks operat) Send_pay = 0" using lock_calls(7) [of operat] by (simp add: count_list_0_iff)
  moreover have "(acts = [Set_state validated] \<and> keeps_locks rx paysys operat warnings validated pay)
     \<or> (\<exists>r. acts = give_locks operat @ [Set_state r] \<and> \<not> keeps_locks rx paysys operat warnings validated pay)"
    using False assms by (auto simp: work_validated_def keeps_locks_def test_kinds split: if_splits)
  ultimately show ?thesis by (auto simp: give_take)
qed

text \<open>
  C6: whatever the validator, the module and the operator answer, the work on a payment reports exactly one state,
  as its last step, and calls the module at most once. All locks are given back, except on one path: a warning
  of the validator the operator wants to count leaves the module and the operator locked for good.
\<close>

theorem work_reports_once:
  assumes "work_on_pay rx env paysys operat validator pay = (acts, q)"
    and "validate env (validator_runs operat validator) pay = (validated, pay1, vacts)"
  shows "(\<exists>r xs. acts = xs @ [Set_state r] \<and> states_set xs = []) \<and> count_list acts Send_pay \<le> 1
     \<and> (balanced acts \<longleftrightarrow> \<not> keeps_locks rx paysys operat (warnings_count operat validator) validated pay1)"
proof -
  let ?keeps = "keeps_locks rx paysys operat (warnings_count operat validator) validated pay1"
  define rest where "rest = (if pr_code validated = RESULT_TEST then (give_locks operat @ [Set_state validated], pay1)
            else if pr_code validated = RESULT_SUCESS \<or> pr_code validated = RESULT_SAVE_STATE
            then work_validated rx env paysys operat (warnings_count operat validator) validated pay1
            else (give_locks operat @ [Set_state validated], pay1))"
  have acts: "acts = take_locks operat @ vacts @ fst rest"
    using assms(1) unfolding work_on_pay_def assms(2) prod.case rest_def [symmetric] by (auto split: prod.splits)
  note v = validate_acts [OF assms(2)]
  have zero: "count_list (take_locks operat) Send_pay = 0" "count_list (give_locks operat) Send_pay = 0" "count_list vacts Send_pay = 0"
    using lock_calls(6,7) [of operat] v(3) by (simp_all add: count_list_0_iff)
  have r: "\<exists>r xs. fst rest = xs @ [Set_state r] \<and> states_set xs = [] \<and> held_writes l (fst rest) = 0
     \<and> held_reads l (fst rest) = (if ?keeps then 0 else - held_reads l (take_locks operat)) \<and> count_list (fst rest) Send_pay \<le> 1" for l
  proof (cases "pr_code validated = RESULT_SUCESS \<or> pr_code validated = RESULT_SAVE_STATE")
    case True
    then have "work_validated rx env paysys operat (warnings_count operat validator) validated pay1 = (fst rest, snd rest)"
      by (auto simp: rest_def result_codes)
    from work_validated_acts [OF this, of l] show ?thesis .
  next
    case False
    then have "fst rest = give_locks operat @ [Set_state validated]" "\<not> ?keeps" by (auto simp: rest_def keeps_locks_def)
    then show ?thesis using zero by (auto simp: give_take)
  qed
  obtain r xs where x: "fst rest = xs @ [Set_state r]" "states_set xs = []" "count_list (fst rest) Send_pay \<le> 1" using r by blast
  have "balanced acts \<longleftrightarrow> \<not> ?keeps"
  proof -
    have h: "held_reads l acts = (if ?keeps then held_reads l (take_locks operat) else 0)" "held_writes l acts = 0" for l
      using r [of l] v(2) by (auto simp: acts balanced_def)
    have "held_reads Paysys_lock (take_locks operat) = 1" by (simp add: take_locks_def)
    then show ?thesis using h by (auto simp: balanced_def)
  qed
  moreover have "acts = (take_locks operat @ vacts @ xs) @ [Set_state r]" "states_set (take_locks operat @ vacts @ xs) = []"
    using x v(1) by (simp_all add: acts)
  moreover have "count_list acts Send_pay \<le> 1" using x(3) zero by (simp add: acts)
  ultimately show ?thesis by blast
qed

text \<open>
  C5: the money is safe, whatever the validator and the module answer and whatever they do to the payment: unless the payment, as the
  validator leaves it, is a test that the server answers itself, the state of success is reported only after the module was called, is
  not broken and answered success itself, on data that have the operator's format; and such a test never calls the module.
\<close>

theorem success_means_performed:
  assumes "work_on_pay rx env paysys operat validator pay = (acts, q)"
    and "pay1 = (if validator_runs operat validator then snd (we_validator env pay) else pay)"
  shows "(sp_test pay1 \<notin> {OK_TEST, NOK_TEST, FORMAT_TEST} \<and> Set_state r \<in> set acts \<and> pr_code r = RESULT_SUCESS \<longrightarrow>
        Send_pay \<in> set acts \<and> mo_broken paysys = 0 \<and> (\<exists>p. r = fst (we_module env paysys p)) \<and> format_ok rx operat pay1)
     \<and> (sp_test pay1 \<in> {OK_TEST, NOK_TEST, FORMAT_TEST} \<longrightarrow> Send_pay \<notin> set acts)"
proof -
  obtain validated p1 vacts where v0: "validate env (validator_runs operat validator) pay = (validated, p1, vacts)"
    by (cases "validate env (validator_runs operat validator) pay") auto
  then have "p1 = pay1" using validate_acts(4) [OF v0] assms(2) by simp
  then have v: "validate env (validator_runs operat validator) pay = (validated, pay1, vacts)" using v0 by simp
  note V = validate_acts [OF v]
  let ?w = "warnings_count operat validator"
  obtain rest where acts: "acts = take_locks operat @ vacts @ rest"
    and cases: "rest = give_locks operat @ [Set_state validated] \<and> pr_code validated \<noteq> RESULT_SUCESS
        \<or> work_validated rx env paysys operat ?w validated pay1 = (rest, q)"
    using assms(1) v by (auto simp: work_on_pay_def result_codes split: if_splits prod.splits)
  have in_rest: "Set_state r \<in> set rest" if "Set_state r \<in> set acts"
  proof -
    have "Set_state r \<notin> set (take_locks operat)" by (auto simp: take_locks_def split: if_splits)
    moreover have "Set_state r \<notin> set vacts" using V(1) by (auto simp: states_set_def)
    ultimately show ?thesis using that by (auto simp: acts)
  qed
  have no_send: "Send_pay \<in> set acts \<longleftrightarrow> Send_pay \<in> set rest"
    using V(3) lock_calls(6) [of operat] by (simp add: acts)
  have first: "Send_pay \<in> set acts \<and> mo_broken paysys = 0 \<and> (\<exists>p. r = fst (we_module env paysys p)) \<and> format_ok rx operat pay1"
    if "sp_test pay1 \<notin> {OK_TEST, NOK_TEST, FORMAT_TEST}" "Set_state r \<in> set acts" "pr_code r = RESULT_SUCESS"
  proof -
    have r: "Set_state r \<in> set rest" by (rule in_rest [OF that(2)])
    have "rest \<noteq> give_locks operat @ [Set_state validated] \<or> pr_code validated = RESULT_SUCESS"
      using r that(3) by (auto simp: give_locks_def)
    then have w: "work_validated rx env paysys operat ?w validated pay1 = (rest, q)" using cases by blast
    then have p: "format_ok rx operat pay1 \<and> perform_pay env paysys operat validated pay1 = (rest, q)"
      using r that(1,3)
      by (auto simp: work_validated_def test_kinds pay_result_def result_codes give_locks_def split: if_splits)
    obtain r' xs where x: "rest = xs @ [Set_state r']" "states_set xs = []" "count_list rest Send_pay = 1"
        "pr_code r' = RESULT_SUCESS \<longrightarrow> (\<exists>p. r' = fst (send_pay (we_module env) paysys p))"
      using perform_pay_acts [of env paysys operat validated pay1 rest q] p by blast
    have "r = r'" using r x(1,2) by (auto simp: states_set_def)
    have rs: "pr_code r = RESULT_SUCESS" by (rule that(3))
    obtain p where rp: "r = fst (send_pay (we_module env) paysys p)" using x(4) rs \<open>r = r'\<close> by blast
    have b: "mo_broken paysys = 0"
      using rp that(3) by (auto simp: send_pay_def result_failed_def result_codes split: if_splits)
    have "Send_pay \<in> set rest" using x(3) by (metis count_list_0_iff zero_neq_one)
    then show ?thesis using no_send p b rp by (auto simp: send_pay_def)
  qed
  have "Send_pay \<notin> set rest" if "sp_test pay1 \<in> {OK_TEST, NOK_TEST, FORMAT_TEST}"
    using cases that by (auto simp: work_validated_def give_locks_def split: if_splits)
  then show ?thesis using first no_send by auto
qed

section \<open>Examples\<close>

text \<open>A validator and a module that always give the same answer and leave the payment as it is.\<close>

definition answering :: "int \<Rightarrow> int \<Rightarrow> worker_env" where
  "answering validator module_code =
     \<lparr>we_validator = (\<lambda>p. (pay_result validator 0 None None, p)), we_module = (\<lambda>m p. (pay_result module_code 0 None None, p)),
      we_convert = (\<lambda>d s. (1, []))\<rparr>"

lemma some_pay_conv [simp]: "sv_conv_sub some_pay = None"
  by (simp add: some_pay_def spay.defs)

lemmas work_eval = work_on_pay_def validate_def validator_runs_def warnings_count_def operator_setting_def work_validated_def
  perform_pay_def convert_data_def take_locks_def give_locks_def format_ok_def send_pay_def answering_def pay_result_def
  result_codes test_kinds pay_module_new_def

lemma work_without_operator:
  "work_on_pay rx (answering 0 0) pay_module_new (None :: 'p server_operator option) True some_pay =
    ([Lock_read Paysys_lock, Lock_read Validator_lock, Lock_write Pay_lock, Validate, Unlock_read Validator_lock, Unlock_write Pay_lock,
      Lock_read Pay_lock, Init_pay, Unlock_read Paysys_lock, Send_pay, Clean_up, Unlock_read Pay_lock, Set_state (pay_result 0 0 None None)],
     some_pay)"
  by (simp add: work_eval)

theorem work_reports_once_witness:
  "\<forall>rx. count_list (fst (work_on_pay rx (answering 0 0) pay_module_new (None :: unit server_operator option) True some_pay)) Send_pay \<le> 1
   \<and> balanced (fst (work_on_pay rx (answering 0 0) pay_module_new (None :: unit server_operator option) True some_pay))"
proof
  fix rx
  have "validate (answering 0 0) (validator_runs (None :: unit server_operator option) True) some_pay = (pay_result 0 0 None None, some_pay,
     [Lock_read Validator_lock, Lock_write Pay_lock, Validate, Unlock_read Validator_lock, Unlock_write Pay_lock])"
    by (simp add: work_eval)
  from work_reports_once [OF work_without_operator this, of rx]
  show "count_list (fst (work_on_pay rx (answering 0 0) pay_module_new (None :: unit server_operator option) True some_pay)) Send_pay \<le> 1
   \<and> balanced (fst (work_on_pay rx (answering 0 0) pay_module_new (None :: unit server_operator option) True some_pay))"
    unfolding work_without_operator by (simp add: keeps_locks_def pay_result_def result_codes)
qed

theorem success_means_performed_witness:
  "\<forall>rx. Send_pay \<in> set (fst (work_on_pay rx (answering 0 0) pay_module_new (None :: unit server_operator option) True some_pay))
   \<and> mo_broken pay_module_new = 0"
proof
  fix rx
  have "some_pay = (if validator_runs (None :: unit server_operator option) True then snd (we_validator (answering 0 0) some_pay) else some_pay)"
    by (simp add: answering_def)
  from success_means_performed [OF work_without_operator this, of "pay_result 0 0 None None" rx]
  show "Send_pay \<in> set (fst (work_on_pay rx (answering 0 0) pay_module_new (None :: unit server_operator option) True some_pay))
   \<and> mo_broken pay_module_new = 0"
    unfolding work_without_operator by (simp add: test_kinds pay_result_def result_codes pay_module_new_def)
qed

text \<open>The path that keeps the locks: a warning of the validator, and an operator with \<open>validator_ignore_warnings = off\<close>.\<close>

lemma warning_keeps_locks:
  "let p = (server_operator_new :: 'p server_operator)\<lparr>op_config :=
         Some [\<lparr>ce_section = None, ce_param = ''validator_ignore_warnings'', ce_value = ''off''\<rparr>]\<rparr>;
       acts = fst (work_on_pay rx (answering RESULT_SAVE_STATE 0) pay_module_new (Some p) True some_pay)
   in held_reads Paysys_lock acts = 1 \<and> held_reads Operator_lock acts = 1"
  by (simp add: work_eval server_operator_new_def element_matches_def valid_data_def)

end
