(* ===== verification/Server_Db.thy ===== *)
theory Server_Db
  imports Server_Worker
begin

text \<open>
  The payments of the payment server in its database (\<open>legacy/payguide/src/db.cpp\<close>): payments are selected in
  blocks, handed out one by one (\<open>DBGetNextPay\<close>), and their result is written back (\<open>DBSetState\<close>); a lost
  connection is restored (\<open>DBFixConnection\<close>). A list of records remembers which payments are in progress; a
  record is an object of its own, and an access to one that was freed has no value. The client library and the
  rows it returns are parameters. An operation is given here as it runs with its semaphores; what it waits for, and in which
  order, is in \<open>Server_Db_Locks\<close>.
\<close>

section \<open>State\<close>

definition RESULT_CANCELED :: int where "RESULT_CANCELED = 60"
definition RESULT_KILLED :: int where "RESULT_KILLED = 70"
definition RESULT_NO_PAY_SYS :: int where "RESULT_NO_PAY_SYS = 99"
definition RESULT_31 :: int where "RESULT_31 = 31"
definition RESULT_101 :: int where "RESULT_101 = 101"
definition RESULT_106 :: int where "RESULT_106 = 106"
definition RESULT_109 :: int where "RESULT_109 = 109"
definition RESULT_DO_NOTHING :: int where "RESULT_DO_NOTHING = 1000"
definition RESULT_ERROR_UNKNOWN :: int where "RESULT_ERROR_UNKNOWN = 1000"
definition DB_CONNECTION_FIXED :: int where "DB_CONNECTION_FIXED = - 666"

lemmas state_codes = result_codes RESULT_CANCELED_def RESULT_KILLED_def RESULT_NO_PAY_SYS_def RESULT_31_def RESULT_101_def
  RESULT_106_def RESULT_109_def RESULT_DO_NOTHING_def RESULT_ERROR_UNKNOWN_def DB_CONNECTION_FIXED_def

record pay_record =
  pc_id :: int
  pc_account_id :: int
  pc_provider_id :: int
  pc_state :: int

record 'w pay_db =
  pd_world :: 'w
  pd_down :: bool
  pd_any_results :: bool
  pd_accept :: bool
  pd_active :: "nat seq"
  pd_records :: "nat \<rightharpoonup> pay_record"
  pd_free :: nat
  pd_cash :: "server_pay seq"
  pd_select :: string
  pd_conditions :: string
  pd_host :: string
  pd_user :: string
  pd_password :: string
  pd_name :: string
  pd_attempts :: int
  pd_time :: int

text \<open>The library: three connections, the rows of the last statement, waiting, and \<open>atof\<close>.\<close>

record 'w db_link =
  dl_read :: "'w sql_ops"
  dl_write :: "'w sql_ops"
  dl_check :: "'w sql_ops"
  dl_codes :: sql_codes
  dl_rows :: "'w \<Rightarrow> string option list list option"
  dl_check_rows :: "'w \<Rightarrow> string option list list option"
  dl_sleep :: "int \<Rightarrow> 'w \<Rightarrow> 'w"
  dl_atof :: "string \<Rightarrow> c_float"

definition db_query :: "('w db_link \<Rightarrow> 'w sql_ops) \<Rightarrow> 'w db_link \<Rightarrow> string \<Rightarrow> 'w pay_db \<Rightarrow> int \<times> 'w pay_db" where
  "db_query conn ln q st =
     (case my_simple_db_query (conn ln) (dl_codes ln) True (Some q) (pd_world st) of (r, w) \<Rightarrow> (r, st\<lparr>pd_world := w\<rparr>))"

section \<open>Connections\<close>

definition db_connect :: "('w db_link \<Rightarrow> 'w sql_ops) \<Rightarrow> 'w db_link \<Rightarrow> 'w pay_db \<Rightarrow> bool \<times> 'w pay_db" where
  "db_connect conn ln st =
     (case sq_connect (conn ln) (pd_host st) (pd_user st) (pd_password st) (pd_name st) (pd_world st) of
        (ok, w) \<Rightarrow> (ok, st\<lparr>pd_world := w\<rparr>))"

definition db_connection_up :: "'w db_link \<Rightarrow> 'w pay_db \<Rightarrow> int \<times> 'w pay_db" where
  "db_connection_up ln st =
     (let st0 = st\<lparr>pd_world := sq_init (dl_check ln) (sq_init (dl_write ln) (sq_init (dl_read ln) (pd_world st)))\<rparr> in
      case db_connect dl_read ln st0 of (ok1, st1) \<Rightarrow>
      case db_connect dl_write ln st1 of (ok2, st2) \<Rightarrow>
      case db_connect dl_check ln st2 of (ok3, st3) \<Rightarrow>
        if \<not> (ok1 \<and> ok2 \<and> ok3) then (2, st3)
        else case db_query dl_write ln ''set names koi8r'' st3 of (_, st4) \<Rightarrow>
             case db_query dl_read ln ''set names koi8r'' st4 of (_, st5) \<Rightarrow>
             case db_query dl_check ln ''set names koi8r'' st5 of (_, st6) \<Rightarrow> (0, st6\<lparr>pd_down := False\<rparr>))"

definition db_connection_down :: "'w db_link \<Rightarrow> 'w pay_db \<Rightarrow> 'w pay_db" where
  "db_connection_down ln st =
     st\<lparr>pd_world := sq_close (dl_check ln) (sq_close (dl_read ln) (sq_close (dl_write ln) (pd_world st)))\<rparr>"

text \<open>The loop of \<open>DBFixConnection\<close>; with a negative number of attempts it does not end by itself, so it has fuel.\<close>

fun fix_loop :: "'w db_link \<Rightarrow> nat \<Rightarrow> int \<Rightarrow> int \<Rightarrow> 'w pay_db \<Rightarrow> (int \<times> 'w pay_db) option" where
  "fix_loop ln 0 made r st = None"
| "fix_loop ln (Suc n) made r st =
     (if r \<noteq> 0 \<and> (made < pd_attempts st \<or> pd_attempts st < 0) then
        (case db_connection_up ln (db_connection_down ln (st\<lparr>pd_world := dl_sleep ln (pd_time st) (pd_world st)\<rparr>)) of
           (r1, st1) \<Rightarrow> fix_loop ln n (if pd_attempts st < 0 then made else made + 1) r1 st1)
      else Some (r, st))"

definition db_fix_connection :: "'w db_link \<Rightarrow> nat \<Rightarrow> int \<Rightarrow> 'w pay_db \<Rightarrow> (int \<times> 'w pay_db) option" where
  "db_fix_connection ln n err st =
     (if err = 0 then Some (0, st)
      else if err = cr_server_gone_error (dl_codes ln) \<or> (err = cr_server_lost (dl_codes ln) \<and> \<not> pd_down st) then
        (case db_connection_up ln (db_connection_down ln st) of (r, st1) \<Rightarrow>
           map_option (\<lambda>(r2, st2). if r2 = 0 then (DB_CONNECTION_FIXED, st2)
              else (1, (db_connection_down ln st2)\<lparr>pd_down := True\<rparr>)) (fix_loop ln n 1 r st1))
      else Some (1, st))"

text \<open>\<open>DBInit\<close>: new lists only when there are none (\<open>fresh\<close>).\<close>

definition db_init :: "'w db_link \<Rightarrow> bool \<Rightarrow> string \<Rightarrow> string \<Rightarrow> string \<Rightarrow> string \<Rightarrow> 'w pay_db \<Rightarrow> int \<times> 'w pay_db" where
  "db_init ln fresh host name user password st =
     (let st1 = st\<lparr>pd_host := host, pd_name := name, pd_user := user, pd_password := password, pd_down := True\<rparr>;
          st2 = (if fresh then st1\<lparr>pd_active := \<lparr>sq_items = [], sq_pos = 0, sq_gone = []\<rparr>,
                   pd_cash := \<lparr>sq_items = [], sq_pos = 0, sq_gone = []\<rparr>\<rparr> else st1)
      in db_connection_up ln st2)"

definition db_shutdown :: "'w db_link \<Rightarrow> 'w pay_db \<Rightarrow> 'w pay_db" where
  "db_shutdown ln st = (db_connection_down ln st)\<lparr>pd_active := \<lparr>sq_items = [], sq_pos = 0, sq_gone = []\<rparr>,
     pd_cash := \<lparr>sq_items = [], sq_pos = 0, sq_gone = []\<rparr>, pd_records := Map.empty\<rparr>"

definition db_set_reconnect_attempts :: "int \<Rightarrow> 'w pay_db \<Rightarrow> 'w pay_db" where
  "db_set_reconnect_attempts v st = st\<lparr>pd_attempts := v\<rparr>"

definition db_set_reconnect_time :: "int \<Rightarrow> 'w pay_db \<Rightarrow> 'w pay_db" where
  "db_set_reconnect_time v st = st\<lparr>pd_time := (let v1 = (if v \<le> 0 then 1 else v) in if v1 > 300 then 300 else v1)\<rparr>"

definition set_db_connection_param :: "string \<Rightarrow> string \<Rightarrow> string \<Rightarrow> string \<Rightarrow> 'w pay_db \<Rightarrow> 'w pay_db" where
  "set_db_connection_param host name user password st =
     st\<lparr>pd_host := host, pd_name := name, pd_user := user, pd_password := password\<rparr>"

section \<open>Handing out payments\<close>

text \<open>Records of payments that are done leave the list; the cursor of the other list moves along.\<close>

fun clear_done :: "nat \<Rightarrow> 'w pay_db \<Rightarrow> 'w pay_db option" where
  "clear_done 0 st = Some st"
| "clear_done (Suc n) st =
     (case seq_next (pd_active st) of (e, act) \<Rightarrow> do {
        a \<leftarrow> e;
        r \<leftarrow> pd_records st a;
        let st1 = st\<lparr>pd_active := act, pd_cash := snd (seq_next (pd_cash st))\<rparr>;
        clear_done n (if pc_state r = 1
                      then st1\<lparr>pd_active := seq_remove_this act, pd_records := (pd_records st)(a := None)\<rparr> else st1)
      })"

text \<open>The search for the record of a payment.\<close>

definition find_active :: "int \<Rightarrow> 'w pay_db \<Rightarrow> (nat option \<times> 'w pay_db) option" where
  "find_active i st = do {
     (r, l, _) \<leftarrow> for_each (\<lambda>e l s. do { a \<leftarrow> e; p \<leftarrow> pd_records st a; Some (if pc_id p = i then Some a else None, l, s) })
       (pd_active st) ();
     Some (r, st\<lparr>pd_active := l\<rparr>)
   }"

text \<open>An \<open>int\<close> as a \<open>float\<close>, rounded to 24 bits.\<close>

fun bit_length :: "nat \<Rightarrow> nat" where
  "bit_length n = (if n = 0 then 0 else Suc (bit_length (n div 2)))"

declare bit_length.simps [simp del]

definition float_of_int :: "int \<Rightarrow> c_float" where
  "float_of_int i = (let m = nat \<bar>i\<bar>; k = bit_length m - 24 in Finite (i < 0) (round_half_even m (2 ^ k)) (int k))"

definition column :: "nat \<Rightarrow> string option list \<Rightarrow> string option option" where
  "column k row = (if k < length row then Some (row ! k) else None)"

definition number_at :: "(string \<Rightarrow> int) \<Rightarrow> string option \<Rightarrow> int" where
  "number_at conv c = (case c of None \<Rightarrow> 0 | Some s \<Rightarrow> conv s)"

definition amount_at :: "'w db_link \<Rightarrow> string option \<Rightarrow> c_float" where
  "amount_at ln c = (case c of None \<Rightarrow> Finite False 0 0 | Some s \<Rightarrow> dl_atof ln s)"

text \<open>A row becomes a record and a payment, unless the payment is in progress. The result counts new payments.\<close>

definition row_pay :: "'w db_link \<Rightarrow> int \<Rightarrow> string option list \<Rightarrow> (pay_record \<times> server_pay) option" where
  "row_pay ln i row = do {
     engine \<leftarrow> column 1 row; stamp \<leftarrow> column 2 row; data \<leftarrow> column 3 row; provider \<leftarrow> column 4 row;
     bill \<leftarrow> column 5 row; terminal \<leftarrow> column 6 row; account \<leftarrow> column 7 row; cur \<leftarrow> column 8 row;
     lo \<leftarrow> column 9 row; op \<leftarrow> column 10 row; real \<leftarrow> column 11 row; back \<leftarrow> column 12 row; amount \<leftarrow> column 13 row;
     let pay = compile_new_pay i (number_at atoi engine) (number_at atoi provider) stamp data bill
       (number_at strtol10 terminal) (number_at atoi cur) (float_of_int (number_at atoi lo)) (float_of_int (number_at atoi op))
       (amount_at ln real) (amount_at ln back) (amount_at ln amount);
     Some (\<lparr>pc_id = i, pc_account_id = number_at strtol10 account, pc_provider_id = number_at atoi provider, pc_state = 0\<rparr>,
           spay.extend pay \<lparr>sv_conv_sub = None\<rparr>)
   }"

definition add_pay :: "pay_record \<Rightarrow> server_pay \<Rightarrow> 'w pay_db \<Rightarrow> 'w pay_db" where
  "add_pay r p st = st\<lparr>pd_active := seq_add (Some (pd_free st)) (pd_active st), pd_records := (pd_records st)(pd_free st \<mapsto> r),
     pd_free := pd_free st + 1, pd_cash := seq_add (Some p) (pd_cash st)\<rparr>"

definition add_row :: "'w db_link \<Rightarrow> string option list \<Rightarrow> nat \<times> 'w pay_db \<Rightarrow> (nat \<times> 'w pay_db) option" where
  "add_row ln row = (\<lambda>(num, st). do {
     c0 \<leftarrow> column 0 row;
     text0 \<leftarrow> c0;
     (found, st1) \<leftarrow> find_active (strtol10 text0) st;
     if found \<noteq> None then Some (num, st1)
     else map_option (\<lambda>(r, p). (Suc num, add_pay r p st1)) (row_pay ln (strtol10 text0) row)
   })"

fun add_rows :: "'w db_link \<Rightarrow> string option list list \<Rightarrow> nat \<times> 'w pay_db \<Rightarrow> (nat \<times> 'w pay_db) option" where
  "add_rows ln [] s = Some s"
| "add_rows ln (row # rows) s = Option.bind (add_row ln row s) (add_rows ln rows)"

definition pay_select :: "'w pay_db \<Rightarrow> string" where
  "pay_select st = snprintf_into 1024 (pd_select st @ '' '' @ pd_conditions st @ ''order by rr limit 150'')"

text \<open>The first half of \<open>DBGetNextPay\<close>: a new block of payments.\<close>

definition fetch_pays :: "'w db_link \<Rightarrow> nat \<Rightarrow> string \<Rightarrow> 'w pay_db \<Rightarrow> 'w pay_db option" where
  "fetch_pays ln n q st = do {
     st1 \<leftarrow> clear_done (length (sq_items (pd_active st))) (st\<lparr>pd_active := seq_reset (pd_active st)\<rparr>);
     (case db_query dl_read ln q st1 of (err, st2) \<Rightarrow>
        if err \<noteq> 0 then
          (let e = sq_errno (dl_read ln) (pd_world st2); st3 = st2\<lparr>pd_any_results := False\<rparr> in
           if e \<noteq> 0 then map_option snd (db_fix_connection ln n e st3) else Some st3)
        else
          (case dl_rows ln (pd_world st2) of
             None \<Rightarrow> Some st2
           | Some rows \<Rightarrow> map_option (\<lambda>(num, st3). if num \<noteq> 0 then st3\<lparr>pd_any_results := True\<rparr> else st3)
               (add_rows ln rows (0, st2))))
   }"

text \<open>The entry of the payment in \<open>check_reqs\<close>.\<close>

definition check_select :: "server_pay \<Rightarrow> string" where
  "check_select pay = snprintf_into 1024 (''select pay_id from check_reqs where tid='' @ show_int (sp_terminal_id pay)
     @ '' and bill_num='' @ [CHR 0x27] @ sp_bill_num pay @ [CHR 0x27] @ '' limit 1'')"

definition check_update :: "server_pay \<Rightarrow> string" where
  "check_update pay = snprintf_into 1024 (''update check_reqs set pay_id='' @ show_int (sp_id pay) @ '' where tid=''
     @ show_int (sp_terminal_id pay) @ '' and bill_num='' @ [CHR 0x27] @ sp_bill_num pay @ [CHR 0x27]
     @ '' and pay_id is NULL limit 1'')"

definition check_reqs :: "'w db_link \<Rightarrow> server_pay \<Rightarrow> 'w pay_db \<Rightarrow> (server_pay \<times> 'w pay_db) option" where
  "check_reqs ln pay st =
     (case db_query dl_check ln (check_select pay) st of (_, st1) \<Rightarrow>
        (case dl_check_rows ln (pd_world st1) of
           Some (row # _) \<Rightarrow> do {
             c \<leftarrow> column 0 row;
             let pay1 = pay\<lparr>sp_exists_int_checkreqs := 1\<rparr>;
             Some (pay1, if c = None then snd (db_query dl_check ln (check_update pay1) st1) else st1)
           }
         | _ \<Rightarrow> Some (pay, st1)))"

text \<open>The second half: the first payment of the block.\<close>

definition hand_out :: "'w db_link \<Rightarrow> 'w pay_db \<Rightarrow> (server_pay option \<times> 'w pay_db) option" where
  "hand_out ln st =
     (case seq_next (seq_reset (pd_cash st)) of
        (None, cash) \<Rightarrow> Some (None, st\<lparr>pd_cash := cash, pd_any_results := False\<rparr>)
      | (Some tmp, cash) \<Rightarrow> do {
          (pay, st1) \<leftarrow> check_reqs ln tmp (st\<lparr>pd_cash := cash\<rparr>);
          let cash1 = seq_remove_this cash;
          Some (Some pay, st1\<lparr>pd_cash := cash1, pd_any_results := (sq_items cash1 \<noteq> [])\<rparr>)
        })"

definition db_get_next_pay :: "'w db_link \<Rightarrow> nat \<Rightarrow> 'w pay_db \<Rightarrow> (server_pay option \<times> 'w pay_db) option" where
  "db_get_next_pay ln n st = do {
     st1 \<leftarrow> (if \<not> pd_any_results st \<and> \<not> pd_down st \<and> pd_accept st then fetch_pays ln n (pay_select st) st else Some st);
     if pd_any_results st1 then hand_out ln st1 else Some (None, st1)
   }"

section \<open>Writing results\<close>

text \<open>The notes of the log, in KOI8-R.\<close>

definition unknown_error_note :: string where
  "unknown_error_note =
    [CHR 0xF0, CHR 0xD2, CHR 0xCF, CHR 0xC9, CHR 0xDA, CHR 0xCF, CHR 0xDB, CHR 0xCC, CHR 0xC1, CHR 0x20, CHR 0xCE, CHR 0xC5, CHR 0xC9, CHR 0xDA,
     CHR 0xD7, CHR 0xC5, CHR 0xD3, CHR 0xD4, CHR 0xCE, CHR 0xC1, CHR 0xD1, CHR 0x20, CHR 0xCF, CHR 0xDB, CHR 0xC9, CHR 0xC2, CHR 0xCB, CHR 0xC1,
     CHR 0x2E]"

definition killed_note :: string where
  "killed_note =
    [CHR 0xF0, CHR 0xCC, CHR 0xC1, CHR 0xD4, CHR 0xC5, CHR 0xD6, CHR 0x20, CHR 0xC2, CHR 0xD9, CHR 0xCC, CHR 0x20, CHR 0xD5, CHR 0xC2, CHR 0xC9,
     CHR 0xD4]"

definition canceled_note :: string where
  "canceled_note =
    [CHR 0xF0, CHR 0xCC, CHR 0xC1, CHR 0xD4, CHR 0xC5, CHR 0xD6, CHR 0x20, CHR 0xC2, CHR 0xD9, CHR 0xCC, CHR 0x20, CHR 0xCF, CHR 0xD4, CHR 0xCD,
     CHR 0xC5, CHR 0xCE, CHR 0xC5, CHR 0xCE]"

definition no_paysys_note :: string where
  "no_paysys_note =
    [CHR 0xEE, CHR 0xC5, CHR 0xD0, CHR 0xD2, CHR 0xC1, CHR 0xD7, CHR 0xC9, CHR 0xCC, CHR 0xD8, CHR 0xCE, CHR 0xD9, CHR 0xCA, CHR 0x20, CHR 0xCF,
     CHR 0xD0, CHR 0xC5, CHR 0xD2, CHR 0xC1, CHR 0xD4, CHR 0xCF, CHR 0xD2, CHR 0x2F, CHR 0xD0, CHR 0xCC, CHR 0xC1, CHR 0xD4, CHR 0xC5, CHR 0xD6,
     CHR 0xCE, CHR 0xC1, CHR 0xD1, CHR 0x20, CHR 0xD3, CHR 0xC9, CHR 0xD3, CHR 0xD4, CHR 0xC5, CHR 0xCD, CHR 0xC1]"

definition wrong_code_note :: string where
  "wrong_code_note =
    [CHR 0xED, CHR 0xCF, CHR 0xC4, CHR 0xD5, CHR 0xCC, CHR 0xD8, CHR 0x20, CHR 0xD7, CHR 0xC5, CHR 0xD2, CHR 0xCE, CHR 0xD5, CHR 0xCC, CHR 0x20,
     CHR 0xCE, CHR 0xC5, CHR 0xCF, CHR 0xD6, CHR 0xC9, CHR 0xC4, CHR 0xC1, CHR 0xCE, CHR 0xD9, CHR 0xCA, CHR 0x20, CHR 0xCB, CHR 0xCF, CHR 0xC4,
     CHR 0x20, CHR 0xCF, CHR 0xDB, CHR 0xC9, CHR 0xC2, CHR 0xCB, CHR 0xC9, CHR 0x2E]"

definition quoted :: "string \<Rightarrow> string" where
  "quoted s = [CHR 0x27] @ s @ [CHR 0x27]"

definition update_main :: "string \<Rightarrow> int \<Rightarrow> string" where
  "update_main what i = snprintf_into 1024 (''update pays_main set '' @ what @ '' where id='' @ show_int i)"

definition log_note :: "string \<Rightarrow> int \<Rightarrow> string \<Rightarrow> string \<Rightarrow> string" where
  "log_note how i sender note = snprintf_into 1024 (how @ '' into pays_logg(pay_id, stamp, user, note) values('' @ show_int i
     @ '', now(), '' @ quoted sender @ '', '' @ quoted note @ '')'')"

text \<open>The statement, the note, whether the note is written, and the code that is left in the result.\<close>

definition state_statements :: "int \<Rightarrow> spay_result \<Rightarrow> string \<times> string \<times> bool \<times> int" where
  "state_statements i res =
     (let code = pr_code res; note = (\<lambda>s. log_note ''insert delayed'' i (pr_sender_name res) s);
          logged = (pr_msg res \<noteq> []); message = note (pr_msg res); fatal = update_main ''gstatus=105, fatal=1'' i in
      if code = RESULT_SUCESS then (update_main ''gstatus=3000, fatal=0'' i, message, logged, code)
      else if code = RESULT_FAILED then (fatal, message, logged, code)
      else if code = RESULT_KILLED then (fatal, note killed_note, True, code)
      else if code = RESULT_31 then
        (update_main (''gstatus=31, fatal=0, sleep='' @ show_int (pr_sleep res)) i, message, True, code)
      else if code = RESULT_CANCELED then (fatal, note canceled_note, True, code)
      else if code = RESULT_NO_PAY_SYS then (fatal, log_note ''insert'' i (pr_sender_name res) no_paysys_note, True, code)
      else if code = RESULT_SAVE_STATE then (update_main (''sleep='' @ show_int (pr_sleep res)) i, message, logged, code)
      else if code = RESULT_101 then (update_main ''gstatus=101, fatal=1'' i, message, logged, code)
      else if code = RESULT_106 then (update_main ''gstatus=106, fatal=1'' i, message, logged, code)
      else if code = RESULT_109 then (update_main ''gstatus=109, fatal=1'' i, message, logged, code)
      else if code = RESULT_DO_NOTHING then (update_main ''gstatus=50'' i, note unknown_error_note, False, code)
      else (fatal, note wrong_code_note, True, RESULT_ERROR_UNKNOWN))"

definition ext_statement :: "int \<Rightarrow> string" where
  "ext_statement i = snprintf_into 1024
     (''insert into pays_ext(pay_id, utime, gstatus) values('' @ show_int i @ '', unix_timestamp(now()), 3000)'')"

text \<open>One statement after another, while there is no error.\<close>

definition query_if :: "bool \<Rightarrow> 'w db_link \<Rightarrow> string \<Rightarrow> int \<times> 'w pay_db \<Rightarrow> int \<times> 'w pay_db" where
  "query_if b ln q = (\<lambda>(err, st). if err = 0 \<and> b then db_query dl_write ln q st else (err, st))"

definition write_state ::
  "'w db_link \<Rightarrow> nat \<Rightarrow> int \<Rightarrow> spay_result \<Rightarrow> 'w pay_db \<Rightarrow> (int \<times> spay_result \<times> 'w pay_db) option" where
  "write_state ln n i res st =
     (case state_statements i res of (pay_query, log_msg, write_log, code) \<Rightarrow>
      case query_if (code = RESULT_SUCESS) ln (ext_statement i) (query_if write_log ln log_msg
             (query_if (\<not> (code = RESULT_SAVE_STATE \<and> pr_sleep res = 0) \<and> code \<noteq> RESULT_DO_NOTHING) ln pay_query (0, st))) of
        (err, st1) \<Rightarrow>
          if err \<noteq> 0 then map_option (\<lambda>(r, st2). (r, res\<lparr>pr_code := code\<rparr>, st2))
            (db_fix_connection ln n (sq_errno (dl_write ln) (pd_world st1)) st1)
          else Some (0, res\<lparr>pr_code := code\<rparr>, st1))"

definition mark_done :: "nat \<Rightarrow> 'w pay_db \<Rightarrow> 'w pay_db option" where
  "mark_done a st = map_option (\<lambda>r. st\<lparr>pd_records := (pd_records st)(a \<mapsto> r\<lparr>pc_state := 1\<rparr>)\<rparr>) (pd_records st a)"

text \<open>\<open>DBSetState\<close>: a payment of a test is reported to whoever asked for it; the rest calls itself after a lost connection.\<close>

fun db_set_state ::
  "'w db_link \<Rightarrow> (server_pay \<Rightarrow> spay_result \<Rightarrow> int) \<Rightarrow> nat \<Rightarrow> server_pay \<Rightarrow> spay_result \<Rightarrow> 'w pay_db
    \<Rightarrow> (int \<times> spay_result \<times> 'w pay_db) option" where
  "db_set_state ln tell 0 pay res st = None"
| "db_set_state ln tell (Suc n) pay res st =
     (if sp_test pay \<noteq> NO_TEST then Some (tell pay res, res, st)
      else if pd_down st then Some (- 10, res, st)
      else do {
        (found, st1) \<leftarrow> find_active (sp_id pay) st;
        (case found of
           None \<Rightarrow> Some (- 1, res, st1)
         | Some a \<Rightarrow> do {
             (err, res1, st2) \<leftarrow> write_state ln n (sp_id pay) res st1;
             (err2, res2, st3) \<leftarrow> (if err = DB_CONNECTION_FIXED then db_set_state ln tell n pay res1 st2 else Some (err, res1, st2));
             st4 \<leftarrow> mark_done a st3;
             Some (err2, res2, st4)
           })
      })"

end
