(* ===== verification/Server_Db_Laws.thy ===== *)
theory Server_Db_Laws
  imports Server_Db
begin

text \<open>
  What the database side of the payment server guarantees while threads work on payments: each step of
  a thread is one critical section of the code, in any order with the steps of the others.
\<close>

section \<open>Threads\<close>

text \<open>
  A thread has no payment, works on one, has found its record and writes the result (with the records of
  the calls of \<open>DBSetState\<close> it is in), or has written it and has records left to mark.
\<close>

datatype pay_phase = Idle | Working server_pay | Writing server_pay spay_result "nat list" | Marking "nat list"

fun hand :: "pay_phase \<Rightarrow> int option" where
  "hand (Working p) = Some (sp_id p)"
| "hand (Writing p r as) = Some (sp_id p)"
| "hand _ = None"

inductive pays_step ::
  "'w db_link \<Rightarrow> (nat \<Rightarrow> pay_phase) \<times> 'w pay_db \<Rightarrow> (nat \<Rightarrow> pay_phase) \<times> 'w pay_db \<Rightarrow> bool" for ln where
  next_some: "ts t = Idle \<Longrightarrow> db_get_next_pay ln n st = Some (Some p, st') \<Longrightarrow> pays_step ln (ts, st) (ts(t := Working p), st')"
| next_none: "db_get_next_pay ln n st = Some (None, st') \<Longrightarrow> pays_step ln (ts, st) (ts, st')"
| work: "ts t = Working p \<Longrightarrow> sp_id q = sp_id p \<Longrightarrow> sp_test q = sp_test p \<Longrightarrow> pays_step ln (ts, st) (ts(t := Working q), st)"
| report_down: "ts t = Working p \<Longrightarrow> pd_down st \<Longrightarrow> pays_step ln (ts, st) (ts(t := Idle), st)"
| report_lost: "ts t = Working p \<Longrightarrow> \<not> pd_down st \<Longrightarrow> find_active (sp_id p) st = Some (None, st')
    \<Longrightarrow> pays_step ln (ts, st) (ts(t := Idle), st')"
| report: "ts t = Working p \<Longrightarrow> \<not> pd_down st \<Longrightarrow> find_active (sp_id p) st = Some (Some a, st')
    \<Longrightarrow> pays_step ln (ts, st) (ts(t := Writing p res [a]), st')"
| wrote: "ts t = Writing p res as \<Longrightarrow> write_state ln n (sp_id p) res st = Some (err, res', st') \<Longrightarrow> err \<noteq> DB_CONNECTION_FIXED
    \<Longrightarrow> pays_step ln (ts, st) (ts(t := Marking as), st')"
| again_down: "ts t = Writing p res as \<Longrightarrow> write_state ln n (sp_id p) res st = Some (DB_CONNECTION_FIXED, res', st')
    \<Longrightarrow> pd_down st' \<Longrightarrow> pays_step ln (ts, st) (ts(t := Marking as), st')"
| again: "ts t = Writing p res as \<Longrightarrow> write_state ln n (sp_id p) res st = Some (DB_CONNECTION_FIXED, res', st')
    \<Longrightarrow> \<not> pd_down st' \<Longrightarrow> find_active (sp_id p) st' = Some (Some a, st'')
    \<Longrightarrow> pays_step ln (ts, st) (ts(t := Writing p res' (a # as)), st'')"
| mark: "ts t = Marking (a # as) \<Longrightarrow> mark_done a st = Some st' \<Longrightarrow> pays_step ln (ts, st) (ts(t := Marking as), st')"
| finish: "ts t = Marking [] \<Longrightarrow> pays_step ln (ts, st) (ts(t := Idle), st)"
| connection: "db_connection_up ln st = (r, st') \<Longrightarrow> pays_step ln (ts, st) (ts, st')"

inductive pays_reachable :: "'w db_link \<Rightarrow> (nat \<Rightarrow> pay_phase) \<times> 'w pay_db \<Rightarrow> bool" for ln where
  start: "pd_records st = Map.empty \<Longrightarrow> db_init ln True host name user password st = (r, st')
    \<Longrightarrow> pays_reachable ln (\<lambda>_. Idle, st')"
| step: "pays_reachable ln c \<Longrightarrow> pays_step ln c d \<Longrightarrow> pays_reachable ln d"

section \<open>What does not touch the payments\<close>

definition same_pays :: "'w pay_db \<Rightarrow> 'w pay_db \<Rightarrow> bool" where
  "same_pays st st' \<longleftrightarrow> pd_active st' = pd_active st \<and> pd_records st' = pd_records st \<and> pd_free st' = pd_free st
     \<and> pd_cash st' = pd_cash st \<and> pd_any_results st' = pd_any_results st \<and> pd_attempts st' = pd_attempts st"

lemma same_pays_refl [simp]: "same_pays st st"
  by (simp add: same_pays_def)

lemma same_pays_world [simp]:
  "same_pays st (st\<lparr>pd_world := w\<rparr>)" "same_pays st (st\<lparr>pd_down := b\<rparr>)" "same_pays st (db_connection_down ln st)"
  by (simp_all add: same_pays_def db_connection_down_def)

lemma same_pays_trans [trans]: "same_pays a b \<Longrightarrow> same_pays b c \<Longrightarrow> same_pays a c"
  by (simp add: same_pays_def)

lemma db_query_same: "db_query conn ln q st = (r, st') \<Longrightarrow> same_pays st st'"
  by (auto simp: db_query_def same_pays_def split: prod.splits)

lemma db_connect_same: "db_connect conn ln st = (r, st') \<Longrightarrow> same_pays st st'"
  by (auto simp: db_connect_def same_pays_def split: prod.splits)

lemma db_connection_up_same:
  assumes "db_connection_up ln st = (r, st')"
  shows "same_pays st st'"
proof -
  let ?st0 = "st\<lparr>pd_world := sq_init (dl_check ln) (sq_init (dl_write ln) (sq_init (dl_read ln) (pd_world st)))\<rparr>"
  obtain ok1 st1 where 1: "db_connect dl_read ln ?st0 = (ok1, st1)" by fastforce
  obtain ok2 st2 where 2: "db_connect dl_write ln st1 = (ok2, st2)" by fastforce
  obtain ok3 st3 where 3: "db_connect dl_check ln st2 = (ok3, st3)" by fastforce
  obtain r4 st4 where 4: "db_query dl_write ln ''set names koi8r'' st3 = (r4, st4)" by fastforce
  obtain r5 st5 where 5: "db_query dl_read ln ''set names koi8r'' st4 = (r5, st5)" by fastforce
  obtain r6 st6 where 6: "db_query dl_check ln ''set names koi8r'' st5 = (r6, st6)" by fastforce
  have "same_pays st st3"
    using same_pays_trans [OF same_pays_trans [OF same_pays_trans [OF same_pays_world(1) [of st] db_connect_same [OF 1]]
      db_connect_same [OF 2]] db_connect_same [OF 3]] .
  moreover have "same_pays st3 st6"
    using same_pays_trans [OF same_pays_trans [OF db_query_same [OF 4] db_query_same [OF 5]] db_query_same [OF 6]] .
  ultimately show ?thesis
    using assms 1 2 3 4 5 6 same_pays_trans [of st st3 st6]
    by (auto simp: db_connection_up_def same_pays_def split: if_splits)
qed

lemma fix_loop_same: "fix_loop ln n made r st = Some (r', st') \<Longrightarrow> same_pays st st'"
proof (induction ln n made r st rule: fix_loop.induct)
  case (2 ln n made r st)
  show ?case
  proof (cases "r \<noteq> 0 \<and> (made < pd_attempts st \<or> pd_attempts st < 0)")
    case True
    let ?d = "db_connection_down ln (st\<lparr>pd_world := dl_sleep ln (pd_time st) (pd_world st)\<rparr>)"
    obtain r1 st1 where u: "db_connection_up ln ?d = (r1, st1)" by fastforce
    have "same_pays st ?d" by (simp add: same_pays_def db_connection_down_def)
    then show ?thesis using 2 True u db_connection_up_same [OF u] by (auto intro: same_pays_trans)
  qed (use 2 in auto)
qed simp

lemma db_fix_connection_same:
  assumes "db_fix_connection ln n err st = Some (r, st')"
  shows "same_pays st st'"
proof (cases "db_connection_up ln (db_connection_down ln st)")
  case (Pair r1 st1)
  have 1: "same_pays st st1" using same_pays_trans [OF same_pays_world(3) db_connection_up_same [OF Pair]] .
  show ?thesis using assms Pair 1
    by (auto simp: db_fix_connection_def split: if_splits dest!: fix_loop_same)
      (auto simp: same_pays_def db_connection_down_def)
qed

lemma query_if_same: "query_if b ln q (e, st) = (r, st') \<Longrightarrow> same_pays st st'"
  by (auto simp: query_if_def split: if_splits dest: db_query_same)

lemma write_state_same:
  assumes "write_state ln n i res st = Some (err, res', st')"
  shows "same_pays st st'"
proof -
  obtain q l b code where s: "state_statements i res = (q, l, b, code)" by (cases "state_statements i res") auto
  obtain e1 st1 where 1: "query_if (\<not> (code = RESULT_SAVE_STATE \<and> pr_sleep res = 0) \<and> code \<noteq> RESULT_DO_NOTHING) ln q (0, st) = (e1, st1)"
    by fastforce
  obtain e2 st2 where 2: "query_if b ln l (e1, st1) = (e2, st2)" by fastforce
  obtain e3 st3 where 3: "query_if (code = RESULT_SUCESS) ln (ext_statement i) (e2, st2) = (e3, st3)" by fastforce
  have "same_pays st st3"
    using same_pays_trans [OF same_pays_trans [OF query_if_same [OF 1] query_if_same [OF 2]] query_if_same [OF 3]] .
  then show ?thesis using assms unfolding write_state_def s prod.case 1 2 3
    by (auto split: if_splits dest!: db_fix_connection_same intro: same_pays_trans)
qed

section \<open>The records\<close>

definition list_ok :: "'w pay_db \<Rightarrow> nat list \<Rightarrow> bool" where
  "list_ok st as \<longleftrightarrow> sq_items (pd_active st) = map Some as \<and> distinct as \<and> set as = dom (pd_records st)
     \<and> (\<forall>a\<in>set as. a < pd_free st)
     \<and> (\<forall>a b r q. pd_records st a = Some r \<and> pd_records st b = Some q \<and> pc_id r = pc_id q \<longrightarrow> a = b)"

definition in_progress :: "'w pay_db \<Rightarrow> int \<Rightarrow> bool" where
  "in_progress st i \<longleftrightarrow> (\<exists>a r. pd_records st a = Some r \<and> pc_id r = i \<and> pc_state r = 0)"

lemma list_ok_same: "same_pays st st' \<Longrightarrow> list_ok st' as = list_ok st as"
  by (simp add: list_ok_def same_pays_def)

lemma list_ok_records: "list_ok st as \<Longrightarrow> a \<in> set as \<Longrightarrow> \<exists>r. pd_records st a = Some r"
  by (auto simp: list_ok_def)

lemma find_active_ok:
  assumes "list_ok st as"
  shows "\<exists>l. find_active i st = Some (find (\<lambda>a. map_option pc_id (pd_records st a) = Some i) as, st\<lparr>pd_active := l\<rparr>)
     \<and> sq_items l = sq_items (pd_active st) \<and> sq_gone l = sq_gone (pd_active st)"
proof -
  let ?P = "\<lambda>e. \<exists>a. e = Some a \<and> map_option pc_id (pd_records st a) = Some i"
  have "\<exists>l'. for_each (\<lambda>e l s. do { a \<leftarrow> e; p \<leftarrow> pd_records st a; Some (if pc_id p = i then Some a else None, l, s) })
       (pd_active st) () = Some (map_option the (find ?P (sq_items (pd_active st))), l', ())
     \<and> sq_items l' = sq_items (pd_active st) \<and> sq_gone l' = sq_gone (pd_active st)"
  proof (rule for_each_search [where h = "\<lambda>l. l"])
    fix e l' assume "e \<in> set (sq_items (pd_active st))"
    then obtain a where "e = Some a" "a \<in> set as" using assms by (auto simp: list_ok_def)
    then obtain r where "pd_records st a = Some r" using list_ok_records [OF assms] by blast
    then show "(do { a \<leftarrow> e; p \<leftarrow> pd_records st a; Some (if pc_id p = i then Some a else None, l', ()) })
        = Some (if ?P e then (Some (the e), l', ()) else (None, l', ()))"
      using \<open>e = Some a\<close> by simp
  qed simp_all
  moreover have "map_option the (find ?P (map Some xs)) = find (\<lambda>a. map_option pc_id (pd_records st a) = Some i) xs" for xs
    by (induction xs) auto
  ultimately show ?thesis using assms by (auto simp: find_active_def list_ok_def)
qed

lemma find_active_found:
  assumes "list_ok st as" "find_active i st = Some (x, st')"
  shows "case x of None \<Rightarrow> \<forall>a r. pd_records st a = Some r \<longrightarrow> pc_id r \<noteq> i
     | Some a \<Rightarrow> \<exists>r. pd_records st a = Some r \<and> pc_id r = i"
    and "\<exists>l. st' = st\<lparr>pd_active := l\<rparr> \<and> sq_items l = sq_items (pd_active st)"
proof -
  have x: "x = find (\<lambda>a. map_option pc_id (pd_records st a) = Some i) as"
    and st': "\<exists>l. st' = st\<lparr>pd_active := l\<rparr> \<and> sq_items l = sq_items (pd_active st)"
    using find_active_ok [OF assms(1), of i] assms(2) by auto
  show "\<exists>l. st' = st\<lparr>pd_active := l\<rparr> \<and> sq_items l = sq_items (pd_active st)" by (rule st')
  show "case x of None \<Rightarrow> \<forall>a r. pd_records st a = Some r \<longrightarrow> pc_id r \<noteq> i
     | Some a \<Rightarrow> \<exists>r. pd_records st a = Some r \<and> pc_id r = i"
  proof (cases x)
    case None
    then have "\<forall>a\<in>set as. map_option pc_id (pd_records st a) \<noteq> Some i" using x by (auto simp: find_None_iff)
    moreover have "set as = dom (pd_records st)" using assms(1) by (simp add: list_ok_def)
    ultimately have "pc_id r \<noteq> i" if "pd_records st a = Some r" for a r
      using that by (metis domI option.simps(9))
    then show ?thesis using None by simp
  next
    case (Some a)
    then have "map_option pc_id (pd_records st a) = Some i" using x by (auto simp: find_Some_iff)
    then show ?thesis using Some by (auto simp: map_option_eq_Some)
  qed
qed

lemma clear_done_ok:
  assumes "list_ok st as" "sq_pos (pd_active st) = k" "n + k = length as"
  shows "\<exists>st' bs. clear_done n st = Some st' \<and> list_ok st' bs \<and> sq_items (pd_cash st') = sq_items (pd_cash st)
     \<and> pd_free st' = pd_free st \<and> pd_any_results st' = pd_any_results st
     \<and> pd_records st' \<subseteq>\<^sub>m pd_records st
     \<and> (\<forall>a r. pd_records st a = Some r \<and> pc_state r \<noteq> 1 \<longrightarrow> pd_records st' a = Some r)"
  using assms
proof (induction n arbitrary: st as k)
  case 0
  then show ?case by auto
next
  case (Suc n)
  have items: "sq_items (pd_active st) = map Some as" using Suc.prems by (simp add: list_ok_def)
  have k: "k < length as" using Suc.prems by simp
  have nx: "seq_next (pd_active st) = (Some (as ! k), (pd_active st)\<lparr>sq_pos := Suc k\<rparr>)"
    using seq_next_at [of "pd_active st"] Suc.prems(2) items k by simp
  obtain r where r: "pd_records st (as ! k) = Some r" using list_ok_records [OF Suc.prems(1)] k by fastforce
  let ?st1 = "st\<lparr>pd_active := (pd_active st)\<lparr>sq_pos := Suc k\<rparr>, pd_cash := snd (seq_next (pd_cash st))\<rparr>"
  have cash: "sq_items (snd (seq_next (pd_cash st))) = sq_items (pd_cash st)" by (simp add: seq_next_def Let_def)
  show ?case
  proof (cases "pc_state r = 1")
    case False
    then have c: "clear_done (Suc n) st = clear_done n ?st1" using nx r by simp
    have "list_ok ?st1 as" using Suc.prems(1) by (simp add: list_ok_def)
    from Suc.IH [OF this, of "Suc k"] show ?thesis unfolding c using Suc.prems(3) cash by auto
  next
    case True
    let ?l = "seq_remove_this ((pd_active st)\<lparr>sq_pos := Suc k\<rparr>)"
    let ?st2 = "?st1\<lparr>pd_active := ?l, pd_records := (pd_records st)(as ! k := None)\<rparr>"
    have c: "clear_done (Suc n) st = clear_done n ?st2" using nx r True by simp
    have l: "sq_items ?l = map Some (drop_nth k as)" "sq_pos ?l = k"
      using items k by (simp_all add: seq_remove_this_def seq_remove_def drop_nth_def drop_map take_map)
    have d: "distinct as" "set as = dom (pd_records st)" using Suc.prems(1) by (simp_all add: list_ok_def)
    have "list_ok ?st2 (drop_nth k as)"
      using Suc.prems(1) l(1) d k by (auto simp: list_ok_def set_drop_nth distinct_drop_nth split: if_splits)
    moreover have "sq_pos (pd_active ?st2) = k" "n + k = length (drop_nth k as)"
      using l(2) Suc.prems(3) k by (simp_all add: length_drop_nth)
    ultimately obtain st' bs where s: "clear_done n ?st2 = Some st'" "list_ok st' bs" "sq_items (pd_cash st') = sq_items (pd_cash ?st2)"
        "pd_free st' = pd_free ?st2" "pd_any_results st' = pd_any_results ?st2" "pd_records st' \<subseteq>\<^sub>m pd_records ?st2"
        "\<forall>a r. pd_records ?st2 a = Some r \<and> pc_state r \<noteq> 1 \<longrightarrow> pd_records st' a = Some r"
      using Suc.IH [of ?st2] by blast
    have "pd_records st' \<subseteq>\<^sub>m pd_records st" using s(6) by (auto simp: map_le_def split: if_splits)
    moreover have "pd_records st' a = Some q" if "pd_records st a = Some q" "pc_state q \<noteq> 1" for a q
      using s(7) [rule_format, of a q] r True that by (cases "a = as ! k") auto
    ultimately show ?thesis unfolding c using s(1-5) cash by auto
  qed
qed

lemma clear_done_frees:
  assumes "list_ok st as" "sq_pos (pd_active st) = k" "n + k = length as" "clear_done n st = Some st'"
    and "k \<le> j" "j < length as" "pd_records st (as ! j) = Some r" "pc_state r = 1"
  shows "pd_records st' (as ! j) = None"
  using assms
proof (induction n arbitrary: st as k j)
  case 0
  then show ?case by simp
next
  case (Suc n)
  have items: "sq_items (pd_active st) = map Some as" using Suc.prems by (simp add: list_ok_def)
  have k: "k < length as" using Suc.prems by simp
  have nx: "seq_next (pd_active st) = (Some (as ! k), (pd_active st)\<lparr>sq_pos := Suc k\<rparr>)"
    using seq_next_at [of "pd_active st"] Suc.prems(2) items k by simp
  obtain q where q: "pd_records st (as ! k) = Some q" using list_ok_records [OF Suc.prems(1)] k by fastforce
  let ?st1 = "st\<lparr>pd_active := (pd_active st)\<lparr>sq_pos := Suc k\<rparr>, pd_cash := snd (seq_next (pd_cash st))\<rparr>"
  show ?case
  proof (cases "pc_state q = 1")
    case False
    then have "j \<noteq> k" "clear_done n ?st1 = Some st'" using Suc.prems(4,7,8) nx q by auto
    moreover have "list_ok ?st1 as" using Suc.prems(1) by (simp add: list_ok_def)
    ultimately show ?thesis using Suc.IH [of ?st1 as "Suc k" j] Suc.prems by simp
  next
    case True
    let ?st2 = "?st1\<lparr>pd_active := seq_remove_this ((pd_active st)\<lparr>sq_pos := Suc k\<rparr>), pd_records := (pd_records st)(as ! k := None)\<rparr>"
    have c: "clear_done n ?st2 = Some st'" using Suc.prems(4) nx q True by simp
    have d: "distinct as" "set as = dom (pd_records st)" using Suc.prems(1) by (simp_all add: list_ok_def)
    have l: "sq_items (pd_active ?st2) = map Some (drop_nth k as)" "sq_pos (pd_active ?st2) = k"
      using items k by (simp_all add: seq_remove_this_def seq_remove_def drop_nth_def drop_map take_map)
    have ok: "list_ok ?st2 (drop_nth k as)"
      using Suc.prems(1) l(1) d k by (auto simp: list_ok_def set_drop_nth distinct_drop_nth split: if_splits)
    have n: "n + k = length (drop_nth k as)" using Suc.prems(3) k by simp
    show ?thesis
    proof (cases "j = k")
      case False
      then have "drop_nth k as ! (j - 1) = as ! j" "j - 1 < length (drop_nth k as)"
        using Suc.prems(5,6) k by (auto simp: nth_drop_nth)
      moreover have "pd_records ?st2 (as ! j) = Some r" using False Suc.prems(6,7) d k by (simp add: nth_eq_iff_index_eq)
      ultimately show ?thesis using Suc.IH [OF ok l(2) n c, of "j - 1"] False Suc.prems(5,8) by simp
    next
      case j: True
      have "\<exists>bs. pd_records st' \<subseteq>\<^sub>m pd_records ?st2" using clear_done_ok [OF ok l(2) n] c by auto
      then show ?thesis using j by (auto simp: map_le_def) (metis domIff)
    qed
  qed
qed

text \<open>
  After a restored connection \<open>DBSetState\<close> calls itself, and both calls mark the record: when the records that are
  done are cleared in between, the second one writes to a record that is freed.
\<close>

lemma second_mark_undefined:
  assumes "list_ok st as" "mark_done a st = Some st1"
    "clear_done (length (sq_items (pd_active st1))) (st1\<lparr>pd_active := seq_reset (pd_active st1)\<rparr>) = Some st2"
  shows "mark_done a st2 = None"
proof -
  obtain r where r: "pd_records st a = Some r" "st1 = st\<lparr>pd_records := (pd_records st)(a \<mapsto> r\<lparr>pc_state := 1\<rparr>)\<rparr>"
    using assms(2) by (auto simp: mark_done_def)
  have "a \<in> set as" using assms(1) r(1) by (auto simp: list_ok_def)
  then obtain j where j: "j < length as" "as ! j = a" by (auto simp: in_set_conv_nth)
  let ?s = "st1\<lparr>pd_active := seq_reset (pd_active st1)\<rparr>"
  have "list_ok ?s as"
    unfolding list_ok_def
  proof (intro conjI allI impI)
    show "sq_items (pd_active ?s) = map Some as" "distinct as" using assms(1) by (simp_all add: list_ok_def r(2) seq_reset_def)
    have "dom (pd_records ?s) = dom (pd_records st)" using r by auto
    then show "set as = dom (pd_records ?s)" using assms(1) by (simp add: list_ok_def)
    have "\<forall>a\<in>set as. a < pd_free st" using assms(1) unfolding list_ok_def by blast
    then show "\<forall>a\<in>set as. a < pd_free ?s" by (simp add: r(2))
    fix b c x y assume "pd_records ?s b = Some x \<and> pd_records ?s c = Some y \<and> pc_id x = pc_id y"
    then obtain x' y' where "pd_records st b = Some x'" "pd_records st c = Some y'" "pc_id x' = pc_id y'"
      using r by (auto split: if_splits)
    then show "b = c" using assms(1) unfolding list_ok_def by blast
  qed
  moreover have "sq_pos (pd_active ?s) = 0" by (simp add: seq_reset_def)
  moreover have "length (sq_items (pd_active st1)) + 0 = length as" using assms(1) by (simp add: list_ok_def r(2))
  ultimately have "pd_records st2 (as ! j) = None"
    by (rule clear_done_frees [where r = "r\<lparr>pc_state := 1\<rparr>"]) (use assms(3) j r(2) in simp_all)
  then show ?thesis by (simp add: mark_done_def j(2))
qed

section \<open>The invariant\<close>

definition held :: "(nat \<Rightarrow> pay_phase) \<Rightarrow> 'w pay_db \<Rightarrow> int set" where
  "held ts st = {i. \<exists>t. hand (ts t) = Some i} \<union> {i. \<exists>p. Some p \<in> set (sq_items (pd_cash st)) \<and> i = sp_id p}"

fun phase_ok :: "int set \<Rightarrow> 'w pay_db \<Rightarrow> pay_phase \<Rightarrow> bool" where
  "phase_ok H st (Writing p res as) \<longleftrightarrow> (\<forall>a\<in>set as. \<exists>r. pd_records st a = Some r \<and> pc_id r = sp_id p)"
| "phase_ok H st (Marking as) \<longleftrightarrow> (\<forall>a\<in>set as. a < pd_free st \<and> (\<forall>r. pd_records st a = Some r \<longrightarrow> pc_id r \<notin> H))"
| "phase_ok H st _ \<longleftrightarrow> True"

definition cash_ok :: "(nat \<Rightarrow> pay_phase) \<Rightarrow> 'w pay_db \<Rightarrow> server_pay list \<Rightarrow> bool" where
  "cash_ok ts st ps \<longleftrightarrow> sq_items (pd_cash st) = map Some ps \<and> distinct (map sp_id ps)
     \<and> (\<forall>p\<in>set ps. sp_test p = NO_TEST \<and> (\<forall>t. hand (ts t) \<noteq> Some (sp_id p)))"

definition pays_inv :: "(nat \<Rightarrow> pay_phase) \<times> 'w pay_db \<Rightarrow> bool" where
  "pays_inv = (\<lambda>(ts, st). (\<exists>as. list_ok st as) \<and> (\<exists>ps. cash_ok ts st ps) \<and> (\<forall>i\<in>held ts st. in_progress st i)
     \<and> (\<forall>t u i. hand (ts t) = Some i \<and> hand (ts u) = Some i \<longrightarrow> t = u) \<and> (\<forall>t. phase_ok (held ts st) st (ts t)))"

lemma pays_invE:
  assumes "pays_inv (ts, st)"
  obtains as ps where "list_ok st as" "cash_ok ts st ps" "\<forall>i\<in>held ts st. in_progress st i"
    "\<forall>t u i. hand (ts t) = Some i \<and> hand (ts u) = Some i \<longrightarrow> t = u" "\<forall>t. phase_ok (held ts st) st (ts t)"
  using assms by (auto simp: pays_inv_def)

lemma pays_invI:
  assumes "list_ok st as" "cash_ok ts st ps" "\<And>i. i \<in> held ts st \<Longrightarrow> in_progress st i"
    "\<And>t u i. hand (ts t) = Some i \<Longrightarrow> hand (ts u) = Some i \<Longrightarrow> t = u" "\<And>t. phase_ok (held ts st) st (ts t)"
  shows "pays_inv (ts, st)"
  using assms by (auto simp: pays_inv_def)

lemma held_cash: "cash_ok ts st ps \<Longrightarrow> held ts st = {i. \<exists>t. hand (ts t) = Some i} \<union> sp_id ` set ps"
  by (auto simp: held_def cash_ok_def)

lemma in_progress_record:
  assumes "list_ok st as" "in_progress st i" "pd_records st a = Some r" "pc_id r = i"
  shows "pc_state r = 0"
proof -
  obtain b q where b: "pd_records st b = Some q" "pc_id q = i" "pc_state q = 0" using assms(2) by (auto simp: in_progress_def)
  then have "a = b" using assms unfolding list_ok_def by blast
  then show ?thesis using assms(3) b by simp
qed

text \<open>Steps that leave the payments alone, and at most drop records of payments that are done.\<close>

lemma pays_inv_frame:
  assumes inv: "pays_inv (ts, st)" and ok: "list_ok st' bs" and cash: "sq_items (pd_cash st') = sq_items (pd_cash st)"
    and free: "pd_free st' = pd_free st" and le: "pd_records st' \<subseteq>\<^sub>m pd_records st"
    and kept: "\<And>a r. pd_records st a = Some r \<Longrightarrow> pc_state r \<noteq> 1 \<Longrightarrow> pd_records st' a = Some r"
  shows "pays_inv (ts, st')"
proof -
  obtain as ps where i: "list_ok st as" "cash_ok ts st ps" "\<forall>i\<in>held ts st. in_progress st i"
    "\<forall>t u i. hand (ts t) = Some i \<and> hand (ts u) = Some i \<longrightarrow> t = u" "\<forall>t. phase_ok (held ts st) st (ts t)"
    using inv by (rule pays_invE)
  have h: "held ts st' = held ts st" using cash by (simp add: held_def)
  have prog: "in_progress st' i" if "in_progress st i" for i
    using that kept unfolding in_progress_def by (metis zero_neq_one)
  have ph: "phase_ok (held ts st) st' (ts t)" for t
  proof (cases "ts t")
    case (Writing p res as)
    have "\<exists>r. pd_records st' a = Some r \<and> pc_id r = sp_id p" if a: "a \<in> set as" for a
    proof -
      have "phase_ok (held ts st) st (ts t)" using i(5) by blast
      then obtain r where r: "pd_records st a = Some r" "pc_id r = sp_id p" using Writing a by auto
      have "sp_id p \<in> held ts st" using Writing unfolding held_def by (metis (mono_tags, lifting) UnI1 hand.simps(2) mem_Collect_eq)
      then have "pc_state r = 0" using in_progress_record [OF i(1) _ r] i(3) by blast
      then show ?thesis using kept [OF r(1)] r(2) by simp
    qed
    then show ?thesis using Writing by simp
  next
    case (Marking as)
    have "phase_ok (held ts st) st (ts t)" using i(5) by blast
    then show ?thesis using Marking free le by (force simp: map_le_def dom_def)
  qed simp_all
  show ?thesis
  proof (rule pays_invI [OF ok])
    show "cash_ok ts st' ps" using i(2) cash by (simp add: cash_ok_def)
    show "in_progress st' i" if "i \<in> held ts st'" for i using that i(3) prog h by simp
    show "t = u" if "hand (ts t) = Some i" "hand (ts u) = Some i" for t u i using i(4) that by blast
    show "phase_ok (held ts st') st' (ts t)" for t using ph h by simp
  qed
qed

lemma pays_inv_same: "pays_inv (ts, st) \<Longrightarrow> same_pays st st' \<Longrightarrow> pays_inv (ts, st')"
  using pays_inv_frame [of ts st st'] list_ok_same [of st st'] by (auto simp: same_pays_def elim!: pays_invE)

lemma pays_inv_cursor:
  assumes "pays_inv (ts, st)" "sq_items l = sq_items (pd_active st)"
  shows "pays_inv (ts, st\<lparr>pd_active := l\<rparr>)"
proof -
  obtain as where "list_ok st as" using assms(1) by (rule pays_invE)
  then have "list_ok (st\<lparr>pd_active := l\<rparr>) as" using assms(2) by (simp add: list_ok_def)
  then show ?thesis by (rule pays_inv_frame [OF assms(1)]) auto
qed

lemma pays_inv_find:
  assumes "pays_inv (ts, st)" "find_active i st = Some (x, st')"
  shows "pays_inv (ts, st')" "pd_records st' = pd_records st" "pd_free st' = pd_free st" "pd_cash st' = pd_cash st"
    "pd_any_results st' = pd_any_results st"
proof -
  obtain as where ok: "list_ok st as" using assms(1) by (rule pays_invE)
  then obtain l where l: "st' = st\<lparr>pd_active := l\<rparr>" "sq_items l = sq_items (pd_active st)"
    using find_active_found(2) [OF ok assms(2)] by blast
  show "pays_inv (ts, st')" unfolding l(1) by (rule pays_inv_cursor [OF assms(1) l(2)])
  show "pd_records st' = pd_records st" "pd_free st' = pd_free st" "pd_cash st' = pd_cash st" "pd_any_results st' = pd_any_results st"
    by (simp_all add: l(1))
qed

lemma pays_inv_clear:
  assumes "pays_inv (ts, st)"
    "clear_done (length (sq_items (pd_active st))) (st\<lparr>pd_active := seq_reset (pd_active st)\<rparr>) = Some st'"
  shows "pays_inv (ts, st')"
proof -
  obtain as where ok: "list_ok st as" using assms(1) by (rule pays_invE)
  let ?s = "st\<lparr>pd_active := seq_reset (pd_active st)\<rparr>"
  have "list_ok ?s as" using ok by (simp add: list_ok_def seq_reset_def)
  moreover have "sq_pos (pd_active ?s) = 0" by (simp add: seq_reset_def)
  moreover have "length (sq_items (pd_active st)) + 0 = length as" using ok by (simp add: list_ok_def)
  ultimately obtain bs where "list_ok st' bs" "sq_items (pd_cash st') = sq_items (pd_cash st)" "pd_free st' = pd_free st"
      "pd_records st' \<subseteq>\<^sub>m pd_records st" "\<forall>a r. pd_records st a = Some r \<and> pc_state r \<noteq> 1 \<longrightarrow> pd_records st' a = Some r"
    using clear_done_ok [of ?s as 0 "length (sq_items (pd_active st))"] assms(2) by auto
  then show ?thesis by (intro pays_inv_frame [OF assms(1)]) auto
qed

section \<open>New payments\<close>

lemma row_pay_ids:
  "row_pay ln i row = Some (r, p) \<Longrightarrow> pc_id r = i \<and> pc_state r = 0 \<and> sp_id p = i \<and> sp_test p = NO_TEST"
  by (auto simp: row_pay_def compile_new_pay_def spay.defs NO_TEST_def Let_def split: Option.bind_splits)

definition row_id :: "string option list \<Rightarrow> int option" where
  "row_id row = map_option strtol10 (Option.bind (column 0 row) (\<lambda>c. c))"

lemma add_row_id:
  "add_row ln row (num, st) =
     (case row_id row of None \<Rightarrow> None | Some i \<Rightarrow>
        Option.bind (find_active i st) (\<lambda>(found, st1). if found \<noteq> None then Some (num, st1)
          else map_option (\<lambda>(r, p). (Suc num, add_pay r p st1)) (row_pay ln i row)))"
  by (auto simp: add_row_def row_id_def split: Option.bind_splits)

lemma add_row_cases:
  assumes "add_row ln row (num, st) = Some (m, st')"
  obtains (old) i x where "row_id row = Some i" "find_active i st = Some (Some x, st')" "m = num"
  | (new) i st1 r p where "row_id row = Some i" "find_active i st = Some (None, st1)" "m = Suc num"
      "row_pay ln i row = Some (r, p)" "st' = add_pay r p st1"
  using assms by (auto simp: add_row_id split: option.splits Option.bind_splits if_splits)

lemma pays_inv_add:
  assumes inv: "pays_inv (ts, st)" and new: "\<forall>a r. pd_records st a = Some r \<longrightarrow> pc_id r \<noteq> i"
    and r: "pc_id r = i" "pc_state r = 0" and p: "sp_id p = i" "sp_test p = NO_TEST"
  shows "pays_inv (ts, add_pay r p st)"
proof -
  define st' where st': "st' = add_pay r p st"
  note st' = st' [unfolded add_pay_def]
  obtain as ps where inv': "list_ok st as" "cash_ok ts st ps" "\<forall>i\<in>held ts st. in_progress st i"
    "\<forall>t u i. hand (ts t) = Some i \<and> hand (ts u) = Some i \<longrightarrow> t = u" "\<forall>t. phase_ok (held ts st) st (ts t)"
    using inv by (rule pays_invE)
  let ?a = "pd_free st"
  have fresh: "?a \<notin> set as" "pd_records st ?a = None" using inv'(1) by (auto simp: list_ok_def dom_def)
  have "i \<notin> held ts st" using inv'(3) new by (auto simp: in_progress_def)
  then have ih: "i \<notin> sp_id ` set ps" "\<And>t. hand (ts t) \<noteq> Some i" using held_cash [OF inv'(2)] by auto
  have goal: "?thesis = pays_inv (ts, st')" by (simp add: st' add_pay_def)
  have ok: "list_ok st' (as @ [?a])"
    unfolding list_ok_def
  proof (intro conjI allI impI)
    show "sq_items (pd_active st') = map Some (as @ [?a])" using inv'(1) by (simp add: st' list_ok_def seq_add_def)
    show "distinct (as @ [?a])" using inv'(1) fresh by (simp add: list_ok_def)
    show "set (as @ [?a]) = dom (pd_records st')" using inv'(1) by (auto simp: st' list_ok_def)
    show "\<forall>a\<in>set (as @ [?a]). a < pd_free st'" using inv'(1) by (auto simp: st' list_ok_def less_Suc_eq)
    fix a b x y assume "pd_records st' a = Some x \<and> pd_records st' b = Some y \<and> pc_id x = pc_id y"
    then show "a = b" using inv'(1) new r(1) by (auto simp: st' list_ok_def split: if_splits)
  qed
  have cash: "cash_ok ts st' (ps @ [p])" using inv'(2) p ih by (auto simp: cash_ok_def st' seq_add_def)
  have held': "held ts st' = insert i (held ts st)"
    unfolding held_cash [OF cash] held_cash [OF inv'(2)] using p(1) by auto
  show ?thesis unfolding goal
  proof (rule pays_invI [OF ok cash])
    show "in_progress st' j" if "j \<in> held ts st'" for j
    proof (cases "j = i")
      case True
      then show ?thesis using r by (auto simp: in_progress_def st')
    next
      case False
      then have "in_progress st j" using that inv'(3) held' by simp
      then obtain b q where b: "pd_records st b = Some q" "pc_id q = j" "pc_state q = 0" by (auto simp: in_progress_def)
      then have "pd_records st' b = Some q" using fresh(2) by (auto simp: st')
      then show ?thesis using b by (auto simp: in_progress_def)
    qed
    show "t = u" if "hand (ts t) = Some j" "hand (ts u) = Some j" for t u j using inv'(4) that by blast
    fix t
    have ph: "phase_ok (held ts st) st (ts t)" using inv'(5) by blast
    show "phase_ok (held ts st') st' (ts t)"
    proof (cases "ts t")
      case (Writing q res bs)
      then show ?thesis using ph fresh(2) by (fastforce simp: st')
    next
      case (Marking bs)
      have "b < pd_free st' \<and> (\<forall>x. pd_records st' b = Some x \<longrightarrow> pc_id x \<notin> held ts st')" if b: "b \<in> set bs" for b
      proof -
        have "b < ?a" "\<forall>x. pd_records st b = Some x \<longrightarrow> pc_id x \<notin> held ts st" using ph Marking b by auto
        moreover have "pd_records st' b = pd_records st b" "pd_free st' = Suc ?a" using \<open>b < ?a\<close> by (simp_all add: st')
        ultimately show ?thesis using new held' by auto
      qed
      then show ?thesis using Marking by simp
    qed simp_all
  qed
qed

lemma pays_inv_row:
  assumes "pays_inv (ts, st)" "add_row ln row (num, st) = Some (m, st')"
  shows "pays_inv (ts, st')"
  using assms(2)
proof (cases rule: add_row_cases)
  case (old i x)
  then show ?thesis using pays_inv_find(1) [OF assms(1)] by blast
next
  case (new i st1 r p)
  obtain as where ok: "list_ok st as" using assms(1) by (rule pays_invE)
  have "\<forall>a r. pd_records st1 a = Some r \<longrightarrow> pc_id r \<noteq> i"
    using find_active_found(1) [OF ok new(2)] pays_inv_find(2) [OF assms(1) new(2)] by simp
  then show ?thesis unfolding new(5) using row_pay_ids [OF new(4)]
    by (intro pays_inv_add [OF pays_inv_find(1) [OF assms(1) new(2)]]) auto
qed

lemma pays_inv_rows: "pays_inv (ts, st) \<Longrightarrow> add_rows ln rows (num, st) = Some (m, st') \<Longrightarrow> pays_inv (ts, st')"
proof (induction rows arbitrary: num st)
  case (Cons row rows)
  then obtain k st1 where "add_row ln row (num, st) = Some (k, st1)" "add_rows ln rows (k, st1) = Some (m, st')"
    by (auto split: Option.bind_splits)
  then show ?case using Cons pays_inv_row by blast
qed simp

lemma pays_inv_results:
  assumes "pays_inv (ts, st)"
  shows "pays_inv (ts, st\<lparr>pd_any_results := b\<rparr>)"
proof -
  obtain as where "list_ok st as" using assms by (rule pays_invE)
  then have "list_ok (st\<lparr>pd_any_results := b\<rparr>) as" by (simp add: list_ok_def)
  then show ?thesis by (rule pays_inv_frame [OF assms]) auto
qed

lemma pays_inv_fetch:
  assumes "pays_inv (ts, st)" "fetch_pays ln n q st = Some st'"
  shows "pays_inv (ts, st')"
proof -
  obtain st1 where c: "clear_done (length (sq_items (pd_active st))) (st\<lparr>pd_active := seq_reset (pd_active st)\<rparr>) = Some st1"
    using assms(2) by (auto simp: fetch_pays_def split: Option.bind_splits)
  have 1: "pays_inv (ts, st1)" by (rule pays_inv_clear [OF assms(1) c])
  obtain err st2 where d: "db_query dl_read ln q st1 = (err, st2)" by fastforce
  have 2: "pays_inv (ts, st2)" by (rule pays_inv_same [OF 1 db_query_same [OF d]])
  note 3 = pays_inv_results [OF 2, of False]
  show ?thesis using assms(2) c d 2 3
    by (auto simp: fetch_pays_def Let_def split: if_splits option.splits
        intro: pays_inv_same [OF 3 db_fix_connection_same] pays_inv_results pays_inv_rows [OF 2])
qed

lemma check_reqs_same:
  assumes "check_reqs ln p st = Some (q, st')"
  shows "same_pays st st'" "sp_id q = sp_id p" "sp_test q = sp_test p"
proof -
  obtain e st1 where q: "db_query dl_check ln (check_select p) st = (e, st1)" by fastforce
  note 1 = db_query_same [OF q]
  have 2: "same_pays st1 (snd (db_query dl_check ln u st1))" for u using db_query_same by (metis prod.collapse)
  show "same_pays st st'" "sp_id q = sp_id p" "sp_test q = sp_test p"
    using assms q 1 same_pays_trans [OF 1 2]
    by (auto simp: check_reqs_def Let_def split: option.splits list.splits Option.bind_splits if_splits)
qed

text \<open>A payment that is handed out leaves the block.\<close>

lemma hand_out_cases:
  assumes "cash_ok ts st ps" "hand_out ln st = Some (x, st')"
  obtains (none) l where "x = None" "ps = []" "st' = st\<lparr>pd_cash := l, pd_any_results := False\<rparr>" "sq_items l = []"
  | (some) p qs q st1 where "x = Some q" "ps = p # qs" "sp_id q = sp_id p" "sp_test q = sp_test p"
      "same_pays (st\<lparr>pd_cash := (pd_cash st)\<lparr>sq_pos := 1\<rparr>\<rparr>) st1"
      "pd_records st' = pd_records st1" "pd_active st' = pd_active st1" "pd_free st' = pd_free st1"
      "sq_items (pd_cash st') = map Some qs"
proof (cases ps)
  case Nil
  then have "seq_next (seq_reset (pd_cash st)) = (None, (pd_cash st)\<lparr>sq_pos := 1\<rparr>)" "sq_items (pd_cash st) = []"
    using assms(1) by (simp_all add: cash_ok_def seq_next_def seq_reset_def seq_at_def)
  then show thesis using none [of "(pd_cash st)\<lparr>sq_pos := 1\<rparr>"] Nil assms(2) by (simp add: hand_out_def)
next
  case (Cons p qs)
  let ?l = "(pd_cash st)\<lparr>sq_pos := 1\<rparr>"
  have i: "sq_items (pd_cash st) = Some p # map Some qs" using assms(1) Cons by (simp add: cash_ok_def)
  then have n: "seq_next (seq_reset (pd_cash st)) = (Some p, ?l)"
    by (simp add: seq_next_def seq_reset_def seq_at_def)
  obtain q st1 where c: "check_reqs ln p (st\<lparr>pd_cash := ?l\<rparr>) = Some (q, st1)"
    and r: "x = Some q" "st' = st1\<lparr>pd_cash := seq_remove_this ?l, pd_any_results := (sq_items (seq_remove_this ?l) \<noteq> [])\<rparr>"
    using assms(2) n by (auto simp: hand_out_def Let_def split: Option.bind_splits)
  have "sq_items (seq_remove_this ?l) = map Some qs"
    using i by (simp add: seq_remove_this_def seq_remove_def drop_nth_def)
  then show thesis using some [OF r(1) Cons check_reqs_same(2,3,1) [OF c]] r(2) by simp
qed

lemma pays_inv_hand_out_none:
  assumes "pays_inv (ts, st)" "hand_out ln st = Some (None, st')"
  shows "pays_inv (ts, st')"
proof -
  obtain as ps where i: "list_ok st as" "cash_ok ts st ps" using assms(1) by (rule pays_invE)
  from i(2) assms(2) show ?thesis
  proof (cases rule: hand_out_cases)
    case (none l)
    have "list_ok st' as" using i(1) none(3) by (simp add: list_ok_def)
    then show ?thesis using none i(2) by (intro pays_inv_frame [OF assms(1)]) (auto simp: cash_ok_def)
  qed simp
qed

lemma pays_inv_hand_out:
  assumes inv: "pays_inv (ts, st)" and idle: "ts t = Idle" and out: "hand_out ln st = Some (Some q, st')"
  shows "pays_inv (ts(t := Working q), st')"
proof -
  obtain as ps where i: "list_ok st as" "cash_ok ts st ps" "\<forall>i\<in>held ts st. in_progress st i"
    "\<forall>t u i. hand (ts t) = Some i \<and> hand (ts u) = Some i \<longrightarrow> t = u" "\<forall>t. phase_ok (held ts st) st (ts t)"
    using inv by (rule pays_invE)
  from i(2) out show ?thesis
  proof (cases rule: hand_out_cases)
    case (some p qs q' st1)
    then have q: "q' = q" by simp
    have rec: "pd_records st' = pd_records st" "pd_active st' = pd_active st" "pd_free st' = pd_free st"
      using some(5-8) by (auto simp: same_pays_def)
    let ?ts = "ts(t := Working q)"
    have cash: "cash_ok ?ts st' qs" using i(2) some(2,3,9) q by (auto simp: cash_ok_def)
    have idle': "hand (ts t) = None" using idle by simp
    then have "{i. \<exists>u. hand (?ts u) = Some i} = insert (sp_id p) {i. \<exists>u. hand (ts u) = Some i}"
      using some(3) q by (auto split: if_splits) (metis option.distinct(1))+
    then have h: "held ?ts st' = held ts st"
      unfolding held_cash [OF cash] held_cash [OF i(2)] using some(2) by auto
    have p: "hand (ts u) \<noteq> Some (sp_id p)" for u using i(2) some(2) by (simp add: cash_ok_def)
    show ?thesis
    proof (rule pays_invI [OF _ cash])
      show "list_ok st' as" using i(1) rec by (simp add: list_ok_def)
      show "in_progress st' j" if "j \<in> held ?ts st'" for j using that h i(3) rec by (simp add: in_progress_def)
      show "v = u" if "hand (?ts v) = Some j" "hand (?ts u) = Some j" for v u j
        using that i(4) p some(3) q by (auto split: if_splits)
      have same: "phase_ok (held ts st) st' ph = phase_ok (held ts st) st ph" for ph by (cases ph) (simp_all add: rec)
      show "phase_ok (held ?ts st') st' (?ts u)" for u unfolding h same using i(5) by simp
    qed
  qed simp
qed

section \<open>Steps\<close>

text \<open>A thread that gives its payment up, or has only records left to mark.\<close>

lemma pays_inv_drop:
  assumes inv: "pays_inv (ts, st)"
    and ph: "ph = Idle \<or> (\<exists>as p res. ph = Marking as \<and> (ts t = Marking as \<or> (\<exists>b. ts t = Marking (b # as)) \<or> ts t = Writing p res as))"
  shows "pays_inv (ts(t := ph), st)"
proof -
  obtain as ps where i: "list_ok st as" "cash_ok ts st ps" "\<forall>i\<in>held ts st. in_progress st i"
    "\<forall>t u i. hand (ts t) = Some i \<and> hand (ts u) = Some i \<longrightarrow> t = u" "\<forall>t. phase_ok (held ts st) st (ts t)"
    using inv by (rule pays_invE)
  have none: "hand ph = None" using ph by auto
  let ?ts = "ts(t := ph)"
  have sub: "held ?ts st \<subseteq> held ts st" using none by (auto simp: held_def split: if_splits)
  have cash: "cash_ok ?ts st ps" using i(2) none by (auto simp: cash_ok_def)
  show ?thesis
  proof (rule pays_invI [OF i(1) cash])
    show "in_progress st j" if "j \<in> held ?ts st" for j using that sub i(3) by blast
    show "v = u" if "hand (?ts v) = Some j" "hand (?ts u) = Some j" for v u j using that i(4) none by (auto split: if_splits)
    have mono: "phase_ok (held ?ts st) st x" if "phase_ok (held ts st) st x" for x using that sub by (cases x) auto
    show "phase_ok (held ?ts st) st (?ts u)" for u
    proof (cases "u = t")
      case False
      then show ?thesis using mono i(5) by simp
    next
      case True
      show ?thesis
      proof (cases "\<exists>p res as. ph = Marking as \<and> ts t = Writing p res as")
        case False
        have "phase_ok (held ts st) st (ts t)" using i(5) by blast
        then have "phase_ok (held ts st) st ph" using ph False by auto
        then show ?thesis using mono True by simp
      next
        case w: True
        then obtain p res bs where b: "ph = Marking bs" "ts t = Writing p res bs" by blast
        have "phase_ok (held ts st) st (ts t)" using i(5) by blast
        then have r: "\<forall>a\<in>set bs. \<exists>r. pd_records st a = Some r \<and> pc_id r = sp_id p" using b by simp
        have "sp_id p \<notin> held ?ts st"
          using i(2,4) b none unfolding held_cash [OF cash] by (auto simp: cash_ok_def split: if_splits) (metis hand.simps(2))+
        moreover have "a < pd_free st" if "a \<in> set bs" for a using r that i(1) by (auto simp: list_ok_def dom_def)
        ultimately show ?thesis using r b True by auto
      qed
    qed
  qed
qed

text \<open>A thread that goes on with the same payment.\<close>

lemma pays_inv_same_hand:
  assumes inv: "pays_inv (ts, st)" and h: "hand ph = hand (ts t)" and ok: "phase_ok (held ts st) st ph"
  shows "pays_inv (ts(t := ph), st)"
proof -
  obtain as ps where i: "list_ok st as" "cash_ok ts st ps" "\<forall>i\<in>held ts st. in_progress st i"
    "\<forall>t u i. hand (ts t) = Some i \<and> hand (ts u) = Some i \<longrightarrow> t = u" "\<forall>t. phase_ok (held ts st) st (ts t)"
    using inv by (rule pays_invE)
  have hand: "hand ((ts(t := ph)) u) = hand (ts u)" for u using h by simp
  then have held: "held (ts(t := ph)) st = held ts st" by (simp add: held_def)
  have cash: "cash_ok (ts(t := ph)) st ps" using i(2) hand by (simp add: cash_ok_def)
  show ?thesis
  proof (rule pays_invI [OF i(1) cash])
    show "in_progress st j" if "j \<in> held (ts(t := ph)) st" for j using that held i(3) by simp
    show "v = u" if "hand ((ts(t := ph)) v) = Some j" "hand ((ts(t := ph)) u) = Some j" for v u j
      using that i(4) unfolding hand by blast
    show "phase_ok (held (ts(t := ph)) st) st ((ts(t := ph)) u)" for u unfolding held using i(5) ok by simp
  qed
qed

lemma pays_inv_mark:
  assumes inv: "pays_inv (ts, st)" and t: "ts t = Marking (a # bs)" and m: "mark_done a st = Some st'"
  shows "pays_inv (ts, st')"
proof -
  obtain as ps where i: "list_ok st as" "cash_ok ts st ps" "\<forall>i\<in>held ts st. in_progress st i"
    "\<forall>t u i. hand (ts t) = Some i \<and> hand (ts u) = Some i \<longrightarrow> t = u" "\<forall>t. phase_ok (held ts st) st (ts t)"
    using inv by (rule pays_invE)
  obtain r where r: "pd_records st a = Some r" "st' = st\<lparr>pd_records := (pd_records st)(a \<mapsto> r\<lparr>pc_state := 1\<rparr>)\<rparr>"
    using m by (auto simp: mark_done_def)
  have "phase_ok (held ts st) st (ts t)" using i(5) by blast
  then have out: "pc_id r \<notin> held ts st" using t r(1) by simp
  have held: "held ts st' = held ts st" by (simp add: held_def r(2))
  have ids: "map_option pc_id (pd_records st' b) = map_option pc_id (pd_records st b)" for b using r by auto
  have ok: "list_ok st' as"
    unfolding list_ok_def
  proof (intro conjI allI impI)
    have u: "sq_items (pd_active st) = map Some as" "distinct as" "set as = dom (pd_records st)" "\<forall>a\<in>set as. a < pd_free st"
      using i(1) unfolding list_ok_def by blast+
    show "sq_items (pd_active st') = map Some as" using u(1) by (simp add: r(2))
    show "distinct as" by (rule u(2))
    have "dom (pd_records st') = dom (pd_records st)" using r by auto
    then show "set as = dom (pd_records st')" using u(3) by simp
    show "\<forall>a\<in>set as. a < pd_free st'" using u(4) by (simp add: r(2))
    fix b c x y assume "pd_records st' b = Some x \<and> pd_records st' c = Some y \<and> pc_id x = pc_id y"
    then have "map_option pc_id (pd_records st b) = Some (pc_id x)" "map_option pc_id (pd_records st c) = Some (pc_id x)"
      using ids [of b] ids [of c] by simp_all
    then obtain x' y' where "pd_records st b = Some x'" "pd_records st c = Some y'" "pc_id x' = pc_id y'" by auto
    then show "b = c" using i(1) unfolding list_ok_def by blast
  qed
  have cash: "cash_ok ts st' ps" using i(2) by (simp add: cash_ok_def r(2))
  show ?thesis
  proof (rule pays_invI [OF ok cash])
    show "in_progress st' j" if j: "j \<in> held ts st'" for j
    proof -
      have "in_progress st j" using j held i(3) by simp
      then obtain b q where b: "pd_records st b = Some q" "pc_id q = j" "pc_state q = 0" by (auto simp: in_progress_def)
      have "b \<noteq> a" using b r(1) out j held by auto
      then have "pd_records st' b = Some q" using b r(2) by simp
      then show ?thesis using b by (auto simp: in_progress_def)
    qed
    show "v = u" if "hand (ts v) = Some j" "hand (ts u) = Some j" for v u j using that i(4) by blast
    have "phase_ok (held ts st) st' x" if "phase_ok (held ts st) st x" for x
    proof (cases x)
      case (Writing p res cs)
      then show ?thesis using that r by fastforce
    next
      case (Marking cs)
      then show ?thesis using that out r by auto
    qed simp_all
    then show "phase_ok (held ts st') st' (ts u)" for u using i(5) held by simp
  qed
qed

lemma pays_step_inv: "pays_step ln c d \<Longrightarrow> pays_inv c \<Longrightarrow> pays_inv d"
proof (induction rule: pays_step.induct)
  case (next_some ts t n st p st')
  then obtain st1 where 1: "st1 = st \<or> fetch_pays ln n (pay_select st) st = Some st1" "hand_out ln st1 = Some (Some p, st')"
    by (auto simp: db_get_next_pay_def split: Option.bind_splits if_splits)
  then have "pays_inv (ts, st1)" using next_some(3) pays_inv_fetch by blast
  then show ?case using pays_inv_hand_out [where ts = ts and t = t] next_some(1) 1(2) by blast
next
  case (next_none n st st' ts)
  then obtain st1 where 1: "st1 = st \<or> fetch_pays ln n (pay_select st) st = Some st1" "st' = st1 \<or> hand_out ln st1 = Some (None, st')"
    by (auto simp: db_get_next_pay_def split: Option.bind_splits if_splits)
  then have "pays_inv (ts, st1)" using next_none(2) pays_inv_fetch by blast
  then show ?case using 1(2) pays_inv_hand_out_none by blast
next
  case (work ts t p q st)
  then show ?case by (intro pays_inv_same_hand) auto
next
  case (report_down ts t p st)
  then show ?case by (intro pays_inv_drop) auto
next
  case (report_lost ts t p st st')
  then show ?case by (intro pays_inv_drop [OF pays_inv_find(1)]) auto
next
  case (report ts t p st a st' res)
  note i = pays_inv_find(1) [OF report(4,3)]
  obtain as where ok: "list_ok st as" using report(4) by (rule pays_invE)
  have "\<exists>r. pd_records st' a = Some r \<and> pc_id r = sp_id p"
    using find_active_found(1) [OF ok report(3)] pays_inv_find(2) [OF report(4,3)] by simp
  then show ?case using report(1) by (intro pays_inv_same_hand [OF i]) auto
next
  case (wrote ts t p res as n st err res' st')
  then show ?case by (intro pays_inv_drop [OF pays_inv_same [OF _ write_state_same]]) auto
next
  case (again_down ts t p res as n st res' st')
  then show ?case by (intro pays_inv_drop [OF pays_inv_same [OF _ write_state_same]]) auto
next
  case (again ts t p res as n st res' st' a st'')
  have i: "pays_inv (ts, st')" by (rule pays_inv_same [OF again(5) write_state_same [OF again(2)]])
  note j = pays_inv_find [OF i again(4)]
  obtain cs where ok: "list_ok st' cs" using i by (rule pays_invE)
  have "phase_ok (held ts st') st' (ts t)" using i unfolding pays_inv_def by blast
  then have "phase_ok (held ts st'') st'' (Writing p res' (a # as))"
    using again(1) find_active_found(1) [OF ok again(4)] j(2) by simp
  then show ?case using again(1) by (intro pays_inv_same_hand [OF j(1)]) auto
next
  case (mark ts t a as st st')
  then show ?case by (intro pays_inv_drop [OF pays_inv_mark]) auto
next
  case (finish ts t st)
  then show ?case by (intro pays_inv_drop) auto
next
  case (connection st r st' ts)
  show ?case by (rule pays_inv_same [OF connection(2) db_connection_up_same [OF connection(1)]])
qed

lemma pays_reachable_inv: "pays_reachable ln c \<Longrightarrow> pays_inv c"
proof (induction rule: pays_reachable.induct)
  case (start st host name user password r st')
  let ?nil = "\<lparr>sq_items = [], sq_pos = 0, sq_gone = []\<rparr>"
  let ?st = "st\<lparr>pd_host := host, pd_name := name, pd_user := user, pd_password := password, pd_down := True, pd_active := ?nil, pd_cash := ?nil\<rparr>"
  have up: "db_connection_up ln ?st = (r, st')" using start(2) by (simp add: db_init_def Let_def)
  have "pays_inv (\<lambda>_. Idle, ?st)"
    using start(1) by (intro pays_invI [of _ "[]" _ "[]"]) (auto simp: list_ok_def cash_ok_def held_def)
  then show ?case by (rule pays_inv_same [OF _ db_connection_up_same [OF up]])
next
  case (step c d)
  then show ?case using pays_step_inv by blast
qed

text \<open>
  C13: however the steps of the threads interleave, no payment is in the hands of two threads: while a thread
  works on it or writes its result, it has a record in progress, and \<open>DBGetNextPay\<close> never hands it out.
\<close>

theorem payments_in_one_hand:
  assumes "pays_reachable ln (ts, st)"
  shows "\<forall>t i. hand (ts t) = Some i \<longrightarrow> in_progress st i \<and> (\<forall>u. hand (ts u) = Some i \<longrightarrow> u = t)
     \<and> (\<forall>n p st'. ts u = Idle \<and> db_get_next_pay ln n st = Some (Some p, st') \<longrightarrow> sp_id p \<noteq> i)"
proof (intro allI impI conjI)
  have inv: "pays_inv (ts, st)" by (rule pays_reachable_inv [OF assms])
  fix t i assume t: "hand (ts t) = Some i"
  have "i \<in> held ts st" using t by (auto simp: held_def)
  then show "in_progress st i" using inv by (auto simp: pays_inv_def)
  show "v = t" if "hand (ts v) = Some i" for v using inv t that unfolding pays_inv_def by blast
  fix n p st' assume n: "ts u = Idle \<and> db_get_next_pay ln n st = Some (Some p, st')"
  have "pays_step ln (ts, st) (ts(u := Working p), st')" using n by (intro next_some) auto
  then have "pays_inv (ts(u := Working p), st')" by (rule pays_step_inv [OF _ inv])
  then have one: "v = w" if "hand ((ts(u := Working p)) v) = Some j" "hand ((ts(u := Working p)) w) = Some j" for v w j
    using that unfolding pays_inv_def prod.case by blast
  have "u \<noteq> t" using n t by auto
  then show "sp_id p \<noteq> i" using one [of u i t] t by auto
qed

section \<open>Examples\<close>

definition demo_row :: "string option list" where
  "demo_row = [Some ''7'', Some ''1'', None, None, Some ''2'', None, Some ''3'', Some ''4'', Some ''0'', Some ''0'', Some ''0'', None, None, None]"

definition demo_codes :: sql_codes where
  "demo_codes = \<lparr>er_parse_error = 1064, er_bad_field_error = 1054, er_empty_query = 1065, er_no_such_table = 1146,
     er_dup_entry = 1062, cr_server_gone_error = 2006, cr_server_lost = 2013\<rparr>"

definition demo_ops :: "(string \<Rightarrow> 'w \<Rightarrow> int \<times> 'w) \<Rightarrow> int \<Rightarrow> 'w sql_ops" where
  "demo_ops query err = \<lparr>sq_query = query, sq_errno = (\<lambda>w. err), sq_close = (\<lambda>w. w), sq_init = (\<lambda>w. w),
     sq_connect = (\<lambda>h u p d w. (True, w)), sq_ping = (\<lambda>w. w)\<rparr>"

text \<open>A database that always returns the same payment; statements that change something answer as given.\<close>

definition demo_link :: "(string \<Rightarrow> 'w \<Rightarrow> int \<times> 'w) \<Rightarrow> (string \<Rightarrow> 'w \<Rightarrow> int \<times> 'w) \<Rightarrow> int \<Rightarrow> 'w db_link" where
  "demo_link rd wr err = \<lparr>dl_read = demo_ops rd 0, dl_write = demo_ops wr err, dl_check = demo_ops (\<lambda>q w. (0, w)) 0,
     dl_codes = demo_codes, dl_rows = (\<lambda>w. Some [demo_row]), dl_check_rows = (\<lambda>w. None), dl_sleep = (\<lambda>t w. w),
     dl_atof = (\<lambda>s. Finite False 0 0)\<rparr>"

definition demo_db :: "'w \<Rightarrow> 'w pay_db" where
  "demo_db w = \<lparr>pd_world = w, pd_down = False, pd_any_results = False, pd_accept = True,
     pd_active = \<lparr>sq_items = [], sq_pos = 0, sq_gone = []\<rparr>, pd_records = Map.empty, pd_free = 0,
     pd_cash = \<lparr>sq_items = [], sq_pos = 0, sq_gone = []\<rparr>, pd_select = [], pd_conditions = [], pd_host = [], pd_user = [],
     pd_password = [], pd_name = [], pd_attempts = 0, pd_time = 5\<rparr>"

definition demo_pay :: server_pay where
  "demo_pay = spay.extend (compile_new_pay 7 1 2 None None None 3 0 (float_of_int 0) (float_of_int 0) (Finite False 0 0)
     (Finite False 0 0) (Finite False 0 0)) \<lparr>sv_conv_sub = None\<rparr>"

definition failing_link :: "unit db_link" where
  "failing_link = demo_link (\<lambda>q w. (0, w)) (\<lambda>q w. (1, w)) 5"

text \<open>
  A payment that succeeded while the statements failed is taken for done by the list, and for new by the
  database: it is handed out, and performed, again.
\<close>

lemma failed_statement_pays_twice:
  "(do { (p, st1) \<leftarrow> db_get_next_pay failing_link 1 (demo_db ());
         pay \<leftarrow> p;
         (e, _, st2) \<leftarrow> db_set_state failing_link (\<lambda>p r. 0) 1 pay
            (pay_result RESULT_SUCESS 0 None None) st1;
         (q, st3) \<leftarrow> db_get_next_pay failing_link 1 st2;
         Some (map_option sp_id p, e, map_option sp_id q) }) = Some (Some 7, 1, Some 7)"
  by code_simp

lemma handed_out_some: "(do { (p, st) \<leftarrow> x; Some (map_option f p) }) = Some (Some y) \<Longrightarrow> \<exists>p st. x = Some (Some p, st)"
  by (cases x) auto

theorem payments_in_one_hand_witness:
  "\<exists>ts st p. pays_reachable failing_link (ts, st) \<and> ts 0 = Working p \<and> in_progress st (sp_id p)"
proof -
  have "db_init failing_link True [] [] [] [] (demo_db ()) = (0, demo_db ())"
    by (simp add: db_init_def db_connection_up_def db_connect_def db_query_def my_simple_db_query_def failing_link_def demo_link_def
        demo_ops_def demo_db_def demo_codes_def)
  then have 1: "pays_reachable failing_link (\<lambda>_. Idle, demo_db ())" by (rule pays_reachable.start [rotated]) (simp add: demo_db_def)
  have "(do { (p, st) \<leftarrow> db_get_next_pay failing_link 1 (demo_db ()); Some (map_option sp_id p) }) = Some (Some 7)" by code_simp
  then obtain p st where 2: "db_get_next_pay failing_link 1 (demo_db ()) = Some (Some p, st)"
    by (elim handed_out_some [elim_format] exE)
  let ?ts = "(\<lambda>_. Idle)(0 := Working p)"
  have 3: "pays_reachable failing_link (?ts, st)" using next_some [OF _ 2, of "\<lambda>_. Idle" 0] 1 pays_reachable.step by blast
  have h: "hand (?ts 0) = Some (sp_id p)" "?ts 0 = Working p" by simp_all
  have "in_progress st (sp_id p)"
    using payments_in_one_hand [OF 3, of 1, THEN spec [of _ 0], THEN spec [of _ "sp_id p"]] h(1) by blast
  then show ?thesis using 3 h(2) by blast
qed

end
