(* ===== verification/Server_Db_Results.thy ===== *)
theory Server_Db_Results
  imports Server_Db_Laws
begin

text \<open>
  What the database side of the payment server writes and when it returns: which statements a result causes,
  which rows of a block become payments, and that neither handing out payments nor restoring the connection
  runs forever.
\<close>

section \<open>Statements\<close>

text \<open>A client library that records every statement, whatever it answers.\<close>

definition recording :: "string list db_link \<Rightarrow> bool" where
  "recording ln \<longleftrightarrow> (\<forall>c\<in>{dl_read ln, dl_write ln, dl_check ln}.
       (\<forall>q w. snd (sq_query c q w) = w @ [q]) \<and> (\<forall>w. sq_close c w = w \<and> sq_init c w = w \<and> sq_ping c w = w)
       \<and> (\<forall>h u p d w. snd (sq_connect c h u p d w) = w)) \<and> (\<forall>t w. dl_sleep ln t w = w)"

definition issued :: "string set \<Rightarrow> string list pay_db \<Rightarrow> string list pay_db \<Rightarrow> bool" where
  "issued Q st st' \<longleftrightarrow> (\<exists>qs. pd_world st' = pd_world st @ qs \<and> set qs \<subseteq> Q)"

lemma issued_refl [simp]: "issued Q st st"
  by (simp add: issued_def)

lemma issued_trans: "issued Q a b \<Longrightarrow> issued Q b c \<Longrightarrow> issued Q a c"
  unfolding issued_def by (metis append.assoc le_sup_iff set_append)

lemma issued_mono: "issued P a b \<Longrightarrow> P \<subseteq> Q \<Longrightarrow> issued Q a b"
  unfolding issued_def by blast

lemma issued_world: "pd_world st' = pd_world st \<Longrightarrow> issued Q st st'"
  by (simp add: issued_def)

lemma recording_query: "recording ln \<Longrightarrow> c \<in> {dl_read, dl_write, dl_check} \<Longrightarrow> snd (sq_query (c ln) q w) = w @ [q] \<and> sq_ping (c ln) w = w"
  by (auto simp: recording_def)

lemma db_query_issued:
  assumes "recording ln" "c \<in> {dl_read, dl_write, dl_check}" "db_query c ln q st = (r, st')"
  shows "issued {q} st st'"
proof -
  note c = recording_query [OF assms(1,2)]
  obtain e w where 1: "sq_query (c ln) q (pd_world st) = (e, w)" by fastforce
  then have w: "w = pd_world st @ [q]" using c [of q "pd_world st"] by simp
  obtain e2 w2 where 2: "sq_query (c ln) q w = (e2, w2)" by fastforce
  then have w2: "w2 = w @ [q]" using c [of q w] by simp
  have "pd_world st' = w \<or> pd_world st' = w2"
    using assms(3) 1 2 c by (auto simp: db_query_def my_simple_db_query_def Let_def split: if_splits)
  then show ?thesis by (auto simp: issued_def w w2)
qed

lemma db_connection_up_issued:
  assumes "recording ln" "db_connection_up ln st = (r, st')"
  shows "issued {''set names koi8r''} st st'"
proof -
  have con: "pd_world s' = pd_world s" if "c \<in> {dl_read, dl_write, dl_check}" "db_connect c ln s = (b, s')" for c s b s'
  proof -
    have "snd (sq_connect (c ln) h u p d w) = w" for h u p d w using assms(1) that(1) by (auto simp: recording_def)
    then show ?thesis using that(2) by (auto simp: db_connect_def split: prod.splits) (metis snd_conv)
  qed
  let ?st0 = "st\<lparr>pd_world := sq_init (dl_check ln) (sq_init (dl_write ln) (sq_init (dl_read ln) (pd_world st)))\<rparr>"
  have 0: "pd_world ?st0 = pd_world st" using assms(1) by (simp add: recording_def)
  obtain ok1 st1 where 1: "db_connect dl_read ln ?st0 = (ok1, st1)" by fastforce
  obtain ok2 st2 where 2: "db_connect dl_write ln st1 = (ok2, st2)" by fastforce
  obtain ok3 st3 where 3: "db_connect dl_check ln st2 = (ok3, st3)" by fastforce
  obtain r4 st4 where 4: "db_query dl_write ln ''set names koi8r'' st3 = (r4, st4)" by fastforce
  obtain r5 st5 where 5: "db_query dl_read ln ''set names koi8r'' st4 = (r5, st5)" by fastforce
  obtain r6 st6 where 6: "db_query dl_check ln ''set names koi8r'' st5 = (r6, st6)" by fastforce
  have w: "pd_world st3 = pd_world st" using con [OF _ 1] con [OF _ 2] con [OF _ 3] 0 by simp
  have "issued {''set names koi8r''} st3 st6"
    using db_query_issued [OF assms(1) _ 4] db_query_issued [OF assms(1) _ 5] db_query_issued [OF assms(1) _ 6]
    by (auto intro: issued_trans)
  then have "issued {''set names koi8r''} st st6" using w by (simp add: issued_def)
  then show ?thesis using assms(2) 1 2 3 4 5 6 w
    by (auto simp: db_connection_up_def issued_def split: if_splits)
qed

lemma down_world [simp]: "recording ln \<Longrightarrow> pd_world (db_connection_down ln st) = pd_world st"
  by (simp add: db_connection_down_def recording_def)

lemma fix_loop_issued: "recording ln \<Longrightarrow> fix_loop ln n made r st = Some (r', st') \<Longrightarrow> issued {''set names koi8r''} st st'"
proof (induction ln n made r st rule: fix_loop.induct)
  case (2 ln n made r st)
  show ?case
  proof (cases "r \<noteq> 0 \<and> (made < pd_attempts st \<or> pd_attempts st < 0)")
    case True
    let ?d = "db_connection_down ln (st\<lparr>pd_world := dl_sleep ln (pd_time st) (pd_world st)\<rparr>)"
    obtain r1 st1 where u: "db_connection_up ln ?d = (r1, st1)" by fastforce
    have "pd_world ?d = pd_world st" using 2(2) by (simp add: recording_def)
    then have "issued {''set names koi8r''} st st1" using db_connection_up_issued [OF 2(2) u] by (simp add: issued_def)
    then show ?thesis using 2 True u by (auto intro: issued_trans)
  qed (use 2 in auto)
qed simp

lemma db_fix_connection_issued:
  assumes "recording ln" "db_fix_connection ln n err st = Some (r, st')"
  shows "issued {''set names koi8r''} st st'"
proof (cases "db_connection_up ln (db_connection_down ln st)")
  case (Pair r1 st1)
  have 1: "issued {''set names koi8r''} st st1" using db_connection_up_issued [OF assms(1) Pair] assms(1) by (simp add: issued_def)
  have "issued {''set names koi8r''} st s" if "fix_loop ln n 1 r1 st1 = Some (r2, s)" for r2 s
    using issued_trans [OF 1 fix_loop_issued [OF assms(1) that]] .
  then show ?thesis using assms Pair
    by (auto simp: db_fix_connection_def issued_def split: if_splits)
qed

lemma query_if_issued:
  "recording ln \<Longrightarrow> query_if b ln q (e, st) = (r, st') \<Longrightarrow> (b \<Longrightarrow> q \<in> Q) \<Longrightarrow> issued Q st st'"
  by (auto simp: query_if_def split: if_splits intro: issued_mono [OF db_query_issued])

text \<open>The statements a result may cause.\<close>

definition state_queries :: "int \<Rightarrow> spay_result \<Rightarrow> string set" where
  "state_queries i res = (case state_statements i res of (q, l, b, code) \<Rightarrow>
     {''set names koi8r''} \<union> (if code = RESULT_DO_NOTHING then {} else {q}) \<union> (if b then {l} else {})
     \<union> (if code = RESULT_SUCESS then {ext_statement i} else {}))"

lemma write_state_issued:
  assumes "recording ln" "write_state ln n i res st = Some (err, res', st')"
  shows "issued (state_queries i res) st st'" "res' = res\<lparr>pr_code := snd (snd (snd (state_statements i res)))\<rparr>"
proof -
  obtain q l b code where s: "state_statements i res = (q, l, b, code)" by (cases "state_statements i res") auto
  obtain e1 st1 where 1: "query_if (\<not> (code = RESULT_SAVE_STATE \<and> pr_sleep res = 0) \<and> code \<noteq> RESULT_DO_NOTHING) ln q (0, st) = (e1, st1)"
    by fastforce
  obtain e2 st2 where 2: "query_if b ln l (e1, st1) = (e2, st2)" by fastforce
  obtain e3 st3 where 3: "query_if (code = RESULT_SUCESS) ln (ext_statement i) (e2, st2) = (e3, st3)" by fastforce
  have "issued (state_queries i res) st st1" "issued (state_queries i res) st1 st2" "issued (state_queries i res) st2 st3"
    by (rule query_if_issued [OF assms(1) 1], simp add: state_queries_def s,
        rule query_if_issued [OF assms(1) 2], simp add: state_queries_def s,
        rule query_if_issued [OF assms(1) 3], simp add: state_queries_def s)
  then have i: "issued (state_queries i res) st st3" by (blast intro: issued_trans)
  have "{''set names koi8r''} \<subseteq> state_queries i res" by (simp add: state_queries_def s)
  then have "issued (state_queries i res) st st'" if "db_fix_connection ln n e st3 = Some (r, st')" for e r
    using issued_trans [OF i issued_mono [OF db_fix_connection_issued [OF assms(1) that]]] by blast
  then show "issued (state_queries i res) st st'" "res' = res\<lparr>pr_code := snd (snd (snd (state_statements i res)))\<rparr>"
    using assms(2) i unfolding write_state_def s prod.case 1 2 3 by (auto split: if_splits)
qed

lemma state_queries_again:
  "state_queries i (res\<lparr>pr_code := snd (snd (snd (state_statements i res)))\<rparr>) \<subseteq> state_queries i res"
proof (cases "snd (snd (snd (state_statements i res))) = pr_code res")
  case True
  then show ?thesis by simp
next
  case False
  then have c: "snd (snd (snd (state_statements i res))) = RESULT_DO_NOTHING"
    by (simp add: state_statements_def Let_def state_codes split: if_splits)
  have "state_queries i (res\<lparr>pr_code := RESULT_DO_NOTHING\<rparr>) = {''set names koi8r''}"
    by (simp add: state_queries_def state_statements_def Let_def state_codes)
  then show ?thesis unfolding c by (auto simp: state_queries_def split: prod.splits)
qed

lemma find_active_world: "find_active i st = Some (x, st') \<Longrightarrow> pd_world st' = pd_world st"
  by (auto simp: find_active_def split: Option.bind_splits)

lemma mark_done_world: "mark_done a st = Some st' \<Longrightarrow> pd_world st' = pd_world st"
  by (auto simp: mark_done_def)

lemma db_set_state_issued:
  "recording ln \<Longrightarrow> db_set_state ln tell n pay res st = Some (e, res', st') \<Longrightarrow> issued (state_queries (sp_id pay) res) st st'"
proof (induction n arbitrary: res st e res' st')
  case (Suc n)
  let ?Q = "state_queries (sp_id pay) res"
  show ?case
  proof (cases "sp_test pay \<noteq> NO_TEST \<or> pd_down st")
    case True
    then show ?thesis using Suc.prems by (auto split: if_splits)
  next
    case False
    obtain x st1 where f: "find_active (sp_id pay) st = Some (x, st1)" using Suc.prems(2) False by (auto split: Option.bind_splits)
    show ?thesis
    proof (cases x)
      case None
      then show ?thesis using Suc.prems(2) False f find_active_world [OF f] by (auto intro: issued_world)
    next
      case (Some a)
      obtain err res1 st2 where w: "write_state ln n (sp_id pay) res st1 = Some (err, res1, st2)"
        using Suc.prems(2) False f Some by (auto split: Option.bind_splits)
      obtain err2 res2 st3 where r: "(if err = DB_CONNECTION_FIXED then db_set_state ln tell n pay res1 st2 else Some (err, res1, st2))
           = Some (err2, res2, st3)" "mark_done a st3 = Some st'"
        using Suc.prems(2) False f Some w by (auto split: Option.bind_splits if_splits)
      have 1: "issued ?Q st st2" using write_state_issued(1) [OF Suc.prems(1) w] find_active_world [OF f] by (simp add: issued_def)
      have "issued ?Q st2 st3"
      proof (cases "err = DB_CONNECTION_FIXED")
        case True
        then have "issued (state_queries (sp_id pay) res1) st2 st3" using Suc.IH [OF Suc.prems(1)] r(1) by simp
        then show ?thesis using state_queries_again write_state_issued(2) [OF Suc.prems(1) w] by (auto intro: issued_mono)
      next
        case False
        then show ?thesis using r(1) by simp
      qed
      then show ?thesis using issued_trans [OF issued_trans [OF 1] issued_world [OF mark_done_world [OF r(2)]]] by blast
    qed
  qed
qed simp

text \<open>What a statement says about the payment.\<close>

definition completes :: "string \<Rightarrow> bool" where
  "completes q \<longleftrightarrow> starts_with ''update pays_main set gstatus=3000'' q \<or> starts_with ''insert into pays_ext'' q"

lemma starts_with_take: "length p \<le> n \<Longrightarrow> starts_with p (take n s) = starts_with p s"
proof (induction p s arbitrary: n rule: starts_with.induct)
  case (3 p ps c s)
  then show ?case by (cases n) auto
qed simp_all

lemma completes_statements:
  "\<not> completes ''set names koi8r''" "\<not> completes (log_note ''insert delayed'' i sender note)" "\<not> completes (log_note ''insert'' i sender note)"
  "completes (ext_statement i)"
  "completes (update_main what i) = starts_with ''gstatus=3000'' (what @ '' where id='' @ show_int i)"
  by (simp_all add: completes_def log_note_def ext_statement_def update_main_def snprintf_into_def starts_with_take del: take_append)

text \<open>
  C14: whatever the database answers, and however often the connection is lost and restored, a payment is completed in
  the database only when its result is success, and every statement but the encoding is one about this payment.
\<close>

theorem only_success_completes:
  assumes "recording ln" "db_set_state ln tell n pay res st = Some (e, res', st')"
  shows "\<exists>qs. pd_world st' = pd_world st @ qs \<and> ((\<exists>q\<in>set qs. completes q) \<longrightarrow> pr_code res = RESULT_SUCESS)
     \<and> set qs \<subseteq> state_queries (sp_id pay) res"
proof -
  obtain qs where q: "pd_world st' = pd_world st @ qs" "set qs \<subseteq> state_queries (sp_id pay) res"
    using db_set_state_issued [OF assms] by (auto simp: issued_def)
  have "\<not> completes q" if "q \<in> state_queries (sp_id pay) res" "pr_code res \<noteq> RESULT_SUCESS" for q
    using that by (auto simp: state_queries_def state_statements_def Let_def completes_statements state_codes split: if_splits)
  then show ?thesis using q by blast
qed

text \<open>
  A code the server does not know is announced as a failure in the log, but the payment is left as it is: the code it
  is replaced by is the number of \<open>RESULT_DO_NOTHING\<close>.
\<close>

lemma unknown_code_not_failed:
  "state_queries i (pay_result 42 0 None None) = {''set names koi8r'', log_note ''insert delayed'' i [] wrong_code_note}"
  by (simp add: state_queries_def state_statements_def pay_result_def state_codes)

definition recording_link :: "string list db_link" where
  "recording_link = (demo_link (\<lambda>q w. (0, w @ [q])) (\<lambda>q w. (0, w @ [q])) 0)\<lparr>dl_check := demo_ops (\<lambda>q w. (0, w @ [q])) 0\<rparr>"

lemma recording_recording_link: "recording recording_link"
  by (simp add: recording_def recording_link_def demo_link_def demo_ops_def)

lemma demo_pay_fields [simp]: "sp_id demo_pay = 7" "sp_test demo_pay = NO_TEST"
  by (simp_all add: demo_pay_def compile_new_pay_def spay.defs NO_TEST_def)

definition one_active :: "'w \<Rightarrow> 'w pay_db" where
  "one_active w = (demo_db w)\<lparr>pd_active := \<lparr>sq_items = [Some 0], sq_pos = 0, sq_gone = []\<rparr>,
     pd_records := [0 \<mapsto> \<lparr>pc_id = 7, pc_account_id = 4, pc_provider_id = 2, pc_state = 0\<rparr>], pd_free := 1\<rparr>"

theorem only_success_completes_witness:
  "\<exists>r st' qs. db_set_state recording_link (\<lambda>p r. 0) 1 demo_pay (pay_result RESULT_FAILED 0 None None) (one_active [])
       = Some (0, r, st') \<and> pd_world st' = qs \<and> (\<forall>q\<in>set qs. \<not> completes q)"
proof -
  let ?r = "pay_result RESULT_FAILED 0 None None"
  have "\<exists>r st'. db_set_state recording_link (\<lambda>p r. 0) 1 demo_pay ?r (one_active []) = Some (0, r, st')"
    by (simp add: one_active_def demo_db_def find_active_def for_each_def seq_reset_def seq_next_def seq_at_def write_state_def
        state_statements_def pay_result_def state_codes query_if_def db_query_def my_simple_db_query_def recording_link_def
        demo_link_def demo_ops_def mark_done_def)
  then obtain r st' where s: "db_set_state recording_link (\<lambda>p r. 0) 1 demo_pay ?r (one_active []) = Some (0, r, st')" by blast
  have "pr_code ?r \<noteq> RESULT_SUCESS" "pd_world (one_active [] :: string list pay_db) = []"
    by (simp_all add: pay_result_def state_codes one_active_def demo_db_def)
  then show ?thesis using only_success_completes [OF recording_recording_link s] s by auto
qed

section \<open>Returning\<close>

lemma db_connection_up_zero: "db_connection_up ln st = (0, st') \<Longrightarrow> \<not> pd_down st'"
  by (auto simp: db_connection_up_def Let_def split: prod.splits if_splits)

lemma fix_loop_returns:
  "0 \<le> pd_attempts st \<Longrightarrow> pd_attempts st - made < int n \<Longrightarrow> 0 < n \<Longrightarrow> (r = 0 \<longrightarrow> \<not> pd_down st)
    \<Longrightarrow> \<exists>r' st'. fix_loop ln n made r st = Some (r', st') \<and> (r' = 0 \<longrightarrow> \<not> pd_down st')"
proof (induction n arbitrary: made r st)
  case 0
  then show ?case by simp
next
  case (Suc n)
  show ?case
  proof (cases "r \<noteq> 0 \<and> made < pd_attempts st")
    case True
    let ?d = "db_connection_down ln (st\<lparr>pd_world := dl_sleep ln (pd_time st) (pd_world st)\<rparr>)"
    obtain r1 st1 where u: "db_connection_up ln ?d = (r1, st1)" by fastforce
    have "pd_attempts st1 = pd_attempts st" using db_connection_up_same [OF u] by (simp add: same_pays_def db_connection_down_def)
    then show ?thesis using Suc True u db_connection_up_zero [of ln ?d st1] by auto
  qed (use Suc.prems in auto)
qed

text \<open>
  Restoring the connection ends, after at most the configured number of attempts when it is not negative: it
  answers that there was no error, that the connection is restored, and then it is up, or that it is not.
\<close>

lemma reconnect_returns:
  assumes "0 \<le> pd_attempts st" "pd_attempts st \<le> int n" "0 < n"
  shows "\<exists>r st'. db_fix_connection ln n err st = Some (r, st') \<and> same_pays st st'
     \<and> (r = 0 \<and> err = 0 \<or> r = DB_CONNECTION_FIXED \<and> \<not> pd_down st' \<or> r = 1)"
proof -
  obtain r1 st1 where u: "db_connection_up ln (db_connection_down ln st) = (r1, st1)" by fastforce
  have "pd_attempts st1 = pd_attempts st" using db_connection_up_same [OF u] by (simp add: same_pays_def db_connection_down_def)
  then obtain r2 st2 where l: "fix_loop ln n 1 r1 st1 = Some (r2, st2)" "r2 = 0 \<longrightarrow> \<not> pd_down st2"
    using fix_loop_returns [of st1 1 n r1 ln] assms u db_connection_up_zero [of ln "db_connection_down ln st" st1] by auto
  have "\<exists>r st'. db_fix_connection ln n err st = Some (r, st')
     \<and> (r = 0 \<and> err = 0 \<or> r = DB_CONNECTION_FIXED \<and> \<not> pd_down st' \<or> r = 1)"
    using u l by (auto simp: db_fix_connection_def)
  then show ?thesis using db_fix_connection_same by blast
qed

text \<open>
  The settings that the start and every reload leave have a negative number (\<open>ReloadConfigValues\<close> sets \<open>-1\<close> whatever the file says): then
  it ends when the database accepts connections again, within some number of attempts (\<open>comes_back\<close>).
\<close>

definition same_login :: "'w pay_db \<Rightarrow> 'w pay_db \<Rightarrow> bool" where
  "same_login st st' \<longleftrightarrow> pd_host st' = pd_host st \<and> pd_user st' = pd_user st \<and> pd_password st' = pd_password st
     \<and> pd_name st' = pd_name st \<and> pd_attempts st' = pd_attempts st \<and> pd_time st' = pd_time st"

fun comes_back :: "'w db_link \<Rightarrow> nat \<Rightarrow> 'w pay_db \<Rightarrow> bool" where
  "comes_back ln 0 st = False"
| "comes_back ln (Suc n) st =
     (case db_connection_up ln (db_connection_down ln st) of
        (r, st1) \<Rightarrow> r = 0 \<or> comes_back ln n (st1\<lparr>pd_world := dl_sleep ln (pd_time st1) (pd_world st1)\<rparr>))"

lemma fix_loop_back:
  "pd_attempts st < 0 \<Longrightarrow> (r = 0 \<longrightarrow> \<not> pd_down st)
    \<Longrightarrow> r = 0 \<or> comes_back ln n (st\<lparr>pd_world := dl_sleep ln (pd_time st) (pd_world st)\<rparr>)
    \<Longrightarrow> \<exists>st'. fix_loop ln (Suc n) made r st = Some (0, st') \<and> \<not> pd_down st'"
proof (induction n arbitrary: r st)
  case 0
  then show ?case by auto
next
  case (Suc n)
  show ?case
  proof (cases "r = 0")
    case False
    let ?d = "db_connection_down ln (st\<lparr>pd_world := dl_sleep ln (pd_time st) (pd_world st)\<rparr>)"
    obtain r1 st1 where u: "db_connection_up ln ?d = (r1, st1)" by fastforce
    have "pd_attempts st1 = pd_attempts st" using db_connection_up_same [OF u] by (simp add: same_pays_def db_connection_down_def)
    then show ?thesis using Suc.IH [of st1 r1] Suc.prems False u db_connection_up_zero [of ln ?d st1] by auto
  qed (use Suc.prems in auto)
qed

lemma reconnect_returns_back:
  assumes "pd_attempts st < 0" "comes_back ln n st"
  shows "\<exists>r st'. db_fix_connection ln n err st = Some (r, st')"
proof -
  obtain k where k: "n = Suc k" using assms(2) by (cases n) auto
  obtain r1 st1 where u: "db_connection_up ln (db_connection_down ln st) = (r1, st1)" by fastforce
  have a: "pd_attempts st1 = pd_attempts st" using db_connection_up_same [OF u] by (simp add: same_pays_def db_connection_down_def)
  obtain st2 where "fix_loop ln n 1 r1 st1 = Some (0, st2)"
    using fix_loop_back [of st1 r1 ln k 1] assms u a k db_connection_up_zero [of ln "db_connection_down ln st" st1] by auto
  then show ?thesis using u by (auto simp: db_fix_connection_def)
qed

text \<open>Restoring the connection ends, whatever the error was.\<close>

definition reconnect_ends :: "'w db_link \<Rightarrow> nat \<Rightarrow> 'w pay_db \<Rightarrow> bool" where
  "reconnect_ends ln n st \<longleftrightarrow> (\<forall>e s. same_login st s \<longrightarrow> db_fix_connection ln n e s \<noteq> None)"

lemma reconnect_endsI:
  assumes "0 < n" "0 \<le> pd_attempts st \<Longrightarrow> pd_attempts st \<le> int n"
    and "\<And>s. pd_attempts st < 0 \<Longrightarrow> same_login st s \<Longrightarrow> comes_back ln n s"
  shows "reconnect_ends ln n st"
  unfolding reconnect_ends_def
proof (intro allI impI)
  fix e s assume l: "same_login st s"
  then have a: "pd_attempts s = pd_attempts st" by (simp add: same_login_def)
  show "db_fix_connection ln n e s \<noteq> None"
  proof (cases "0 \<le> pd_attempts st")
    case True
    then show ?thesis using reconnect_returns [of s n ln e] assms(1,2) a by auto
  next
    case False
    then show ?thesis using reconnect_returns_back [of s ln n e] assms(3) [OF _ l] a by auto
  qed
qed

lemma reconnect_returns_example:
  "\<exists>r st'. db_fix_connection failing_link 1 2006 (demo_db ()) = Some (r, st') \<and> r \<noteq> 0"
  using reconnect_returns [of "demo_db ()" 1 failing_link 2006] by (auto simp: demo_db_def DB_CONNECTION_FIXED_def)

text \<open>With a negative number of attempts, a server that stays away keeps the thread, and both locks, forever.\<close>

lemma reconnect_never_returns:
  assumes "\<And>s. fst (db_connection_up ln s) \<noteq> 0" "pd_attempts st < 0"
  shows "db_fix_connection ln n (cr_server_gone_error (dl_codes ln)) st \<in> {None, Some (0, st)}"
proof -
  have "fix_loop ln n made r s = None" if "r \<noteq> 0" "pd_attempts s < 0" for made r s
    using that
  proof (induction n arbitrary: made r s)
    case (Suc n)
    let ?d = "db_connection_down ln (s\<lparr>pd_world := dl_sleep ln (pd_time s) (pd_world s)\<rparr>)"
    obtain r1 s1 where u: "db_connection_up ln ?d = (r1, s1)" by fastforce
    have "pd_attempts s1 = pd_attempts s" using db_connection_up_same [OF u] by (simp add: same_pays_def db_connection_down_def)
    then show ?case using Suc u assms(1) [of ?d] by simp
  qed simp
  moreover obtain r1 st1 where u: "db_connection_up ln (db_connection_down ln st) = (r1, st1)" by fastforce
  moreover have "pd_attempts st1 = pd_attempts st" using db_connection_up_same [OF u] by (simp add: same_pays_def db_connection_down_def)
  ultimately show ?thesis using assms(1) [of "db_connection_down ln st"] assms(2) by (simp add: db_fix_connection_def)
qed

section \<open>A block of payments\<close>

text \<open>The numbers that are new, each once, in order.\<close>

fun first_new :: "int set \<Rightarrow> int list \<Rightarrow> int list" where
  "first_new S [] = []"
| "first_new S (i # is) = (if i \<in> S then first_new S is else i # first_new (insert i S) is)"

definition active_ids :: "'w pay_db \<Rightarrow> int set" where
  "active_ids st = pc_id ` ran (pd_records st)"

definition cash_ids :: "'w pay_db \<Rightarrow> int option list" where
  "cash_ids st = map (map_option sp_id) (sq_items (pd_cash st))"

definition row_ok :: "string option list \<Rightarrow> bool" where
  "row_ok row \<longleftrightarrow> 14 \<le> length row \<and> row ! 0 \<noteq> None"

lemma row_ok_id: "row_ok row \<Longrightarrow> \<exists>i. row_id row = Some i"
  by (auto simp: row_ok_def row_id_def column_def)

lemma row_ok_pay: "row_ok row \<Longrightarrow> \<exists>r p. row_pay ln i row = Some (r, p)"
  by (auto simp: row_ok_def row_pay_def column_def Let_def)

lemma add_row_new:
  assumes inv: "pays_inv (ts, st)" and ok: "row_ok row" "row_id row = Some i"
  shows "\<exists>st'. add_row ln row (num, st) = Some (if i \<in> active_ids st then num else Suc num, st')
     \<and> active_ids st' = insert i (active_ids st) \<and> cash_ids st' = cash_ids st @ (if i \<in> active_ids st then [] else [Some i])"
proof -
  obtain as where l: "list_ok st as" using inv by (rule pays_invE)
  then obtain x st1 where f: "find_active i st = Some (x, st1)" using find_active_ok [OF l, of i] by blast
  note k = find_active_found(1) [OF l f] and same = pays_inv_find [OF inv f]
  show ?thesis
  proof (cases x)
    case None
    obtain r p where p: "row_pay ln i row = Some (r, p)" using row_ok_pay [OF ok(1)] by blast
    note ids = row_pay_ids [OF p]
    have new: "i \<notin> active_ids st" using k None by (auto simp: active_ids_def ran_def)
    obtain bs where "list_ok st1 bs" using same(1) by (rule pays_invE)
    then have "pd_free st1 \<notin> dom (pd_records st1)" by (auto simp: list_ok_def)
    then have "active_ids (add_pay r p st1) = insert i (active_ids st)"
      using ids same(2) by (simp add: active_ids_def add_pay_def ran_map_upd domIff)
    moreover have "cash_ids (add_pay r p st1) = cash_ids st @ [Some i]"
      using ids same(4) by (simp add: cash_ids_def add_pay_def seq_add_def)
    ultimately show ?thesis using f None p ok(2) new by (simp add: add_row_id)
  next
    case (Some a)
    then have "i \<in> active_ids st" using k by (auto simp: active_ids_def ran_def)
    moreover have "active_ids st1 = active_ids st" "cash_ids st1 = cash_ids st" using same(2,4) by (simp_all add: active_ids_def cash_ids_def)
    ultimately show ?thesis using f Some ok(2) by (auto simp: add_row_id insert_absorb)
  qed
qed

lemma add_rows_new:
  "pays_inv (ts, st) \<Longrightarrow> list_all row_ok rows \<Longrightarrow> map row_id rows = map Some is \<Longrightarrow>
     \<exists>st'. add_rows ln rows (num, st) = Some (num + length (first_new (active_ids st) is), st')
       \<and> cash_ids st' = cash_ids st @ map Some (first_new (active_ids st) is)"
proof (induction rows arbitrary: st num "is")
  case (Cons row rows)
  then obtain i js where i: "is = i # js" "row_id row = Some i" "map row_id rows = map Some js" by auto
  obtain st1 where 1: "add_row ln row (num, st) = Some (if i \<in> active_ids st then num else Suc num, st1)"
      "active_ids st1 = insert i (active_ids st)" "cash_ids st1 = cash_ids st @ (if i \<in> active_ids st then [] else [Some i])"
    using add_row_new [OF Cons.prems(1) _ i(2), of ln num] Cons.prems(2) by auto
  have "pays_inv (ts, st1)" by (rule pays_inv_row [OF Cons.prems(1) 1(1)])
  from Cons.IH [OF this _ i(3), of "if i \<in> active_ids st then num else Suc num"] Cons.prems(2) 1
  show ?case by (auto simp: i(1) insert_absorb)
qed simp

text \<open>
  C18: from every block the database returns, exactly the payments that are not in progress are taken, each once and
  in the order of the block, however often a payment is in it.
\<close>

theorem block_takes_new_payments:
  assumes "pays_reachable ln (ts, st)" "list_all row_ok rows" "map row_id rows = map Some is"
  shows "\<exists>st'. add_rows ln rows (0, st) = Some (length (first_new (active_ids st) is), st')
     \<and> cash_ids st' = cash_ids st @ map Some (first_new (active_ids st) is)"
  using add_rows_new [OF pays_reachable_inv [OF assms(1)] assms(2,3), of ln 0] by simp

lemma demo_reachable: "pays_reachable failing_link (\<lambda>_. Idle, demo_db ())"
proof -
  have "db_init failing_link True [] [] [] [] (demo_db ()) = (0, demo_db ())"
    by (simp add: db_init_def db_connection_up_def db_connect_def db_query_def my_simple_db_query_def failing_link_def demo_link_def
        demo_ops_def demo_db_def demo_codes_def)
  then show ?thesis by (rule pays_reachable.start [rotated]) (simp add: demo_db_def)
qed

theorem block_takes_new_payments_witness:
  "\<exists>st'. add_rows failing_link [demo_row, demo_row] (0, demo_db ()) = Some (1, st') \<and> cash_ids st' = [Some 7]"
proof -
  have "strtol10 ''7'' = 7" by (simp add: strtol10_def is_space_def is_digit_def digits_val_def digit_val_def clamp64_def)
  then have "row_id demo_row = Some 7" by (simp add: row_id_def demo_row_def column_def)
  then have "map row_id [demo_row, demo_row] = map Some [7, 7]" by simp
  from block_takes_new_payments [OF demo_reachable _ this] show ?thesis
    by (simp add: row_ok_def demo_row_def active_ids_def cash_ids_def demo_db_def)
qed

lemma clear_done_login: "clear_done n st = Some st' \<Longrightarrow> same_login st st'"
  unfolding same_login_def by (induction n arbitrary: st) (auto simp: Let_def split: Option.bind_splits if_splits prod.splits)

lemma db_query_login: "db_query conn ln q st = (r, st') \<Longrightarrow> same_login st st'"
  by (auto simp: db_query_def same_login_def split: prod.splits)

lemma row_ids: "list_all row_ok rows \<Longrightarrow> map row_id rows = map Some (map (the \<circ> row_id) rows)"
  by (induction rows) (auto dest: row_ok_id)

lemma hand_out_returns:
  assumes "pays_inv (ts, st)" "\<And>w row rows. dl_check_rows ln w = Some (row # rows) \<Longrightarrow> row \<noteq> []"
  shows "\<exists>x st'. hand_out ln st = Some (x, st')"
proof -
  have "\<exists>y s'. check_reqs ln p s = Some (y, s')" for p s
  proof -
    obtain e s1 where q: "db_query dl_check ln (check_select p) s = (e, s1)" by fastforce
    show ?thesis using assms(2) [of "pd_world s1"] q
      by (auto simp: check_reqs_def column_def Let_def split: option.split list.split)
  qed
  then have c: "\<exists>y s'. check_reqs ln p s = Some (y, s')" for p s by blast
  obtain tmp l where n: "seq_next (seq_reset (pd_cash st)) = (tmp, l)" by fastforce
  show ?thesis
  proof (cases tmp)
    case (Some p)
    then show ?thesis using n c [of p "st\<lparr>pd_cash := l\<rparr>"] by (auto simp: hand_out_def Let_def)
  qed (simp add: hand_out_def n)
qed

lemma fetch_pays_returns:
  assumes inv: "pays_inv (ts, st)" and n: "reconnect_ends ln n st"
    and rows: "\<And>w rows. dl_rows ln w = Some rows \<Longrightarrow> list_all row_ok rows"
  shows "\<exists>st'. fetch_pays ln n q st = Some st'"
proof -
  obtain as where l: "list_ok st as" using inv by (rule pays_invE)
  let ?s = "st\<lparr>pd_active := seq_reset (pd_active st)\<rparr>"
  have ls: "list_ok ?s as" "sq_pos (pd_active ?s) = 0" "length (sq_items (pd_active st)) + 0 = length as"
    using l by (simp_all add: list_ok_def seq_reset_def)
  obtain st1 where c: "clear_done (length (sq_items (pd_active st))) ?s = Some st1"
    using clear_done_ok [OF ls] by blast
  have i1: "pays_inv (ts, st1)" by (rule pays_inv_clear [OF inv c])
  obtain err st2 where d: "db_query dl_read ln q st1 = (err, st2)" by fastforce
  have i2: "pays_inv (ts, st2)" by (rule pays_inv_same [OF i1 db_query_same [OF d]])
  have a: "same_login st (st2\<lparr>pd_any_results := False\<rparr>)"
    using clear_done_login [OF c] db_query_login [OF d] by (simp add: same_login_def)
  have f: "\<exists>r st'. db_fix_connection ln n e (st2\<lparr>pd_any_results := False\<rparr>) = Some (r, st')" for e
    using n a by (auto simp: reconnect_ends_def)
  have r: "\<exists>k st'. add_rows ln rs (0, st2) = Some (k, st')" if "dl_rows ln (pd_world st2) = Some rs" for rs
    using add_rows_new [OF i2 rows [OF that] row_ids [OF rows [OF that]], of ln 0] by blast
  show ?thesis
  proof (cases "err = 0")
    case True
    then show ?thesis using c d r by (cases "dl_rows ln (pd_world st2)") (auto simp: fetch_pays_def)
  next
    case False
    then show ?thesis using c d f [of "sq_errno (dl_read ln) (pd_world st2)"]
      by (auto simp: fetch_pays_def Let_def)
  qed
qed

text \<open>
  C15: asking for the next payment returns, with a payment or without, once it has its locks: however the database answers, no freed
  record or missing column is touched, and the reconnecting ends: after the configured number of attempts, or, with the negative number
  that \<open>ReloadConfigValues\<close> leaves, when the database, which comes back within some number of attempts, accepts the connections. (A
  database that never comes back keeps the caller forever, \<open>reconnect_never_returns\<close>; waiting for the locks is the subject of
  \<open>Server_Db_Locks\<close>.)
\<close>

theorem next_payment_returns:
  assumes "pays_reachable ln (ts, st)"
    and "0 < n" "0 \<le> pd_attempts st \<Longrightarrow> pd_attempts st \<le> int n"
    and "\<And>s. pd_attempts st < 0 \<Longrightarrow> same_login st s \<Longrightarrow> comes_back ln n s"
    and "\<And>w rows. dl_rows ln w = Some rows \<Longrightarrow> list_all row_ok rows"
    and "\<And>w row rows. dl_check_rows ln w = Some (row # rows) \<Longrightarrow> row \<noteq> []"
  shows "\<exists>x st'. db_get_next_pay ln n st = Some (x, st')"
proof -
  have inv: "pays_inv (ts, st)" by (rule pays_reachable_inv [OF assms(1)])
  have n: "reconnect_ends ln n st" by (rule reconnect_endsI) (fact assms(2-4))+
  obtain st1 where f: "(if \<not> pd_any_results st \<and> \<not> pd_down st \<and> pd_accept st then fetch_pays ln n (pay_select st) st else Some st) = Some st1"
    using fetch_pays_returns [OF inv n, of "pay_select st"] assms(5) by (cases "\<not> pd_any_results st \<and> \<not> pd_down st \<and> pd_accept st") auto
  then have "pays_inv (ts, st1)" using inv pays_inv_fetch by (auto split: if_splits)
  from hand_out_returns [OF this assms(6)] show ?thesis using f by (auto simp: db_get_next_pay_def)
qed

text \<open>The example has the negative number of attempts, and a connection that is lost when the payments are asked for.\<close>

definition lost_link :: "unit db_link" where
  "lost_link = (demo_link (\<lambda>q w. (1, w)) (\<lambda>q w. (0, w)) 0)\<lparr>dl_read := demo_ops (\<lambda>q w. (1, w)) 2006\<rparr>"

definition endless_db :: "unit pay_db" where
  "endless_db = (demo_db ())\<lparr>pd_attempts := - 1\<rparr>"

lemma lost_up: "fst (db_connection_up lost_link s) = 0"
  by (simp add: db_connection_up_def db_connect_def lost_link_def demo_link_def demo_ops_def split: prod.split)

lemma lost_reachable: "pays_reachable lost_link (\<lambda>_. Idle, endless_db)"
proof -
  have "db_init lost_link True [] [] [] [] endless_db = (0, endless_db)"
    by (simp add: db_init_def db_connection_up_def db_connect_def db_query_def my_simple_db_query_def lost_link_def demo_link_def
        demo_ops_def demo_db_def demo_codes_def endless_db_def)
  then show ?thesis by (rule pays_reachable.start [rotated]) (simp add: endless_db_def demo_db_def)
qed

theorem next_payment_returns_witness: "\<exists>x st'. db_get_next_pay lost_link 1 endless_db = Some (x, st')"
proof (rule next_payment_returns [OF lost_reachable])
  show "comes_back lost_link 1 s" for s
    using lost_up [of "db_connection_down lost_link s"] by (cases "db_connection_up lost_link (db_connection_down lost_link s)") simp
qed (auto simp: endless_db_def demo_db_def lost_link_def demo_link_def row_ok_def demo_row_def)

end
