(* ===== verification/Server_Ignore.thy ===== *)
theory Server_Ignore
  imports Server_List Payment_Model
begin

unbundle bit_operations_syntax

text \<open>
  The lists of operators and engines whose payments are not selected, and the condition of the statement they
  give (\<open>AddToIgnoreList\<close> to \<open>GetIgnoreList\<close> and \<open>CompileAdditionalSelectCase\<close> of \<open>legacy/payguide/src/db.cpp\<close>).
  The condition lives in an array of 512 bytes: writing past its end has no value. The semaphore around every
  operation is left out: each operation is one step.
\<close>

section \<open>The condition\<close>

definition strncat :: "nat \<Rightarrow> nat \<Rightarrow> string \<Rightarrow> string \<Rightarrow> string option" where
  "strncat capacity n dst src = (let r = dst @ take n src in if length r < capacity then Some r else None)"

fun condition_ids :: "int option list \<Rightarrow> string \<Rightarrow> string option" where
  "condition_ids [] s = Some s"
| "condition_ids (x # xs) s =
     (case x of
        None \<Rightarrow> condition_ids xs s
      | Some t \<Rightarrow> Option.bind (strncat 512 511 s (snprintf_into 15 (show_int t @ (if xs \<noteq> [] then '','' else '') ''))))
                    (condition_ids xs))"

definition condition_list :: "string \<Rightarrow> int seq \<Rightarrow> string \<Rightarrow> string option" where
  "condition_list header l s =
     (if sq_items l = [] then Some s else Option.bind (strncat 512 511 s header) (condition_ids (sq_items l)))"

section \<open>Operations\<close>

datatype ignore_kind = Operators | Engines

record ignore_lists =
  il_list :: "ignore_kind \<Rightarrow> int seq"
  il_conditions :: string

definition compile_additional_select_case :: "ignore_lists \<Rightarrow> ignore_lists option" where
  "compile_additional_select_case st = do {
     s \<leftarrow> condition_list ''and p.provider_id not in('' (il_list st Operators) [];
     t \<leftarrow> condition_list ''and p.pay_engine not in('' (il_list st Engines) s;
     Some (st\<lparr>il_conditions := t\<rparr>)
   }"

definition add_to_ignore_list :: "int \<Rightarrow> ignore_kind \<Rightarrow> ignore_lists \<Rightarrow> ignore_lists option" where
  "add_to_ignore_list i k st = compile_additional_select_case (st\<lparr>il_list := (il_list st)(k := seq_add (Some i) (il_list st k))\<rparr>)"

definition remove_matching :: "(int \<Rightarrow> bool) \<Rightarrow> ignore_kind \<Rightarrow> ignore_lists \<Rightarrow> ignore_lists option" where
  "remove_matching P k st = do {
     (_, l, _) \<leftarrow> for_each (\<lambda>e l s. Some (None :: unit option, (case e of None \<Rightarrow> l | Some t \<Rightarrow> if P t then seq_remove_this l else l), s))
       (il_list st k) ();
     compile_additional_select_case (st\<lparr>il_list := (il_list st)(k := l)\<rparr>)
   }"

definition remove_from_ignore_list :: "int \<Rightarrow> ignore_kind \<Rightarrow> ignore_lists \<Rightarrow> ignore_lists option" where
  "remove_from_ignore_list i = remove_matching (\<lambda>t. t = i)"

definition clear_ignore_list :: "ignore_kind \<Rightarrow> ignore_lists \<Rightarrow> ignore_lists option" where
  "clear_ignore_list = remove_matching (\<lambda>t. True)"

text \<open>The list as bytes: its length, then its elements; the buffer has \<open>buff_size\<close> bytes.\<close>

definition int_bytes :: "int \<Rightarrow> 8 word list" where
  "int_bytes i = map (\<lambda>k. word_of_int (i div 2 ^ (8 * k) mod 256)) [0, 1, 2, 3]"

fun put_ids :: "nat \<Rightarrow> 8 word list \<Rightarrow> int option list \<Rightarrow> (int \<times> 8 word list) option" where
  "put_ids cap out [] = Some (0, out)"
| "put_ids cap out (None # xs) = put_ids cap out xs"
| "put_ids cap out (Some t # xs) =
     (if cap < length out + 4 then None
      else if cap - 4 < length out + 4 then Some (- 1, out @ int_bytes t)
      else put_ids cap (out @ int_bytes t) xs)"

definition get_ignore_list :: "nat \<Rightarrow> int seq \<Rightarrow> (int \<times> 8 word list) option" where
  "get_ignore_list buff_size l =
     (if buff_size \<le> 4 then Some (- 1, [])
      else put_ids buff_size (int_bytes (int (length (sq_items l)))) (sq_items l))"

section \<open>The condition names the lists\<close>

fun comma_list :: "int list \<Rightarrow> string" where
  "comma_list [] = []"
| "comma_list [i] = show_int i"
| "comma_list (i # is) = show_int i @ '','' @ comma_list is"

definition not_in :: "string \<Rightarrow> int list \<Rightarrow> string" where
  "not_in column is = (if is = [] then [] else ''and '' @ column @ '' not in('' @ comma_list is @ '') '')"

definition ignored :: "ignore_kind \<Rightarrow> ignore_lists \<Rightarrow> int list" where
  "ignored k st = concat (map values_of (sq_items (il_list st k)))"

definition ignore_ok :: "ignore_lists \<Rightarrow> bool" where
  "ignore_ok st \<longleftrightarrow> (\<forall>k. sq_items (il_list st k) = map Some (ignored k st) \<and> (\<forall>i\<in>set (ignored k st). in_int32 i))
     \<and> il_conditions st = not_in ''p.provider_id'' (ignored Operators st) @ not_in ''p.pay_engine'' (ignored Engines st)"

lemma show_int32:
  assumes "in_int32 i"
  shows "length (show_int i) \<le> 11"
  using show_int_length [of 10 i] assms by (simp add: in_int32_def)

lemma strncat_Some: "strncat c n s t = Some r \<Longrightarrow> length t \<le> n \<Longrightarrow> r = s @ t"
  by (auto simp: strncat_def Let_def split: if_splits)

lemma condition_ids_text:
  "condition_ids (map Some is) s = Some r \<Longrightarrow> \<forall>i\<in>set is. in_int32 i \<Longrightarrow> is \<noteq> [] \<Longrightarrow> r = s @ comma_list is @ '') ''"
proof (induction "is" arbitrary: s rule: comma_list.induct)
  case (2 i)
  have "snprintf_into 15 (show_int i @ '') '') = show_int i @ '') ''" using show_int32 [of i] 2 by (simp add: snprintf_into_def)
  then show ?case using 2 show_int32 [of i] by (auto split: Option.bind_splits dest!: strncat_Some)
next
  case (3 i j js)
  have "snprintf_into 15 (show_int i @ '','') = show_int i @ '',''" using show_int32 [of i] 3 by (simp add: snprintf_into_def)
  moreover obtain t where t: "strncat 512 511 s (snprintf_into 15 (show_int i @ '','')) = Some t" "condition_ids (map Some (j # js)) t = Some r"
    using 3(2) by (auto split: Option.bind_splits)
  ultimately have "t = s @ show_int i @ '',''" using show_int32 [of i] 3(3) strncat_Some by force
  then have "condition_ids (map Some (j # js)) (s @ show_int i @ '','') = Some r" using t(2) by simp
  from 3(1) [OF this] 3(3) show ?case by simp
qed simp

lemma condition_list_text:
  assumes "condition_list (''and '' @ column @ '' not in('') l s = Some r" "sq_items l = map Some is" "\<forall>i\<in>set is. in_int32 i"
    and "length column \<le> 20"
  shows "r = s @ not_in column is"
proof (cases "is = []")
  case True
  then show ?thesis using assms by (simp add: condition_list_def not_in_def)
next
  case False
  then obtain t where t: "strncat 512 511 s (''and '' @ column @ '' not in('') = Some t" "condition_ids (map Some is) t = Some r"
    using assms(1,2) by (auto simp: condition_list_def split: Option.bind_splits)
  have "t = s @ ''and '' @ column @ '' not in(''" by (rule strncat_Some [OF t(1)]) (use assms(4) in simp)
  then show ?thesis using condition_ids_text [OF t(2) assms(3) False] False by (simp add: not_in_def)
qed

lemma compile_ok:
  assumes "compile_additional_select_case st = Some st'"
    and "\<And>k. sq_items (il_list st k) = map Some (ignored k st) \<and> (\<forall>i\<in>set (ignored k st). in_int32 i)"
  shows "ignore_ok st' \<and> il_list st' = il_list st"
proof -
  obtain s t where s: "condition_list ''and p.provider_id not in('' (il_list st Operators) [] = Some s"
      "condition_list ''and p.pay_engine not in('' (il_list st Engines) s = Some t" "st' = st\<lparr>il_conditions := t\<rparr>"
    using assms(1) by (auto simp: compile_additional_select_case_def split: Option.bind_splits)
  have "s = not_in ''p.provider_id'' (ignored Operators st)"
    using condition_list_text [of "''p.provider_id''" "il_list st Operators" "[]" s "ignored Operators st"] s(1) assms(2) by simp
  moreover have "t = s @ not_in ''p.pay_engine'' (ignored Engines st)"
    using condition_list_text [of "''p.pay_engine''" "il_list st Engines" s t "ignored Engines st"] s(2) assms(2) by simp
  moreover have "il_list st' = il_list st" "ignored k st' = ignored k st" for k using s(3) by (simp_all add: ignored_def)
  ultimately show ?thesis using s(3) assms(2) unfolding ignore_ok_def by simp
qed

section \<open>What removing does\<close>

text \<open>
  The loop counts a round for a removed element too, so it stops before the end by as many elements as it removed:
  \<open>r\<close> is that number.
\<close>

fun scan :: "(int \<Rightarrow> bool) \<Rightarrow> nat \<Rightarrow> int list \<Rightarrow> int list" where
  "scan P r [] = []"
| "scan P r (y # ys) = (if length (y # ys) \<le> r then y # ys else if P y then scan P (Suc r) ys else y # scan P r ys)"

lemma remove_loop_scan:
  assumes "sq_items l = map Some (ks @ ys)" "sq_pos l = length ks" "length ys \<le> n + r"
  shows "\<exists>l'. seq_each n (length ks + r) (\<lambda>e l s. Some (None :: unit option,
        (case e of None \<Rightarrow> l | Some t \<Rightarrow> if P t then seq_remove_this l else l), s)) l () = Some (None, l', ())
     \<and> sq_items l' = map Some (ks @ scan P r ys)"
  using assms
proof (induction n arbitrary: ks ys r l)
  case 0
  then show ?case by (cases ys) auto
next
  case (Suc n)
  show ?case
  proof (cases "length ys \<le> r")
    case True
    then show ?thesis using Suc.prems by (cases ys) auto
  next
    case False
    then obtain y zs where ys: "ys = y # zs" by (cases ys) auto
    have nx: "seq_next l = (Some y, l\<lparr>sq_pos := Suc (length ks)\<rparr>)"
      using seq_next_at [of l] Suc.prems(1,2) by (simp add: ys nth_append)
    show ?thesis
    proof (cases "P y")
      case True
      let ?l = "seq_remove_this (l\<lparr>sq_pos := Suc (length ks)\<rparr>)"
      have "sq_items ?l = map Some (ks @ zs)" "sq_pos ?l = length ks"
        using Suc.prems(1) by (simp_all add: ys seq_remove_this_def seq_remove_def drop_nth_def)
      from Suc.IH [OF this, of "Suc r"] show ?thesis using nx True False Suc.prems by (simp add: ys)
    next
      case False
      have "sq_items (l\<lparr>sq_pos := Suc (length ks)\<rparr>) = map Some ((ks @ [y]) @ zs)"
        "sq_pos (l\<lparr>sq_pos := Suc (length ks)\<rparr>) = length (ks @ [y])" using Suc.prems(1) by (simp_all add: ys)
      from Suc.IH [OF this, of r] show ?thesis using nx False \<open>\<not> length ys \<le> r\<close> Suc.prems by (simp add: ys)
    qed
  qed
qed

lemma remove_matching_scan:
  assumes "sq_items (il_list st k) = map Some is"
  shows "\<exists>l. remove_matching P k st = compile_additional_select_case (st\<lparr>il_list := (il_list st)(k := l)\<rparr>)
     \<and> sq_items l = map Some (scan P 0 is)"
  using remove_loop_scan [of "seq_reset (il_list st k)" "[]" "is" "length is" 0 P] assms
  by (auto simp: remove_matching_def for_each_def seq_reset_def)

lemma scan_subset: "set (scan P r is) \<subseteq> set is"
  by (induction P r "is" rule: scan.induct) auto

lemma scan_one: "i \<notin> set is \<Longrightarrow> scan (\<lambda>t. t = i) r is = is"
  by (induction "is") auto

lemma scan_removes: "distinct is \<Longrightarrow> scan (\<lambda>t. t = i) 0 is = removeAll i is"
  by (induction "is") (auto simp: scan_one)

lemma scan_all: "scan (\<lambda>t. True) r is = drop ((length is - r + 1) div 2) is"
proof (induction "is" arbitrary: r)
  case (Cons y ys)
  show ?case
  proof (cases "length (y # ys) \<le> r")
    case False
    then obtain d where "length ys = r + d" using le_Suc_ex [of r "length ys"] by auto
    then have "(length (y # ys) - r + 1) div 2 = Suc ((length ys - Suc r + 1) div 2)" by (cases d) auto
    then show ?thesis using Cons False by simp
  qed simp
qed simp

section \<open>Sequences of operations\<close>

datatype ignore_op = Ignore int ignore_kind | Unignore int ignore_kind | Clear_list ignore_kind

fun ignore_step :: "ignore_op \<Rightarrow> ignore_lists \<Rightarrow> ignore_lists option" where
  "ignore_step (Ignore i k) st = add_to_ignore_list i k st"
| "ignore_step (Unignore i k) st = remove_from_ignore_list i k st"
| "ignore_step (Clear_list k) st = clear_ignore_list k st"

fun op_int32 :: "ignore_op \<Rightarrow> bool" where
  "op_int32 (Ignore i k) \<longleftrightarrow> in_int32 i"
| "op_int32 _ \<longleftrightarrow> True"

lemma ignored_items: "sq_items (il_list st k) = map Some is \<Longrightarrow> ignored k st = is"
  by (simp add: ignored_def values_of_def comp_def)

text \<open>One list replaced, the condition compiled.\<close>

lemma compile_replaced:
  assumes "ignore_ok st" "sq_items l = map Some is" "\<forall>i\<in>set is. in_int32 i"
    and "compile_additional_select_case (st\<lparr>il_list := (il_list st)(k := l)\<rparr>) = Some st'"
  shows "ignore_ok st' \<and> ignored k st' = is \<and> (\<forall>j. j \<noteq> k \<longrightarrow> ignored j st' = ignored j st)"
proof -
  let ?s = "st\<lparr>il_list := (il_list st)(k := l)\<rparr>"
  have k: "ignored k ?s = is" by (rule ignored_items) (simp add: assms(2))
  have j: "ignored j ?s = ignored j st" if "j \<noteq> k" for j using that by (simp add: ignored_def)
  have "sq_items (il_list ?s j) = map Some (ignored j ?s) \<and> (\<forall>i\<in>set (ignored j ?s). in_int32 i)" for j
    using assms(1-3) k j [of j] by (cases "j = k") (auto simp: ignore_ok_def)
  from compile_ok [OF assms(4) this] have "ignore_ok st'" "il_list st' = il_list ?s" by auto
  then show ?thesis using k j by (auto simp: ignored_def)
qed

text \<open>
  C36: after every operation on the lists the condition excludes exactly the operators and engines in the lists.
  Adding appends; removing takes a number that is in a list once out and leaves the others in their order; but clearing leaves the
  second half of a list.
\<close>

theorem ignore_lists_follow:
  assumes "ignore_ok st" "op_int32 p" "ignore_step p st = Some st'"
  shows "ignore_ok st' \<and> (case p of
       Ignore i k \<Rightarrow> ignored k st' = ignored k st @ [i] \<and> (\<forall>j. j \<noteq> k \<longrightarrow> ignored j st' = ignored j st)
     | Unignore i k \<Rightarrow> (distinct (ignored k st) \<longrightarrow> ignored k st' = removeAll i (ignored k st)) \<and> (\<forall>j. j \<noteq> k \<longrightarrow> ignored j st' = ignored j st)
     | Clear_list k \<Rightarrow> ignored k st' = drop ((length (ignored k st) + 1) div 2) (ignored k st) \<and> (\<forall>j. j \<noteq> k \<longrightarrow> ignored j st' = ignored j st))"
proof (cases p)
  case (Ignore i k)
  have "sq_items (seq_add (Some i) (il_list st k)) = map Some (ignored k st @ [i])" "\<forall>j\<in>set (ignored k st @ [i]). in_int32 j"
    using assms(1,2) Ignore by (auto simp: ignore_ok_def seq_add_def)
  from compile_replaced [OF assms(1) this, of k st'] show ?thesis
    using assms(3) Ignore by (simp add: add_to_ignore_list_def)
next
  case (Unignore i k)
  have ok: "sq_items (il_list st k) = map Some (ignored k st)" "\<forall>j\<in>set (ignored k st). in_int32 j" using assms(1) by (auto simp: ignore_ok_def)
  obtain l where "compile_additional_select_case (st\<lparr>il_list := (il_list st)(k := l)\<rparr>) = Some st'"
      "sq_items l = map Some (scan (\<lambda>t. t = i) 0 (ignored k st))"
    using remove_matching_scan [OF ok(1), of "\<lambda>t. t = i"] assms(3) Unignore by (auto simp: remove_from_ignore_list_def)
  moreover have "\<forall>j\<in>set (scan (\<lambda>t. t = i) 0 (ignored k st)). in_int32 j" using scan_subset ok(2) by blast
  ultimately show ?thesis using compile_replaced [OF assms(1), of l _ k st'] Unignore scan_removes by auto
next
  case (Clear_list k)
  have ok: "sq_items (il_list st k) = map Some (ignored k st)" "\<forall>j\<in>set (ignored k st). in_int32 j" using assms(1) by (auto simp: ignore_ok_def)
  obtain l where "compile_additional_select_case (st\<lparr>il_list := (il_list st)(k := l)\<rparr>) = Some st'"
      "sq_items l = map Some (scan (\<lambda>t. True) 0 (ignored k st))"
    using remove_matching_scan [OF ok(1), of "\<lambda>t. True"] assms(3) Clear_list by (auto simp: clear_ignore_list_def)
  moreover have "\<forall>j\<in>set (scan (\<lambda>t. True) 0 (ignored k st)). in_int32 j" using scan_subset ok(2) by blast
  ultimately show ?thesis using compile_replaced [OF assms(1), of l _ k st'] Clear_list scan_all [of 0] by auto
qed

definition no_ignores :: ignore_lists where
  "no_ignores = \<lparr>il_list = (\<lambda>k. \<lparr>sq_items = [], sq_pos = 0, sq_gone = []\<rparr>), il_conditions = []\<rparr>"

lemma no_ignores_ok: "ignore_ok no_ignores" "ignored k no_ignores = []"
  by (simp_all add: ignore_ok_def no_ignores_def ignored_def not_in_def)

theorem ignore_lists_follow_witness:
  "\<exists>st'. ignore_step (Ignore 5 Operators) no_ignores = Some st' \<and> ignored Operators st' = [5]"
proof -
  have "show_int 5 = ''5''" by (simp add: show_int_def show_nat.simps digit_char_def)
  then obtain st' where s: "ignore_step (Ignore 5 Operators) no_ignores = Some st'"
    by (simp add: add_to_ignore_list_def no_ignores_def compile_additional_select_case_def condition_list_def seq_add_def
        strncat_def snprintf_into_def)
  have "op_int32 (Ignore 5 Operators)" by (simp add: in_int32_def)
  from ignore_lists_follow [OF no_ignores_ok(1) this s] s show ?thesis by (simp add: no_ignores_ok(2))
qed

section \<open>A list as bytes\<close>

fun bytes_int :: "8 word list \<Rightarrow> int" where
  "bytes_int [a, b, c, d] = (let u = uint a + 256 * uint b + 65536 * uint c + 16777216 * uint d in
     if u < 2147483648 then u else u - 4294967296)"
| "bytes_int _ = 0"

fun bytes_ints :: "nat \<Rightarrow> 8 word list \<Rightarrow> int list" where
  "bytes_ints 0 bs = []"
| "bytes_ints (Suc n) bs = bytes_int (take 4 bs) # bytes_ints n (drop 4 bs)"

text \<open>What the receiver reads: a length, then as many numbers.\<close>

definition read_ignore_list :: "8 word list \<Rightarrow> int list" where
  "read_ignore_list bs = bytes_ints (nat (bytes_int (take 4 bs))) (drop 4 bs)"

lemma int_bytes_length [simp]: "length (int_bytes i) = 4"
  by (simp add: int_bytes_def)

lemma byte_sum: "(i::int) mod 256 + 256 * (i div 256 mod 256) + 65536 * (i div 65536 mod 256) + 16777216 * (i div 16777216 mod 256) = i mod 4294967296"
proof -
  have "i mod (256 * 256) = 256 * (i div 256 mod 256) + i mod 256" by (rule zmod_zmult2_eq) simp
  moreover have "i mod (65536 * 256) = 65536 * (i div 65536 mod 256) + i mod 65536" by (rule zmod_zmult2_eq) simp
  moreover have "i mod (16777216 * 256) = 16777216 * (i div 16777216 mod 256) + i mod 16777216" by (rule zmod_zmult2_eq) simp
  ultimately show ?thesis by simp
qed

lemma bytes_int_bytes:
  assumes "in_int32 i"
  shows "bytes_int (int_bytes i) = i"
proof -
  have u: "uint (word_of_int (x mod 256) :: 8 word) = x mod 256" for x by (simp add: uint_word_of_int)
  have b: "int_bytes i = [word_of_int (i mod 256), word_of_int (i div 256 mod 256), word_of_int (i div 65536 mod 256),
      word_of_int (i div 16777216 mod 256)]" by (simp add: int_bytes_def)
  have "bytes_int (int_bytes i) = (if i mod 4294967296 < 2147483648 then i mod 4294967296 else i mod 4294967296 - 4294967296)"
    by (simp only: b bytes_int.simps Let_def u byte_sum)
  also have "\<dots> = i"
  proof (cases "0 \<le> i")
    case True
    then have "i mod 4294967296 = i" using assms by (intro mod_pos_pos_trivial) (auto simp: in_int32_def)
    then show ?thesis using assms by (simp add: in_int32_def)
  next
    case False
    have "i mod 4294967296 = (i + 4294967296) mod 4294967296" by simp
    also have "\<dots> = i + 4294967296" using False assms by (intro mod_pos_pos_trivial) (auto simp: in_int32_def)
    finally show ?thesis using False assms by (simp add: in_int32_def)
  qed
  finally show ?thesis .
qed

lemma put_ids_cases:
  assumes "length out + 4 \<le> cap" "\<forall>i\<in>set is. in_int32 i"
  shows "\<exists>r bs. put_ids cap out (map Some is) = Some (r, out @ bs) \<and> length (out @ bs) \<le> cap
     \<and> (r = 0 \<longleftrightarrow> is = [] \<or> length out + 4 * length is + 4 \<le> cap) \<and> (r = 0 \<longrightarrow> bytes_ints (length is) bs = is)"
  using assms
proof (induction "is" arbitrary: out)
  case (Cons i js)
  show ?case
  proof (cases "cap - 4 < length out + 4")
    case True
    then have "put_ids cap out (map Some (i # js)) = Some (- 1, out @ int_bytes i)" using Cons.prems by simp
    then show ?thesis using True Cons.prems by (intro exI [of _ "- 1"] exI [of _ "int_bytes i"]) auto
  next
    case False
    have p: "put_ids cap out (map Some (i # js)) = put_ids cap (out @ int_bytes i) (map Some js)" using Cons.prems False by simp
    have "length (out @ int_bytes i) + 4 \<le> cap" "\<forall>i\<in>set js. in_int32 i" using False Cons.prems by auto
    from Cons.IH [OF this] obtain r bs where r: "put_ids cap (out @ int_bytes i) (map Some js) = Some (r, (out @ int_bytes i) @ bs)"
      "length ((out @ int_bytes i) @ bs) \<le> cap" "r = 0 \<longleftrightarrow> js = [] \<or> length (out @ int_bytes i) + 4 * length js + 4 \<le> cap"
      "r = 0 \<longrightarrow> bytes_ints (length js) bs = js" by blast
    have "r = 0 \<longleftrightarrow> length out + 4 * length (i # js) + 4 \<le> cap" using r(3) False by auto
    then show ?thesis unfolding p using r bytes_int_bytes [of i] Cons.prems(2)
      by (intro exI [of _ r] exI [of _ "int_bytes i @ bs"]) simp
  qed
qed simp

text \<open>
  C37: a list that is sent fits in a buffer of at least eight bytes, whatever its length, and is read back; the answer
  is success exactly when there is room for the list and four more bytes.
\<close>

theorem ignore_list_read_back:
  assumes "sq_items l = map Some is" "\<forall>i\<in>set is. in_int32 i" "in_int32 (int (length is))" "8 \<le> buff_size"
  shows "\<exists>r bs. get_ignore_list buff_size l = Some (r, bs) \<and> length bs \<le> buff_size
     \<and> (r = 0 \<longleftrightarrow> is = [] \<or> 4 * length is + 8 \<le> buff_size) \<and> (r = 0 \<longrightarrow> read_ignore_list bs = is)"
proof -
  let ?n = "int_bytes (int (length is))"
  obtain r bs where r: "put_ids buff_size ?n (map Some is) = Some (r, ?n @ bs)" "length (?n @ bs) \<le> buff_size"
     "r = 0 \<longleftrightarrow> is = [] \<or> length ?n + 4 * length is + 4 \<le> buff_size" "r = 0 \<longrightarrow> bytes_ints (length is) bs = is"
    using put_ids_cases [of ?n buff_size "is"] assms(2,4) by auto
  have "get_ignore_list buff_size l = Some (r, ?n @ bs)" using r(1) assms(1,4) by (simp add: get_ignore_list_def)
  moreover have "r = 0 \<longrightarrow> read_ignore_list (?n @ bs) = is" using r(4) bytes_int_bytes [OF assms(3)] by (simp add: read_ignore_list_def)
  ultimately show ?thesis using r(2,3) by (intro exI [of _ r] exI [of _ "?n @ bs"]) auto
qed

theorem ignore_list_read_back_witness:
  "\<exists>bs. get_ignore_list 16 \<lparr>sq_items = [Some 7, Some (- 2)], sq_pos = 0, sq_gone = []\<rparr> = Some (0, bs) \<and> read_ignore_list bs = [7, - 2]"
proof -
  have "sq_items \<lparr>sq_items = [Some 7, Some (- 2)], sq_pos = 0, sq_gone = []\<rparr> = map Some [7, - 2 :: int]" by simp
  from ignore_list_read_back [OF this, of 16] show ?thesis by (auto simp: in_int32_def)
qed

text \<open>With five to seven bytes, the first number is written past the end of the buffer.\<close>

lemma small_buffer_overruns: "get_ignore_list 5 \<lparr>sq_items = [Some 7], sq_pos = 0, sq_gone = []\<rparr> = None"
  by (simp add: get_ignore_list_def)

text \<open>A list whose numbers take 512 characters runs past the end of the condition.\<close>

lemma condition_ids_bound: "condition_ids xs s = Some r \<Longrightarrow> length s < 512 \<Longrightarrow> length r < 512"
  by (induction xs s rule: condition_ids.induct)
    (auto simp: strncat_def Let_def split: option.splits Option.bind_splits if_splits)

lemma long_list_overruns:
  assumes "512 \<le> length (comma_list is)" "\<forall>i\<in>set is. in_int32 i" "sq_items l = map Some is" "is \<noteq> []"
  shows "condition_list ''and p.provider_id not in('' l [] = None"
proof (cases "condition_list ''and p.provider_id not in('' l []")
  case (Some r)
  have "r = not_in ''p.provider_id'' is"
    using condition_list_text [of "''p.provider_id''" l "[]" r "is"] Some assms(2,3) by simp
  moreover obtain t where "strncat 512 511 [] ''and p.provider_id not in('' = Some t" "condition_ids (map Some is) t = Some r"
    using Some assms(3,4) by (auto simp: condition_list_def split: Option.bind_splits)
  moreover from this(1) have "length t < 512" by (auto simp: strncat_def)
  ultimately have "length r < 512" "r = not_in ''p.provider_id'' is" using condition_ids_bound [of "map Some is" t r] by blast+
  then show ?thesis using assms(1,4) by (simp add: not_in_def)
qed simp

end
