(* ===== verification/Server_Pool.thy ===== *)
theory Server_Pool
  imports Server_Operator
begin

text \<open>
  The threads of the payment server (\<open>CWorker\<close>, \<open>SetFreeWorker\<close>, \<open>InitFreeWorker\<close>, the start and the end of
  \<open>WorkEx\<close> of \<open>legacy/payguide/src/worker.cpp\<close>, \<open>ManagerEx\<close> and \<open>WaitForAllPaysToFinish\<close> of
  \<open>thrdmngr.cpp\<close>, \<open>LaunchNewPay\<close> of \<open>main.cpp\<close>). Workers, modules and operators are objects by address; an access
  to one that was freed has no value. Every operation runs under the lock of the free workers, so it is one step. A worker
  and its thread are one record: the fields of the class, and the variables its thread keeps.
\<close>

section \<open>Workers\<close>

text \<open>Where the thread is: before \<open>Wait\<close>, in the work on a payment (with its validator), or ended.\<close>

datatype worker_phase = Waiting | Performing "nat option" | Exited

record worker =
  wk_id :: int
  wk_pay :: "server_pay option"
  wk_canceled :: bool
  wk_paysys :: "nat option"
  wk_operat :: "nat option"
  wk_lifetime :: int
  wk_killed :: bool
  wk_runs :: nat
  wk_phase :: worker_phase
  wk_cached :: "nat option"

record ('p, 'w) pool =
  pl_workers :: "nat seq"
  pl_store :: "nat \<rightharpoonup> worker"
  pl_next :: nat
  pl_ids :: int
  pl_free_worker :: "nat option"
  pl_working :: "32 word"
  pl_max :: nat
  pl_min :: nat
  pl_inactivity :: int
  pl_autodelete :: bool
  pl_total :: int
  pl_op_list :: "nat seq"
  pl_ops :: "nat \<rightharpoonup> 'p server_operator"
  pl_op_state :: "'w operator_state"
  pl_modules :: module_state
  pl_stopping :: bool
  pl_lock_lost :: bool

text \<open>What \<open>GetValidPaySys\<close> asks the outside.\<close>

record 'w pool_env =
  pe_ops :: "'w sql_ops"
  pe_codes :: sql_codes
  pe_rows :: "'w \<Rightarrow> string option option"
  pe_atof :: "string \<Rightarrow> c_float"

definition upd_worker :: "nat \<Rightarrow> (worker \<Rightarrow> worker) \<Rightarrow> ('p, 'w) pool \<Rightarrow> ('p, 'w) pool option" where
  "upd_worker t f pl = map_option (\<lambda>w. pl\<lparr>pl_store := (pl_store pl)(t \<mapsto> f w)\<rparr>) (pl_store pl t)"

text \<open>The constructor; \<open>created\<close> is whether \<open>pthread_create\<close> succeeds. A worker without a thread is deleted.\<close>

definition worker_new :: "bool \<Rightarrow> int \<Rightarrow> worker" where
  "worker_new created i = \<lparr>wk_id = i, wk_pay = None, wk_canceled = False, wk_paysys = None, wk_operat = None, wk_lifetime = 0,
     wk_killed = (\<not> created), wk_runs = 0, wk_phase = Waiting, wk_cached = None\<rparr>"

definition new_worker :: "bool \<Rightarrow> ('p, 'w) pool \<Rightarrow> nat option \<times> ('p, 'w) pool" where
  "new_worker created pl =
     (let w = worker_new created (pl_ids pl);
          pl1 = pl\<lparr>pl_ids := (if pl_ids pl < 9999 then pl_ids pl + 1 else 1)\<rparr>
      in if wk_killed w then (None, pl1)
         else (Some (pl_next pl), pl1\<lparr>pl_workers := seq_add (Some (pl_next pl)) (pl_workers pl),
                 pl_store := (pl_store pl)(pl_next pl \<mapsto> w), pl_next := pl_next pl + 1\<rparr>))"

fun create_workers :: "bool list \<Rightarrow> ('p, 'w) pool \<Rightarrow> ('p, 'w) pool" where
  "create_workers [] pl = pl"
| "create_workers (c # cs) pl = create_workers cs (snd (new_worker c pl))"

text \<open>\<open>WorkInit\<close>: the first threads; the free one is the first of the list.\<close>

definition start_workers :: "bool list \<Rightarrow> ('p, 'w) pool \<Rightarrow> ('p, 'w) pool" where
  "start_workers cs pl =
     (let pl1 = (create_workers cs (pl\<lparr>pl_workers := \<lparr>sq_items = [], sq_pos = 0, sq_gone = []\<rparr>\<rparr>))\<lparr>pl_working := 0\<rparr>
      in case seq_next (seq_reset (pl_workers pl1)) of (w, l) \<Rightarrow> pl1\<lparr>pl_workers := l, pl_free_worker := w\<rparr>)"

definition set_paysys :: "nat \<Rightarrow> nat option \<Rightarrow> ('p, 'w) pool \<Rightarrow> ('p, 'w) pool option" where
  "set_paysys t m pl = do {
     pl1 \<leftarrow> upd_worker t (\<lambda>w. w\<lparr>wk_paysys := m\<rparr>) pl;
     (case m of None \<Rightarrow> Some pl1 | Some a \<Rightarrow> map_option (\<lambda>ms. pl1\<lparr>pl_modules := ms\<rparr>) (use_module a (pl_modules pl1)))
   }"

definition set_operator :: "nat \<Rightarrow> nat option \<Rightarrow> ('p, 'w) pool \<Rightarrow> ('p, 'w) pool option" where
  "set_operator t p pl = do {
     pl1 \<leftarrow> upd_worker t (\<lambda>w. w\<lparr>wk_operat := p\<rparr>) pl;
     (case p of
        None \<Rightarrow> Some pl1
      | Some a \<Rightarrow> map_option (\<lambda>q. pl1\<lparr>pl_ops := (pl_ops pl1)(a \<mapsto> snd (operator_use q))\<rparr>) (pl_ops pl1 a))
   }"

text \<open>\<open>AddPay\<close>: a payment is refused when there is one, but the lifetime starts anew and the kill is forgotten.\<close>

definition add_pay_to :: "server_pay \<Rightarrow> worker \<Rightarrow> int \<times> worker" where
  "add_pay_to pay w =
     (let w1 = w\<lparr>wk_lifetime := 0, wk_killed := False\<rparr> in
      if wk_pay w1 = None then (0, w1\<lparr>wk_pay := Some pay, wk_canceled := False\<rparr>) else (1, w1))"

definition cancel_pay :: "worker \<Rightarrow> int \<times> worker" where
  "cancel_pay w = (if wk_pay w \<noteq> None then (0, w\<lparr>wk_canceled := True\<rparr>) else (1, w))"

definition finish_pay :: "worker \<Rightarrow> int \<times> worker" where
  "finish_pay w = (if wk_pay w \<noteq> None then (0, w\<lparr>wk_lifetime := 0, wk_pay := None, wk_canceled := False\<rparr>) else (1, w))"

definition live :: "worker \<Rightarrow> worker" where
  "live w = w\<lparr>wk_lifetime := (if wk_lifetime w < 604800 then wk_lifetime w + 1 else wk_lifetime w)\<rparr>"

definition kill_self :: "worker \<Rightarrow> worker" where
  "kill_self w = w\<lparr>wk_killed := True\<rparr>"

definition run_worker :: "worker \<Rightarrow> worker" where
  "run_worker w = w\<lparr>wk_runs := wk_runs w + 1\<rparr>"

section \<open>Giving a payment to a thread\<close>

text \<open>\<open>SetFreeWorker\<close> of a worker, and without one: the first idle worker, or a new one.\<close>

definition set_free_worker :: "nat \<Rightarrow> ('p, 'w) pool \<Rightarrow> ('p, 'w) pool" where
  "set_free_worker t pl = pl\<lparr>pl_working := pl_working pl - 1, pl_free_worker := Some t\<rparr>"

definition find_idle :: "('p, 'w) pool \<Rightarrow> (nat option \<times> ('p, 'w) pool) option" where
  "find_idle pl = do {
     (r, l, _) \<leftarrow> for_each (\<lambda>e l s. do {
         a \<leftarrow> e; w \<leftarrow> pl_store pl a;
         Some (if wk_pay w = None \<and> \<not> wk_killed w then (Some a, seq_reset l, s) else (None, l, s))
       }) (pl_workers pl) ();
     Some (r, pl\<lparr>pl_workers := l\<rparr>)
   }"

definition find_free_worker :: "bool \<Rightarrow> ('p, 'w) pool \<Rightarrow> (int \<times> ('p, 'w) pool) option" where
  "find_free_worker created pl = do {
     (idle, pl1) \<leftarrow> find_idle pl;
     (case idle of
        Some a \<Rightarrow> Some (0, pl1\<lparr>pl_free_worker := Some a\<rparr>)
      | None \<Rightarrow>
          if length (sq_items (pl_workers pl1)) < pl_max pl1
          then (case new_worker created pl1 of (r, pl2) \<Rightarrow> Some (if r = None then - 1 else 0, pl2\<lparr>pl_free_worker := r\<rparr>))
          else Some (- 1, pl1\<lparr>pl_free_worker := None\<rparr>))
   }"

text \<open>\<open>InitFreeWorker\<close>: the last operator with the number of the payment, and the module it chooses.\<close>

definition find_operator :: "server_pay \<Rightarrow> ('p, 'w) pool \<Rightarrow> (nat option \<times> ('p, 'w) pool) option" where
  "find_operator pay pl = do {
     (_, l, r) \<leftarrow> for_each (\<lambda>e l s. (case e of
         None \<Rightarrow> Some (None :: unit option, l, s)
       | Some a \<Rightarrow> map_option (\<lambda>p. (None, l, if op_operator_id p = sp_provider_id pay then Some a else s)) (pl_ops pl a)))
       (pl_op_list pl) None;
     Some (r, pl\<lparr>pl_op_list := l\<rparr>)
   }"

definition init_free_worker ::
  "'w pool_env \<Rightarrow> nat \<Rightarrow> server_pay \<Rightarrow> ('p, 'w) pool \<Rightarrow> (nat option \<times> server_pay \<times> ('p, 'w) pool) option" where
  "init_free_worker env n pay pl =
     (case pl_free_worker pl of
        None \<Rightarrow> Some (None, pay, pl)
      | Some t \<Rightarrow> do {
          (operat, pl1) \<leftarrow> find_operator pay pl;
          (case operat of
             None \<Rightarrow> do {
               pl2 \<leftarrow> set_paysys t (ms_null (pl_modules pl1)) pl1;
               pl3 \<leftarrow> set_operator t None pl2;
               Some (Some t, pay, pl3)
             }
           | Some o1 \<Rightarrow> do {
               p \<leftarrow> pl_ops pl1 o1;
               (m, pay1, ost, ms) \<leftarrow> get_valid_paysys (pe_ops env) (pe_codes env) (pe_rows env) (pe_atof env) n p pay
                  (pl_op_state pl1) (pl_modules pl1);
               pl2 \<leftarrow> set_paysys t m (pl1\<lparr>pl_op_state := ost, pl_modules := ms\<rparr>);
               pl3 \<leftarrow> set_operator t (Some o1) pl2;
               Some (Some t, pay1, pl3)
             })
        })"

definition launch_new_pay :: "'w pool_env \<Rightarrow> nat \<Rightarrow> server_pay \<Rightarrow> ('p, 'w) pool \<Rightarrow> ('p, 'w) pool option" where
  "launch_new_pay env n pay pl = do {
     (worker, pay1, pl1) \<leftarrow> init_free_worker env n pay pl;
     (case worker of
        None \<Rightarrow> Some pl1
      | Some t \<Rightarrow> do {
          pl2 \<leftarrow> upd_worker t (\<lambda>w. run_worker (snd (add_pay_to pay1 w))) pl1;
          Some (pl2\<lparr>pl_free_worker := None, pl_working := pl_working pl2 + 1,
                    pl_total := (if pl_total pl2 < 100000000 then pl_total pl2 + 1 else pl_total pl2)\<rparr>)
        })
   }"

text \<open>A round of the main loop with a payment: the result is whether the payment was given to a thread.\<close>

definition main_round :: "'w pool_env \<Rightarrow> nat \<Rightarrow> bool \<Rightarrow> server_pay \<Rightarrow> ('p, 'w) pool \<Rightarrow> (bool \<times> ('p, 'w) pool) option" where
  "main_round env n created pay pl = do {
     (_, pl1) \<leftarrow> (if pl_free_worker pl = None then find_free_worker created pl else Some (0, pl));
     if pl_free_worker pl1 \<noteq> None then map_option (\<lambda>pl2. (True, pl2)) (launch_new_pay env n pay pl1)
     else Some (False, pl1)
   }"

section \<open>The thread\<close>

definition unuse_opt :: "nat option \<Rightarrow> module_state \<Rightarrow> module_state option" where
  "unuse_opt m ms = (case m of None \<Rightarrow> Some ms | Some a \<Rightarrow> unuse_module a ms)"

definition use_opt :: "nat option \<Rightarrow> module_state \<Rightarrow> module_state option" where
  "use_opt m ms = (case m of None \<Rightarrow> Some ms | Some a \<Rightarrow> use_module a ms)"

definition thread_exit :: "nat \<Rightarrow> ('p, 'w) pool \<Rightarrow> ('p, 'w) pool option" where
  "thread_exit t pl = do {
     w \<leftarrow> pl_store pl t;
     ms \<leftarrow> unuse_opt (wk_cached w) (pl_modules pl);
     upd_worker t (\<lambda>w. w\<lparr>wk_phase := Exited, wk_cached := None\<rparr>) (pl\<lparr>pl_modules := ms\<rparr>)
   }"

text \<open>
  From \<open>Wait\<close> to the unlocking: a killed thread ends; without a payment it ends with the lock taken; a
  payment without a module is deleted and then used, so that has no value.
\<close>

definition thread_begin :: "nat \<Rightarrow> ('p, 'w) pool \<Rightarrow> ('p, 'w) pool option" where
  "thread_begin t pl = do {
     w \<leftarrow> pl_store pl t;
     pl1 \<leftarrow> upd_worker t (\<lambda>w. w\<lparr>wk_runs := wk_runs w - 1\<rparr>) pl;
     if wk_killed w then thread_exit t pl1
     else do {
       (validator, ms) \<leftarrow> get_paysys_by_so_name (Some ''validator.so'') (pl_modules pl1);
       if wk_pay w = None then map_option (\<lambda>pl2. pl2\<lparr>pl_lock_lost := True\<rparr>) (thread_exit t (pl1\<lparr>pl_modules := ms\<rparr>))
       else do {
         ms1 \<leftarrow> (if wk_cached w \<noteq> wk_paysys w then Option.bind (unuse_opt (wk_cached w) ms) (use_opt (wk_paysys w)) else Some ms);
         if wk_paysys w = None then None
         else do {
           ms2 \<leftarrow> use_opt validator ms1;
           upd_worker t (\<lambda>w. w\<lparr>wk_cached := wk_paysys w, wk_phase := Performing validator\<rparr>) (pl1\<lparr>pl_modules := ms2\<rparr>)
         }
       }
     }
   }"

text \<open>The end of the work: everything is given back, and the thread is the free one.\<close>

definition unuse_operator :: "nat option \<Rightarrow> string option \<Rightarrow> ('p, 'w) pool \<Rightarrow> ('p, 'w) pool option" where
  "unuse_operator p engine pl =
     (case p of
        None \<Rightarrow> Some pl
      | Some a \<Rightarrow> map_option (\<lambda>q. case operator_unuse engine q (pl_op_state pl) of (_, q1, ost) \<Rightarrow>
          pl\<lparr>pl_ops := (pl_ops pl)(a \<mapsto> q1), pl_op_state := ost\<rparr>) (pl_ops pl a))"

definition thread_end :: "nat \<Rightarrow> ('p, 'w) pool \<Rightarrow> ('p, 'w) pool option" where
  "thread_end t pl = do {
     w \<leftarrow> pl_store pl t;
     pay \<leftarrow> wk_pay w;
     (case wk_phase w of
        Performing validator \<Rightarrow> do {
          ms \<leftarrow> unuse_opt validator (pl_modules pl);
          ms1 \<leftarrow> unuse_opt (wk_cached w) ms;
          pl1 \<leftarrow> unuse_operator (wk_operat w) (sp_paysys_codename pay) (pl\<lparr>pl_modules := ms1\<rparr>);
          pl2 \<leftarrow> upd_worker t (\<lambda>w. (snd (finish_pay w))\<lparr>wk_phase := Waiting\<rparr>) pl1;
          Some (set_free_worker t pl2)
        }
      | _ \<Rightarrow> None)
   }"

section \<open>Commands and the manager\<close>

text \<open>The worker at the cursor, and its removal from the list, which deletes it.\<close>

definition remove_worker :: "nat \<Rightarrow> nat seq \<Rightarrow> ('p, 'w) pool \<Rightarrow> ('p, 'w) pool" where
  "remove_worker a l pl = pl\<lparr>pl_workers := seq_remove_this l, pl_store := (pl_store pl)(a := None)\<rparr>"

definition find_worker :: "int \<Rightarrow> ('p, 'w) pool \<Rightarrow> (nat option \<times> nat seq) option" where
  "find_worker pay_id pl = do {
     (r, l, _) \<leftarrow> for_each (\<lambda>e l s. (case e of
         None \<Rightarrow> Some (None, l, s)
       | Some a \<Rightarrow> map_option (\<lambda>w. (case wk_pay w of
             None \<Rightarrow> (None, l, s)
           | Some p \<Rightarrow> if sp_id p = pay_id then (Some a, l, s) else (None, l, s))) (pl_store pl a)))
       (pl_workers pl) ();
     Some (r, l)
   }"

definition kill_worker :: "int \<Rightarrow> ('p, 'w) pool \<Rightarrow> (int \<times> ('p, 'w) pool) option" where
  "kill_worker pay_id pl = do {
     (r, l) \<leftarrow> find_worker pay_id pl;
     (case r of
        None \<Rightarrow> Some (1, pl\<lparr>pl_workers := l\<rparr>)
      | Some a \<Rightarrow> Some (0, remove_worker a l (pl\<lparr>pl_working := pl_working pl - 1,
          pl_free_worker := (if pl_free_worker pl = Some a then None else pl_free_worker pl)\<rparr>)))
   }"

definition cancel_worker :: "int \<Rightarrow> ('p, 'w) pool \<Rightarrow> (int \<times> ('p, 'w) pool) option" where
  "cancel_worker pay_id pl = do {
     (r, l) \<leftarrow> find_worker pay_id pl;
     (case r of
        None \<Rightarrow> Some (1, pl\<lparr>pl_workers := l\<rparr>)
      | Some a \<Rightarrow> map_option (\<lambda>pl1. (0, pl1)) (upd_worker a (\<lambda>w. snd (cancel_pay w)) (pl\<lparr>pl_workers := l\<rparr>)))
   }"

definition cancel_all_workers :: "('p, 'w) pool \<Rightarrow> ('p, 'w) pool option" where
  "cancel_all_workers pl = do {
     (_, l, pl1) \<leftarrow> for_each (\<lambda>e l s. (case e of
         None \<Rightarrow> Some (None :: unit option, l, s)
       | Some a \<Rightarrow> map_option (\<lambda>s1. (None, l, s1)) (upd_worker a (\<lambda>w. snd (cancel_pay w)) s))) (pl_workers pl) pl;
     Some (pl1\<lparr>pl_workers := l, pl_free_worker := None\<rparr>)
   }"

text \<open>
  \<open>ManagerEx\<close>: the modules that want to be called are; modules without users go; threads idle for too long go, while more than the minimum are left. The rounds
  that are left are counted down: a removed worker takes no round.
\<close>

fun drop_idle :: "nat \<Rightarrow> nat \<Rightarrow> ('p, 'w) pool \<Rightarrow> ('p, 'w) pool option" where
  "drop_idle 0 len pl = Some pl"
| "drop_idle (Suc n) len pl =
     (case seq_next (pl_workers pl) of
        (None, l) \<Rightarrow> drop_idle n len (pl\<lparr>pl_workers := l\<rparr>)
      | (Some a, l) \<Rightarrow> do {
          pl1 \<leftarrow> upd_worker a live (pl\<lparr>pl_workers := l\<rparr>);
          w \<leftarrow> pl_store pl1 a;
          if wk_pay w = None \<and> pl_inactivity pl1 < wk_lifetime w \<and> pl_min pl1 < len then do {
            pl2 \<leftarrow> upd_worker a (\<lambda>w. run_worker (kill_self (snd (cancel_pay w))))
               (pl1\<lparr>pl_free_worker := (if pl_free_worker pl1 = Some a then None else pl_free_worker pl1)\<rparr>);
            pl3 \<leftarrow> thread_exit a pl2;
            drop_idle n (len - 1) (remove_worker a (pl_workers pl3) pl3)
          }
          else drop_idle n len pl1
        })"

definition call_module :: "nat \<Rightarrow> module_state \<Rightarrow> module_state option" where
  "call_module a ms = map_option (\<lambda>m. if mo_call m then ms\<lparr>ms_calls := ms_calls ms @ [(mo_short_name m, ''Call'')]\<rparr> else ms) (ms_store ms a)"

definition call_modules :: "module_state \<Rightarrow> module_state option" where
  "call_modules ms = do {
     (_, l, ms1) \<leftarrow> for_each (\<lambda>e l s. (case e of
         None \<Rightarrow> Some (None :: unit option, l, s)
       | Some a \<Rightarrow> map_option (\<lambda>s1. (None, l, s1)) (call_module a s))) (ms_list ms) ms;
     Some (ms1\<lparr>ms_list := l\<rparr>)
   }"

definition manager_ex :: "('p, 'w) pool \<Rightarrow> ('p, 'w) pool option" where
  "manager_ex pl =
     (if \<not> pl_autodelete pl then Some pl
      else do {
        called \<leftarrow> call_modules (pl_modules pl);
        pl1 \<leftarrow> (if ms_cleanup called
                then map_option (\<lambda>(_, ms). pl\<lparr>pl_modules := ms\<lparr>ms_cleanup := False\<rparr>\<rparr>) (remove_unloaded_modules called)
                else Some (pl\<lparr>pl_modules := called\<rparr>));
        drop_idle (length (sq_items (pl_workers pl1))) (length (sq_items (pl_workers pl1)))
          (pl1\<lparr>pl_workers := seq_reset (pl_workers pl1)\<rparr>)
      })"

text \<open>\<open>WaitForAllPaysToFinish\<close>: the first worker is told to end; when it has, it is removed.\<close>

definition wait_tell :: "bool \<Rightarrow> ('p, 'w) pool \<Rightarrow> ('p, 'w) pool option" where
  "wait_tell cancel pl =
     (case seq_next (seq_reset (pl_workers pl)) of
        (None, l) \<Rightarrow> Some (pl\<lparr>pl_workers := l, pl_stopping := True\<rparr>)
      | (Some a, l) \<Rightarrow> upd_worker a (\<lambda>w. run_worker (kill_self (if cancel then snd (cancel_pay w) else w)))
          (pl\<lparr>pl_workers := l, pl_stopping := True\<rparr>))"

definition wait_remove :: "('p, 'w) pool \<Rightarrow> ('p, 'w) pool option" where
  "wait_remove pl =
     (case seq_next (seq_reset (pl_workers pl)) of
        (None, l) \<Rightarrow> Some (pl\<lparr>pl_workers := l\<rparr>)
      | (Some a, l) \<Rightarrow> Some (remove_worker a l pl))"

end
