(* ===== verification/Server_Pool_Laws.thy ===== *)
theory Server_Pool_Laws
  imports Server_Pool
begin

text \<open>
  What holds in every state the payment server's pool of threads reaches, whatever the order in which the
  main loop, the threads, the manager and the commands take their steps: no thread is stuck or runs without a
  payment, the counters are right, and no module a thread uses is ever freed.
\<close>

section \<open>Steps\<close>

text \<open>
  Everything that is done to the pool, each step under its lock: a round of the main loop, a thread that begins or ends a payment, the
  manager, the end of the server, and what the commands of the clients come to (\<open>kill_step\<close> to \<open>cancel_all_step\<close>, \<open>load_step\<close> to
  \<open>reload_step\<close>). Of the operators and the settings no more is fixed than the limits of the number of threads: a reload may put any
  others in their place. \<open>cursor_step\<close> is a walk over the lists that changes nothing but the cursors.
\<close>

inductive pool_step :: "'w pool_env \<Rightarrow> nat \<Rightarrow> ('p, 'w) pool \<Rightarrow> ('p, 'w) pool \<Rightarrow> bool" for env L where
  round_step: "\<not> pl_stopping pl \<Longrightarrow> main_round env n c pay pl = Some (b, pl') \<Longrightarrow> pool_step env L pl pl'"
| begin_step: "pl_store pl t = Some w \<Longrightarrow> wk_phase w = Waiting \<Longrightarrow> 0 < wk_runs w \<Longrightarrow> thread_begin t pl = Some pl' \<Longrightarrow> pool_step env L pl pl'"
| end_step: "thread_end t pl = Some pl' \<Longrightarrow> pool_step env L pl pl'"
| kill_step: "kill_worker i pl = Some (r, pl') \<Longrightarrow> pool_step env L pl pl'"
| cancel_step: "cancel_worker i pl = Some (r, pl') \<Longrightarrow> pool_step env L pl pl'"
| cancel_all_step: "cancel_all_workers pl = Some pl' \<Longrightarrow> pool_step env L pl pl'"
| manager_step: "\<not> pl_stopping pl \<Longrightarrow> manager_ex pl = Some pl' \<Longrightarrow> pool_step env L pl pl'"
| tell_step: "wait_tell c pl = Some pl' \<Longrightarrow> pool_step env L pl pl'"
| remove_step: "pl_stopping pl \<Longrightarrow> wait_remove pl = Some pl' \<Longrightarrow> pool_step env L pl pl'"
| load_step: "load_paysys menv name (pl_modules pl) = Some (r, ms) \<Longrightarrow> pool_step env L pl (pl\<lparr>pl_modules := ms\<rparr>)"
| unload_step: "unload_paysys name (pl_modules pl) = Some (r, ms) \<Longrightarrow> pool_step env L pl (pl\<lparr>pl_modules := ms\<rparr>)"
| reload_step: "reload_paysys_configs menv (pl_modules pl) = Some (r, ms) \<Longrightarrow> pool_step env L pl (pl\<lparr>pl_modules := ms\<rparr>)"
| operators_step: "pool_step env L pl (pl\<lparr>pl_op_list := l, pl_ops := ops, pl_op_state := ost\<rparr>)"
| settings_step: "mx \<le> L \<Longrightarrow> mn \<le> L \<Longrightarrow> pool_step env L pl (pl\<lparr>pl_max := mx, pl_min := mn, pl_inactivity := i,
    pl_autodelete := b, pl_modules := (pl_modules pl)\<lparr>ms_path := dir\<rparr>\<rparr>)"
| cursor_step: "sq_items l = sq_items (pl_workers pl) \<Longrightarrow> sq_items k = sq_items (ms_list (pl_modules pl)) \<Longrightarrow>
    pool_step env L pl (pl\<lparr>pl_workers := l, pl_modules := (pl_modules pl)\<lparr>ms_list := k\<rparr>\<rparr>)"

text \<open>The start of the server: modules and operators are loaded, nobody uses them, and the first threads are created.\<close>

definition pool_start :: "('p, 'w) pool \<Rightarrow> bool" where
  "pool_start pl \<longleftrightarrow> pl_store pl = Map.empty \<and> sq_items (pl_workers pl) = [] \<and> pl_free_worker pl = None \<and> pl_working pl = 0
     \<and> \<not> pl_stopping pl \<and> \<not> pl_lock_lost pl \<and> mods_ok (pl_modules pl)"

inductive pool_reachable :: "'w pool_env \<Rightarrow> nat \<Rightarrow> ('p, 'w) pool \<Rightarrow> bool" for env L where
  start: "pool_start pl \<Longrightarrow> length cs \<le> pl_min pl \<Longrightarrow> max (pl_max pl) (pl_min pl) \<le> L \<Longrightarrow> pool_reachable env L (start_workers cs pl)"
| step: "pool_reachable env L pl \<Longrightarrow> pool_step env L pl pl' \<Longrightarrow> pool_reachable env L pl'"

section \<open>The invariant\<close>

definition refs :: "worker \<Rightarrow> nat \<Rightarrow> nat" where
  "refs w a = (if wk_cached w = Some a then 1 else 0) + (if wk_pay w \<noteq> None \<and> wk_paysys w = Some a then 1 else 0)
     + (if wk_phase w = Performing (Some a) then 1 else 0)"

definition pool_refs :: "(nat \<rightharpoonup> worker) \<Rightarrow> nat \<Rightarrow> nat" where
  "pool_refs ws a = (\<Sum>t\<in>dom ws. refs (the (ws t)) a)"

definition counted :: "(nat \<rightharpoonup> worker) \<Rightarrow> module_state \<Rightarrow> bool" where
  "counted ws ms \<longleftrightarrow> (\<forall>a. int (pool_refs ws a) \<le> (case use_counts ms a of None \<Rightarrow> 0 | Some n \<Rightarrow> n))"

definition worker_ok :: "worker \<Rightarrow> bool" where
  "worker_ok w \<longleftrightarrow> (case wk_phase w of
       Waiting \<Rightarrow> wk_killed w \<or> (wk_pay w = None \<and> wk_runs w = 0) \<or> (wk_pay w \<noteq> None \<and> wk_runs w = 1)
     | Performing v \<Rightarrow> wk_pay w \<noteq> None \<and> wk_cached w = wk_paysys w \<and> wk_paysys w \<noteq> None \<and> (wk_killed w \<or> wk_runs w = 0)
     | Exited \<Rightarrow> wk_killed w \<and> wk_cached w = None)"

definition busy_set :: "(nat \<rightharpoonup> worker) \<Rightarrow> nat set" where
  "busy_set ws = {t. \<exists>w. ws t = Some w \<and> wk_pay w \<noteq> None}"

definition workers_ok :: "nat seq \<Rightarrow> (nat \<rightharpoonup> worker) \<Rightarrow> nat \<Rightarrow> bool" where
  "workers_ok l ws nx \<longleftrightarrow> distinct (sq_items l) \<and> set (sq_items l) = Some ` dom ws \<and> (\<forall>t\<in>dom ws. t < nx)
     \<and> (\<forall>t w. ws t = Some w \<longrightarrow> worker_ok w)"

definition pool_inv ::
  "nat seq \<Rightarrow> (nat \<rightharpoonup> worker) \<Rightarrow> nat \<Rightarrow> module_state \<Rightarrow> nat option \<Rightarrow> 32 word \<Rightarrow> bool \<Rightarrow> bool" where
  "pool_inv l ws nx ms fr k stop \<longleftrightarrow> workers_ok l ws nx \<and> mods_ok ms \<and> counted ws ms
     \<and> (\<not> stop \<longrightarrow> k = of_nat (card (busy_set ws)) \<and> (\<forall>t w. ws t = Some w \<longrightarrow> \<not> wk_killed w)
          \<and> (\<forall>t. fr = Some t \<longrightarrow> (\<exists>w. ws t = Some w \<and> wk_pay w = None)))"

definition pool_ok :: "nat \<Rightarrow> ('p, 'w) pool \<Rightarrow> bool" where
  "pool_ok L pl \<longleftrightarrow> pool_inv (pl_workers pl) (pl_store pl) (pl_next pl) (pl_modules pl) (pl_free_worker pl) (pl_working pl)
       (pl_stopping pl)
     \<and> \<not> pl_lock_lost pl \<and> max (pl_max pl) (pl_min pl) \<le> L \<and> length (sq_items (pl_workers pl)) \<le> L"

lemma workers_okD:
  assumes "workers_ok l ws nx"
  shows "distinct (sq_items l)" "set (sq_items l) = Some ` dom ws" "ws t = Some w \<Longrightarrow> t < nx" "ws t = Some w \<Longrightarrow> worker_ok w"
    "finite (dom ws)"
proof -
  show "distinct (sq_items l)" "set (sq_items l) = Some ` dom ws" "ws t = Some w \<Longrightarrow> t < nx" "ws t = Some w \<Longrightarrow> worker_ok w"
    using assms by (auto simp: workers_ok_def)
  have "finite (Some ` dom ws)" using assms unfolding workers_ok_def by (metis List.finite_set)
  then show "finite (dom ws)" by (rule finite_imageD) simp
qed

lemma pool_refs_upd:
  assumes "finite (dom ws)" "ws t = Some w"
  shows "pool_refs (ws(t \<mapsto> w')) a + refs w a = pool_refs ws a + refs w' a"
proof -
  have d: "dom (ws(t \<mapsto> w')) = dom ws" "t \<in> dom ws" using assms(2) by auto
  have "pool_refs (ws(t \<mapsto> w')) a = refs w' a + (\<Sum>s\<in>dom ws - {t}. refs (the (ws s)) a)"
    unfolding pool_refs_def d(1) by (subst sum.remove [OF assms(1) d(2)]) (auto intro: sum.cong)
  moreover have "pool_refs ws a = refs w a + (\<Sum>s\<in>dom ws - {t}. refs (the (ws s)) a)"
    unfolding pool_refs_def by (subst sum.remove [OF assms(1) d(2)]) (simp add: assms(2))
  ultimately show ?thesis by simp
qed

lemma pool_refs_new: "finite (dom ws) \<Longrightarrow> t \<notin> dom ws \<Longrightarrow> pool_refs (ws(t \<mapsto> w)) a = pool_refs ws a + refs w a"
  by (auto simp: pool_refs_def intro!: sum.cong) 

lemma pool_refs_remove: "finite (dom ws) \<Longrightarrow> pool_refs (ws(t := None)) a \<le> pool_refs ws a"
  unfolding pool_refs_def by (rule order_trans [OF eq_refl sum_mono2 [of "dom ws" "dom ws - {t}"]]) (auto intro: sum.cong)

lemma pool_refs_member: "finite (dom ws) \<Longrightarrow> ws t = Some w \<Longrightarrow> refs w a \<le> pool_refs ws a"
  unfolding pool_refs_def using member_le_sum [of t "dom ws" "\<lambda>s. refs (the (ws s)) a"] by auto

text \<open>What a use and its return do to the counts.\<close>

lemma use_opt_counts:
  "use_opt m ms = Some ms' \<Longrightarrow> use_counts ms' a = (if m = Some a then map_option (\<lambda>n. n + 1) (use_counts ms a) else use_counts ms a)
     \<and> (m = Some a \<longrightarrow> use_counts ms a \<noteq> None)"
  by (auto simp: use_opt_def use_module_def use_counts_def set_module_def module_use_def split: option.splits)

lemma unuse_opt_counts:
  "unuse_opt m ms = Some ms' \<Longrightarrow> use_counts ms' a = (if m = Some a then map_option (\<lambda>n. if 0 < n then n - 1 else n) (use_counts ms a)
     else use_counts ms a)"
  by (auto simp: unuse_opt_def unuse_module_def use_counts_def set_module_def module_unuse_def Let_def split: option.splits)

lemma use_opt_ok: "mods_ok ms \<Longrightarrow> use_opt m ms = Some ms' \<Longrightarrow> mods_ok ms'"
  by (auto simp: use_opt_def split: option.splits intro: use_module_ok)

lemma unuse_opt_ok: "mods_ok ms \<Longrightarrow> unuse_opt m ms = Some ms' \<Longrightarrow> mods_ok ms'"
  by (auto simp: unuse_opt_def split: option.splits intro: unuse_module_ok)

text \<open>One use more, and one more reference of a worker; one reference less, and one use less.\<close>

lemma counted_use:
  assumes "counted ws ms" "use_opt m ms = Some ms'" "\<And>a. pool_refs ws' a \<le> pool_refs ws a + (if m = Some a then 1 else 0)"
  shows "counted ws' ms'"
  unfolding counted_def
proof
  fix a
  show "int (pool_refs ws' a) \<le> (case use_counts ms' a of None \<Rightarrow> 0 | Some n \<Rightarrow> n)"
    using use_opt_counts [OF assms(2), of a] assms(3) [of a] assms(1) [unfolded counted_def, rule_format, of a]
    by (auto split: option.splits if_splits)
qed

lemma counted_unuse:
  assumes "counted ws ms" "unuse_opt m ms = Some ms'" "\<And>a. pool_refs ws' a + (if m = Some a then 1 else 0) \<le> pool_refs ws a"
  shows "counted ws' ms'"
  unfolding counted_def
proof
  fix a
  show "int (pool_refs ws' a) \<le> (case use_counts ms' a of None \<Rightarrow> 0 | Some n \<Rightarrow> n)"
    using unuse_opt_counts [OF assms(2), of a] assms(3) [of a] assms(1) [unfolded counted_def, rule_format, of a]
    by (auto split: option.splits if_splits)
qed

lemma counted_mono:
  assumes "counted ws ms" "\<And>a. pool_refs ws' a \<le> pool_refs ws a" "\<And>a n. use_counts ms a = Some n \<Longrightarrow> 0 < n \<Longrightarrow> use_counts ms' a = Some n"
    and "mods_ok ms'"
  shows "counted ws' ms'"
  unfolding counted_def
proof
  fix a
  have "0 \<le> (case use_counts ms' a of None \<Rightarrow> 0 | Some n \<Rightarrow> n)"
    using assms(4) by (auto simp: use_counts_def mods_ok_def split: option.splits)
  then show "int (pool_refs ws' a) \<le> (case use_counts ms' a of None \<Rightarrow> 0 | Some n \<Rightarrow> n)"
    using assms(1) [unfolded counted_def, rule_format, of a] assms(2) [of a] assms(3) [of a]
    by (cases "use_counts ms a") (force split: option.splits)+
qed


section \<open>What the steps do to the invariant\<close>

lemma pool_invD:
  assumes "pool_inv l ws nx ms fr k stop"
  shows "workers_ok l ws nx" "mods_ok ms" "counted ws ms" "finite (dom ws)"
    "\<not> stop \<Longrightarrow> k = of_nat (card (busy_set ws))" "\<not> stop \<Longrightarrow> ws t = Some w \<Longrightarrow> \<not> wk_killed w"
    "\<not> stop \<Longrightarrow> fr = Some t \<Longrightarrow> \<exists>w. ws t = Some w \<and> wk_pay w = None"
    "ws t = Some w \<Longrightarrow> worker_ok w"
  using assms workers_okD [of l ws nx] by (auto simp: pool_inv_def)

lemma finite_busy: "finite (dom ws) \<Longrightarrow> finite (busy_set ws)"
  by (rule finite_subset [of _ "dom ws"]) (auto simp: busy_set_def)

lemma busy_upd: "busy_set (ws(t \<mapsto> w)) = (if wk_pay w = None then busy_set ws - {t} else insert t (busy_set ws))"
  by (auto simp: busy_set_def)

lemma busy_remove: "busy_set (ws(t := None)) = busy_set ws - {t}"
  by (auto simp: busy_set_def)

lemma busy_member: "ws t = Some w \<Longrightarrow> t \<in> busy_set ws \<longleftrightarrow> wk_pay w \<noteq> None"
  by (auto simp: busy_set_def)

lemma workers_ok_upd:
  assumes "workers_ok l ws nx" "ws t = Some w" "worker_ok w'"
  shows "workers_ok l (ws(t \<mapsto> w')) nx"
  using assms by (auto simp: workers_ok_def insert_absorb domI)

lemma workers_ok_new:
  assumes "workers_ok l ws nx" "worker_ok w"
  shows "workers_ok (seq_add (Some nx) l) (ws(nx \<mapsto> w)) (nx + 1)"
proof -
  have "nx \<notin> dom ws" using assms(1) by (auto simp: workers_ok_def)
  then show ?thesis using assms by (auto simp: workers_ok_def seq_add_def less_Suc_eq)
qed

lemma workers_ok_remove:
  assumes "workers_ok l ws nx" "sq_items l' = sq_items l" "seq_at (sq_pos l') l' = Some a"
  shows "workers_ok (seq_remove_this l') (ws(a := None)) nx"
    "length (sq_items (seq_remove_this l')) = length (sq_items l) - 1"
proof -
  obtain q where q: "sq_pos l' = Suc q" "q < length (sq_items l)" "sq_items l ! q = Some a"
    using assms(2,3) by (cases "sq_pos l'") (auto simp: seq_at_def split: if_splits)
  then have i: "sq_items (seq_remove_this l') = drop_nth q (sq_items l)"
    using assms(2) by (simp add: seq_remove_this_def seq_remove_def)
  then show "length (sq_items (seq_remove_this l')) = length (sq_items l) - 1" using q by simp
  have "set (drop_nth q (sq_items l)) = set (sq_items l) - {Some a}"
    using assms(1) q set_drop_nth [of "sq_items l" q] by (simp add: workers_ok_def)
  then show "workers_ok (seq_remove_this l') (ws(a := None)) nx"
    using assms(1) unfolding workers_ok_def i by (auto simp: distinct_drop_nth)
qed

lemma inv_items: "pool_inv l ws nx ms fr k stop \<Longrightarrow> sq_items l' = sq_items l \<Longrightarrow> pool_inv l' ws nx ms fr k stop"
  by (simp add: pool_inv_def workers_ok_def)

lemma inv_modules: "pool_inv l ws nx ms fr k stop \<Longrightarrow> mods_ok ms' \<Longrightarrow> counted ws ms' \<Longrightarrow> pool_inv l ws nx ms' fr k stop"
  by (simp add: pool_inv_def)

lemma inv_free: "pool_inv l ws nx ms fr k stop \<Longrightarrow> (\<And>t. fr' = Some t \<Longrightarrow> \<exists>w. ws t = Some w \<and> wk_pay w = None)
    \<Longrightarrow> pool_inv l ws nx ms fr' k stop"
  by (simp add: pool_inv_def)

lemma inv_stop: "pool_inv l ws nx ms fr k stop \<Longrightarrow> pool_inv l ws nx ms fr k True"
  by (simp add: pool_inv_def)

text \<open>A worker changes, and its payment is as it was; a payment comes; a payment goes.\<close>

lemma inv_put:
  assumes "pool_inv l ws nx ms fr k stop" "ws t = Some w" "worker_ok w'" "\<not> stop \<Longrightarrow> \<not> wk_killed w'"
    and "mods_ok ms'" "counted (ws(t \<mapsto> w')) ms'" "\<not> stop \<Longrightarrow> k' = of_nat (card (busy_set (ws(t \<mapsto> w'))))"
    and "\<And>s. \<not> stop \<Longrightarrow> fr' = Some s \<Longrightarrow> if s = t then wk_pay w' = None else fr = Some s"
  shows "pool_inv l (ws(t \<mapsto> w')) nx ms' fr' k' stop"
proof -
  have f: "\<exists>v. (ws(t \<mapsto> w')) s = Some v \<and> wk_pay v = None" if "\<not> stop" "fr' = Some s" for s
    using assms(8) [OF that] pool_invD(7) [OF assms(1) that(1), of s] by (auto split: if_splits)
  show ?thesis
    unfolding pool_inv_def
  proof (intro conjI impI allI)
    show "workers_ok l (ws(t \<mapsto> w')) nx" by (rule workers_ok_upd [OF pool_invD(1) [OF assms(1)]]) (rule assms)+
    show "\<not> wk_killed v" if "\<not> stop" "(ws(t \<mapsto> w')) s = Some v" for s v
      using that assms(4) pool_invD(6) [OF assms(1) that(1), of s v] by (auto split: if_splits)
  qed (use assms f in auto)
qed

lemma inv_upd:
  assumes "pool_inv l ws nx ms fr k stop" "ws t = Some w" "worker_ok w'" "\<not> stop \<Longrightarrow> \<not> wk_killed w'"
    and "wk_pay w' = None \<longleftrightarrow> wk_pay w = None" "mods_ok ms'" "counted (ws(t \<mapsto> w')) ms'"
  shows "pool_inv l (ws(t \<mapsto> w')) nx ms' fr k stop"
proof (rule inv_put [OF assms(1-4,6,7)])
  have "busy_set (ws(t \<mapsto> w')) = busy_set ws"
    using assms(5) busy_member [of ws t w, OF assms(2)] by (auto simp: busy_upd)
  then show "k = of_nat (card (busy_set (ws(t \<mapsto> w'))))" if "\<not> stop" using pool_invD(5) [OF assms(1) that] by simp
  show "if s = t then wk_pay w' = None else fr = Some s" if "\<not> stop" "fr = Some s" for s
    using assms(2,5) that pool_invD(7) [OF assms(1) that] by auto
qed

lemma inv_take:
  assumes "pool_inv l ws nx ms fr k stop" "ws t = Some w" "worker_ok w'" "\<not> stop \<Longrightarrow> \<not> wk_killed w'"
    and "wk_pay w = None" "wk_pay w' \<noteq> None" "mods_ok ms'" "counted (ws(t \<mapsto> w')) ms'"
  shows "pool_inv l (ws(t \<mapsto> w')) nx ms' None (k + 1) stop"
proof (rule inv_put [OF assms(1-4,7,8)])
  have "card (busy_set (ws(t \<mapsto> w'))) = Suc (card (busy_set ws))"
    using assms(5,6) busy_member [of ws t w, OF assms(2)] finite_busy [OF pool_invD(4) [OF assms(1)]] by (simp add: busy_upd)
  then show "k + 1 = of_nat (card (busy_set (ws(t \<mapsto> w'))))" if "\<not> stop" using pool_invD(5) [OF assms(1) that] by simp
qed (auto simp: assms)

lemma inv_finish:
  assumes "pool_inv l ws nx ms fr k stop" "ws t = Some w" "worker_ok w'" "\<not> stop \<Longrightarrow> \<not> wk_killed w'"
    and "wk_pay w \<noteq> None" "wk_pay w' = None" "mods_ok ms'" "counted (ws(t \<mapsto> w')) ms'"
  shows "pool_inv l (ws(t \<mapsto> w')) nx ms' (Some t) (k - 1) stop"
proof (rule inv_put [OF assms(1-4,7,8)])
  have "t \<in> busy_set ws" using assms(5) busy_member [of ws t w, OF assms(2)] by simp
  then have "card (busy_set ws) = Suc (card (busy_set ws - {t}))"
    using finite_busy [OF pool_invD(4) [OF assms(1)]] by (intro card.remove)
  then show "k - 1 = of_nat (card (busy_set (ws(t \<mapsto> w'))))" if "\<not> stop"
    using pool_invD(5) [OF assms(1) that] assms(6) by (simp add: busy_upd)
qed (auto simp: assms(6))

lemma inv_new:
  assumes "pool_inv l ws nx ms fr k stop" "worker_ok w" "\<not> wk_killed w" "wk_pay w = None" "wk_cached w = None" "wk_phase w = Waiting"
  shows "pool_inv (seq_add (Some nx) l) (ws(nx \<mapsto> w)) (nx + 1) ms fr k stop"
proof -
  have n: "nx \<notin> dom ws" using pool_invD(1) [OF assms(1)] by (auto simp: workers_ok_def)
  then have b: "busy_set (ws(nx \<mapsto> w)) = busy_set ws" using assms(4) by (auto simp: busy_upd busy_set_def)
  have r: "pool_refs (ws(nx \<mapsto> w)) a = pool_refs ws a" for a
    using pool_refs_new [OF pool_invD(4) [OF assms(1)] n] assms(4-6) by (simp add: refs_def)
  show ?thesis
    using assms workers_ok_new [OF pool_invD(1) [OF assms(1)] assms(2)] b r n by (auto simp: pool_inv_def counted_def domIff)
qed

lemma inv_remove:
  assumes "pool_inv l ws nx ms fr k stop" "sq_items l' = sq_items l" "seq_at (sq_pos l') l' = Some a"
    and "\<not> stop \<Longrightarrow> k' = (if a \<in> busy_set ws then k - 1 else k) \<and> fr' = (if fr = Some a then None else fr)"
  shows "pool_inv (seq_remove_this l') (ws(a := None)) nx ms fr' k' stop"
proof -
  have c: "counted (ws(a := None)) ms"
    by (rule counted_mono [OF pool_invD(3) [OF assms(1)]]) (use pool_invD(2,4) [OF assms(1)] pool_refs_remove in auto)
  have k: "k' = of_nat (card (busy_set (ws(a := None))))" if "\<not> stop"
  proof (cases "a \<in> busy_set ws")
    case True
    have "card (busy_set ws) = Suc (card (busy_set ws - {a}))"
      using finite_busy [OF pool_invD(4) [OF assms(1)]] True by (rule card.remove)
    then show ?thesis using assms(4) [OF that] True pool_invD(5) [OF assms(1) that] by (simp add: busy_remove)
  next
    case False
    then show ?thesis using assms(4) [OF that] pool_invD(5) [OF assms(1) that] by (simp add: busy_remove)
  qed
  have f: "\<exists>w. (ws(a := None)) t = Some w \<and> wk_pay w = None" if "\<not> stop" "fr' = Some t" for t
    using assms(4) [OF that(1)] that(2) pool_invD(7) [OF assms(1) that(1), of t] by (auto split: if_splits)
  show ?thesis
    unfolding pool_inv_def
    using workers_ok_remove(1) [OF pool_invD(1) [OF assms(1)] assms(2,3)] c pool_invD(2,6) [OF assms(1)] k f
    by (simp add: fun_upd_def)
qed

lemma pool_refs_upd_le:
  "finite (dom ws) \<Longrightarrow> ws t = Some w \<Longrightarrow> refs w' a \<le> refs w a \<Longrightarrow> pool_refs (ws(t \<mapsto> w')) a \<le> pool_refs ws a"
  using pool_refs_upd [of ws t w w' a] by simp

lemma inv_quiet:
  assumes "pool_inv l ws nx ms fr k stop" "ws t = Some w" "worker_ok w'" "\<not> stop \<Longrightarrow> \<not> wk_killed w'"
    and "wk_pay w' = None \<longleftrightarrow> wk_pay w = None" "\<And>a. refs w' a \<le> refs w a"
  shows "pool_inv l (ws(t \<mapsto> w')) nx ms fr k stop"
proof (rule inv_upd [OF assms(1,2)])
  show "counted (ws(t \<mapsto> w')) ms"
    by (rule counted_mono [OF pool_invD(3) [OF assms(1)]])
      (use pool_invD(2,4) [OF assms(1)] assms(2,6) in \<open>auto intro: pool_refs_upd_le\<close>)
qed (use assms pool_invD(2) [OF assms(1)] in auto)

lemma upd_worker_Some: "upd_worker t f pl = Some pl' \<longleftrightarrow> (\<exists>w. pl_store pl t = Some w \<and> pl' = pl\<lparr>pl_store := (pl_store pl)(t \<mapsto> f w)\<rparr>)"
  by (auto simp: upd_worker_def)

section \<open>The operations keep it\<close>

text \<open>What the choice of a module and a thread leave alone.\<close>

definition pool_frame :: "('p, 'w) pool \<Rightarrow> nat seq \<times> nat \<times> nat option \<times> 32 word \<times> bool \<times> bool \<times> nat \<times> nat" where
  "pool_frame pl = (pl_workers pl, pl_next pl, pl_free_worker pl, pl_working pl, pl_stopping pl, pl_lock_lost pl, pl_max pl, pl_min pl)"

lemma new_worker_inv:
  assumes "pool_inv (pl_workers pl) (pl_store pl) (pl_next pl) ms fr k stop" "new_worker c pl = (r, pl')"
  shows "pool_inv (pl_workers pl') (pl_store pl') (pl_next pl') ms fr k stop
     \<and> length (sq_items (pl_workers pl')) \<le> Suc (length (sq_items (pl_workers pl)))
     \<and> (\<forall>t. r = Some t \<longrightarrow> pl_store pl' t = Some (worker_new c (pl_ids pl)))
     \<and> pl_modules pl' = pl_modules pl \<and> pl_working pl' = pl_working pl \<and> pl_stopping pl' = pl_stopping pl
     \<and> pl_lock_lost pl' = pl_lock_lost pl \<and> pl_max pl' = pl_max pl \<and> pl_min pl' = pl_min pl \<and> pl_free_worker pl' = pl_free_worker pl"
proof (cases c)
  case True
  then have e: "r = Some (pl_next pl)" "pl' = pl\<lparr>pl_ids := (if pl_ids pl < 9999 then pl_ids pl + 1 else 1),
      pl_workers := seq_add (Some (pl_next pl)) (pl_workers pl),
      pl_store := (pl_store pl)(pl_next pl \<mapsto> worker_new c (pl_ids pl)), pl_next := pl_next pl + 1\<rparr>"
    using assms(2) by (auto simp: new_worker_def Let_def worker_new_def)
  have "pool_inv (seq_add (Some (pl_next pl)) (pl_workers pl)) ((pl_store pl)(pl_next pl \<mapsto> worker_new c (pl_ids pl))) (pl_next pl + 1) ms fr k stop"
    by (rule inv_new [OF assms(1)]) (use True in \<open>simp_all add: worker_new_def worker_ok_def\<close>)
  then show ?thesis using e by (simp add: seq_add_def)
next
  case False
  then show ?thesis using assms by (auto simp: new_worker_def Let_def worker_new_def)
qed

lemma create_workers_ok:
  "pool_inv (pl_workers pl) (pl_store pl) (pl_next pl) (pl_modules pl) None (pl_working pl) (pl_stopping pl)
     \<Longrightarrow> pl_free_worker pl = None \<Longrightarrow> \<not> pl_lock_lost pl \<Longrightarrow> max (pl_max pl) (pl_min pl) \<le> L
     \<Longrightarrow> length (sq_items (pl_workers pl)) + length cs \<le> pl_min pl \<Longrightarrow> pool_ok L (create_workers cs pl)"
proof (induction cs arbitrary: pl)
  case Nil
  then show ?case by (simp add: pool_ok_def)
next
  case (Cons c cs)
  obtain r pl' where n: "new_worker c pl = (r, pl')" by fastforce
  show ?case
    using Cons.IH [of pl'] new_worker_inv [OF Cons.prems(1) n] Cons.prems n by auto
qed

lemma create_workers_idle:
  "(\<forall>w\<in>ran (pl_store pl). wk_pay w = None) \<Longrightarrow> \<forall>w\<in>ran (pl_store (create_workers cs pl)). wk_pay w = None"
  "pl_working (create_workers cs pl) = pl_working pl"
proof (induction cs arbitrary: pl)
  case (Cons c cs)
  {
    case 1
    then have "\<forall>w\<in>ran (pl_store (snd (new_worker c pl))). wk_pay w = None"
      by (auto simp: new_worker_def worker_new_def Let_def ran_def)
    then show ?case using Cons.IH(1) by simp
  next
    case 2
    show ?case using Cons.IH(2) by (simp add: new_worker_def Let_def)
  }
qed simp_all

lemma find_idle_spec:
  assumes "workers_ok (pl_workers pl) (pl_store pl) nx" "find_idle pl = Some (r, pl')"
  shows "\<exists>l. pl' = pl\<lparr>pl_workers := l\<rparr> \<and> sq_items l = sq_items (pl_workers pl)
     \<and> (\<forall>t. r = Some t \<longrightarrow> (\<exists>w. pl_store pl t = Some w \<and> wk_pay w = None \<and> \<not> wk_killed w))
     \<and> (r = None \<longrightarrow> (\<forall>t w. pl_store pl t = Some w \<longrightarrow> wk_pay w \<noteq> None \<or> wk_killed w))"
proof -
  let ?P = "\<lambda>e. case e of None \<Rightarrow> False | Some a \<Rightarrow> (case pl_store pl a of None \<Rightarrow> False | Some w \<Rightarrow> wk_pay w = None \<and> \<not> wk_killed w)"
  obtain q l u where f: "for_each (\<lambda>e l s. do {
         a \<leftarrow> e; w \<leftarrow> pl_store pl a;
         Some (if wk_pay w = None \<and> \<not> wk_killed w then (Some a, seq_reset l, s) else (None, l, s))
       }) (pl_workers pl) () = Some (q, l, u)" "r = q" "pl' = pl\<lparr>pl_workers := l\<rparr>"
    using assms(2) by (auto simp: find_idle_def bind_eq_Some_conv)
  have "\<exists>l'. for_each (\<lambda>e l s. do {
         a \<leftarrow> e; w \<leftarrow> pl_store pl a;
         Some (if wk_pay w = None \<and> \<not> wk_killed w then (Some a, seq_reset l, s) else (None, l, s))
       }) (pl_workers pl) () = Some (map_option the (find ?P (sq_items (pl_workers pl))), l', ())
       \<and> sq_items l' = sq_items (pl_workers pl) \<and> sq_gone l' = sq_gone (pl_workers pl)"
  proof (rule for_each_search [where h = seq_reset])
    fix e l' assume "e \<in> set (sq_items (pl_workers pl))"
    then obtain a w where "e = Some a" "pl_store pl a = Some w" using workers_okD(2) [OF assms(1)] by auto
    then show "Option.bind e (\<lambda>a. Option.bind (pl_store pl a) (\<lambda>w.
         Some (if wk_pay w = None \<and> \<not> wk_killed w then (Some a, seq_reset l', ()) else (None, l', ()))))
       = Some (if ?P e then (Some (the e), seq_reset l', ()) else (None, l', ()))" by simp
  qed (simp_all add: seq_reset_def)
  then have l: "r = map_option the (find ?P (sq_items (pl_workers pl)))" "sq_items l = sq_items (pl_workers pl)"
    using f(1,2) by auto
  have "\<exists>w. pl_store pl t = Some w \<and> wk_pay w = None \<and> \<not> wk_killed w" if r: "r = Some t" for t
  proof -
    obtain e where "find ?P (sq_items (pl_workers pl)) = Some e" "t = the e" using l(1) [symmetric] r by auto
    moreover from this(1) have "?P e" by (auto simp: find_Some_iff)
    ultimately show ?thesis by (auto split: option.splits)
  qed
  moreover have "wk_pay w \<noteq> None \<or> wk_killed w" if "r = None" "pl_store pl t = Some w" for t w
  proof -
    have "\<forall>e\<in>set (sq_items (pl_workers pl)). \<not> ?P e" using l(1) that(1) by (auto simp: find_None_iff)
    moreover have "Some t \<in> set (sq_items (pl_workers pl))" using workers_okD(2) [OF assms(1)] that(2) by auto
    ultimately show ?thesis using that(2) by fastforce
  qed
  ultimately show ?thesis using f(3) l(2) by blast
qed

text \<open>The free thread a search finds has no payment; when there is none, all have one, and there can be no more.\<close>

lemma find_free_worker_spec:
  assumes "workers_ok (pl_workers pl) (pl_store pl) (pl_next pl)" "find_free_worker c pl = Some (r, pl')"
  shows "(case pl_free_worker pl' of
       Some t \<Rightarrow> (\<forall>s. s \<noteq> t \<longrightarrow> pl_store pl' s = pl_store pl s) \<and> (\<forall>w. pl_store pl t = Some w \<longrightarrow> wk_pay w = None)
     | None \<Rightarrow> (\<forall>t w. pl_store pl t = Some w \<longrightarrow> wk_pay w \<noteq> None \<or> wk_killed w) \<and> (c \<longrightarrow> pl_max pl \<le> length (sq_items (pl_workers pl))))"
proof -
  obtain idle pl1 where i: "find_idle pl = Some (idle, pl1)"
    using assms(2) by (auto simp: find_free_worker_def bind_eq_Some_conv)
  obtain l where l: "pl1 = pl\<lparr>pl_workers := l\<rparr>" "sq_items l = sq_items (pl_workers pl)"
    "\<And>t. idle = Some t \<Longrightarrow> \<exists>w. pl_store pl t = Some w \<and> wk_pay w = None \<and> \<not> wk_killed w"
    "idle = None \<Longrightarrow> \<forall>t w. pl_store pl t = Some w \<longrightarrow> wk_pay w \<noteq> None \<or> wk_killed w"
    using find_idle_spec [OF assms(1) i] by blast
  show ?thesis
  proof (cases idle)
    case (Some a)
    then show ?thesis using assms(2) i l(1) l(3) [OF Some] by (auto simp: find_free_worker_def)
  next
    case None
    have "pl_store pl (pl_next pl) = None" using assms(1) by (auto simp: workers_ok_def domIff)
    then show ?thesis using assms(2) i l(1,2) l(4) [OF None] None
      by (cases c) (auto simp: find_free_worker_def new_worker_def worker_new_def Let_def split: if_splits)
  qed
qed

lemma find_free_worker_ok:
  assumes "pool_ok L pl" "\<not> pl_stopping pl" "find_free_worker c pl = Some (r, pl')"
  shows "pool_ok L pl' \<and> \<not> pl_stopping pl'"
proof -
  obtain idle pl1 where i: "find_idle pl = Some (idle, pl1)"
    using assms(3) by (auto simp: find_free_worker_def bind_eq_Some_conv)
  have inv: "pool_inv (pl_workers pl) (pl_store pl) (pl_next pl) (pl_modules pl) (pl_free_worker pl) (pl_working pl) (pl_stopping pl)"
    using assms(1) by (simp add: pool_ok_def)
  obtain l where l: "pl1 = pl\<lparr>pl_workers := l\<rparr>" "sq_items l = sq_items (pl_workers pl)"
    "\<And>t. idle = Some t \<Longrightarrow> \<exists>w. pl_store pl t = Some w \<and> wk_pay w = None \<and> \<not> wk_killed w"
    using find_idle_spec [OF pool_invD(1) [OF inv] i] by blast
  note inv1 = inv_items [OF inv l(2)]
  show ?thesis
  proof (cases idle)
    case (Some a)
    then have "pl' = pl1\<lparr>pl_free_worker := Some a\<rparr>" using assms(3) i by (simp add: find_free_worker_def)
    then show ?thesis using assms(1,2) l Some inv_free [OF inv1, of "Some a"] by (auto simp: pool_ok_def)
  next
    case None
    show ?thesis
    proof (cases "length (sq_items (pl_workers pl1)) < pl_max pl1")
      case True
      obtain q pl2 where n: "new_worker c pl1 = (q, pl2)" by fastforce
      then have e: "pl' = pl2\<lparr>pl_free_worker := q\<rparr>" using assms(3) i None True by (simp add: find_free_worker_def)
      have p: "pool_inv (pl_workers pl1) (pl_store pl1) (pl_next pl1) (pl_modules pl1) (pl_free_worker pl) (pl_working pl1) (pl_stopping pl1)"
        using inv1 l(1) by simp
      have "pool_inv (pl_workers pl2) (pl_store pl2) (pl_next pl2) (pl_modules pl1) q (pl_working pl1) (pl_stopping pl1)"
        by (rule inv_free [of _ _ _ _ "pl_free_worker pl"]) (use new_worker_inv [OF p n] in \<open>auto simp: worker_new_def\<close>)
      then show ?thesis using new_worker_inv [OF p n] e True assms(1,2) l(1,2) by (auto simp: pool_ok_def)
    next
      case False
      then have "pl' = pl1\<lparr>pl_free_worker := None\<rparr>" using assms(3) i None by (simp add: find_free_worker_def)
      then show ?thesis using assms(1,2) l inv_free [OF inv1, of None] by (auto simp: pool_ok_def)
    qed
  qed
qed

text \<open>The choice of a module and an operator for the free worker.\<close>

lemma set_paysys_spec:
  "set_paysys t m pl = Some pl' \<Longrightarrow> \<exists>w ms. pl_store pl t = Some w \<and> use_opt m (pl_modules pl) = Some ms
     \<and> pl' = pl\<lparr>pl_store := (pl_store pl)(t \<mapsto> w\<lparr>wk_paysys := m\<rparr>), pl_modules := ms\<rparr>"
  by (auto simp: set_paysys_def upd_worker_Some use_opt_def bind_eq_Some_conv split: option.splits)

lemma set_operator_spec:
  "set_operator t p pl = Some pl' \<Longrightarrow> \<exists>w. pl_store pl t = Some w \<and> pl_store pl' = (pl_store pl)(t \<mapsto> w\<lparr>wk_operat := p\<rparr>)
     \<and> pl_modules pl' = pl_modules pl \<and> pool_frame pl' = pool_frame pl"
  by (auto simp: set_operator_def upd_worker_Some pool_frame_def bind_eq_Some_conv split: option.splits)

lemma find_operator_spec:
  "find_operator pay pl = Some (r, pl') \<Longrightarrow> pl_store pl' = pl_store pl \<and> pl_modules pl' = pl_modules pl \<and> pool_frame pl' = pool_frame pl"
  by (auto simp: find_operator_def pool_frame_def bind_eq_Some_conv)

definition chosen :: "('p, 'w) pool \<Rightarrow> nat \<Rightarrow> nat option \<Rightarrow> ('p, 'w) pool \<Rightarrow> bool" where
  "chosen pl t m pl' \<longleftrightarrow> (\<exists>w p ms. pl_store pl t = Some w \<and> pl_store pl' = (pl_store pl)(t \<mapsto> w\<lparr>wk_paysys := m, wk_operat := p\<rparr>)
     \<and> mods_ok ms \<and> use_counts ms = use_counts (pl_modules pl) \<and> use_opt m ms = Some (pl_modules pl') \<and> pool_frame pl' = pool_frame pl)"

lemma chosenI:
  assumes "set_paysys t m pl1 = Some pl2" "set_operator t p pl2 = Some pl'"
    and "pl_store pl1 = pl_store pl" "pool_frame pl1 = pool_frame pl" "mods_ok (pl_modules pl1)"
    and "use_counts (pl_modules pl1) = use_counts (pl_modules pl)"
  shows "chosen pl t m pl'"
proof -
  obtain w ms where w: "pl_store pl1 t = Some w" "use_opt m (pl_modules pl1) = Some ms"
    "pl2 = pl1\<lparr>pl_store := (pl_store pl1)(t \<mapsto> w\<lparr>wk_paysys := m\<rparr>), pl_modules := ms\<rparr>"
    using set_paysys_spec [OF assms(1)] by blast
  have "pl_store pl' = (pl_store pl)(t \<mapsto> w\<lparr>wk_paysys := m, wk_operat := p\<rparr>)" "pl_modules pl' = ms" "pool_frame pl' = pool_frame pl1"
    using set_operator_spec [OF assms(2)] w(3) assms(3) by (auto simp: pool_frame_def)
  then show ?thesis unfolding chosen_def using w(1,2) assms(3-6) by auto
qed

lemma init_free_worker_chosen:
  assumes "mods_ok (pl_modules pl)" "init_free_worker env n pay pl = Some (r, pay', pl')"
  shows "(case r of None \<Rightarrow> pl_free_worker pl = None \<and> pl' = pl | Some t \<Rightarrow> pl_free_worker pl = Some t \<and> (\<exists>m. chosen pl t m pl'))"
proof (cases "pl_free_worker pl")
  case None
  then show ?thesis using assms(2) by (simp add: init_free_worker_def)
next
  case (Some t)
  obtain q pl1 where q: "find_operator pay pl = Some (q, pl1)" using assms(2) Some by (auto simp: init_free_worker_def bind_eq_Some_conv)
  note fr = find_operator_spec [OF q]
  show ?thesis
  proof (cases q)
    case None
    then obtain pl2 where "set_paysys t (ms_null (pl_modules pl1)) pl1 = Some pl2" "set_operator t None pl2 = Some pl'" and rt: "r = Some t"
      using assms(2) q Some by (auto simp: init_free_worker_def bind_eq_Some_conv)
    note e = this(1,2)
    have "chosen pl t (ms_null (pl_modules pl1)) pl'" by (rule chosenI [OF e]) (use fr assms(1) in auto)
    then show ?thesis using rt Some by auto
  next
    case q1: (Some a)
    then obtain p m ost ms pl2 where "pl_ops pl1 a = Some p" and e: "get_valid_paysys (pe_ops env) (pe_codes env) (pe_rows env) (pe_atof env) n p pay
                  (pl_op_state pl1) (pl_modules pl1) = Some (m, pay', ost, ms)"
      "set_paysys t m (pl1\<lparr>pl_op_state := ost, pl_modules := ms\<rparr>) = Some pl2" "set_operator t (Some a) pl2 = Some pl'" "r = Some t"
      using assms(2) q Some by (auto simp: init_free_worker_def bind_eq_Some_conv)
    have "\<exists>l. ms = (pl_modules pl)\<lparr>ms_list := l\<rparr> \<and> sq_items l = sq_items (ms_list (pl_modules pl))"
      using get_valid_paysys_routed [OF _ e(1)] assms(1) fr by (simp add: well_routed_def)
    then have "mods_ok ms" "use_counts ms = use_counts (pl_modules pl)" using mods_ok_items [OF assms(1)] by auto
    then have "chosen pl t m pl'" using fr by (intro chosenI [OF e(2,3)]) (auto simp: pool_frame_def)
    then show ?thesis using e(4) Some by auto
  qed
qed

lemma counted_cong: "counted ws ms \<Longrightarrow> use_counts ms' = use_counts ms \<Longrightarrow> counted ws ms'"
  by (simp add: counted_def)

lemma idle_waiting: "worker_ok w \<Longrightarrow> wk_pay w = None \<Longrightarrow> \<not> wk_killed w \<Longrightarrow> wk_phase w = Waiting \<and> wk_runs w = 0"
  by (auto simp: worker_ok_def split: worker_phase.splits)

lemma launch_new_pay_ok:
  assumes "pool_ok L pl" "\<not> pl_stopping pl" "launch_new_pay env n pay pl = Some pl'"
  shows "pool_ok L pl' \<and> \<not> pl_stopping pl'"
proof -
  obtain r pay1 pl1 where i: "init_free_worker env n pay pl = Some (r, pay1, pl1)"
    using assms(3) by (auto simp: launch_new_pay_def bind_eq_Some_conv)
  have inv: "pool_inv (pl_workers pl) (pl_store pl) (pl_next pl) (pl_modules pl) (pl_free_worker pl) (pl_working pl) (pl_stopping pl)"
    using assms(1) by (simp add: pool_ok_def)
  note c = init_free_worker_chosen [OF pool_invD(2) [OF inv] i]
  show ?thesis
  proof (cases r)
    case None
    then show ?thesis using c i assms by (simp add: launch_new_pay_def)
  next
    case (Some t)
    then obtain m where fr: "pl_free_worker pl = Some t" and ch: "chosen pl t m pl1" using c by auto
    obtain w p ms where w: "pl_store pl t = Some w" "pl_store pl1 = (pl_store pl)(t \<mapsto> w\<lparr>wk_paysys := m, wk_operat := p\<rparr>)"
      "mods_ok ms" "use_counts ms = use_counts (pl_modules pl)" "use_opt m ms = Some (pl_modules pl1)" "pool_frame pl1 = pool_frame pl"
      using ch unfolding chosen_def by blast
    define w2 where "w2 = run_worker (snd (add_pay_to pay1 (w\<lparr>wk_paysys := m, wk_operat := p\<rparr>)))"
    have idle: "wk_pay w = None" "\<not> wk_killed w" using pool_invD(6,7) [OF inv assms(2)] fr w(1) by auto
    then have ph: "wk_phase w = Waiting" "wk_runs w = 0" using idle_waiting [OF pool_invD(8) [OF inv w(1)]] by auto
    have w2: "wk_pay w2 = Some pay1" "\<not> wk_killed w2" "wk_phase w2 = Waiting" "wk_runs w2 = 1" "wk_paysys w2 = m" "wk_cached w2 = wk_cached w"
      using idle ph by (simp_all add: w2_def run_worker_def add_pay_to_def Let_def)
    have "counted ((pl_store pl)(t \<mapsto> w2)) (pl_modules pl1)"
    proof (rule counted_use [OF counted_cong [OF pool_invD(3) [OF inv] w(4)] w(5)])
      show "pool_refs ((pl_store pl)(t \<mapsto> w2)) a \<le> pool_refs (pl_store pl) a + (if m = Some a then 1 else 0)" for a
        using pool_refs_upd [OF pool_invD(4) [OF inv] w(1), of w2 a] w2 idle ph by (auto simp: refs_def)
    qed
    then have "pool_inv (pl_workers pl) ((pl_store pl)(t \<mapsto> w2)) (pl_next pl) (pl_modules pl1) None (pl_working pl + 1) (pl_stopping pl)"
      using use_opt_ok [OF w(3,5)] w2 idle by (intro inv_take [OF inv w(1)]) (auto simp: worker_ok_def)
    moreover have "pl' = pl1\<lparr>pl_store := (pl_store pl)(t \<mapsto> w2), pl_free_worker := None, pl_working := pl_working pl1 + 1,
        pl_total := (if pl_total pl1 < 100000000 then pl_total pl1 + 1 else pl_total pl1)\<rparr>"
      using assms(3) i Some w(2) by (auto simp: launch_new_pay_def upd_worker_def w2_def)
    ultimately show ?thesis using w(6) assms(1,2) by (simp add: pool_ok_def pool_frame_def)
  qed
qed

lemma init_free_worker_pay:
  assumes "mods_ok (pl_modules pl)" "init_free_worker env n pay pl = Some (r, pay', pl')"
  shows "same_order pay pay'"
proof (cases "pl_free_worker pl")
  case None
  then show ?thesis using assms(2) by (simp add: init_free_worker_def)
next
  case (Some t)
  obtain q pl1 where q: "find_operator pay pl = Some (q, pl1)" using assms(2) Some by (auto simp: init_free_worker_def bind_eq_Some_conv)
  show ?thesis
  proof (cases q)
    case None
    then show ?thesis using assms(2) q Some by (auto simp: init_free_worker_def bind_eq_Some_conv)
  next
    case q1: (Some a)
    then obtain p m ost ms where "pl_ops pl1 a = Some p" and e: "get_valid_paysys (pe_ops env) (pe_codes env) (pe_rows env) (pe_atof env) n p pay
                  (pl_op_state pl1) (pl_modules pl1) = Some (m, pay', ost, ms)"
      using assms(2) q Some by (auto simp: init_free_worker_def bind_eq_Some_conv)
    then show ?thesis using get_valid_paysys_routed [OF _ e] assms(1) find_operator_spec [OF q] by simp
  qed
qed

lemma launch_gives:
  assumes "pool_ok L pl" "\<not> pl_stopping pl" "launch_new_pay env n pay pl = Some pl'" "pl_free_worker pl = Some t"
  shows "\<exists>w q. pl_store pl' t = Some w \<and> wk_pay w = Some q \<and> same_order pay q \<and> \<not> wk_canceled w \<and> wk_runs w = 1
     \<and> (\<forall>s. s \<noteq> t \<longrightarrow> pl_store pl' s = pl_store pl s)"
proof -
  obtain r q pl1 where i: "init_free_worker env n pay pl = Some (r, q, pl1)"
    using assms(3) by (auto simp: launch_new_pay_def bind_eq_Some_conv)
  have inv: "pool_inv (pl_workers pl) (pl_store pl) (pl_next pl) (pl_modules pl) (pl_free_worker pl) (pl_working pl) (pl_stopping pl)"
    using assms(1) by (simp add: pool_ok_def)
  obtain m where r: "r = Some t" and ch: "chosen pl t m pl1"
    using init_free_worker_chosen [OF pool_invD(2) [OF inv] i] assms(4) by (auto split: option.splits)
  obtain w p where w: "pl_store pl t = Some w" "pl_store pl1 = (pl_store pl)(t \<mapsto> w\<lparr>wk_paysys := m, wk_operat := p\<rparr>)"
    using ch unfolding chosen_def by blast
  have idle: "wk_pay w = None" "\<not> wk_killed w" using pool_invD(6,7) [OF inv assms(2)] assms(4) w(1) by auto
  then have "wk_runs w = 0" using idle_waiting [OF pool_invD(8) [OF inv w(1)]] by simp
  moreover have "pl_store pl' = (pl_store pl)(t \<mapsto> run_worker (snd (add_pay_to q (w\<lparr>wk_paysys := m, wk_operat := p\<rparr>))))"
    using assms(3) i r w(2) by (auto simp: launch_new_pay_def upd_worker_def)
  ultimately show ?thesis using idle init_free_worker_pay [OF pool_invD(2) [OF inv] i]
    by (simp add: run_worker_def add_pay_to_def Let_def)
qed

lemma main_round_ok:
  assumes "pool_ok L pl" "\<not> pl_stopping pl" "main_round env n c pay pl = Some (b, pl')"
  shows "pool_ok L pl' \<and> \<not> pl_stopping pl'"
proof -
  obtain r pl1 where f: "(if pl_free_worker pl = None then find_free_worker c pl else Some (0, pl)) = Some (r, pl1)"
    using assms(3) by (auto simp: main_round_def bind_eq_Some_conv)
  then have "pool_ok L pl1 \<and> \<not> pl_stopping pl1"
    using find_free_worker_ok [OF assms(1,2)] assms(1,2) by (auto split: if_splits)
  then show ?thesis
    using launch_new_pay_ok [of L pl1 env n pay] assms(3) f by (auto simp: main_round_def split: if_splits)
qed

text \<open>The threads.\<close>

lemma get_by_so_name_frame:
  assumes "mods_ok ms" "get_paysys_by_so_name name ms = Some (v, ms')"
  shows "mods_ok ms' \<and> use_counts ms' = use_counts ms"
  using lookup_routed [OF assms] mods_ok_items [OF assms(1)] by (auto simp: well_routed_def)

lemma thread_exit_spec:
  assumes "pool_inv l (pl_store pl) nx (pl_modules pl) fr k stop" "thread_exit t pl = Some pl'"
  shows "\<exists>w ms. pl_store pl t = Some w \<and> mods_ok ms \<and> counted ((pl_store pl)(t \<mapsto> w\<lparr>wk_phase := Exited, wk_cached := None\<rparr>)) ms
     \<and> pl' = pl\<lparr>pl_modules := ms, pl_store := (pl_store pl)(t \<mapsto> w\<lparr>wk_phase := Exited, wk_cached := None\<rparr>)\<rparr>"
proof -
  obtain w ms where w: "pl_store pl t = Some w" "unuse_opt (wk_cached w) (pl_modules pl) = Some ms"
    "pl' = pl\<lparr>pl_modules := ms, pl_store := (pl_store pl)(t \<mapsto> w\<lparr>wk_phase := Exited, wk_cached := None\<rparr>)\<rparr>"
    using assms(2) by (auto simp: thread_exit_def upd_worker_def bind_eq_Some_conv)
  have "counted ((pl_store pl)(t \<mapsto> w\<lparr>wk_phase := Exited, wk_cached := None\<rparr>)) ms"
  proof (rule counted_unuse [OF pool_invD(3) [OF assms(1)] w(2)])
    show "pool_refs ((pl_store pl)(t \<mapsto> w\<lparr>wk_phase := Exited, wk_cached := None\<rparr>)) a + (if wk_cached w = Some a then 1 else 0)
        \<le> pool_refs (pl_store pl) a" for a
      using pool_refs_upd [OF pool_invD(4) [OF assms(1)] w(1), of "w\<lparr>wk_phase := Exited, wk_cached := None\<rparr>" a]
      by (auto simp: refs_def split: if_splits)
  qed
  then show ?thesis using w unuse_opt_ok [OF pool_invD(2) [OF assms(1)] w(2)] by blast
qed

lemma thread_exit_ok:
  assumes "pool_inv l (pl_store pl) nx (pl_modules pl) fr k stop" "thread_exit t pl = Some pl'"
    and "pl_store pl t = Some w" "wk_killed w" "stop"
  shows "pool_inv l (pl_store pl') nx (pl_modules pl') fr k stop \<and> pool_frame pl' = pool_frame pl"
proof -
  obtain ms where s: "mods_ok ms" "counted ((pl_store pl)(t \<mapsto> w\<lparr>wk_phase := Exited, wk_cached := None\<rparr>)) ms"
    "pl' = pl\<lparr>pl_modules := ms, pl_store := (pl_store pl)(t \<mapsto> w\<lparr>wk_phase := Exited, wk_cached := None\<rparr>)\<rparr>"
    using thread_exit_spec [OF assms(1,2)] assms(3) by auto
  have "pool_inv l ((pl_store pl)(t \<mapsto> w\<lparr>wk_phase := Exited, wk_cached := None\<rparr>)) nx ms fr k stop"
    by (rule inv_upd [OF assms(1,3)]) (use s assms in \<open>auto simp: worker_ok_def\<close>)
  then show ?thesis using s(3) by (simp add: pool_frame_def)
qed

text \<open>The thread takes the module it was given instead of the one it has cached.\<close>

lemma cache_module_counted:
  assumes "mods_ok ms" "counted ws ms" "finite (dom ws)" "ws t = Some w" "wk_paysys w2 = wk_paysys w" "wk_pay w2 = wk_pay w"
    and "wk_phase w2 = Waiting" "wk_phase w = Waiting" "wk_cached w2 = wk_paysys w"
    and "(if wk_cached w \<noteq> wk_paysys w then Option.bind (unuse_opt (wk_cached w) ms) (use_opt (wk_paysys w)) else Some ms) = Some ms1"
  shows "mods_ok ms1 \<and> counted (ws(t \<mapsto> w2)) ms1"
proof (cases "wk_cached w = wk_paysys w")
  case True
  then show ?thesis
    using assms counted_mono [OF assms(2), of "ws(t \<mapsto> w2)" ms] pool_refs_upd_le [OF assms(3,4), of w2] by (auto simp: refs_def)
next
  case False
  then obtain ms' where u: "unuse_opt (wk_cached w) ms = Some ms'" "use_opt (wk_paysys w) ms' = Some ms1"
    using assms(10) by (auto simp: bind_eq_Some_conv)
  have "counted (ws(t \<mapsto> w\<lparr>wk_cached := None\<rparr>)) ms'"
    by (rule counted_unuse [OF assms(2) u(1)])
      (use pool_refs_upd [OF assms(3,4), of "w\<lparr>wk_cached := None\<rparr>"] in \<open>auto simp: refs_def split: if_splits\<close>)
  then have "counted (ws(t \<mapsto> w2)) ms1"
  proof (rule counted_use [OF _ u(2)])
    show "pool_refs (ws(t \<mapsto> w2)) a \<le> pool_refs (ws(t \<mapsto> w\<lparr>wk_cached := None\<rparr>)) a + (if wk_paysys w = Some a then 1 else 0)" for a
      using pool_refs_upd [OF assms(3,4), of "w\<lparr>wk_cached := None\<rparr>" a] pool_refs_upd [OF assms(3,4), of w2 a] assms(5-9)
      by (simp add: refs_def)
  qed
  then show ?thesis using use_opt_ok [OF unuse_opt_ok [OF assms(1) u(1)] u(2)] by simp
qed

lemma thread_begin_ok:
  assumes "pool_ok L pl" "pl_store pl t = Some w" "wk_phase w = Waiting" "0 < wk_runs w" "thread_begin t pl = Some pl'"
  shows "pool_ok L pl'"
proof -
  let ?w1 = "w\<lparr>wk_runs := wk_runs w - 1\<rparr>" and ?st = "\<lambda>v. (pl_store pl)(t \<mapsto> v)"
  let ?pl1 = "pl\<lparr>pl_store := ?st ?w1\<rparr>"
  have inv: "pool_inv (pl_workers pl) (pl_store pl) (pl_next pl) (pl_modules pl) (pl_free_worker pl) (pl_working pl) (pl_stopping pl)"
    using assms(1) by (simp add: pool_ok_def)
  have wok: "worker_ok w" by (rule pool_invD(8) [OF inv assms(2)])
  show ?thesis
  proof (cases "wk_killed w")
    case True
    have stop: "pl_stopping pl" using pool_invD(6) [OF inv _ assms(2)] True by blast
    have i1: "pool_inv (pl_workers pl) (?st ?w1) (pl_next pl) (pl_modules pl) (pl_free_worker pl) (pl_working pl) (pl_stopping pl)"
      by (rule inv_quiet [OF inv assms(2)]) (use True stop assms(3) in \<open>auto simp: worker_ok_def refs_def\<close>)
    have x: "thread_exit t ?pl1 = Some pl'" using assms(2,5) True by (simp add: thread_begin_def upd_worker_def)
    have "pool_inv (pl_workers pl) (pl_store pl') (pl_next pl) (pl_modules pl') (pl_free_worker pl) (pl_working pl) (pl_stopping pl)
       \<and> pool_frame pl' = pool_frame ?pl1"
      by (rule thread_exit_ok [OF _ x, where w = ?w1]) (use i1 True stop in auto)
    then show ?thesis using assms(1) by (auto simp: pool_ok_def pool_frame_def)
  next
    case False
    then obtain pay where pay: "wk_pay w = Some pay" "wk_runs w = 1" using wok assms(3,4) by (auto simp: worker_ok_def)
    obtain v ms where v: "get_paysys_by_so_name (Some ''validator.so'') (pl_modules pl) = Some (v, ms)"
      using assms(2,5) False by (auto simp: thread_begin_def upd_worker_def bind_eq_Some_conv)
    obtain ms1 ms2 where m: "(if wk_cached w \<noteq> wk_paysys w then Option.bind (unuse_opt (wk_cached w) ms) (use_opt (wk_paysys w)) else Some ms) = Some ms1"
      "wk_paysys w \<noteq> None" "use_opt v ms1 = Some ms2"
      "pl' = ?pl1\<lparr>pl_modules := ms2, pl_store := ?st (?w1\<lparr>wk_cached := wk_paysys w, wk_phase := Performing v\<rparr>)\<rparr>"
      using assms(2,5) False pay v by (auto simp: thread_begin_def upd_worker_def bind_eq_Some_conv split: if_splits)
    let ?w2 = "?w1\<lparr>wk_cached := wk_paysys w\<rparr>" and ?w3 = "?w1\<lparr>wk_cached := wk_paysys w, wk_phase := Performing v\<rparr>"
    note fin = pool_invD(4) [OF inv]
    have ok0: "mods_ok ms" "counted (pl_store pl) ms"
      using get_by_so_name_frame [OF pool_invD(2) [OF inv] v] counted_cong [OF pool_invD(3) [OF inv]] by auto
    have ok1: "mods_ok ms1 \<and> counted (?st ?w2) ms1"
      by (rule cache_module_counted [OF ok0 fin assms(2) _ _ _ assms(3) _ m(1)]) (simp_all add: assms(3))
    have "counted (?st ?w3) ms2"
    proof (rule counted_use [OF _ m(3)])
      show "counted (?st ?w2) ms1" using ok1 by simp
      show "pool_refs (?st ?w3) a \<le> pool_refs (?st ?w2) a + (if v = Some a then 1 else 0)" for a
        using pool_refs_upd [OF fin assms(2), of ?w2 a] pool_refs_upd [OF fin assms(2), of ?w3 a] assms(3)
        by (simp add: refs_def)
    qed
    then have "pool_inv (pl_workers pl) (?st ?w3) (pl_next pl) ms2 (pl_free_worker pl) (pl_working pl) (pl_stopping pl)"
      by (intro inv_upd [OF inv assms(2)]) (use False pay m(2) use_opt_ok [OF _ m(3)] ok1 in \<open>auto simp: worker_ok_def\<close>)
    then show ?thesis using assms(1) m(4) by (simp add: pool_ok_def)
  qed
qed

lemma unuse_operator_frame:
  "unuse_operator p e pl = Some pl' \<Longrightarrow> pl_store pl' = pl_store pl \<and> pl_modules pl' = pl_modules pl \<and> pool_frame pl' = pool_frame pl"
  by (cases p) (auto simp: unuse_operator_def pool_frame_def case_prod_beta)

lemma thread_end_ok:
  assumes "pool_ok L pl" "thread_end t pl = Some pl'"
  shows "pool_ok L pl'"
proof -
  have inv: "pool_inv (pl_workers pl) (pl_store pl) (pl_next pl) (pl_modules pl) (pl_free_worker pl) (pl_working pl) (pl_stopping pl)"
    using assms(1) by (simp add: pool_ok_def)
  obtain w pay v where w: "pl_store pl t = Some w" "wk_pay w = Some pay" "wk_phase w = Performing v"
    using assms(2) by (cases "wk_phase (the (pl_store pl t))") (auto simp: thread_end_def bind_eq_Some_conv)
  obtain ms ms1 pl1 where e: "unuse_opt v (pl_modules pl) = Some ms" "unuse_opt (wk_cached w) ms = Some ms1"
    "unuse_operator (wk_operat w) (sp_paysys_codename pay) (pl\<lparr>pl_modules := ms1\<rparr>) = Some pl1"
    "Option.bind (upd_worker t (\<lambda>w. (snd (finish_pay w))\<lparr>wk_phase := Waiting\<rparr>) pl1) (\<lambda>pl2. Some (set_free_worker t pl2)) = Some pl'"
    using assms(2) w by (auto simp: thread_end_def bind_eq_Some_conv)
  have wok: "worker_ok w" by (rule pool_invD(8) [OF inv w(1)])
  have fr: "pl_store pl1 = pl_store pl" "pl_modules pl1 = ms1" "pool_frame pl1 = pool_frame pl"
    using unuse_operator_frame [OF e(3)] by (simp_all add: pool_frame_def)
  define w1 where "w1 = w\<lparr>wk_phase := Waiting\<rparr>"
  define w2 where "w2 = (snd (finish_pay w))\<lparr>wk_phase := Waiting\<rparr>"
  note fin = pool_invD(4) [OF inv]
  have w2: "wk_pay w2 = None" "wk_cached w2 = wk_cached w" "wk_phase w2 = Waiting" "wk_killed w2 = wk_killed w" "wk_runs w2 = wk_runs w"
    using w(2) by (simp_all add: w2_def finish_pay_def)
  have "counted ((pl_store pl)(t \<mapsto> w1)) ms"
    by (rule counted_unuse [OF pool_invD(3) [OF inv] e(1)])
      (use pool_refs_upd [OF fin w(1), of w1] w(3) in \<open>auto simp: refs_def w1_def split: if_splits\<close>)
  then have "counted ((pl_store pl)(t \<mapsto> w2)) ms1"
  proof (rule counted_unuse [OF _ e(2)])
    show "pool_refs ((pl_store pl)(t \<mapsto> w2)) a + (if wk_cached w = Some a then 1 else 0) \<le> pool_refs ((pl_store pl)(t \<mapsto> w1)) a" for a
      using pool_refs_upd [OF fin w(1), of w1 a] pool_refs_upd [OF fin w(1), of w2 a] w2 w(2,3) wok
      by (simp add: refs_def w1_def worker_ok_def split: if_splits)
  qed
  then have "pool_inv (pl_workers pl) ((pl_store pl)(t \<mapsto> w2)) (pl_next pl) ms1 (Some t) (pl_working pl - 1) (pl_stopping pl)"
    using w2 w(2,3) wok unuse_opt_ok [OF unuse_opt_ok [OF pool_invD(2) [OF inv] e(1)] e(2)] pool_invD(6) [OF inv _ w(1)]
    by (intro inv_finish [OF inv w(1)]) (auto simp: worker_ok_def)
  then show ?thesis using assms(1) e(4) w(1) fr by (auto simp: upd_worker_def pool_ok_def set_free_worker_def pool_frame_def w2_def [symmetric])
qed

text \<open>The commands.\<close>

lemma find_worker_spec:
  assumes "workers_ok (pl_workers pl) (pl_store pl) nx" "find_worker i pl = Some (r, l)"
  shows "sq_items l = sq_items (pl_workers pl)
     \<and> (\<forall>a. r = Some a \<longrightarrow> seq_at (sq_pos l) l = Some a \<and> (\<exists>w p. pl_store pl a = Some w \<and> wk_pay w = Some p \<and> sp_id p = i))"
proof -
  let ?body = "\<lambda>e l s. (case e of
         None \<Rightarrow> Some (None, l, s)
       | Some a \<Rightarrow> map_option (\<lambda>w. (case wk_pay w of
             None \<Rightarrow> (None, l, s)
           | Some p \<Rightarrow> if sp_id p = i then (Some a, l, s) else (None, l, s))) (pl_store pl a))"
  obtain u where f: "for_each ?body (pl_workers pl) () = Some (r, l, u)"
    using assms(2) by (auto simp: find_worker_def bind_eq_Some_conv)
  have items: "sq_items l = sq_items (pl_workers pl)"
    by (rule for_each_inv [where I = "\<lambda>l s. sq_items l = sq_items (pl_workers pl)", OF _ _ f])
      (auto split: option.splits if_splits)
  have "seq_at (sq_pos l) l = Some a \<and> (\<exists>w p. pl_store pl a = Some w \<and> wk_pay w = Some p \<and> sp_id p = i)" if "r = Some a" for a
  proof -
    have "\<exists>k s. True \<and> ?body (seq_at (sq_pos k) k) k s = Some (Some a, l, u)"
      using for_each_cases [where I = "\<lambda>_ _. True" and body = ?body, OF _ _ f] that by auto
    then show ?thesis by (auto split: option.splits if_splits)
  qed
  then show ?thesis using items by blast
qed

lemma kill_worker_ok:
  assumes "pool_ok L pl" "kill_worker i pl = Some (r, pl')"
  shows "pool_ok L pl' \<and> pl_stopping pl' = pl_stopping pl"
proof -
  have inv: "pool_inv (pl_workers pl) (pl_store pl) (pl_next pl) (pl_modules pl) (pl_free_worker pl) (pl_working pl) (pl_stopping pl)"
    using assms(1) by (simp add: pool_ok_def)
  obtain q l where f: "find_worker i pl = Some (q, l)" using assms(2) by (auto simp: kill_worker_def bind_eq_Some_conv)
  note s = find_worker_spec [OF pool_invD(1) [OF inv] f]
  show ?thesis
  proof (cases q)
    case None
    then have "pl' = pl\<lparr>pl_workers := l\<rparr>" using assms(2) f by (simp add: kill_worker_def)
    then show ?thesis using assms(1) s inv_items [OF inv, of l] by (simp add: pool_ok_def)
  next
    case (Some a)
    obtain w pay where w: "pl_store pl a = Some w" "wk_pay w = Some pay" using s Some by auto
    let ?fr = "if pl_free_worker pl = Some a then None else pl_free_worker pl"
    have "a \<in> busy_set (pl_store pl)" using w by (simp add: busy_set_def)
    then have "pool_inv (seq_remove_this l) ((pl_store pl)(a := None)) (pl_next pl) (pl_modules pl) ?fr (pl_working pl - 1) (pl_stopping pl)"
      using s Some by (intro inv_remove [OF inv]) auto
    moreover have "length (sq_items (seq_remove_this l)) = length (sq_items (pl_workers pl)) - 1"
      using s Some by (intro workers_ok_remove(2) [OF pool_invD(1) [OF inv]]) auto
    moreover have "pl' = remove_worker a l (pl\<lparr>pl_working := pl_working pl - 1, pl_free_worker := ?fr\<rparr>)"
      using assms(2) f Some by (simp add: kill_worker_def)
    moreover have "length (sq_items (pl_workers pl)) - 1 \<le> L"
      using assms(1) by (auto simp: pool_ok_def)
    ultimately show ?thesis using assms(1) by (simp add: pool_ok_def remove_worker_def)
  qed
qed

text \<open>A change of one worker that its well-formedness, its payment and its modules do not notice.\<close>

definition quiet :: "(worker \<Rightarrow> worker) \<Rightarrow> bool" where
  "quiet f \<longleftrightarrow> (\<forall>w. (worker_ok w \<longrightarrow> worker_ok (f w)) \<and> (wk_killed (f w) \<longrightarrow> wk_killed w) \<and> (wk_pay (f w) = None \<longleftrightarrow> wk_pay w = None)
     \<and> (\<forall>a. refs (f w) a \<le> refs w a))"

lemma quiet_cancel: "quiet (\<lambda>w. snd (cancel_pay w))"
  by (auto simp: quiet_def cancel_pay_def worker_ok_def refs_def split: worker_phase.splits)

lemma quiet_live: "quiet live"
  by (auto simp: quiet_def live_def worker_ok_def refs_def split: worker_phase.splits)

lemma upd_quiet_ok:
  assumes "pool_ok L pl" "quiet f" "upd_worker t f pl = Some pl'"
  shows "pool_ok L pl' \<and> pool_frame pl' = pool_frame pl \<and> pl_modules pl' = pl_modules pl"
proof -
  obtain w where w: "pl_store pl t = Some w" "pl' = pl\<lparr>pl_store := (pl_store pl)(t \<mapsto> f w)\<rparr>"
    using assms(3) by (auto simp: upd_worker_Some)
  have inv: "pool_inv (pl_workers pl) (pl_store pl) (pl_next pl) (pl_modules pl) (pl_free_worker pl) (pl_working pl) (pl_stopping pl)"
    using assms(1) by (simp add: pool_ok_def)
  have "pool_inv (pl_workers pl) ((pl_store pl)(t \<mapsto> f w)) (pl_next pl) (pl_modules pl) (pl_free_worker pl) (pl_working pl) (pl_stopping pl)"
    using assms(2) pool_invD(8) [OF inv w(1)] pool_invD(6) [OF inv _ w(1)] unfolding quiet_def
    by (intro inv_quiet [OF inv w(1)]) blast+
  then show ?thesis using assms(1) w(2) by (simp add: pool_ok_def pool_frame_def)
qed

lemma pool_ok_items: "pool_ok L pl \<Longrightarrow> sq_items l = sq_items (pl_workers pl) \<Longrightarrow> pool_ok L (pl\<lparr>pl_workers := l\<rparr>)"
  using inv_items by (auto simp: pool_ok_def)

lemma cancel_worker_ok:
  assumes "pool_ok L pl" "cancel_worker i pl = Some (r, pl')"
  shows "pool_ok L pl' \<and> pl_stopping pl' = pl_stopping pl"
proof -
  obtain q l where f: "find_worker i pl = Some (q, l)" using assms(2) by (auto simp: cancel_worker_def bind_eq_Some_conv)
  have "sq_items l = sq_items (pl_workers pl)"
    using find_worker_spec [OF _ f] assms(1) by (auto simp: pool_ok_def pool_inv_def)
  then have ok: "pool_ok L (pl\<lparr>pl_workers := l\<rparr>)" by (rule pool_ok_items [OF assms(1)])
  show ?thesis
  proof (cases q)
    case None
    then show ?thesis using assms(2) f ok by (auto simp: cancel_worker_def)
  next
    case (Some a)
    then have "upd_worker a (\<lambda>w. snd (cancel_pay w)) (pl\<lparr>pl_workers := l\<rparr>) = Some pl'"
      using assms(2) f by (auto simp: cancel_worker_def)
    then show ?thesis using upd_quiet_ok [OF ok quiet_cancel] by (simp add: pool_frame_def)
  qed
qed

lemma cancel_all_ok:
  assumes "pool_ok L pl" "cancel_all_workers pl = Some pl'"
  shows "pool_ok L pl' \<and> pl_stopping pl' = pl_stopping pl"
proof -
  let ?body = "\<lambda>e l s. (case e of
         None \<Rightarrow> Some (None :: unit option, l, s)
       | Some a \<Rightarrow> map_option (\<lambda>s1. (None, l, s1)) (upd_worker a (\<lambda>w. snd (cancel_pay w)) s))"
  obtain r l pl1 where f: "for_each ?body (pl_workers pl) pl = Some (r, l, pl1)" "pl' = pl1\<lparr>pl_workers := l, pl_free_worker := None\<rparr>"
    using assms(2) by (auto simp: cancel_all_workers_def bind_eq_Some_conv)
  have "sq_items l = sq_items (pl_workers pl) \<and> pool_ok L pl1 \<and> pool_frame pl1 = pool_frame pl"
  proof (rule for_each_inv [where I = "\<lambda>l s. sq_items l = sq_items (pl_workers pl) \<and> pool_ok L s \<and> pool_frame s = pool_frame pl", OF _ _ f(1)])
    fix e l s r l' s' assume i: "sq_items l = sq_items (pl_workers pl) \<and> pool_ok L s \<and> pool_frame s = pool_frame pl"
      and b: "?body e l s = Some (r, l', s')"
    show "sq_items l' = sq_items (pl_workers pl) \<and> pool_ok L s' \<and> pool_frame s' = pool_frame pl"
      using i b upd_quiet_ok [OF _ quiet_cancel, of L s] by (cases e) auto
  qed (use assms(1) in auto)
  then have k: "sq_items l = sq_items (pl_workers pl1)" "pool_ok L pl1" "pl_stopping pl1 = pl_stopping pl" by (auto simp: pool_frame_def)
  then have "pool_ok L (pl1\<lparr>pl_workers := l, pl_free_worker := None\<rparr>)"
    using inv_free [OF inv_items [OF _ k(1)], of _ _ _ _ _ _ None] by (auto simp: pool_ok_def)
  then show ?thesis using f(2) k(3) by simp
qed

text \<open>The manager and the end of the server.\<close>

text \<open>A thread that the manager ends is told to, ends, and is removed.\<close>

lemma drop_one_ok:
  assumes "pool_ok L pl" "\<not> pl_stopping pl" "pl_store pl a = Some w" "wk_pay w = None" "seq_at (sq_pos (pl_workers pl)) (pl_workers pl) = Some a"
    and "upd_worker a (\<lambda>w. run_worker (kill_self (snd (cancel_pay w))))
        (pl\<lparr>pl_free_worker := (if pl_free_worker pl = Some a then None else pl_free_worker pl)\<rparr>) = Some pl2"
    and "thread_exit a pl2 = Some pl3"
  shows "pool_ok L (remove_worker a (pl_workers pl3) pl3) \<and> \<not> pl_stopping pl3"
proof -
  let ?fr = "if pl_free_worker pl = Some a then None else pl_free_worker pl" and ?ws = "(pl_store pl)(a := None)"
  define w2 where "w2 = run_worker (kill_self (snd (cancel_pay w)))"
  have inv: "pool_inv (pl_workers pl) (pl_store pl) (pl_next pl) (pl_modules pl) (pl_free_worker pl) (pl_working pl) False"
    using assms(1,2) by (simp add: pool_ok_def)
  have nk: "\<not> wk_killed w" using pool_invD(6) [OF inv _ assms(3)] by simp
  have pl2: "pl2 = pl\<lparr>pl_free_worker := ?fr, pl_store := (pl_store pl)(a \<mapsto> w2)\<rparr>"
    using assms(3,6) by (simp add: upd_worker_def w2_def)
  have w2: "wk_phase w2 = Waiting" "wk_killed w2" "wk_pay w2 = None" "wk_cached w2 = wk_cached w"
    using idle_waiting [OF pool_invD(8) [OF inv assms(3)] assms(4) nk] assms(4)
    by (simp_all add: w2_def run_worker_def kill_self_def cancel_pay_def)
  have i2: "pool_inv (pl_workers pl) (pl_store pl2) (pl_next pl) (pl_modules pl2) (pl_free_worker pl) (pl_working pl) True"
    unfolding pl2 using inv_quiet [OF inv_stop [OF inv] assms(3), of w2] w2 assms(4) by (simp add: worker_ok_def refs_def)
  obtain ms where x: "mods_ok ms" "counted ((pl_store pl)(a \<mapsto> w2\<lparr>wk_phase := Exited, wk_cached := None\<rparr>)) ms"
    "pl3 = pl2\<lparr>pl_modules := ms, pl_store := (pl_store pl)(a \<mapsto> w2\<lparr>wk_phase := Exited, wk_cached := None\<rparr>)\<rparr>"
    using thread_exit_spec [OF i2 assms(7)] by (auto simp: pl2)
  have "counted ?ws ms"
  proof (rule counted_mono [OF x(2)])
    show "pool_refs ?ws b \<le> pool_refs ((pl_store pl)(a \<mapsto> w2\<lparr>wk_phase := Exited, wk_cached := None\<rparr>)) b" for b
      using pool_refs_remove [of "(pl_store pl)(a \<mapsto> w2\<lparr>wk_phase := Exited, wk_cached := None\<rparr>)" a b] pool_invD(4) [OF inv] by simp
  qed (use x(1) in auto)
  moreover have "a \<notin> busy_set (pl_store pl)" using assms(3,4) by (simp add: busy_set_def)
  then have "pool_inv (seq_remove_this (pl_workers pl)) ?ws (pl_next pl) (pl_modules pl) ?fr (pl_working pl) False"
    by (intro inv_remove [OF inv refl assms(5)] conjI) simp_all
  ultimately have "pool_inv (seq_remove_this (pl_workers pl)) ?ws (pl_next pl) ms ?fr (pl_working pl) False"
    using inv_modules x(1) by blast
  moreover have "length (sq_items (seq_remove_this (pl_workers pl))) = length (sq_items (pl_workers pl)) - 1"
    by (rule workers_ok_remove(2) [OF pool_invD(1) [OF inv] refl assms(5)])
  moreover have "length (sq_items (pl_workers pl)) - 1 \<le> L" using assms(1) by (auto simp: pool_ok_def)
  ultimately show ?thesis using assms(1,2) x(3) pl2 by (simp add: pool_ok_def remove_worker_def)
qed

lemma drop_idle_ok:
  "pool_ok L pl \<Longrightarrow> \<not> pl_stopping pl \<Longrightarrow> drop_idle n len pl = Some pl' \<Longrightarrow> pool_ok L pl' \<and> \<not> pl_stopping pl'"
proof (induction n arbitrary: len pl)
  case (Suc n)
  obtain e l where nx: "seq_next (pl_workers pl) = (e, l)" by fastforce
  then have l: "sq_items l = sq_items (pl_workers pl)" "e = seq_at (sq_pos l) l"
    by (auto simp: seq_next_def Let_def seq_at_def)
  have ok: "pool_ok L (pl\<lparr>pl_workers := l\<rparr>)" by (rule pool_ok_items [OF Suc.prems(1) l(1)])
  show ?case
  proof (cases e)
    case None
    then show ?thesis using Suc.IH [OF ok] Suc.prems nx by simp
  next
    case (Some a)
    obtain pl1 w where p: "upd_worker a live (pl\<lparr>pl_workers := l\<rparr>) = Some pl1" "pl_store pl1 a = Some w"
      using Suc.prems(3) nx Some by (auto simp: bind_eq_Some_conv)
    have ok1: "pool_ok L pl1" "\<not> pl_stopping pl1" "pl_workers pl1 = l"
      using upd_quiet_ok [OF ok quiet_live p(1)] Suc.prems(2) by (auto simp: pool_frame_def)
    show ?thesis
    proof (cases "wk_pay w = None \<and> pl_inactivity pl1 < wk_lifetime w \<and> pl_min pl1 < len")
      case True
      then obtain pl2 pl3 where d: "upd_worker a (\<lambda>w. run_worker (kill_self (snd (cancel_pay w))))
          (pl1\<lparr>pl_free_worker := (if pl_free_worker pl1 = Some a then None else pl_free_worker pl1)\<rparr>) = Some pl2"
        "thread_exit a pl2 = Some pl3" "drop_idle n (len - 1) (remove_worker a (pl_workers pl3) pl3) = Some pl'"
        using Suc.prems(3) nx Some p by (auto simp: bind_eq_Some_conv)
      have "pool_ok L (remove_worker a (pl_workers pl3) pl3) \<and> \<not> pl_stopping pl3"
        by (rule drop_one_ok [OF ok1(1,2) p(2) _ _ d(1,2)]) (use True l(2) Some ok1(3) in auto)
      then show ?thesis using Suc.IH [OF _ _ d(3)] by (simp add: remove_worker_def)
    next
      case False
      then show ?thesis using Suc.IH [OF ok1(1,2)] Suc.prems(3) nx Some p by auto
    qed
  qed
qed simp

lemma pool_ok_modules: "pool_ok L pl \<Longrightarrow> mods_ok ms \<Longrightarrow> counted (pl_store pl) ms \<Longrightarrow> pool_ok L (pl\<lparr>pl_modules := ms\<rparr>)"
  using inv_modules by (auto simp: pool_ok_def)

lemma call_modules_frame:
  assumes "mods_ok ms" "call_modules ms = Some ms'"
  shows "mods_ok ms' \<and> use_counts ms' = use_counts ms"
proof -
  let ?body = "\<lambda>e l s. (case e of
         None \<Rightarrow> Some (None :: unit option, l, s)
       | Some a \<Rightarrow> map_option (\<lambda>s1. (None, l, s1)) (call_module a s))"
  obtain r l ms1 where f: "for_each ?body (ms_list ms) ms = Some (r, l, ms1)" "ms' = ms1\<lparr>ms_list := l\<rparr>"
    using assms(2) by (auto simp: call_modules_def bind_eq_Some_conv)
  have "sq_items l = sq_items (ms_list ms) \<and> (\<exists>c. ms1 = ms\<lparr>ms_calls := c\<rparr>)"
  proof (rule for_each_inv [where I = "\<lambda>l s. sq_items l = sq_items (ms_list ms) \<and> (\<exists>c. s = ms\<lparr>ms_calls := c\<rparr>)", OF _ _ f(1)])
    show "sq_items (ms_list ms) = sq_items (ms_list ms) \<and> (\<exists>c. ms = ms\<lparr>ms_calls := c\<rparr>)" by (auto intro: exI [of _ "ms_calls ms"])
  qed (auto simp: call_module_def split: option.splits if_splits)
  then show ?thesis using assms(1) f(2) by (auto simp: mods_ok_def use_counts_def fun_eq_iff)
qed

lemma manager_ok:
  assumes "pool_ok L pl" "\<not> pl_stopping pl" "manager_ex pl = Some pl'"
  shows "pool_ok L pl' \<and> \<not> pl_stopping pl'"
proof (cases "pl_autodelete pl")
  case False
  then show ?thesis using assms by (simp add: manager_ex_def)
next
  case True
  obtain called where ca: "call_modules (pl_modules pl) = Some called"
    using assms(3) True by (auto simp: manager_ex_def bind_eq_Some_conv)
  have m: "mods_ok called" "counted (pl_store pl) called"
    using assms(1) call_modules_frame [OF _ ca] counted_cong [of "pl_store pl" "pl_modules pl" called] by (auto simp: pool_ok_def pool_inv_def)
  obtain pl1 where p: "(if ms_cleanup called
                then map_option (\<lambda>(_, ms). pl\<lparr>pl_modules := ms\<lparr>ms_cleanup := False\<rparr>\<rparr>) (remove_unloaded_modules called)
                else Some (pl\<lparr>pl_modules := called\<rparr>)) = Some pl1"
      "drop_idle (length (sq_items (pl_workers pl1))) (length (sq_items (pl_workers pl1)))
          (pl1\<lparr>pl_workers := seq_reset (pl_workers pl1)\<rparr>) = Some pl'"
    using assms(3) True ca by (auto simp: manager_ex_def bind_eq_Some_conv)
  obtain c st where r: "remove_unloaded_modules called = Some (c, st)" "mods_ok st"
      "\<And>a m. ms_store called a = Some m \<Longrightarrow> \<not> (mo_unloaded m \<and> mo_use_count m = 0) \<Longrightarrow> ms_store st a = Some m"
    using remove_unloaded_ok [OF m(1)] by blast
  have "counted (pl_store pl) (st\<lparr>ms_cleanup := False\<rparr>)"
    by (rule counted_mono [OF m(2)]) (use r(2) in \<open>auto simp: use_counts_def dest: r(3)\<close>)
  then have "pool_ok L (pl\<lparr>pl_modules := st\<lparr>ms_cleanup := False\<rparr>\<rparr>)" using r(2) by (intro pool_ok_modules [OF assms(1)]) simp_all
  then have "pool_ok L pl1 \<and> \<not> pl_stopping pl1" using p(1) r(1) assms(1,2) pool_ok_modules [OF assms(1) m] by (auto split: if_splits)
  then show ?thesis by (intro drop_idle_ok [OF _ _ p(2)]) (simp_all add: pool_ok_items seq_reset_def)
qed

lemma wait_tell_ok:
  assumes "pool_ok L pl" "wait_tell c pl = Some pl'"
  shows "pool_ok L pl'"
proof -
  obtain e l where nx: "seq_next (seq_reset (pl_workers pl)) = (e, l)" by fastforce
  then have "sq_items l = sq_items (pl_workers pl)" by (auto simp: seq_next_def Let_def seq_reset_def)
  then have inv: "pool_inv l (pl_store pl) (pl_next pl) (pl_modules pl) (pl_free_worker pl) (pl_working pl) True"
    "max (pl_max pl) (pl_min pl) \<le> L" "length (sq_items l) \<le> L" "\<not> pl_lock_lost pl"
    using assms(1) inv_stop [OF inv_items] by (auto simp: pool_ok_def)
  show ?thesis
  proof (cases e)
    case None
    then show ?thesis using assms(2) nx inv by (auto simp: wait_tell_def pool_ok_def)
  next
    case (Some a)
    define f where "f = (\<lambda>w. run_worker (kill_self (if c then snd (cancel_pay w) else w)))"
    obtain w where w: "pl_store pl a = Some w" "pl' = pl\<lparr>pl_workers := l, pl_stopping := True, pl_store := (pl_store pl)(a \<mapsto> f w)\<rparr>"
      using assms(2) nx Some by (auto simp: wait_tell_def upd_worker_def f_def)
    have "pool_inv l ((pl_store pl)(a \<mapsto> f w)) (pl_next pl) (pl_modules pl) (pl_free_worker pl) (pl_working pl) True"
      by (rule inv_quiet [OF inv(1) w(1)])
        (use pool_invD(8) [OF inv(1) w(1)] in \<open>auto simp: f_def run_worker_def kill_self_def cancel_pay_def worker_ok_def refs_def split: worker_phase.splits\<close>)
    then show ?thesis using inv(2-4) w(2) by (simp add: pool_ok_def)
  qed
qed

lemma wait_remove_ok:
  assumes "pool_ok L pl" "pl_stopping pl" "wait_remove pl = Some pl'"
  shows "pool_ok L pl'"
proof -
  obtain e l where nx: "seq_next (seq_reset (pl_workers pl)) = (e, l)" by fastforce
  then have l: "sq_items l = sq_items (pl_workers pl)" "e = seq_at (sq_pos l) l"
    by (auto simp: seq_next_def Let_def seq_at_def seq_reset_def)
  have inv: "pool_inv (pl_workers pl) (pl_store pl) (pl_next pl) (pl_modules pl) (pl_free_worker pl) (pl_working pl) True"
    using assms(1,2) by (simp add: pool_ok_def)
  show ?thesis
  proof (cases e)
    case None
    then show ?thesis using assms(3) nx pool_ok_items [OF assms(1) l(1)] by (simp add: wait_remove_def)
  next
    case (Some a)
    have "pool_inv (seq_remove_this l) ((pl_store pl)(a := None)) (pl_next pl) (pl_modules pl) (pl_free_worker pl) (pl_working pl) True"
      by (rule inv_remove [OF inv l(1)]) (use l(2) Some in auto)
    moreover have "length (sq_items (seq_remove_this l)) = length (sq_items (pl_workers pl)) - 1"
      by (rule workers_ok_remove(2) [OF pool_invD(1) [OF inv] l(1), of a]) (use l(2) Some in auto)
    moreover have "length (sq_items (pl_workers pl)) - 1 \<le> L" using assms(1) by (auto simp: pool_ok_def)
    ultimately show ?thesis using assms nx Some by (auto simp: wait_remove_def remove_worker_def pool_ok_def)
  qed
qed

section \<open>Every state that is reached\<close>

lemma pool_ok_settings:
  assumes "mx \<le> L" "mn \<le> L" "pool_ok L pl"
  shows "pool_ok L (pl\<lparr>pl_max := mx, pl_min := mn, pl_inactivity := i, pl_autodelete := b,
    pl_modules := (pl_modules pl)\<lparr>ms_path := dir\<rparr>\<rparr>)"
proof -
  have "pool_ok L (pl\<lparr>pl_modules := (pl_modules pl)\<lparr>ms_path := dir\<rparr>\<rparr>)"
    using assms(3) by (intro pool_ok_modules) (auto simp: pool_ok_def pool_inv_def mods_ok_def counted_def use_counts_def)
  then show ?thesis using assms by (simp add: pool_ok_def)
qed

lemma pool_step_ok: "pool_step env L pl pl' \<Longrightarrow> pool_ok L pl \<Longrightarrow> pool_ok L pl'"
proof (induction rule: pool_step.induct)
  case (operators_step pl l ops ost)
  then show ?case by (simp add: pool_ok_def)
next
  case settings_step
  then show ?case by (intro pool_ok_settings)
next
  case (cursor_step l pl k)
  then have "pool_ok L (pl\<lparr>pl_modules := (pl_modules pl)\<lparr>ms_list := k\<rparr>\<rparr>)"
    by (intro pool_ok_modules) (auto simp: pool_ok_def pool_inv_def mods_ok_def counted_def use_counts_def)
  then show ?case using inv_items [of "pl_workers pl"] cursor_step.hyps by (auto simp: pool_ok_def)
next
  case (load_step menv name pl r ms)
  have m: "mods_ok (pl_modules pl)" "counted (pl_store pl) (pl_modules pl)" using load_step.prems by (auto simp: pool_ok_def pool_inv_def)
  note l = load_paysys_ok [OF m(1) load_step.hyps]
  have "counted (pl_store pl) ms" by (rule counted_mono [OF m(2)]) (use l in \<open>auto simp: use_counts_def\<close>)
  then show ?case using l by (intro pool_ok_modules [OF load_step.prems]) auto
next
  case (unload_step name pl r ms)
  have m: "mods_ok (pl_modules pl)" "counted (pl_store pl) (pl_modules pl)" using unload_step.prems by (auto simp: pool_ok_def pool_inv_def)
  then show ?case using unload_paysys_ok [OF m(1) unload_step.hyps] counted_cong [OF m(2)] by (intro pool_ok_modules [OF unload_step.prems]) auto
next
  case (reload_step menv pl r ms)
  have m: "mods_ok (pl_modules pl)" "counted (pl_store pl) (pl_modules pl)" using reload_step.prems by (auto simp: pool_ok_def pool_inv_def)
  then show ?case using reload_configs_ok [OF m(1) reload_step.hyps] counted_cong [OF m(2)] by (intro pool_ok_modules [OF reload_step.prems]) auto
next
  case (round_step pl n c pay b pl')
  then show ?case using main_round_ok by blast
next
  case (begin_step pl t w pl')
  then show ?case using thread_begin_ok by blast
next
  case (end_step t pl pl')
  then show ?case using thread_end_ok by blast
next
  case (kill_step i pl r pl')
  then show ?case using kill_worker_ok by blast
next
  case (cancel_step i pl r pl')
  then show ?case using cancel_worker_ok by blast
next
  case (cancel_all_step pl pl')
  then show ?case using cancel_all_ok by blast
next
  case (manager_step pl pl')
  then show ?case using manager_ok by blast
next
  case (tell_step c pl pl')
  then show ?case using wait_tell_ok by blast
next
  case (remove_step pl pl')
  then show ?case using wait_remove_ok by blast
qed

lemma pool_start_ok:
  assumes "pool_start pl" "length cs \<le> pl_min pl" "max (pl_max pl) (pl_min pl) \<le> L"
  shows "pool_ok L (start_workers cs pl)"
proof -
  let ?pl = "pl\<lparr>pl_workers := \<lparr>sq_items = [], sq_pos = 0, sq_gone = []\<rparr>\<rparr>"
  have "int 0 \<le> (case use_counts (pl_modules pl) a of None \<Rightarrow> 0 | Some n \<Rightarrow> n)" for a
    using assms(1) by (auto simp: pool_start_def use_counts_def mods_ok_def split: option.splits)
  then have "pool_ok L (create_workers cs ?pl) \<and> pl_working (create_workers cs ?pl) = 0 \<and> (\<forall>w\<in>ran (pl_store (create_workers cs ?pl)). wk_pay w = None)"
    using assms by (intro conjI create_workers_ok create_workers_idle(1))
      (auto simp: create_workers_idle(2) pool_start_def pool_inv_def workers_ok_def counted_def pool_refs_def busy_set_def)
  then have c: "pool_ok L (create_workers cs ?pl)" "pl_working (create_workers cs ?pl) = 0"
    "\<And>t w. pl_store (create_workers cs ?pl) t = Some w \<Longrightarrow> wk_pay w = None" by (auto intro: ranI)
  let ?c = "create_workers cs ?pl"
  obtain w l where nx: "seq_next (seq_reset (pl_workers ?c)) = (w, l)" by fastforce
  then have l: "sq_items l = sq_items (pl_workers ?c)" "w = seq_at (sq_pos l) l"
    by (auto simp: seq_next_def Let_def seq_at_def seq_reset_def)
  have w: "\<exists>v. pl_store ?c t = Some v \<and> wk_pay v = None" if "w = Some t" for t
  proof -
    have "Some t \<in> set (sq_items (pl_workers ?c))" using l that by (auto simp: seq_at_def split: if_splits) 
    then have "t \<in> dom (pl_store ?c)" using c(1) by (auto simp: pool_ok_def pool_inv_def workers_ok_def)
    then show ?thesis using c(3) by auto
  qed
  have "pool_inv l (pl_store ?c) (pl_next ?c) (pl_modules ?c) w (pl_working ?c) (pl_stopping ?c)"
    by (rule inv_free [OF inv_items [OF _ l(1)] w]) (use c(1) in \<open>auto simp: pool_ok_def\<close>)
  moreover have "start_workers cs pl = ?c\<lparr>pl_working := 0, pl_workers := l, pl_free_worker := w\<rparr>"
    by (simp add: start_workers_def Let_def nx)
  ultimately show ?thesis using c(1,2) l(1) by (simp add: pool_ok_def)
qed

lemma pool_reachable_ok: "pool_reachable env L pl \<Longrightarrow> pool_ok L pl"
  by (induction rule: pool_reachable.induct) (auto intro: pool_start_ok pool_step_ok)

lemma pool_module_kept:
  assumes "pool_reachable env L pl" "pl_store pl t = Some w"
    and "wk_cached w = Some a \<or> (wk_pay w \<noteq> None \<and> wk_paysys w = Some a) \<or> wk_phase w = Performing (Some a)"
  shows "\<exists>m. ms_store (pl_modules pl) a = Some m \<and> 0 < mo_use_count m"
proof -
  have inv: "pool_inv (pl_workers pl) (pl_store pl) (pl_next pl) (pl_modules pl) (pl_free_worker pl) (pl_working pl) (pl_stopping pl)"
    using pool_reachable_ok [OF assms(1)] by (simp add: pool_ok_def)
  have "0 < refs w a" using assms(3) by (auto simp: refs_def)
  then have "0 < pool_refs (pl_store pl) a" using pool_refs_member [OF pool_invD(4) [OF inv] assms(2), of a] by simp
  then show ?thesis using pool_invD(3) [OF inv, unfolded counted_def, rule_format, of a]
    by (auto simp: use_counts_def split: option.splits)
qed

lemma pool_threads_ok:
  assumes "pool_reachable env L pl"
  shows "pl_store pl t = Some w \<Longrightarrow> worker_ok w" "\<not> pl_lock_lost pl"
    "\<not> pl_stopping pl \<Longrightarrow> pl_working pl = of_nat (card {t. \<exists>w. pl_store pl t = Some w \<and> wk_pay w \<noteq> None})"
  using pool_reachable_ok [OF assms] by (auto simp: pool_ok_def pool_inv_def workers_ok_def busy_set_def)

section \<open>The properties\<close>

text \<open>
  C21: in every state the threads of the server reach, the list of threads and the threads that live are the same, each thread is in
  order (it waits without a payment, or with one and has been told, or performs the payment it has with the module it was given, or has
  ended), no thread was started without a payment, which would keep the lock, and the free thread, if any, has no payment.
\<close>

theorem threads_in_order:
  assumes "pool_reachable env L pl"
  shows "distinct (sq_items (pl_workers pl)) \<and> set (sq_items (pl_workers pl)) = Some ` dom (pl_store pl)
     \<and> (\<forall>t w. pl_store pl t = Some w \<longrightarrow> worker_ok w) \<and> \<not> pl_lock_lost pl
     \<and> (\<not> pl_stopping pl \<longrightarrow> (\<forall>t. pl_free_worker pl = Some t \<longrightarrow>
          (\<exists>w. pl_store pl t = Some w \<and> wk_pay w = None \<and> wk_phase w = Waiting \<and> wk_runs w = 0)))"
proof -
  have ok: "pool_ok L pl" by (rule pool_reachable_ok [OF assms])
  then have inv: "pool_inv (pl_workers pl) (pl_store pl) (pl_next pl) (pl_modules pl) (pl_free_worker pl) (pl_working pl) (pl_stopping pl)"
    by (simp add: pool_ok_def)
  have "\<exists>w. pl_store pl t = Some w \<and> wk_pay w = None \<and> wk_phase w = Waiting \<and> wk_runs w = 0"
    if "\<not> pl_stopping pl" "pl_free_worker pl = Some t" for t
    using pool_invD(6,7) [OF inv that(1)] that(2) idle_waiting pool_invD(8) [OF inv] by blast
  then show ?thesis using ok pool_invD(8) [OF inv] pool_invD(1) [OF inv] by (auto simp: pool_ok_def workers_ok_def)
qed

text \<open>
  C20: no module that a thread uses is ever freed: the module a thread has cached, the one it was given with a payment and its validator
  are in the list with a positive count of uses, whatever the loads, unloads, cleanings, cancels and kills that came in between.
\<close>

theorem modules_in_use_kept:
  assumes "pool_reachable env L pl" "pl_store pl t = Some w"
    and "wk_cached w = Some a \<or> (wk_pay w \<noteq> None \<and> wk_paysys w = Some a) \<or> wk_phase w = Performing (Some a)"
  shows "\<exists>m. ms_store (pl_modules pl) a = Some m \<and> 0 < mo_use_count m"
  by (rule pool_module_kept [OF assms])

text \<open>
  C19: a round of the main loop gives the payment to one thread that had none, which is told once; the payment is the same order, and no other
  thread is touched. When it does not, every thread has a payment, and there can be no further thread.
\<close>

theorem round_gives_payment:
  assumes "pool_reachable env L pl" "\<not> pl_stopping pl" "main_round env n c pay pl = Some (b, pl')"
  shows "(if b then \<exists>t w q. pl_store pl' t = Some w \<and> wk_pay w = Some q \<and> same_order pay q \<and> \<not> wk_canceled w \<and> wk_runs w = 1
               \<and> (\<forall>v. pl_store pl t = Some v \<longrightarrow> wk_pay v = None) \<and> (\<forall>s. s \<noteq> t \<longrightarrow> pl_store pl' s = pl_store pl s)
          else (\<forall>t w. pl_store pl t = Some w \<longrightarrow> wk_pay w \<noteq> None) \<and> (c \<longrightarrow> pl_max pl \<le> length (sq_items (pl_workers pl))))"
proof -
  have ok: "pool_ok L pl" by (rule pool_reachable_ok [OF assms(1)])
  then have inv: "pool_inv (pl_workers pl) (pl_store pl) (pl_next pl) (pl_modules pl) (pl_free_worker pl) (pl_working pl) (pl_stopping pl)"
    by (simp add: pool_ok_def)
  obtain r pl1 where f: "(if pl_free_worker pl = None then find_free_worker c pl else Some (0, pl)) = Some (r, pl1)"
    using assms(3) by (auto simp: main_round_def bind_eq_Some_conv)
  have ok1: "pool_ok L pl1" "\<not> pl_stopping pl1"
    using find_free_worker_ok [OF ok assms(2), of c] ok assms(2) f by (auto split: if_splits)
  have fr: "case pl_free_worker pl1 of
       Some t \<Rightarrow> (\<forall>s. s \<noteq> t \<longrightarrow> pl_store pl1 s = pl_store pl s) \<and> (\<forall>w. pl_store pl t = Some w \<longrightarrow> wk_pay w = None)
     | None \<Rightarrow> (\<forall>t w. pl_store pl t = Some w \<longrightarrow> wk_pay w \<noteq> None \<or> wk_killed w) \<and> (c \<longrightarrow> pl_max pl \<le> length (sq_items (pl_workers pl)))"
    using find_free_worker_spec [OF pool_invD(1) [OF inv], of c] pool_invD(7) [OF inv assms(2)] f
    by (cases "pl_free_worker pl") (auto simp: option.split_sel split: option.splits)
  show ?thesis
  proof (cases "pl_free_worker pl1")
    case None
    then show ?thesis using assms(3) f fr pool_invD(6) [OF inv assms(2)] by (auto simp: main_round_def)
  next
    case (Some t)
    then have b: "b" "launch_new_pay env n pay pl1 = Some pl'" using assms(3) f by (auto simp: main_round_def)
    then show ?thesis using launch_gives [OF ok1 b(2) Some] fr Some by auto
  qed
qed

text \<open>
  C22: until the server stops, the count of working threads is the number of threads that have a payment, and the list of
  threads never grows over a number that the limits it was configured with, at the start and later, respect.
\<close>

theorem working_threads_counted:
  assumes "pool_reachable env L pl" "\<not> pl_stopping pl"
  shows "pl_working pl = of_nat (card {t. \<exists>w. pl_store pl t = Some w \<and> wk_pay w \<noteq> None})
     \<and> length (sq_items (pl_workers pl)) \<le> L"
  using pool_reachable_ok [OF assms(1)] assms(2) by (auto simp: pool_ok_def pool_inv_def busy_set_def)

section \<open>A server with one thread\<close>

definition small_pool :: "(unit, unit) pool" where
  "small_pool = \<lparr>pl_workers = \<lparr>sq_items = [], sq_pos = 0, sq_gone = []\<rparr>, pl_store = Map.empty, pl_next = 0, pl_ids = 1,
     pl_free_worker = None, pl_working = 0, pl_max = 4, pl_min = 1, pl_inactivity = 600, pl_autodelete = True, pl_total = 0,
     pl_op_list = \<lparr>sq_items = [], sq_pos = 0, sq_gone = []\<rparr>, pl_ops = Map.empty,
     pl_op_state = \<lparr>os_rules = None, os_engines = None, os_limits = None, os_limits_loaded = False, os_need_free = False,
                 os_bad_connection = False, os_world = ()\<rparr>, pl_modules = two_modules 0 False, pl_stopping = False, pl_lock_lost = False\<rparr>"

lemma small_pool_given:
  "\<exists>pl. main_round env 1 True some_pay (start_workers [True] small_pool) = Some (True, pl)
     \<and> pl_store pl = [0 \<mapsto> (worker_new True 1)\<lparr>wk_pay := Some some_pay, wk_paysys := Some 0, wk_runs := 1\<rparr>] \<and> \<not> pl_stopping pl"
  by (simp add: main_round_def start_workers_def small_pool_def new_worker_def worker_new_def Let_def find_free_worker_def find_idle_def for_each_def
      seq_add_def seq_reset_def seq_next_def seq_at_def launch_new_pay_def init_free_worker_def find_operator_def set_paysys_def set_operator_def
      upd_worker_def use_module_def two_modules_def add_pay_to_def run_worker_def)

lemma small_pool_start: "pool_reachable env 4 (start_workers [True] small_pool)"
proof (rule pool_reachable.start)
  show "pool_start small_pool" using two_modules_ok [of 0 False] by (simp add: pool_start_def small_pool_def)
qed (simp_all add: small_pool_def)

lemma small_pool_reachable: "main_round env 1 True some_pay (start_workers [True] small_pool) = Some (True, pl) \<Longrightarrow> pool_reachable env 4 pl"
proof -
  assume r: "main_round env 1 True some_pay (start_workers [True] small_pool) = Some (True, pl)"
  have "\<not> pl_stopping (start_workers [True] small_pool)" by (simp add: start_workers_def small_pool_def new_worker_def worker_new_def Let_def seq_next_def)
  then show ?thesis using round_step [OF _ r] small_pool_start pool_reachable.step by blast
qed

theorem threads_in_order_witness:
  "\<forall>env. \<exists>pl w. pool_reachable (env :: unit pool_env) 4 pl \<and> pl_store (pl :: (unit, unit) pool) 0 = Some w \<and> wk_pay w \<noteq> None \<and> worker_ok w"
proof
  fix env :: "unit pool_env"
  obtain pl where p: "main_round env 1 True some_pay (start_workers [True] small_pool) = Some (True, pl)"
    "pl_store pl = [0 \<mapsto> (worker_new True 1)\<lparr>wk_pay := Some some_pay, wk_paysys := Some 0, wk_runs := 1\<rparr>]"
    using small_pool_given by blast
  show "\<exists>pl w. pool_reachable env 4 pl \<and> pl_store (pl :: (unit, unit) pool) 0 = Some w \<and> wk_pay w \<noteq> None \<and> worker_ok w"
    using threads_in_order [OF small_pool_reachable [OF p(1)]] small_pool_reachable [OF p(1)] p(2) by (intro exI [of _ pl]) auto
qed

theorem modules_in_use_kept_witness:
  "\<forall>env. \<exists>pl m. pool_reachable (env :: unit pool_env) 4 (pl :: (unit, unit) pool) \<and> ms_store (pl_modules pl) 0 = Some m \<and> 0 < mo_use_count m"
proof
  fix env :: "unit pool_env"
  obtain pl where p: "main_round env 1 True some_pay (start_workers [True] small_pool) = Some (True, pl)"
    "pl_store pl = [0 \<mapsto> (worker_new True 1)\<lparr>wk_pay := Some some_pay, wk_paysys := Some 0, wk_runs := 1\<rparr>]"
    using small_pool_given by blast
  show "\<exists>pl m. pool_reachable env 4 (pl :: (unit, unit) pool) \<and> ms_store (pl_modules pl) 0 = Some m \<and> 0 < mo_use_count m"
    using modules_in_use_kept [OF small_pool_reachable [OF p(1)], of 0 _ 0] small_pool_reachable [OF p(1)] p(2) by (intro exI [of _ pl]) auto
qed

theorem working_threads_counted_witness:
  "\<forall>env. \<exists>pl. pool_reachable (env :: unit pool_env) 4 (pl :: (unit, unit) pool) \<and> pl_working pl = 1"
proof
  fix env :: "unit pool_env"
  obtain pl where p: "main_round env 1 True some_pay (start_workers [True] small_pool) = Some (True, pl)"
    "pl_store pl = [0 \<mapsto> (worker_new True 1)\<lparr>wk_pay := Some some_pay, wk_paysys := Some 0, wk_runs := 1\<rparr>]" "\<not> pl_stopping pl"
    using small_pool_given by blast
  have "{t. \<exists>w. pl_store pl t = Some w \<and> wk_pay w \<noteq> None} = {0}" unfolding p(2) by auto
  then show "\<exists>pl. pool_reachable env 4 (pl :: (unit, unit) pool) \<and> pl_working pl = 1"
    using working_threads_counted [OF small_pool_reachable [OF p(1)] p(3)] small_pool_reachable [OF p(1)] by (intro exI [of _ pl]) simp
qed

theorem round_gives_payment_witness:
  "\<forall>env. \<exists>pl t w. main_round (env :: unit pool_env) 1 True some_pay (start_workers [True] small_pool) = Some (True, pl)
     \<and> pl_store pl t = Some w \<and> wk_runs w = 1"
proof
  fix env :: "unit pool_env"
  obtain pl where p: "main_round env 1 True some_pay (start_workers [True] small_pool) = Some (True, pl)"
    using small_pool_given by blast
  have "\<not> pl_stopping (start_workers [True] small_pool)" by (simp add: start_workers_def small_pool_def new_worker_def worker_new_def Let_def seq_next_def)
  from round_gives_payment [OF small_pool_start this p] p
  show "\<exists>pl t w. main_round env 1 True some_pay (start_workers [True] small_pool) = Some (True, pl)
     \<and> pl_store pl t = Some w \<and> wk_runs w = 1" by auto
qed

end
