(* ===== verification/Server_Socket.thy ===== *)
theory Server_Socket
  imports Upgm_Prelude "HOL-Library.Monad_Syntax" "HOL-Library.Word"
begin

text \<open>
  The connections of the payment server (\<open>CSocketRW\<close> of \<open>legacy/payguide/src/uremote_socket.cpp\<close>): a package is the
  mark 255, the length in two bytes and the data. \<open>Receive\<close> reads once from the socket, into two buffers of a fixed sz, with
  cursors that survive between calls; a copy over the end of a buffer has no value (\<open>None\<close>). \<open>select\<close>, \<open>recv\<close> and \<open>send\<close> are
  parameters. The theorem at the end shows that whatever pieces the bytes arrive in, the packages come out as they were
  sent.
\<close>

section \<open>Buffers\<close>

definition mem_get :: "nat \<Rightarrow> nat \<Rightarrow> 'a list \<Rightarrow> 'a list option" where
  "mem_get i n m = (if i + n \<le> length m then Some (take n (drop i m)) else None)"

definition mem_put :: "nat \<Rightarrow> 'a list \<Rightarrow> 'a list \<Rightarrow> 'a list option" where
  "mem_put i xs m = (if i + length xs \<le> length m then Some (take i m @ xs @ drop (i + length xs) m) else None)"

text \<open>\<open>memcpy(target + i, source + j, n)\<close>: a negative number is a huge one.\<close>

definition mem_copy :: "nat \<Rightarrow> nat \<Rightarrow> int \<Rightarrow> 'a list \<Rightarrow> 'a list \<Rightarrow> 'a list option" where
  "mem_copy i j n source target =
     (if n < 0 then None else Option.bind (mem_get j (nat n) source) (\<lambda>xs. mem_put i xs target))"

section \<open>The connection\<close>

definition PACK_SIZE :: nat where "PACK_SIZE = 5024"
definition ERR_LOST :: int where "ERR_LOST = 5"
definition ERR_SEND :: int where "ERR_SEND = 6"
definition ERR_SEQ :: int where "ERR_SEQ = 7"

type_synonym bytes = "8 word list"

record sock_rw =
  sk_fd :: int
  sk_error :: int
  sk_can_write :: int
  sk_can_read :: int
  sk_timeout :: int
  sk_is_reading :: bool
  sk_step :: nat
  sk_read_buff :: bytes
  sk_read_pos :: nat
  sk_read_left :: int
  sk_msg_buff :: bytes
  sk_msg_pos :: nat
  sk_package_len :: nat
  sk_auth :: int

text \<open>The constructor: what the buffers hold is an argument.\<close>

definition sock_rw_new :: "int \<Rightarrow> bytes \<Rightarrow> bytes \<Rightarrow> nat \<Rightarrow> sock_rw" where
  "sock_rw_new fd rb mb len = \<lparr>sk_fd = fd, sk_error = 0, sk_can_write = 0, sk_can_read = 0, sk_timeout = 0, sk_is_reading = False,
     sk_step = 0, sk_read_buff = rb, sk_read_pos = 0, sk_read_left = int PACK_SIZE, sk_msg_buff = mb, sk_msg_pos = 0,
     sk_package_len = len, sk_auth = 0\<rparr>"

definition authorize :: "int \<Rightarrow> sock_rw \<Rightarrow> sock_rw" where
  "authorize v s = s\<lparr>sk_auth := v\<rparr>"

definition authorized :: "sock_rw \<Rightarrow> int" where
  "authorized s = sk_auth s"

definition sock_timeout :: "sock_rw \<Rightarrow> int \<times> sock_rw" where
  "sock_timeout s = (sk_timeout s + 1, s\<lparr>sk_timeout := sk_timeout s + 1\<rparr>)"

definition write_possible :: "int \<Rightarrow> sock_rw \<Rightarrow> sock_rw" where
  "write_possible v s = s\<lparr>sk_can_write := v\<rparr>"

definition read_possible :: "int \<Rightarrow> sock_rw \<Rightarrow> sock_rw" where
  "read_possible v s = s\<lparr>sk_can_read := v\<rparr>"

definition sock_down :: "sock_rw \<Rightarrow> sock_rw" where
  "sock_down s = (if sk_fd s \<noteq> - 1 then s\<lparr>sk_fd := - 1\<rparr> else s)"

section \<open>Sending\<close>

definition len_bytes :: "nat \<Rightarrow> bytes" where
  "len_bytes n = [word_of_nat (n mod 256), word_of_nat (n div 256 mod 256)]"

text \<open>The bytes \<open>Send\<close> puts together: the sz is cut so that the package fits the buffer.\<close>

definition packet :: "bytes \<Rightarrow> bytes" where
  "packet d = [0xFF] @ len_bytes (length d) @ d"

definition send_buffer :: "bytes \<Rightarrow> nat \<Rightarrow> bytes" where
  "send_buffer d sz = (let n = min sz (PACK_SIZE - 4) in [0xFF] @ len_bytes n @ take n d)"

definition send_data ::
  "('w \<Rightarrow> int \<times> 'w) \<Rightarrow> (bytes \<Rightarrow> 'w \<Rightarrow> int \<times> 'w) \<Rightarrow> bytes option \<Rightarrow> nat \<Rightarrow> sock_rw \<Rightarrow> 'w \<Rightarrow> int \<times> sock_rw \<times> 'w" where
  "send_data sel snd_bytes data sz s w =
     (case data of
        None \<Rightarrow> (0, s, w)
      | Some d \<Rightarrow>
          let buff = send_buffer d sz in
          if sk_fd s = - 1 then (- 1, s, w)
          else case sel w of (retval, w1) \<Rightarrow>
            if retval \<le> 0 then (- 1, s\<lparr>sk_error := ERR_SEND\<rparr>, w1)
            else case snd_bytes buff w1 of (r, w2) \<Rightarrow>
              if 0 < r \<and> r = int (min sz (PACK_SIZE - 4)) + 3 then (0, s\<lparr>sk_error := 0\<rparr>, w2)
              else (- 1, s\<lparr>sk_error := ERR_SEND\<rparr>, w2))"

section \<open>Receiving\<close>

definition read_reset :: "sock_rw \<Rightarrow> sock_rw" where
  "read_reset s = s\<lparr>sk_is_reading := False, sk_read_pos := 0, sk_read_left := int PACK_SIZE, sk_msg_pos := 0, sk_timeout := 0\<rparr>"

text \<open>An early return (\<open>Inl\<close>: the result and the bytes that were given out), or the state to go on with.\<close>

type_synonym received = "int \<times> bytes \<times> sock_rw"

definition receive_error :: "int \<Rightarrow> sock_rw \<Rightarrow> received" where
  "receive_error e s = (- 1, [], read_reset (s\<lparr>sk_error := e\<rparr>))"

text \<open>What is left of the package, its first three bytes included.\<close>

definition package_left :: "sock_rw \<Rightarrow> int" where
  "package_left s = int (sk_package_len s) - int (sk_msg_pos s) + 3"

text \<open>The mark: the first byte of the buffer is looked at, the byte at the cursor is copied.\<close>

definition read_mark :: "sock_rw \<Rightarrow> int \<Rightarrow> (received + sock_rw \<times> int) option" where
  "read_mark s count =
     (if sk_step s \<noteq> 0 then Some (Inr (s, count))
      else do {
        b \<leftarrow> mem_get 0 1 (sk_read_buff s);
        if b \<noteq> [0xFF] then Some (Inl (receive_error ERR_SEQ s))
        else do {
          m \<leftarrow> mem_copy (sk_msg_pos s) (sk_read_pos s) 1 (sk_read_buff s) (sk_msg_buff s);
          Some (Inr (s\<lparr>sk_step := 1, sk_msg_buff := m, sk_read_pos := sk_read_pos s + 1, sk_msg_pos := sk_msg_pos s + 1\<rparr>, count - 1))
        }
      })"

text \<open>The length: when two bytes are there, now or from the last call.\<close>

definition bytes_len :: "bytes \<Rightarrow> nat" where
  "bytes_len b = (case b of [x, y] \<Rightarrow> unat x + 256 * unat y | _ \<Rightarrow> 0)"

definition read_len :: "sock_rw \<Rightarrow> int \<Rightarrow> (sock_rw \<times> int) option" where
  "read_len s count =
     (if sk_step s \<noteq> 1 then Some (s, count)
      else let p = sk_read_pos s in
        if 2 \<le> p \<or> 2 \<le> count then do {
          let rb = (if 2 \<le> p then p - 1 else p);
          b \<leftarrow> mem_get rb 2 (sk_read_buff s);
          m \<leftarrow> mem_put (sk_msg_pos s) b (sk_msg_buff s);
          let (p1, count1) = (if 2 \<le> p then (p + 1, count - 1) else (p + 2, count - 2));
          Some (s\<lparr>sk_package_len := bytes_len b, sk_msg_buff := m, sk_msg_pos := sk_msg_pos s + 2, sk_read_pos := p1, sk_step := 2\<rparr>,
                count1 - 2 + (int p1 - int rb))
        }
        else Some (s\<lparr>sk_read_pos := nat (int p + count)\<rparr>, count))"

text \<open>The data: a part of it, or the rest, and the package is given out.\<close>

definition read_data :: "int \<Rightarrow> sock_rw \<Rightarrow> int \<Rightarrow> received option" where
  "read_data buff_size s count =
     (if sk_step s \<noteq> 2 \<or> count \<le> 0 then Some (0, [], s\<lparr>sk_error := 0\<rparr>)
      else if count < package_left s then do {
        m \<leftarrow> mem_copy (sk_msg_pos s) (sk_read_pos s) count (sk_read_buff s) (sk_msg_buff s);
        Some (0, [], s\<lparr>sk_msg_buff := m, sk_msg_pos := nat (int (sk_msg_pos s) + count), sk_read_pos := 0, sk_read_left := int PACK_SIZE\<rparr>)
      }
      else do {
        m \<leftarrow> mem_copy (sk_msg_pos s) (sk_read_pos s) (package_left s) (sk_read_buff s) (sk_msg_buff s);
        let s1 = s\<lparr>sk_msg_buff := m\<rparr>;
        if int (sk_package_len s) < buff_size
        then do { d \<leftarrow> mem_get 3 (sk_package_len s) m; Some (int (sk_package_len s), d, (read_reset s1)\<lparr>sk_step := 0\<rparr>) }
        else if buff_size < 0 then None
        else do { d \<leftarrow> mem_get 3 (nat buff_size) m; Some (buff_size, d, read_reset s1) }
      })"

text \<open>What is done with the bytes that were read.\<close>

definition take_bytes :: "int \<Rightarrow> sock_rw \<Rightarrow> bytes \<Rightarrow> received option" where
  "take_bytes sz s bs = do {
     rb \<leftarrow> mem_put (sk_read_pos s) bs (sk_read_buff s);
     let err = int (length bs);
     let s1 = s\<lparr>sk_read_buff := rb\<rparr>;
     if err \<le> 0 \<or> sk_read_left s1 - err < 0 then Some (receive_error ERR_LOST s1)
     else do {
       marked \<leftarrow> read_mark (s1\<lparr>sk_read_left := sk_read_left s1 - err\<rparr>) err;
       (case marked of
          Inl r \<Rightarrow> Some r
        | Inr (s2, count) \<Rightarrow> do {
            (s3, count1) \<leftarrow> read_len s2 count;
            read_data sz s3 count1
          })
     }
   }"

text \<open>
  \<open>Receive\<close>: \<open>recv\<close> is asked for three bytes before the length is known, for the rest of the package after, and gives
  bytes or nothing (closed, or an error).
\<close>

definition receive ::
  "('w \<Rightarrow> int \<times> 'w) \<Rightarrow> (nat \<Rightarrow> 'w \<Rightarrow> bytes \<times> 'w) \<Rightarrow> int \<Rightarrow> sock_rw \<Rightarrow> 'w \<Rightarrow> (received \<times> 'w) option" where
  "receive sel rcv buff_size s w =
     (let s1 = s\<lparr>sk_timeout := 0\<rparr> in
      if sk_fd s1 = - 1 then Some (receive_error ERR_LOST s1, w)
      else case sel w of (retval, w1) \<Rightarrow>
        let s2 = s1\<lparr>sk_error := 0\<rparr> in
        if retval < 0 then Some (receive_error ERR_LOST s2, w1)
        else if retval = 0 then Some ((0, [], s2), w1)
        else
          let s3 = s2\<lparr>sk_is_reading := True\<rparr>; request = (if sk_step s3 = 2 then package_left s3 else 3) in
          if request < 0 then None
          else case rcv (nat request) w1 of (bs, w2) \<Rightarrow>
            map_option (\<lambda>r. (r, w2)) (take_bytes (min buff_size (int PACK_SIZE)) s3 bs))"

section \<open>Packages in pieces\<close>

text \<open>A connection on which bytes arrive in pieces of any size; \<open>n\<close> calls, and the packages they gave out, if none failed.\<close>

definition net_select :: "nat \<times> bytes \<Rightarrow> int \<times> nat \<times> bytes" where
  "net_select w = (if snd w = [] then 0 else 1, w)"

definition net_recv :: "(nat \<Rightarrow> nat) \<Rightarrow> nat \<Rightarrow> nat \<times> bytes \<Rightarrow> bytes \<times> nat \<times> bytes" where
  "net_recv piece n w = (let k = min n (Suc (piece (fst w))) in (take k (snd w), Suc (fst w), drop k (snd w)))"

fun receive_all :: "(nat \<Rightarrow> nat) \<Rightarrow> nat \<Rightarrow> sock_rw \<Rightarrow> nat \<times> bytes \<Rightarrow> (bytes list \<times> sock_rw \<times> nat \<times> bytes) option" where
  "receive_all piece 0 s w = Some ([], s, w)"
| "receive_all piece (Suc n) s w = do {
     ((r, d, s1), w1) \<leftarrow> receive net_select (net_recv piece) (int PACK_SIZE) s w;
     if r < 0 then None
     else do {
       (ps, s2, w2) \<leftarrow> receive_all piece n s1 w1;
       Some (if 0 < r then d # ps else ps, s2, w2)
     }
   }"

text \<open>Where the connection is after \<open>c\<close> bytes of the package of \<open>p\<close>.\<close>

definition in_package :: "sock_rw \<Rightarrow> bytes \<Rightarrow> nat \<Rightarrow> bool" where
  "in_package s p c \<longleftrightarrow> sk_fd s \<noteq> - 1 \<and> length (sk_read_buff s) = Suc PACK_SIZE \<and> length (sk_msg_buff s) = Suc PACK_SIZE
     \<and> (if c = 0 then sk_step s = 0 \<and> sk_read_pos s = 0 \<and> sk_read_left s = int PACK_SIZE \<and> sk_msg_pos s = 0
        else if c = 1 then sk_step s = 1 \<and> sk_read_pos s = 1 \<and> sk_read_left s = int PACK_SIZE - 1 \<and> sk_msg_pos s = 1
        else if c = 2 then sk_step s = 1 \<and> sk_read_pos s = 2 \<and> sk_read_left s = int PACK_SIZE - 2 \<and> sk_msg_pos s = 1
          \<and> sk_read_buff s ! 1 = len_bytes (length p) ! 0
        else sk_step s = 2 \<and> sk_package_len s = length p \<and> sk_msg_pos s = c \<and> take (c - 3) (drop 3 (sk_msg_buff s)) = take (c - 3) p
          \<and> (sk_read_pos s = 3 \<and> sk_read_left s = int PACK_SIZE - 3 \<or> sk_read_pos s = 0 \<and> sk_read_left s = int PACK_SIZE))"

lemma bytes_len_bytes: "n < 65536 \<Longrightarrow> bytes_len [word_of_nat (n mod 256), word_of_nat (n div 256 mod 256)] = n"
  by (simp add: bytes_len_def unat_of_nat)

lemma mem_put_length: "mem_put i xs m = Some m' \<Longrightarrow> length m' = length m"
  by (auto simp: mem_put_def split: if_splits)

lemmas buffer_defs = mem_get_def mem_put_def mem_copy_def

lemmas receive_defs = take_bytes_def in_package_def buffer_defs packet_def len_bytes_def read_mark_def read_len_def read_data_def
  package_left_def PACK_SIZE_def Let_def

lemma take_bytes_mark:
  assumes "in_package s p 0" "2 \<le> length p" "length p \<le> 5020" "p = p0 # p1 # ps" "bs = take k (packet p)" "1 \<le> k" "k \<le> 3"
  shows "\<exists>s'. take_bytes (int PACK_SIZE) s bs = Some (0, [], s') \<and> in_package s' p k"
proof -
  consider "k = 1" | "k = 2" | "k = 3" using assms(6,7) by linarith
  then show ?thesis
    by cases (use assms(1-5) bytes_len_bytes [of "length p"] in
      \<open>auto simp: receive_defs numeral_2_eq_2 numeral_3_eq_3 nth_append\<close>)
qed

text \<open>What a call gives: nothing yet, or the package, and then the connection is ready for the next one.\<close>

definition given :: "bytes \<Rightarrow> nat \<Rightarrow> received \<Rightarrow> bool" where
  "given p c r \<longleftrightarrow> (if c < 3 + length p then (\<exists>s'. r = (0, [], s') \<and> in_package s' p c)
     else \<exists>s'. r = (int (length p), p, s') \<and> (\<forall>q. in_package s' q 0))"

lemma take_bytes_len1:
  assumes "in_package s p 1" "2 \<le> length p" "length p \<le> 5020" "p = p0 # p1 # ps" "bs = take k (drop 1 (packet p))" "1 \<le> k" "k \<le> 3"
  shows "\<exists>r. take_bytes (int PACK_SIZE) s bs = Some r \<and> given p (1 + k) r"
proof -
  consider "k = 1" | "k = 2" | "k = 3" using assms(6,7) by linarith
  then show ?thesis
    by cases (use assms(1-5) bytes_len_bytes [of "length p"] in
      \<open>auto simp: given_def receive_defs numeral_2_eq_2 numeral_3_eq_3 nth_append\<close>)
qed

lemma take_bytes_len2:
  assumes "in_package s p 2" "2 \<le> length p" "length p \<le> 5020" "p = p0 # p1 # ps" "bs = take k (drop 2 (packet p))" "1 \<le> k" "k \<le> 3"
  shows "\<exists>r. take_bytes (int PACK_SIZE) s bs = Some r \<and> given p (2 + k) r"
proof -
  have two: "take 2 (sk_read_buff s) = [sk_read_buff s ! 0, sk_read_buff s ! 1]"
    using assms(1) by (auto simp: in_package_def PACK_SIZE_def numeral_2_eq_2 take_Suc_conv_app_nth)
  consider "k = 1" | "k = 2" | "k = 3" using assms(6,7) by linarith
  then show ?thesis
    by cases (use assms(1-5) two bytes_len_bytes [of "length p"] in
      \<open>auto simp: given_def receive_defs read_reset_def numeral_2_eq_2 numeral_3_eq_3 nth_append\<close>)
qed

lemma take_bytes_step2:
  assumes "sk_step s = 2" "mem_put (sk_read_pos s) bs (sk_read_buff s) = Some rb" "length bs = k" "1 \<le> k" "int k \<le> sk_read_left s"
  shows "take_bytes sz s bs = read_data sz (s\<lparr>sk_read_buff := rb, sk_read_left := sk_read_left s - int k\<rparr>) (int k)"
  using assms by (auto simp: take_bytes_def read_mark_def read_len_def Let_def)

lemma take_bytes_data:
  assumes "in_package s p c" "3 \<le> c" "c < 3 + length p" "length p \<le> 5020" "bs = take k (drop (c - 3) p)" "1 \<le> k" "k \<le> 3 + length p - c"
  shows "\<exists>r. take_bytes (int PACK_SIZE) s bs = Some r \<and> given p (c + k) r"
proof -
  have len: "length bs = k" using assms(2,3,5,7) by simp
  have st: "sk_fd s \<noteq> - 1" "length (sk_read_buff s) = Suc PACK_SIZE" "length (sk_msg_buff s) = Suc PACK_SIZE" "sk_step s = 2"
    "sk_package_len s = length p" "sk_msg_pos s = c" "take (c - 3) (drop 3 (sk_msg_buff s)) = take (c - 3) p"
    and pos: "sk_read_pos s = 3 \<and> sk_read_left s = int PACK_SIZE - 3 \<or> sk_read_pos s = 0 \<and> sk_read_left s = int PACK_SIZE"
    using assms(1,2) by (auto simp: in_package_def)
  let ?rb = "take (sk_read_pos s) (sk_read_buff s) @ bs @ drop (sk_read_pos s + k) (sk_read_buff s)"
  let ?mb = "take c (sk_msg_buff s) @ bs @ drop (c + k) (sk_msg_buff s)"
  have put: "mem_put (sk_read_pos s) bs (sk_read_buff s) = Some ?rb"
    using pos st(2) len assms(2-4,7) by (auto simp: mem_put_def PACK_SIZE_def)
  have got: "mem_get (sk_read_pos s) k ?rb = Some bs"
    using pos st(2) len assms(2-4,7) by (auto simp: mem_get_def PACK_SIZE_def)
  have msg: "mem_put c bs (sk_msg_buff s) = Some ?mb" using st(3) len assms(2-4,7) by (auto simp: mem_put_def PACK_SIZE_def)
  have all: "take (c - 3 + k) (drop 3 ?mb) = take (c - 3 + k) p"
  proof -
    obtain d where d: "c = 3 + d" using assms(2) le_Suc_ex by blast
    show ?thesis using st(3,7) len assms(3-5,7) by (simp add: d PACK_SIZE_def drop_take take_add)
  qed
  have b: "c + k \<le> 5023" "k \<le> 5020" using assms(2-4,7) by linarith+
  let ?s = "s\<lparr>sk_read_buff := ?rb, sk_read_left := sk_read_left s - int k\<rparr>"
  have step: "take_bytes (int PACK_SIZE) s bs = read_data (int PACK_SIZE) ?s (int k)"
    by (rule take_bytes_step2 [OF st(4) put len assms(6)]) (use pos b(2) in \<open>auto simp: PACK_SIZE_def\<close>)
  have copy: "mem_copy c (sk_read_pos s) (int k) ?rb (sk_msg_buff s) = Some ?mb" using got msg by (simp add: mem_copy_def)
  have lens: "length ?rb = Suc PACK_SIZE" "length ?mb = Suc PACK_SIZE"
    using mem_put_length [OF put] mem_put_length [OF msg] st(2,3) by simp_all
  have left: "package_left ?s = int (3 + length p) - int c" using st(5,6) by (simp add: package_left_def)
  show ?thesis
  proof (cases "c + k < 3 + length p")
    case True
    then have "read_data (int PACK_SIZE) ?s (int k) = Some (0, [], ?s\<lparr>sk_msg_buff := ?mb, sk_msg_pos := c + k, sk_read_pos := 0,
        sk_read_left := int PACK_SIZE\<rparr>)"
      using st(4,6) copy left assms(6) by (simp add: read_data_def nat_int_add)
    moreover have "take (c + k - 3) (drop 3 ?mb) = take (c + k - 3) p" using all assms(2) by simp
    ultimately show ?thesis using True step st(1,4,5) lens assms(2) by (simp add: given_def in_package_def)
  next
    case False
    then have e: "int (3 + length p) - int c = int k" "c + k = 3 + length p" using assms(3,7) by linarith+
    then have "take (length p) (drop 3 ?mb) = p" using all assms(2) by (auto simp: add.commute)
    then have "mem_get 3 (length p) ?mb = Some p" using lens(2) assms(4) unfolding mem_get_def PACK_SIZE_def by simp
    then have "read_data (int PACK_SIZE) ?s (int k)
        = Some (int (length p), p, (read_reset (?s\<lparr>sk_msg_buff := ?mb\<rparr>))\<lparr>sk_step := 0\<rparr>)"
      using st(4,5,6) copy left e(1) assms(4,6) by (simp add: read_data_def Let_def PACK_SIZE_def)
    then show ?thesis using e(2) step st(1) lens by (simp add: given_def in_package_def read_reset_def)
  qed
qed

lemma in_package_frame [simp]:
  "in_package (s\<lparr>sk_timeout := t\<rparr>) p c = in_package s p c" "in_package (s\<lparr>sk_error := e\<rparr>) p c = in_package s p c"
  "in_package (s\<lparr>sk_is_reading := b\<rparr>) p c = in_package s p c"
  by (simp_all add: in_package_def)

lemma packet_length [simp]: "length (packet p) = 3 + length p"
  by (simp add: packet_def len_bytes_def)

definition sendable :: "bytes \<Rightarrow> bool" where
  "sendable p \<longleftrightarrow> 2 \<le> length p \<and> length p \<le> PACK_SIZE - 4"

lemma take_bytes_given:
  assumes "in_package s p c" "sendable p" "c < 3 + length p" "1 \<le> k" "k \<le> (if c < 3 then 3 else 3 + length p - c)"
  shows "\<exists>r. take_bytes (int PACK_SIZE) s (take k (drop c (packet p))) = Some r \<and> given p (c + k) r"
proof -
  have l: "2 \<le> length p" "length p \<le> 5020" using assms(2) by (auto simp: sendable_def PACK_SIZE_def)
  then obtain p0 p1 ps where p: "p = p0 # p1 # ps" by (cases p; cases "tl p") auto
  consider "c = 0" | "c = 1" | "c = 2" | "3 \<le> c" by linarith
  then show ?thesis
  proof cases
    case 1
    have "\<exists>s'. take_bytes (int PACK_SIZE) s (take k (packet p)) = Some (0, [], s') \<and> in_package s' p k"
      by (rule take_bytes_mark [OF _ l p refl assms(4)]) (use assms(1,5) 1 in auto)
    then show ?thesis using 1 assms(5) l by (auto simp: given_def)
  next
    case 2
    then show ?thesis using take_bytes_len1 [OF _ l p refl assms(4)] assms(1,5) by auto
  next
    case 3
    then show ?thesis using take_bytes_len2 [OF _ l p refl assms(4)] assms(1,5) by auto
  next
    case 4
    have "drop c (packet p) = drop (c - 3) p" using 4 by (simp add: packet_def len_bytes_def drop_Cons' numeral_3_eq_3)
    then show ?thesis using take_bytes_data [OF assms(1) 4 assms(3) l(2) refl assms(4)] assms(5) 4 by auto
  qed
qed

lemma receive_piece:
  assumes "in_package s p c" "sendable p" "c < 3 + length p"
  shows "\<exists>k r. 1 \<le> k \<and> c + k \<le> 3 + length p \<and> given p (c + k) r
     \<and> receive net_select (net_recv piece) (int PACK_SIZE) s (i, drop c (packet p) @ rest) = Some (r, (Suc i, drop (c + k) (packet p) @ rest))"
proof -
  let ?req = "if c < 3 then 3 else 3 + length p - c" and ?s = "s\<lparr>sk_timeout := 0, sk_error := 0, sk_is_reading := True\<rparr>"
  define k where "k = min ?req (Suc (piece i))"
  have k: "1 \<le> k" "k \<le> ?req" "c + k \<le> 3 + length p" using assms(2,3) by (auto simp: k_def sendable_def)
  obtain r where r: "take_bytes (int PACK_SIZE) ?s (take k (drop c (packet p))) = Some r" "given p (c + k) r"
    using take_bytes_given [of ?s p c k] assms k by auto
  have ne: "drop c (packet p) @ rest \<noteq> []" using assms(3) by simp
  have req: "(if sk_step s = 2 then package_left ?s else 3) = int ?req" and fd: "sk_fd s \<noteq> - 1"
    using assms(1,3) by (auto simp: in_package_def package_left_def split: if_splits)
  have rcv: "net_recv piece ?req (i, drop c (packet p) @ rest) = (take k (drop c (packet p)), Suc i, drop (c + k) (packet p) @ rest)"
    using k(3) by (simp add: net_recv_def k_def [symmetric] add.commute)
  have "receive net_select (net_recv piece) (int PACK_SIZE) s (i, drop c (packet p) @ rest) = Some (r, (Suc i, drop (c + k) (packet p) @ rest))"
    using fd ne req rcv r(1) by (simp add: receive_def net_select_def Let_def)
  then show ?thesis using k r(2) by blast
qed

lemma receive_all_idle: "in_package s [] 0 \<Longrightarrow> \<exists>s'. receive_all piece n s (i, []) = Some ([], s', (i, [])) \<and> in_package s' [] 0"
proof (induction n arbitrary: s)
  case (Suc n)
  have "receive net_select (net_recv piece) (int PACK_SIZE) s (i, []) = Some ((0, [], s\<lparr>sk_timeout := 0, sk_error := 0\<rparr>), (i, []))"
    using Suc.prems by (simp add: receive_def net_select_def in_package_def)
  moreover have "in_package (s\<lparr>sk_timeout := 0, sk_error := 0\<rparr>) [] 0" using Suc.prems by simp
  then obtain s' where "receive_all piece n (s\<lparr>sk_timeout := 0, sk_error := 0\<rparr>) (i, []) = Some ([], s', (i, []))" "in_package s' [] 0"
    using Suc.IH by blast
  ultimately show ?case by simp
qed simp

lemma receive_all_from:
  assumes "in_package s p c" "c < 3 + length p" "\<forall>q\<in>set (p # qs). sendable q" "length (drop c (packet p) @ concat (map packet qs)) \<le> n"
  shows "\<exists>s' j. receive_all piece n s (i, drop c (packet p) @ concat (map packet qs)) = Some (p # qs, s', (j, [])) \<and> in_package s' [] 0"
  using assms
proof (induction n arbitrary: s p c qs i)
  case (Suc n)
  obtain k r where k: "1 \<le> k" "c + k \<le> 3 + length p" "given p (c + k) r"
    "receive net_select (net_recv piece) (int PACK_SIZE) s (i, drop c (packet p) @ concat (map packet qs))
       = Some (r, (Suc i, drop (c + k) (packet p) @ concat (map packet qs)))"
    using receive_piece [OF Suc.prems(1) _ Suc.prems(2), of piece i "concat (map packet qs)"] Suc.prems(3) by auto
  show ?case
  proof (cases "c + k < 3 + length p")
    case True
    then obtain s1 where s1: "r = (0, [], s1)" "in_package s1 p (c + k)" using k(3) by (auto simp: given_def)
    have "length (drop (c + k) (packet p) @ concat (map packet qs)) \<le> n" using Suc.prems(4) k(1) True by simp
    then show ?thesis using Suc.IH [OF s1(2) True Suc.prems(3), of "Suc i"] k(4) s1(1) by auto
  next
    case False
    then obtain s1 where s1: "r = (int (length p), p, s1)" "\<And>q. in_package s1 q 0" using k(3) by (auto simp: given_def)
    have e: "drop (c + k) (packet p) = []" "0 < length p" using False Suc.prems(3) by (auto simp: sendable_def)
    show ?thesis
    proof (cases qs)
      case Nil
      then show ?thesis using receive_all_idle [OF s1(2), of piece n "Suc i"] k(4) s1(1) e by auto
    next
      case (Cons q qs')
      have "length (drop 0 (packet q) @ concat (map packet qs')) \<le> n" using Suc.prems(4) k(1,2) Cons False by simp
      then show ?thesis using Suc.IH [OF s1(2) _ _, of q qs' "Suc i"] k(4) s1(1) e Cons Suc.prems(3) by auto
    qed
  qed
qed simp

text \<open>
  C11: the packages that were sent, of two bytes at least, come out of the connection whole, unchanged and in order, however the bytes
  are cut into pieces on the way; no call fails and no copy leaves its buffer. Each call reads at least a byte, so as many calls as
  there are bytes are enough.
\<close>

theorem packages_received:
  assumes "fd \<noteq> - 1" "length rb = Suc PACK_SIZE" "length mb = Suc PACK_SIZE"
    and "\<forall>p\<in>set ps. 2 \<le> length p \<and> length p \<le> PACK_SIZE - 4" "length (concat (map (\<lambda>p. send_buffer p (length p)) ps)) \<le> n"
  shows "\<exists>s j. receive_all piece n (sock_rw_new fd rb mb len) (i, concat (map (\<lambda>p. send_buffer p (length p)) ps)) = Some (ps, s, (j, []))
     \<and> sk_step s = 0 \<and> sk_fd s \<noteq> - 1"
proof -
  have c: "map (\<lambda>p. send_buffer p (length p)) ps = map packet ps"
    using assms(4) by (auto simp: send_buffer_def packet_def Let_def min_absorb1)
  have new: "in_package (sock_rw_new fd rb mb len) q 0" for q using assms(1-3) by (simp add: in_package_def sock_rw_new_def)
  show ?thesis
  proof (cases ps)
    case Nil
    then show ?thesis using receive_all_idle [OF new, of piece n i] c by (fastforce simp: in_package_def)
  next
    case (Cons p qs)
    have "\<exists>s' j. receive_all piece n (sock_rw_new fd rb mb len) (i, drop 0 (packet p) @ concat (map packet qs)) = Some (p # qs, s', (j, []))
        \<and> in_package s' [] 0"
    proof (rule receive_all_from [OF new])
      show "length (drop 0 (packet p) @ concat (map packet qs)) \<le> n" using assms(5) unfolding c unfolding Cons by simp
    qed (use assms(4) Cons in \<open>auto simp: sendable_def\<close>)
    then show ?thesis unfolding c unfolding Cons by (auto simp: in_package_def)
  qed
qed

theorem packages_received_witness:
  "\<forall>piece. \<exists>s j. receive_all piece 20 (sock_rw_new 4 (replicate 5025 0) (replicate 5025 0) 0)
      (0, concat (map (\<lambda>p. send_buffer p (length p)) [[1, 2, 3], [0xFF, 0xFF]])) = Some ([[1, 2, 3], [0xFF, 0xFF]], s, (j, [])) \<and> sk_step s = 0"
proof
  fix piece :: "nat \<Rightarrow> nat"
  show "\<exists>s j. receive_all piece 20 (sock_rw_new 4 (replicate 5025 0) (replicate 5025 0) 0)
      (0, concat (map (\<lambda>p. send_buffer p (length p)) [[1, 2, 3], [0xFF, 0xFF]])) = Some ([[1, 2, 3], [0xFF, 0xFF]], s, (j, [])) \<and> sk_step s = 0"
    using packages_received [of 4 "replicate 5025 0" "replicate 5025 0" "[[1, 2, 3], [0xFF, 0xFF]]" 20 piece 0 0]
    by (simp add: PACK_SIZE_def send_buffer_def len_bytes_def) blast
qed

text \<open>
  A package of one byte whose first two bytes come alone: three more are read, and the first byte of the next package is lost, so the
  next call finds no mark. A length over the buffers makes the next read leave the buffer, without any authorization.
\<close>

definition three_calls :: "bytes list \<Rightarrow> sock_rw \<Rightarrow> received option" where
  "three_calls pieces s = fold (\<lambda>bs r. Option.bind r (\<lambda>(_, _, t). take_bytes 5024 t bs)) pieces (Some (0, [], s))"

lemma short_package_loses_byte:
  assumes "length rb = 5025" "length mb = 5025"
  shows "\<exists>s. three_calls [[0xFF, 1], [0, 7, 0xFF]] (sock_rw_new 4 rb mb 0) = Some (1, [7], s)
     \<and> (\<exists>t. take_bytes 5024 s [2, 0, 9] = Some (- 1, [], t) \<and> sk_error t = ERR_SEQ)"
proof -
  have two: "take 2 ([0xFF, 1] @ drop 2 rb) = [0xFF, 1]" by simp
  obtain r0 r1 rr where rb: "rb = r0 # r1 # rr" using assms(1) by (cases rb; cases "tl rb") auto
  obtain m0 m1 m2 m3 mm where mb: "mb = m0 # m1 # m2 # m3 # mm" using assms(2)
    by (cases mb; cases "tl mb"; cases "tl (tl mb)"; cases "tl (tl (tl mb))") auto
  show ?thesis using assms
    by (simp add: three_calls_def sock_rw_new_def take_bytes_def buffer_defs read_mark_def read_len_def read_data_def package_left_def
        PACK_SIZE_def Let_def rb mb bytes_len_def read_reset_def receive_error_def)
qed

lemma long_package_overruns:
  assumes "length rb = 5025" "length mb = 5025" "length bs = 5023"
  shows "\<exists>s. three_calls [[0xFF, 0xFF, 0xFF]] (sock_rw_new 4 rb mb 0) = Some (0, [], s) \<and> sk_auth s = 0
     \<and> package_left s = 65535 \<and> take_bytes 5024 s bs = None"
proof -
  obtain m0 m1 m2 mm where mb: "mb = m0 # m1 # m2 # mm" using assms(2) by (cases mb; cases "tl mb"; cases "tl (tl mb)") auto
  show ?thesis using assms
    by (simp add: three_calls_def sock_rw_new_def take_bytes_def buffer_defs read_mark_def read_len_def read_data_def package_left_def
        PACK_SIZE_def Let_def mb bytes_len_def)
qed

end
