(* ===== verification/Server_Check.thy ===== *)
theory Server_Check
  imports Server_Socket Server_Operator Legacy_Text
begin

text \<open>
  What the payment server reads from a package (\<open>CompileCheckPay\<close> and \<open>GetAuthorization\<close> of
  \<open>legacy/payguide/src/paycheck.cpp\<close>): a payment to check, or a name and a password. The package is the front of a
  buffer of a fixed size; a field is copied before the length is compared, so it may come from behind the package.
  The theorem at the end shows that a request that was put together comes back.
\<close>

section \<open>Numbers in packages\<close>

definition le_nat :: "bytes \<Rightarrow> nat" where
  "le_nat bs = foldr (\<lambda>b n. unat b + 256 * n) bs 0"

definition le_bytes :: "nat \<Rightarrow> nat \<Rightarrow> bytes" where
  "le_bytes k n = map (\<lambda>i. word_of_nat (n div 256 ^ i mod 256)) [0..<k]"

definition le_int :: "bytes \<Rightarrow> int" where
  "le_int bs = (let n = int (le_nat bs); m = 256 ^ length bs in if 2 * n < m then n else n - m)"

definition le_int_bytes :: "nat \<Rightarrow> int \<Rightarrow> bytes" where
  "le_int_bytes k i = le_bytes k (nat (i mod 256 ^ k))"

definition byte_char :: "8 word \<Rightarrow> char" where
  "byte_char b = char_of (unat b)"

definition char_byte :: "char \<Rightarrow> 8 word" where
  "char_byte c = word_of_nat (of_char c)"

section \<open>A payment to check\<close>

record check_pay =
  cp_pay :: server_pay
  cp_magic :: "8 word"
  cp_netversion :: "8 word"

definition SIZE_DATA :: nat where "SIZE_DATA = 2048"

text \<open>What a package announces as sums, and what is read of them: five bytes each, the whole part and the hundredths.\<close>

definition sums_counted :: "8 word \<Rightarrow> nat" where
  "sums_counted v = (if 1 \<le> v then 10 else 0) + (if 2 \<le> v then 5 else 0)"

definition read_sum :: "(nat \<Rightarrow> nat \<Rightarrow> c_float) \<Rightarrow> nat \<Rightarrow> bytes \<Rightarrow> (c_float \<times> nat) option" where
  "read_sum to_float p buf = do {
     i \<leftarrow> mem_get p 4 buf;
     f \<leftarrow> mem_get (p + 4) 1 buf;
     Some (to_float (le_nat i) (le_nat f), p + 5)
   }"

definition read_sum_from :: "(nat \<Rightarrow> nat \<Rightarrow> c_float) \<Rightarrow> bool \<Rightarrow> nat \<Rightarrow> bytes \<Rightarrow> (c_float option \<times> nat) option" where
  "read_sum_from to_float present p buf =
     (if present then map_option (\<lambda>(x, q). (Some x, q)) (read_sum to_float p buf) else Some (None, p))"

text \<open>The length of the data: what the rest leaves, between nothing and the size of the field.\<close>

definition data_length :: "int \<Rightarrow> 8 word \<Rightarrow> nat" where
  "data_length sz v = (let l = sz - 23 - int (sums_counted v) in if l < 0 then 0 else if int SIZE_DATA < l then SIZE_DATA else nat l)"

definition minus_one :: c_float where
  "minus_one = Finite True 1 0"

definition override :: "(c_float \<Rightarrow> server_pay \<Rightarrow> server_pay) \<Rightarrow> c_float option \<Rightarrow> server_pay \<Rightarrow> server_pay" where
  "override f x p = (case x of None \<Rightarrow> p | Some v \<Rightarrow> f v p)"

text \<open>
  The branch of \<open>CompileCheckPay\<close> for payments: \<open>Some None\<close> when the package is rejected. The time is an argument, and so is the
  conversion of a sum to a \<open>float\<close>, which depends on the processor.
\<close>

definition compile_check :: "(nat \<Rightarrow> nat \<Rightarrow> c_float) \<Rightarrow> string \<Rightarrow> bytes \<Rightarrow> int \<Rightarrow> check_pay option option" where
  "compile_check to_float stamp buf sz = do {
     v \<leftarrow> (if 1 < sz then map_option hd (mem_get 1 1 buf) else Some 0);
     pay_id \<leftarrow> mem_get 2 8 buf;
     magic \<leftarrow> mem_get 10 1 buf;
     provider \<leftarrow> mem_get 11 4 buf;
     terminal \<leftarrow> mem_get 15 4 buf;
     cur \<leftarrow> mem_get 19 4 buf;
     let l = data_length sz v;
     msg \<leftarrow> mem_get 23 l buf;
     (real_summ, p1) \<leftarrow> read_sum_from to_float (1 \<le> v) (23 + l) buf;
     (amount, p2) \<leftarrow> read_sum_from to_float (2 \<le> v) p1 buf;
     (back_summ, p3) \<leftarrow> read_sum_from to_float (3 \<le> v) p2 buf;
     if sz \<noteq> int p3 then Some None
     else
       let pay = spay.extend (compile_new_pay (le_int pay_id) 10 (le_int provider) (Some stamp) (Some (map byte_char msg)) None
             (int (le_nat terminal)) (le_int cur) (Finite False 0 0) (Finite False 0 0) minus_one minus_one minus_one)
             \<lparr>sv_conv_sub = None\<rparr>
       in Some (Some \<lparr>cp_pay = override (\<lambda>x p. p\<lparr>sp_back_summ := x\<rparr>) back_summ (override (\<lambda>x p. p\<lparr>sp_amount := x\<rparr>) amount
             (override (\<lambda>x p. p\<lparr>sp_summ := x\<rparr>) real_summ pay)), cp_magic = hd magic, cp_netversion = v\<rparr>)
   }"

section \<open>A name and a password\<close>

datatype auth_request = Malformed | Login string string

text \<open>The branch for authorizations: the lengths, the name, the password, and nothing after.\<close>

definition read_login :: "bytes \<Rightarrow> int \<Rightarrow> auth_request option" where
  "read_login buf sz =
     (if sz \<le> 4 then Some Malformed
      else do {
        lb \<leftarrow> mem_get 2 2 buf;
        pb \<leftarrow> mem_get 4 2 buf;
        let l = le_nat lb;
        let p = le_nat pb;
        if 1024 \<le> l \<or> 1024 \<le> p then Some Malformed
        else do {
          login \<leftarrow> mem_get 6 l buf;
          password \<leftarrow> mem_get (6 + l) p buf;
          Some (if int (6 + l + p) = sz then Login (c_str (map byte_char login)) (c_str (map byte_char password)) else Malformed)
        }
      })"

definition AUTH_NONE :: int where "AUTH_NONE = 0"
definition AUTH_STAT :: int where "AUTH_STAT = 1"
definition AUTH_PAYCHECK :: int where "AUTH_PAYCHECK = 2"
definition AUTH_CONTROL :: int where "AUTH_CONTROL = 3"
definition AUTH_ADMIN :: int where "AUTH_ADMIN = 4"

lemmas auth_levels = AUTH_NONE_def AUTH_STAT_def AUTH_PAYCHECK_def AUTH_CONTROL_def AUTH_ADMIN_def

text \<open>The last kind of access whose password is the given one.\<close>

fun auth_loop :: "(string \<Rightarrow> bytes) \<Rightarrow> server_config \<Rightarrow> string \<Rightarrow> string \<Rightarrow> int \<Rightarrow> string list \<Rightarrow> int \<Rightarrow> int" where
  "auth_loop md5 users login password i [] adm_level = adm_level"
| "auth_loop md5 users login password i (nm # ns) adm_level =
     auth_loop md5 users login password (i + 1) ns
       (case get_value login (Some nm) users of
          None \<Rightarrow> adm_level
        | Some t \<Rightarrow> (case create_md5_hex_sign md5 password 1023 of
            None \<Rightarrow> adm_level
          | Some sign \<Rightarrow> if t = sign then i + 1 else adm_level))"

definition auth_names :: "string list" where
  "auth_names = [''view'', ''paycheck'', ''control'', ''admin'']"

definition get_authorization :: "(string \<Rightarrow> bytes) \<Rightarrow> server_config \<Rightarrow> string \<Rightarrow> string \<Rightarrow> int" where
  "get_authorization md5 users login password = auth_loop md5 users login password 0 auth_names 0"

section \<open>What authorization grants\<close>

definition may_log_in :: "(string \<Rightarrow> bytes) \<Rightarrow> server_config \<Rightarrow> string \<Rightarrow> string \<Rightarrow> nat \<Rightarrow> bool" where
  "may_log_in md5 users login password k \<longleftrightarrow>
     get_value login (Some (auth_names ! k)) users = Some (concat (map hex_byte (md5 password)))"

lemma auth_loop_level:
  assumes "adm_level = 0 \<or> (\<exists>j<i. adm_level = int j + 1 \<and> j < 4 \<and> may_log_in md5 users login password j)"
    "\<forall>j<i. may_log_in md5 users login password j \<longrightarrow> int j + 1 \<le> adm_level" "drop i auth_names = ns" "i + length ns = 4"
  shows "(let r = auth_loop md5 users login password (int i) ns adm_level in
     (r = 0 \<or> (\<exists>j<4. r = int j + 1 \<and> may_log_in md5 users login password j))
     \<and> (\<forall>j<4. may_log_in md5 users login password j \<longrightarrow> int j + 1 \<le> r))"
  using assms
proof (induction ns arbitrary: i adm_level)
  case Nil
  then show ?case by auto
next
  case (Cons nm ns)
  have i: "i < 4" using Cons.prems(4) by simp
  have nm: "nm = auth_names ! i" "drop (Suc i) auth_names = ns"
    using Cons.prems(3) Cons_nth_drop_Suc [of i auth_names] i by (auto simp: auth_names_def)
  let ?l = "(case get_value login (Some nm) users of
          None \<Rightarrow> adm_level
        | Some t \<Rightarrow> (case create_md5_hex_sign md5 password 1023 of
            None \<Rightarrow> adm_level
          | Some sign \<Rightarrow> if t = sign then int i + 1 else adm_level))"
  have l: "?l = (if may_log_in md5 users login password i then int i + 1 else adm_level)"
    by (auto simp: may_log_in_def nm(1) [symmetric] create_md5_hex_sign_def split: option.splits)
  have "?l = 0 \<or> (\<exists>j<Suc i. ?l = int j + 1 \<and> j < 4 \<and> may_log_in md5 users login password j)"
    using Cons.prems(1) i unfolding l by (auto simp: less_Suc_eq)
  moreover have "\<forall>j<Suc i. may_log_in md5 users login password j \<longrightarrow> int j + 1 \<le> ?l"
    using Cons.prems(1,2) unfolding l by (auto simp: less_Suc_eq)
  ultimately show ?case using Cons.IH [of ?l "Suc i"] nm Cons.prems(4) by (simp add: add.commute)
qed

text \<open>Access is granted to exactly those whose password has the stored digest, at the highest level it was stored for.\<close>

lemma authorization_by_password:
  "(get_authorization md5 users login password = 0 \<longleftrightarrow> (\<forall>k<4. \<not> may_log_in md5 users login password k))
   \<and> (\<forall>k<4. get_authorization md5 users login password = int k + 1 \<longrightarrow> may_log_in md5 users login password k)
   \<and> (\<forall>k<4. may_log_in md5 users login password k \<longrightarrow> int k + 1 \<le> get_authorization md5 users login password)"
  using auth_loop_level [of 0 0 md5 users login password auth_names]
  unfolding get_authorization_def by (auto simp: Let_def auth_names_def)

section \<open>A request comes back\<close>

lemma le_bytes_length [simp]: "length (le_bytes k n) = k" "length (le_int_bytes k i) = k"
  by (simp_all add: le_bytes_def le_int_bytes_def)

lemma le_nat_simps [simp]: "le_nat [] = 0" "le_nat (b # bs) = unat b + 256 * le_nat bs"
  by (simp_all add: le_nat_def)

lemma le_bytes_Suc: "le_bytes (Suc k) n = word_of_nat (n mod 256) # le_bytes k (n div 256)"
proof -
  have "[0..<Suc k] = 0 # map Suc [0..<k]" by (simp add: upt_conv_Cons map_Suc_upt)
  then show ?thesis by (simp add: le_bytes_def div_mult2_eq)
qed

lemma le_nat_le_bytes: "n < 256 ^ k \<Longrightarrow> le_nat (le_bytes k n) = n"
proof (induction k arbitrary: n)
  case 0
  then show ?case by (simp add: le_bytes_def)
next
  case (Suc k)
  have "n div 256 < 256 ^ k" using Suc.prems by (simp add: less_mult_imp_div_less mult.commute)
  then show ?case using Suc.IH by (simp add: le_bytes_Suc unat_of_nat)
qed

lemma le_int_bytes_value:
  assumes "- (256 ^ k) \<le> 2 * i" "2 * i < 256 ^ k"
  shows "le_int (le_int_bytes k i) = i"
proof -
  have pos: "0 < (256::int) ^ k" by simp
  have m: "nat (i mod 256 ^ k) < 256 ^ k" using pos_mod_bound [OF pos, of i] pos_mod_sign [OF pos, of i] by (simp add: nat_less_iff)
  have n: "int (le_nat (le_int_bytes k i)) = i mod 256 ^ k"
    using le_nat_le_bytes [OF m] pos_mod_sign [OF pos, of i] by (simp add: le_int_bytes_def)
  show ?thesis
  proof (cases "0 \<le> i")
    case True
    then have "i mod 256 ^ k = i" using assms(2) by (intro mod_pos_pos_trivial) linarith+
    then show ?thesis using n assms(2) by (simp add: le_int_def Let_def)
  next
    case False
    have "i mod 256 ^ k = (i + 256 ^ k) mod 256 ^ k" by simp
    also have "\<dots> = i + 256 ^ k" using assms(1) False by (intro mod_pos_pos_trivial) linarith+
    finally show ?thesis using n assms(1) False by (simp add: le_int_def Let_def)
  qed
qed

text \<open>A request as a client puts it together: without sums (version 0), or with three of them (version 3).\<close>

definition sum_bytes :: "nat \<times> nat \<Rightarrow> bytes" where
  "sum_bytes s = le_bytes 4 (fst s) @ le_bytes 1 (snd s)"

definition check_request :: "8 word \<Rightarrow> 8 word \<Rightarrow> int \<Rightarrow> 8 word \<Rightarrow> int \<Rightarrow> nat \<Rightarrow> int \<Rightarrow> string \<Rightarrow> (nat \<times> nat) list \<Rightarrow> bytes" where
  "check_request t v pay_id magic provider terminal cur data sums =
     [t, v] @ le_int_bytes 8 pay_id @ [magic] @ le_int_bytes 4 provider @ le_bytes 4 terminal @ le_int_bytes 4 cur
     @ map char_byte data @ concat (map sum_bytes sums)"

lemma byte_char_byte: "byte_char (char_byte c) = c"
  by (simp add: byte_char_def char_byte_def unat_of_nat)

lemma mem_get_append:
  "mem_get i n (xs @ ys) = (if i + n \<le> length xs then mem_get i n xs
     else if length xs \<le> i then mem_get (i - length xs) n ys else mem_get i n (xs @ ys))"
  by (auto simp: mem_get_def)

lemma mem_get_all [simp]: "mem_get 0 (length xs) (xs @ ys) = Some xs"
  by (simp add: mem_get_def)

lemma check_request_fields:
  assumes "buf = check_request t v pay_id magic provider terminal cur data sums @ rest"
  shows "mem_get 1 1 buf = Some [v]" "mem_get 2 8 buf = Some (le_int_bytes 8 pay_id)" "mem_get 10 1 buf = Some [magic]"
    "mem_get 11 4 buf = Some (le_int_bytes 4 provider)" "mem_get 15 4 buf = Some (le_bytes 4 terminal)"
    "mem_get 19 4 buf = Some (le_int_bytes 4 cur)" "mem_get 23 (length data) buf = Some (map char_byte data)"
    "mem_get (23 + length data + j) k buf = mem_get j k (concat (map sum_bytes sums) @ rest)"
  unfolding assms check_request_def
  by (simp_all add: mem_get_def drop_Cons' numeral_eq_Suc)

lemma sum_bytes_length [simp]: "length (sum_bytes x) = 5"
  by (simp add: sum_bytes_def)

lemma mem_get_skip: "n = length xs \<Longrightarrow> mem_get (n + j) k (xs @ ys) = mem_get j k ys"
  by (simp add: mem_get_def)

lemma read_sum_bytes:
  assumes "\<And>j k. mem_get (p + j) k buf = mem_get (i + j) k (sum_bytes x @ ys)" "i = 0" "fst x < 2 ^ 32" "snd x < 256"
  shows "read_sum to_float p buf = Some (to_float (fst x) (snd x), p + 5)"
proof -
  have "mem_get p 4 buf = Some (le_bytes 4 (fst x))" using assms(1) [of 0 4] assms(2) by (simp add: mem_get_def sum_bytes_def)
  moreover have "mem_get (p + 4) 1 buf = Some (le_bytes 1 (snd x))" using assms(1) [of 4 1] assms(2) by (simp add: mem_get_def sum_bytes_def)
  ultimately show ?thesis using assms(3,4) by (simp add: read_sum_def le_nat_le_bytes)
qed

lemma check_request_length: "length (check_request t v pay_id magic provider terminal cur data sums) = 23 + length data + 5 * length sums"
  by (simp add: check_request_def length_concat sum_list_triv comp_def)

text \<open>What the server is to read.\<close>

definition request_pay :: "string \<Rightarrow> int \<Rightarrow> int \<Rightarrow> nat \<Rightarrow> int \<Rightarrow> string \<Rightarrow> c_float \<Rightarrow> c_float \<Rightarrow> c_float \<Rightarrow> server_pay" where
  "request_pay stamp pay_id provider terminal cur data real_summ amount back_summ =
     (spay.extend (compile_new_pay pay_id 10 provider (Some stamp) (Some data) None
             (int terminal) cur (Finite False 0 0) (Finite False 0 0) minus_one minus_one minus_one) \<lparr>sv_conv_sub = None\<rparr>)
       \<lparr>sp_summ := real_summ, sp_amount := amount, sp_back_summ := back_summ\<rparr>"

text \<open>
  C12: a check request is read back field by field, whatever is behind it in the buffer: without sums as version 0, with the three sums as
  version 3 or later.
\<close>

theorem check_read_back:
  assumes "in_int64 pay_id" "in_int32 provider" "in_int32 cur" "terminal < 2 ^ 32" "length data \<le> SIZE_DATA"
    and "v = 0 \<and> sums = [] \<and> xs = (minus_one, minus_one, minus_one) \<or>
      3 \<le> v \<and> sums = [r, a, b] \<and> (\<forall>x\<in>set sums. fst x < 2 ^ 32 \<and> snd x < 256)
        \<and> xs = (to_float (fst r) (snd r), to_float (fst a) (snd a), to_float (fst b) (snd b))"
    and "buf = check_request t v pay_id magic provider terminal cur data sums @ rest"
  shows "compile_check to_float stamp buf (int (length (check_request t v pay_id magic provider terminal cur data sums)))
     = Some (Some \<lparr>cp_pay = request_pay stamp pay_id provider terminal cur data (fst xs) (fst (snd xs)) (snd (snd xs)),
          cp_magic = magic, cp_netversion = v\<rparr>)"
proof -
  note f = check_request_fields [OF assms(7)]
  have nums: "le_int (le_int_bytes 8 pay_id) = pay_id" "le_int (le_int_bytes 4 provider) = provider" "le_int (le_int_bytes 4 cur) = cur"
    "le_nat (le_bytes 4 terminal) = terminal"
    using assms(1-4) le_int_bytes_value [of 8 pay_id] le_int_bytes_value [of 4 provider] le_int_bytes_value [of 4 cur]
      le_nat_le_bytes [of terminal 4] by (simp_all add: in_int64_def in_int32_def)
  have chars: "map byte_char (map char_byte data) = data" by (simp add: comp_def byte_char_byte)
  show ?thesis
  proof (cases "v = 0")
    case True
    then have "sums = []" "xs = (minus_one, minus_one, minus_one)" using assms(6) by auto
    then show ?thesis using True f nums chars assms(5)
      by (simp add: compile_check_def check_request_length data_length_def sums_counted_def read_sum_from_def override_def Let_def
          request_pay_def compile_new_pay_def spay.defs)
  next
    case False
    then have s: "3 \<le> v" "sums = [r, a, b]" "xs = (to_float (fst r) (snd r), to_float (fst a) (snd a), to_float (fst b) (snd b))"
      and ok: "\<And>x. x \<in> {r, a, b} \<Longrightarrow> fst x < 2 ^ 32 \<and> snd x < 256" using assms(6) by auto
    have v: "1 \<le> v" "2 \<le> v" using s(1) by (auto intro: order_trans [rotated])
    have l: "data_length (int (length (check_request t v pay_id magic provider terminal cur data sums))) v = length data"
      using v s(2) assms(5) by (simp add: data_length_def check_request_length sums_counted_def)
    have tail: "mem_get (23 + length data + j) k buf = mem_get j k (sum_bytes r @ sum_bytes a @ sum_bytes b @ rest)" for j k
      using f(8) s(2) by simp
    have r1: "read_sum to_float (23 + length data) buf = Some (to_float (fst r) (snd r), 28 + length data)"
      using read_sum_bytes [of "23 + length data" buf 0 r "sum_bytes a @ sum_bytes b @ rest" to_float] tail ok by (simp add: add.assoc)
    have r2: "read_sum to_float (28 + length data) buf = Some (to_float (fst a) (snd a), 33 + length data)"
    proof -
      have "mem_get (28 + length data + j) k buf = mem_get (0 + j) k (sum_bytes a @ sum_bytes b @ rest)" for j k
        using tail [of "5 + j" k] mem_get_skip [of 5 "sum_bytes r" j k] by (simp add: ac_simps)
      then show ?thesis using read_sum_bytes [of "28 + length data" buf 0 a] ok by simp
    qed
    have r3: "read_sum to_float (33 + length data) buf = Some (to_float (fst b) (snd b), 38 + length data)"
    proof -
      have "mem_get (33 + length data + j) k buf = mem_get (0 + j) k (sum_bytes b @ rest)" for j k
        using tail [of "10 + j" k] mem_get_skip [of 10 "sum_bytes r @ sum_bytes a" j k] by (simp add: ac_simps)
      then show ?thesis using read_sum_bytes [of "33 + length data" buf 0 b] ok by simp
    qed
    show ?thesis using f l nums chars r1 r2 r3 s v
      by (simp add: compile_check_def check_request_length read_sum_from_def override_def Let_def request_pay_def compile_new_pay_def spay.defs)
  qed
qed

theorem check_read_back_witness:
  "\<forall>to_float stamp rest. compile_check to_float stamp (check_request 1 3 77 8 (- 2) 4000000000 643 ''a=1'' [(5, 25), (6, 0), (0, 99)] @ rest)
       (int (length (check_request 1 3 77 8 (- 2) 4000000000 643 ''a=1'' [(5, 25), (6, 0), (0, 99)])))
     = Some (Some \<lparr>cp_pay = request_pay stamp 77 (- 2) 4000000000 643 ''a=1'' (to_float 5 25) (to_float 6 0) (to_float 0 99),
          cp_magic = 8, cp_netversion = 3\<rparr>)"
proof (intro allI)
  fix to_float stamp rest
  show "compile_check to_float stamp (check_request 1 3 77 8 (- 2) 4000000000 643 ''a=1'' [(5, 25), (6, 0), (0, 99)] @ rest)
       (int (length (check_request 1 3 77 8 (- 2) 4000000000 643 ''a=1'' [(5, 25), (6, 0), (0, 99)])))
     = Some (Some \<lparr>cp_pay = request_pay stamp 77 (- 2) 4000000000 643 ''a=1'' (to_float 5 25) (to_float 6 0) (to_float 0 99),
          cp_magic = 8, cp_netversion = 3\<rparr>)"
    using check_read_back [of 77 "- 2" 643 4000000000 "''a=1''" 3 "[(5, 25), (6, 0), (0, 99)]" "(to_float 5 25, to_float 6 0, to_float 0 99)"
        "(5, 25)" "(6, 0)" "(0, 99)" to_float "check_request 1 3 77 8 (- 2) 4000000000 643 ''a=1'' [(5, 25), (6, 0), (0, 99)] @ rest" 1 8 rest stamp]
    by (simp add: in_int64_def in_int32_def SIZE_DATA_def)
qed

text \<open>Versions 1 and 2 announce one sum more than is read: a request of theirs with any data is rejected.\<close>

lemma read_sum_from_pos: "read_sum_from to_float present p buf = Some (x, q) \<Longrightarrow> q = (if present then p + 5 else p)"
  by (auto simp: read_sum_from_def read_sum_def bind_eq_Some_conv split: if_splits)

lemma compile_check_length:
  assumes "compile_check to_float stamp buf sz = Some (Some c)" "1 < sz" "map_option hd (mem_get 1 1 buf) = Some v"
  shows "sz = int (23 + data_length sz v + (if 1 \<le> v then 5 else 0) + (if 2 \<le> v then 5 else 0) + (if 3 \<le> v then 5 else 0))"
proof -
  obtain x y z p1 p2 p3 where "read_sum_from to_float (1 \<le> v) (23 + data_length sz v) buf = Some (x, p1)"
    "read_sum_from to_float (2 \<le> v) p1 buf = Some (y, p2)" "read_sum_from to_float (3 \<le> v) p2 buf = Some (z, p3)" "sz = int p3"
    using assms by (auto simp: compile_check_def bind_eq_Some_conv Let_def split: if_splits)
  then show ?thesis by (auto dest!: read_sum_from_pos)
qed

lemma versions_with_sums_rejected:
  assumes "v = 1 \<or> v = 2" "23 + int (sums_counted v) < sz" "1 < sz" "map_option hd (mem_get 1 1 buf) = Some v"
  shows "compile_check to_float stamp buf sz \<noteq> Some (Some c)"
proof
  assume c: "compile_check to_float stamp buf sz = Some (Some c)"
  have "sums_counted v = (if v = 1 then 10 else 15)" using assms(1) by (auto simp: sums_counted_def word_le_nat_alt)
  then have "int (23 + data_length sz v + (if v = 1 then 5 else 10)) < sz" using assms(1,2) by (auto simp: data_length_def Let_def)
  then show False using compile_check_length [OF c assms(3,4)] assms(1) by (auto simp: word_le_nat_alt split: if_splits)
qed

end
