(* ===== verification/Server_Net.thy ===== *)
theory Server_Net
  imports Server_Check Server_Db
begin

text \<open>
  The clients of the payment server and the checks they ask for (\<open>legacy/payguide/src/paycheck.cpp\<close>, the clients and
  \<open>readmultiselect\<close> of \<open>uremote_socket.cpp\<close>): connections come and go, a check waits in one list for its answer and in
  another to be handed to the main loop. Clients and connections are objects by address; an access to one that was deleted has no value.
  Every operation runs under the lock of the lists. The database of checks is a parameter.
\<close>

section \<open>State\<close>

record client =
  cn_sock :: "nat option"
  cn_delivery :: int
  cn_name :: string
  cn_level :: int

record check =
  ck_pay :: check_pay
  ck_sock :: "nat option"

record 'd net =
  nt_list :: "nat seq"
  nt_clients :: "nat \<rightharpoonup> client"
  nt_socks :: "nat \<rightharpoonup> sock_rw"
  nt_next :: nat
  nt_in :: "check seq"
  nt_cash :: "check seq"
  nt_turn :: nat
  nt_buffer :: bytes
  nt_sent :: "(nat \<times> bytes) list"
  nt_asked :: "(nat \<times> int) list"
  nt_world :: 'd
  nt_exit :: bool

text \<open>The outside: the database of checks with its login, the text \<open>mysql_real_escape_string\<close> makes, and the rows of the last statement.\<close>

record 'd net_env =
  ne_ops :: "'d sql_ops"
  ne_codes :: sql_codes
  ne_fuel :: nat
  ne_escape :: "string \<Rightarrow> string"
  ne_rows :: "'d \<Rightarrow> string option list list option"
  ne_login :: "string \<times> string \<times> string \<times> string"
  ne_max_queue :: nat
  ne_package_timeout :: int

definition empty_seq :: "'e seq" where
  "empty_seq = \<lparr>sq_items = [], sq_pos = 0, sq_gone = []\<rparr>"

text \<open>\<open>PCInit\<close>, when the socket is bound.\<close>

definition pc_init :: "bytes \<Rightarrow> 'd \<Rightarrow> 'd net" where
  "pc_init garbage w = \<lparr>nt_list = empty_seq, nt_clients = Map.empty, nt_socks = Map.empty, nt_next = 0, nt_in = empty_seq,
     nt_cash = empty_seq, nt_turn = 0, nt_buffer = garbage, nt_sent = [], nt_asked = [], nt_world = w, nt_exit = False\<rparr>"

definition net_sock :: "nat \<Rightarrow> (sock_rw \<Rightarrow> sock_rw) \<Rightarrow> 'd net \<Rightarrow> 'd net option" where
  "net_sock a f n = map_option (\<lambda>s. n\<lparr>nt_socks := (nt_socks n)(a \<mapsto> f s)\<rparr>) (nt_socks n a)"

text \<open>\<open>Send\<close>, whose result no caller looks at: what is sent is noted.\<close>

definition net_send :: "nat \<Rightarrow> bytes \<Rightarrow> 'd net \<Rightarrow> 'd net option" where
  "net_send a bs n = map_option (\<lambda>s. n\<lparr>nt_sent := nt_sent n @ [(a, bs)]\<rparr>) (nt_socks n a)"

text \<open>The element under the cursor, replaced; the loops of this file over a list of clients.\<close>

definition seq_put :: "'e \<Rightarrow> 'e seq \<Rightarrow> 'e seq" where
  "seq_put x l = (if 0 < sq_pos l then l\<lparr>sq_items := (sq_items l)[sq_pos l - 1 := Some x]\<rparr> else l)"

definition each_client :: "(nat \<Rightarrow> client \<Rightarrow> 'd net \<Rightarrow> 'd net option) \<Rightarrow> 'd net \<Rightarrow> 'd net option" where
  "each_client f n = do {
     (_, l, n1) \<leftarrow> for_each (\<lambda>e l s. (case e of
         None \<Rightarrow> Some (None :: unit option, l, s)
       | Some b \<Rightarrow> do { c \<leftarrow> nt_clients s b; s1 \<leftarrow> f b c s; Some (None, l, s1) })) (nt_list n) n;
     Some (n1\<lparr>nt_list := l\<rparr>)
   }"

section \<open>Connections\<close>

text \<open>\<open>ConnectionManager\<close>: a new connection, at most 500 of them; and old ones that say nothing.\<close>

definition accept_client :: "int \<Rightarrow> bytes \<Rightarrow> bytes \<Rightarrow> nat \<Rightarrow> int \<Rightarrow> 'd net \<Rightarrow> 'd net" where
  "accept_client fd rb mb len level n =
     (if 500 \<le> length (sq_items (nt_list n)) then n
      else let a = nt_next n; b = nt_next n + 1 in
        n\<lparr>nt_list := seq_add (Some b) (seq_reset (nt_list n)), nt_socks := (nt_socks n)(a \<mapsto> sock_rw_new fd rb mb len),
          nt_clients := (nt_clients n)(b \<mapsto> \<lparr>cn_sock = Some a, cn_delivery = 0, cn_name = ''<unauth>'', cn_level = level\<rparr>),
          nt_next := nt_next n + 2\<rparr>)"

definition expire_client :: "int \<Rightarrow> sock_rw \<Rightarrow> sock_rw" where
  "expire_client package_timeout s =
     (if sk_is_reading s \<or> authorized s = 0
      then (case sock_timeout s of (t, s1) \<Rightarrow> if package_timeout * 20 \<le> t then sock_down s1 else s1)
      else s)"

definition expire_clients :: "'d net_env \<Rightarrow> 'd net \<Rightarrow> 'd net option" where
  "expire_clients env = each_client (\<lambda>b c n. (case cn_sock c of
       None \<Rightarrow> Some n
     | Some a \<Rightarrow> net_sock a (expire_client (ne_package_timeout env)) n))"

text \<open>\<open>readmultiselect\<close>: \<open>ready\<close> is what \<open>select\<close> found. The number of connections to read from.\<close>

definition read_multi_select :: "(nat \<Rightarrow> bool) \<Rightarrow> 'd net \<Rightarrow> (nat \<times> 'd net) option" where
  "read_multi_select ready n = do {
     (_, l, k, n1) \<leftarrow> for_each (\<lambda>e l (k, s). (case e of
         None \<Rightarrow> Some (None :: unit option, l, k, s)
       | Some b \<Rightarrow> do {
           c \<leftarrow> nt_clients s b;
           (case cn_sock c of
              None \<Rightarrow> Some (None, l, k, s)
            | Some a \<Rightarrow> do {
                r \<leftarrow> nt_socks s a;
                if 0 \<le> sk_fd r
                then map_option (\<lambda>s1. (None, l, if ready a then k + 1 else k, s1)) (net_sock a (read_possible (if ready a then 1 else 0)) s)
                else Some (None, l, k, s)
              })
         })) (nt_list n) (0, n);
     Some (k, n1\<lparr>nt_list := l\<rparr>)
   }"

text \<open>A connection with an error: its checks lose it, and its client is deleted, and with it the connection.\<close>

definition forget_sock :: "nat \<Rightarrow> check seq \<Rightarrow> check seq option" where
  "forget_sock a l = map_option (\<lambda>(_, l1, _). l1) (for_each (\<lambda>e l s. Some (None :: unit option, (case e of
       None \<Rightarrow> l
     | Some c \<Rightarrow> if ck_sock c = Some a then seq_put (c\<lparr>ck_sock := None\<rparr>) l else l), s)) l ())"

definition drop_client :: "nat \<Rightarrow> 'd net \<Rightarrow> 'd net option" where
  "drop_client a n = do {
     (r, l, _) \<leftarrow> for_each (\<lambda>e l s. (case e of
         None \<Rightarrow> Some (None, l, s)
       | Some b \<Rightarrow> do { c \<leftarrow> nt_clients n b; Some (if cn_sock c = Some a then Some b else None, l, s) })) (nt_list n) ();
     (case r of
        None \<Rightarrow> Some (n\<lparr>nt_list := l\<rparr>)
      | Some b \<Rightarrow> do {
          waiting \<leftarrow> forget_sock a (nt_in n);
          cash \<leftarrow> forget_sock a (nt_cash n);
          Some (n\<lparr>nt_list := seq_remove_this l, nt_clients := (nt_clients n)(b := None), nt_socks := (nt_socks n)(a := None),
                  nt_in := waiting, nt_cash := cash\<rparr>)
        })
   }"

section \<open>Answers\<close>

record check_result =
  cr_code :: int
  cr_msg :: bytes
  cr_bdata_size :: int

definition RESULT_SUCESS_BIN :: int where "RESULT_SUCESS_BIN = 5000"
definition RESULT_QUEUE_FULL :: int where "RESULT_QUEUE_FULL = 201"
definition RESULT_UNKNOWN :: int where "RESULT_UNKNOWN = 20"

text \<open>The answer's text: up to the null byte, or as many bytes as the module said.\<close>

definition result_body :: "check_result \<Rightarrow> bytes option" where
  "result_body r =
     (if cr_code r = RESULT_SUCESS_BIN then (if cr_bdata_size r < 0 then None else mem_get 0 (nat (cr_bdata_size r)) (cr_msg r))
      else Some (takeWhile (\<lambda>b. b \<noteq> 0) (cr_msg r)))"

text \<open>The type of the package is the one \<open>CompileNewPay\<close> gives every payment; a copy keeps it.\<close>

definition new_pay_nettype :: "8 word" where "new_pay_nettype = 0x01"

definition answer_bytes :: "check_pay \<Rightarrow> int \<Rightarrow> bytes \<Rightarrow> bytes" where
  "answer_bytes c code body = [new_pay_nettype, cp_netversion c] @ le_int_bytes 8 (sp_id (cp_pay c)) @ [cp_magic c]
     @ le_int_bytes 4 code @ body"

definition check_query :: "'d net_env \<Rightarrow> string \<Rightarrow> 'd net \<Rightarrow> 'd net option" where
  "check_query env q n =
     (case ne_login env of (host, user, password, db_name) \<Rightarrow>
        case my_db_query (ne_ops env) (ne_codes env) (ne_fuel env) True (Some q) host user password db_name (nt_world n) of
          Some (Returned _, w) \<Rightarrow> Some (n\<lparr>nt_world := w\<rparr>)
        | _ \<Rightarrow> None)"

text \<open>
  The statement is put together in a buffer of 4096 bytes, with the null byte at its end; a longer one is written behind the buffer
  (\<open>None\<close>).
\<close>

definition check_result_statement :: "'d net_env \<Rightarrow> check_pay \<Rightarrow> int \<Rightarrow> bytes \<Rightarrow> string option" where
  "check_result_statement env c code body =
     (let q = ''update check_reqs set result='' @ [CHR 0x27] @ ne_escape env (map byte_char body) @ [CHR 0x27]
        @ snprintf_into 1024 ('',error='' @ show_int code @ '' where tid='' @ [CHR 0x27] @ show_int (sp_terminal_id (cp_pay c)) @ [CHR 0x27]
            @ '' and bill_num='' @ [CHR 0x27] @ show_int (sp_id (cp_pay c)) @ [CHR 0x27])
      in if length q < 4096 then Some q else None)"

definition store_check_result :: "'d net_env \<Rightarrow> bool \<Rightarrow> check_pay \<Rightarrow> int \<Rightarrow> bytes \<Rightarrow> 'd net \<Rightarrow> 'd net option" where
  "store_check_result env dontupdate c code body n =
     (if \<not> dontupdate \<and> sp_id (cp_pay c) \<noteq> 0
      then Option.bind (check_result_statement env c code body) (\<lambda>q. check_query env q n) else Some n)"

definition find_waiting :: "check_pay \<Rightarrow> check seq \<Rightarrow> (nat option option \<times> check seq) option" where
  "find_waiting p l = map_option (\<lambda>(r, l1, _). (r, l1)) (for_each (\<lambda>e l s. Some (case e of
       None \<Rightarrow> (None, l, s)
     | Some t \<Rightarrow> if sp_id (cp_pay (ck_pay t)) = sp_id (cp_pay p) \<and> sp_terminal_id (cp_pay (ck_pay t)) = sp_terminal_id (cp_pay p)
                 then (Some (ck_sock t), seq_remove_this l, s) else (None, l, s))) l ())"

text \<open>\<open>PCSetState\<close>: the result is stored, the first check that waits for it leaves the list, and its client is answered.\<close>

definition pc_set_state :: "'d net_env \<Rightarrow> bool \<Rightarrow> check_pay \<Rightarrow> check_result \<Rightarrow> 'd net \<Rightarrow> 'd net option" where
  "pc_set_state env dontupdate c res n = do {
     body \<leftarrow> result_body res;
     n1 \<leftarrow> store_check_result env dontupdate c (cr_code res) body n;
     if 5024 < 15 + length body then None
     else do {
       (r, l) \<leftarrow> find_waiting c (nt_in n1);
       (case r of
          Some (Some a) \<Rightarrow> net_send a (answer_bytes c (cr_code res) body) (n1\<lparr>nt_in := l\<rparr>)
        | _ \<Rightarrow> Some (n1\<lparr>nt_in := l\<rparr>))
     }
   }"

text \<open>A check from a client: it is noted as asked, and both lists get it, unless the queue is full; then it is answered as if it were in.\<close>

definition queue_full :: check_result where
  "queue_full = \<lparr>cr_code = RESULT_QUEUE_FULL, cr_msg = replicate 1025 0, cr_bdata_size = 0\<rparr>"

definition add_check :: "'d net_env \<Rightarrow> nat \<Rightarrow> check_pay \<Rightarrow> 'd net \<Rightarrow> 'd net option" where
  "add_check env a c n =
     (let n1 = n\<lparr>nt_asked := nt_asked n @ [(a, sp_id (cp_pay c))]\<rparr> in
      if length (sq_items (nt_in n1)) < ne_max_queue env
      then Some (n1\<lparr>nt_in := seq_add (Some \<lparr>ck_pay = c, ck_sock = Some a\<rparr>) (nt_in n1),
                   nt_cash := seq_add (Some \<lparr>ck_pay = c, ck_sock = Some a\<rparr>) (nt_cash n1)\<rparr>)
      else pc_set_state env False c queue_full n1)"

section \<open>Checks for the main loop\<close>

definition known_statement :: "check_pay \<Rightarrow> string" where
  "known_statement c = snprintf_into 512 (''select error, result from check_reqs where bill_num='' @ [CHR 0x27] @ show_int (sp_id (cp_pay c))
     @ [CHR 0x27] @ '' and tid='' @ show_int (sp_terminal_id (cp_pay c)))"

definition new_check_statement :: "check_pay \<Rightarrow> string" where
  "new_check_statement c = snprintf_into 512 (''insert into check_reqs(bill_num, tid, stamp, error) values('' @ [CHR 0x27]
     @ show_int (sp_id (cp_pay c)) @ [CHR 0x27] @ '', '' @ show_int (sp_terminal_id (cp_pay c)) @ '', now(), '' @ show_int RESULT_UNKNOWN @ '')'')"

definition take_first :: "check seq \<Rightarrow> (check option \<times> check seq) option" where
  "take_first l = map_option (\<lambda>(r, l1, _). (r, l1)) (for_each (\<lambda>e l s. Some (case e of
       None \<Rightarrow> (None, l, s) | Some c \<Rightarrow> (Some c, seq_remove_this l, s))) l ())"

text \<open>\<open>PCGetNextPay\<close>: the first check; one that the database knows is dropped, and nobody answers it.\<close>

definition pc_get_next_pay :: "'d net_env \<Rightarrow> bool \<Rightarrow> 'd net \<Rightarrow> (check_pay option \<times> 'd net) option" where
  "pc_get_next_pay env accept n =
     (if \<not> accept then Some (None, n)
      else do {
        (r, l) \<leftarrow> take_first (nt_cash n);
        let n1 = n\<lparr>nt_cash := l\<rparr>;
        (case r of
           None \<Rightarrow> Some (None, n1)
         | Some t \<Rightarrow>
             let c = (ck_pay t)\<lparr>cp_pay := (cp_pay (ck_pay t))\<lparr>sp_test := FULL_TEST\<rparr>\<rparr> in
             if sp_id (cp_pay c) = 0 then Some (Some c, n1)
             else do {
               n2 \<leftarrow> check_query env (known_statement c) n1;
               (case ne_rows env (nt_world n2) of
                  Some (row # _) \<Rightarrow> Some (None, n2)
                | _ \<Rightarrow> map_option (\<lambda>n3. (Some c, n3)) (check_query env (new_check_statement c) n2))
             })
      })"

section \<open>Messages\<close>

text \<open>\<open>SendLogMessages\<close>: to every client that asked for it.\<close>

definition log_bytes :: "int \<Rightarrow> string \<Rightarrow> bytes" where
  "log_bytes priority msg = [20, 0] @ le_int_bytes 4 priority @ map char_byte msg"

definition send_log_messages :: "int \<Rightarrow> string \<Rightarrow> 'd net \<Rightarrow> 'd net option" where
  "send_log_messages priority msg = each_client (\<lambda>b c n.
     (case cn_sock c of
        Some a \<Rightarrow> if cn_delivery c \<noteq> 0 then net_send a (log_bytes priority msg) n else Some n
      | None \<Rightarrow> Some n))"

text \<open>The names of the clients, for a client; the buffer has 1024 bytes.\<close>

definition user_bytes :: "string \<Rightarrow> bytes" where
  "user_bytes nm = le_bytes 2 (length nm) @ map char_byte nm"

definition send_users :: "nat \<Rightarrow> 'd net \<Rightarrow> 'd net option" where
  "send_users a n = do {
     (_, l, out) \<leftarrow> for_each (\<lambda>e l out. (case e of
         None \<Rightarrow> Some (None :: unit option, l, out)
       | Some b \<Rightarrow> do {
           c \<leftarrow> nt_clients n b;
           let out1 = out @ user_bytes (cn_name c);
           if 1024 < length out1 then None else Some (None, l, out1)
         })) (nt_list n) [22, 0];
     net_send a out (n\<lparr>nt_list := l\<rparr>)
   }"

definition set_client :: "nat \<Rightarrow> (client \<Rightarrow> client) \<Rightarrow> 'd net \<Rightarrow> 'd net option" where
  "set_client b f n = map_option (\<lambda>c. n\<lparr>nt_clients := (nt_clients n)(b \<mapsto> f c)\<rparr>) (nt_clients n b)"

end
