(* ===== verification/Server_Control.thy ===== *)
theory Server_Control
  imports Server_Pool Server_Ignore Server_Net
begin

text \<open>
  The commands of the payment server (\<open>legacy/payguide/src/ctl.cpp\<close>): what a client with enough rights can do to the
  threads, the modules, the operators, the lists of what is ignored and the settings. The state is the whole server; a
  command is one step. The module loader, the regular expressions, the files and the databases are parameters, and so is the time.
\<close>

section \<open>The server\<close>

record server_settings =
  ss_init_path :: string
  ss_operators_path :: string
  ss_db_host :: string
  ss_db_name :: string
  ss_db_user :: string
  ss_db_password :: string
  ss_perl_module :: string
  ss_interface :: string
  ss_port :: int
  ss_daemonize :: bool
  ss_backtrace :: string
  ss_reconnect_time :: int
  ss_reconnect_attempts :: int
  ss_package_timeout :: int
  ss_users_file :: string

record ('p, 'w, 'd, 'n) server =
  sr_pool :: "('p, 'w) pool"
  sr_db :: "'d pay_db"
  sr_ignore :: ignore_lists
  sr_net :: "'n net"
  sr_old_ops :: "nat seq option"
  sr_op_next :: nat
  sr_settings :: server_settings
  sr_reload :: bool
  sr_working :: bool
  sr_quit :: bool

record ('p, 'w, 'n) server_env =
  se_modules :: module_env
  se_regexps :: "'p regexps"
  se_operators_db :: "'w sql_ops"
  se_net :: "'n net_env"
  se_selects :: "string \<times> string"

definition reply :: "nat \<Rightarrow> bytes \<Rightarrow> ('p, 'w, 'd, 'n) server \<Rightarrow> ('p, 'w, 'd, 'n) server option" where
  "reply a bs s = map_option (\<lambda>n. s\<lparr>sr_net := n\<rparr>) (net_send a bs (sr_net s))"

definition unauth :: bytes where "unauth = [2, 0]"
definition answok :: bytes where "answok = [3, 0]"
definition answnok :: bytes where "answnok = [4, 0]"

text \<open>\<open>SendLogMessages\<close>, from the server.\<close>

definition tell_clients :: "string \<Rightarrow> ('p, 'w, 'd, 'n) server \<Rightarrow> ('p, 'w, 'd, 'n) server option" where
  "tell_clients msg s = map_option (\<lambda>n. s\<lparr>sr_net := n\<rparr>) (send_log_messages 0 msg (sr_net s))"

definition set_modules :: "module_state \<Rightarrow> ('p, 'w, 'd, 'n) server \<Rightarrow> ('p, 'w, 'd, 'n) server" where
  "set_modules ms s = s\<lparr>sr_pool := (sr_pool s)\<lparr>pl_modules := ms\<rparr>\<rparr>"

text \<open>The condition that is made of the lists goes into the selection of payments.\<close>

definition set_ignore :: "ignore_lists \<Rightarrow> ('p, 'w, 'd, 'n) server \<Rightarrow> ('p, 'w, 'd, 'n) server" where
  "set_ignore il s = s\<lparr>sr_ignore := il, sr_db := (sr_db s)\<lparr>pd_conditions := il_conditions il\<rparr>\<rparr>"

definition set_accept :: "bool \<Rightarrow> ('p, 'w, 'd, 'n) server \<Rightarrow> ('p, 'w, 'd, 'n) server" where
  "set_accept b s = s\<lparr>sr_db := (sr_db s)\<lparr>pd_accept := b\<rparr>\<rparr>"

section \<open>Reloading\<close>

text \<open>\<open>ReloadPaySys\<close>: new modules are loaded behind the old ones, which are marked.\<close>

definition mark_module :: "nat option \<Rightarrow> nat seq \<Rightarrow> module_state \<Rightarrow> (unit option \<times> nat seq \<times> module_state) option" where
  "mark_module e l ms =
     (case e of
        None \<Rightarrow> Some (None, l, ms)
      | Some a \<Rightarrow> map_option (\<lambda>m. (None, l, (set_module a (m\<lparr>mo_unloaded := True\<rparr>) ms)\<lparr>ms_cleanup := True\<rparr>)) (ms_store ms a))"

definition append_modules :: "nat option \<Rightarrow> nat seq \<Rightarrow> nat seq \<Rightarrow> (unit option \<times> nat seq \<times> nat seq) option" where
  "append_modules e l olds = Some (None, l, (case e of None \<Rightarrow> olds | Some a \<Rightarrow> seq_add (Some a) olds))"

definition reload_paysys :: "module_env \<Rightarrow> module_state \<Rightarrow> (int \<times> module_state) option" where
  "reload_paysys env ms = do {
     ms1 \<leftarrow> load_modules env (ms_path ms) ms;
     (_, olds, ms2) \<leftarrow> for_each mark_module (ms_list ms) ms1;
     (_, _, all_list) \<leftarrow> for_each append_modules (ms_list ms1) olds;
     (null_module, ms3) \<leftarrow> get_paysys_by_so_name (Some ''libnull.so'') (ms2\<lparr>ms_list := all_list\<rparr>);
     Some (0, ms3\<lparr>ms_null := null_module\<rparr>)
   }"

text \<open>\<open>ReConfOperators\<close> and \<open>ReConfPaysys\<close>: everybody reads his configuration again.\<close>

definition reconf_operators :: "'p regexps \<Rightarrow> module_env \<Rightarrow> ('p, 'w) pool \<Rightarrow> (int \<times> ('p, 'w) pool) option" where
  "reconf_operators rx env pl = do {
     (_, l, r, ops) \<leftarrow> for_each (\<lambda>e l (r, ops). (case e of
         None \<Rightarrow> Some (None :: unit option, l, r, ops)
       | Some a \<Rightarrow> do {
           p \<leftarrow> ops a;
           (k, q) \<leftarrow> operator_reload_config rx env p;
           Some (None, l, r + k, ops(a \<mapsto> q))
         })) (pl_op_list pl) (0, pl_ops pl);
     Some (r, pl\<lparr>pl_op_list := l, pl_ops := ops\<rparr>)
   }"

definition reconf_paysys :: "module_env \<Rightarrow> ('p, 'w) pool \<Rightarrow> (int \<times> ('p, 'w) pool) option" where
  "reconf_paysys env pl = map_option (\<lambda>(r, ms). (r, pl\<lparr>pl_modules := ms\<rparr>)) (reload_paysys_configs env (pl_modules pl))"

text \<open>
  \<open>ReloadOperators\<close>: the new operators replace the present ones, which become the old ones; the old ones of before are deleted,
  unless one of them is in use. The operators are objects: the new ones get fresh addresses.
\<close>

definition count_used ::
  "nat option \<Rightarrow> nat seq \<Rightarrow> int \<times> (nat \<rightharpoonup> 'p server_operator) \<times> 'w operator_state
    \<Rightarrow> (unit option \<times> nat seq \<times> int \<times> (nat \<rightharpoonup> 'p server_operator) \<times> 'w operator_state) option" where
  "count_used e l = (\<lambda>(n, ops, ost). (case e of
       None \<Rightarrow> Some (None, l, n, ops, ost)
     | Some a \<Rightarrow> do {
         p \<leftarrow> ops a;
         let (uses, p1) = operator_use p;
         let (_, p2, ost1) = operator_unuse None p1 ost;
         Some (None, l, if 1 < uses then n + 1 else n, ops(a \<mapsto> p2), ost1)
       }))"

definition number_operators :: "nat \<Rightarrow> 'p server_operator list \<Rightarrow> (nat \<rightharpoonup> 'p server_operator) \<Rightarrow> (nat \<rightharpoonup> 'p server_operator)" where
  "number_operators k ps ops = (\<lambda>a. if k \<le> a \<and> a < k + length ps then Some (ps ! (a - k)) else ops a)"

definition drop_all :: "nat seq \<Rightarrow> (nat \<rightharpoonup> 'p server_operator) \<Rightarrow> (nat \<rightharpoonup> 'p server_operator)" where
  "drop_all l ops = (\<lambda>a. if Some a \<in> set (sq_items l) then None else ops a)"

definition reload_operators :: "('p, 'w, 'n) server_env \<Rightarrow> ('p, 'w, 'd, 'n) server \<Rightarrow> (int \<times> ('p, 'w, 'd, 'n) server) option" where
  "reload_operators env s = do {
     let pl = sr_pool s;
     (loaded, ost) \<leftarrow> load_operators (se_operators_db env) (se_regexps env) (se_modules env)
       (Some (ss_operators_path (sr_settings s))) (pl_op_state pl);
     (case loaded of
        None \<Rightarrow> Some (- 1, s\<lparr>sr_pool := pl\<lparr>pl_op_state := ost\<rparr>\<rparr>)
      | Some ps \<Rightarrow> do {
          (_, olds, used, ops, ost1) \<leftarrow> (case sr_old_ops s of
              None \<Rightarrow> Some (None, empty_seq, 0, pl_ops pl, ost)
            | Some l \<Rightarrow> for_each count_used l (0, pl_ops pl, ost));
          if 0 < used then Some (used, s\<lparr>sr_pool := pl\<lparr>pl_ops := ops, pl_op_state := ost1\<rparr>, sr_old_ops := Some olds\<rparr>)
          else
            let k = sr_op_next s;
                kept = (case sr_old_ops s of None \<Rightarrow> ops | Some _ \<Rightarrow> drop_all olds ops)
            in Some (0, s\<lparr>sr_pool := pl\<lparr>pl_op_list := fold (\<lambda>i. seq_add (Some i)) [k..<k + length ps] empty_seq,
                       pl_ops := number_operators k ps kept, pl_op_state := ost1\<rparr>,
                     sr_old_ops := Some (pl_op_list pl), sr_op_next := k + length ps\<rparr>)
        })
   }"

section \<open>Settings\<close>

definition set_from :: "server_config \<Rightarrow> string \<Rightarrow> (string \<Rightarrow> 's \<Rightarrow> 's) \<Rightarrow> 's \<Rightarrow> 's" where
  "set_from cfg key f s = (case get_value key None cfg of None \<Rightarrow> s | Some v \<Rightarrow> f v s)"

definition read_pool_settings :: "server_config \<Rightarrow> ('p, 'w) pool \<Rightarrow> ('p, 'w) pool" where
  "read_pool_settings cfg pl =
     set_from cfg ''modules_path'' (\<lambda>v p. p\<lparr>pl_modules := (pl_modules p)\<lparr>ms_path := v\<rparr>\<rparr>)
     (set_from cfg ''thread_autodelete'' (\<lambda>v p. p\<lparr>pl_autodelete := v = ''y''\<rparr>)
     (set_from cfg ''thread_inactivity_time'' (\<lambda>v p. p\<lparr>pl_inactivity := atoi v\<rparr>)
     (set_from cfg ''thread_max'' (\<lambda>v p. p\<lparr>pl_max := nat (atoi v mod 2 ^ 32)\<rparr>)
     (set_from cfg ''thread_min'' (\<lambda>v p. p\<lparr>pl_min := nat (atoi v mod 2 ^ 32)\<rparr>) pl))))"

definition read_settings :: "server_config \<Rightarrow> server_settings \<Rightarrow> server_settings" where
  "read_settings cfg st =
     set_from cfg ''users'' (\<lambda>v s. s\<lparr>ss_users_file := v\<rparr>)
     (set_from cfg ''package_timeout'' (\<lambda>v s. s\<lparr>ss_package_timeout := atoi v\<rparr>)
     (set_from cfg ''db_reconnect_attempts'' (\<lambda>v s. s\<lparr>ss_reconnect_attempts := atoi v\<rparr>)
     (set_from cfg ''db_reconnect_time'' (\<lambda>v s. s\<lparr>ss_reconnect_time := atoi v\<rparr>)
     (set_from cfg ''backtrace_file'' (\<lambda>v s. s\<lparr>ss_backtrace := v\<rparr>)
     (set_from cfg ''daemonize'' (\<lambda>v s. s\<lparr>ss_daemonize := v = ''y''\<rparr>)
     (set_from cfg ''port'' (\<lambda>v s. s\<lparr>ss_port := atoi v\<rparr>)
     (set_from cfg ''net_interface'' (\<lambda>v s. s\<lparr>ss_interface := v\<rparr>)
     (set_from cfg ''perl_module'' (\<lambda>v s. s\<lparr>ss_perl_module := v\<rparr>)
     (set_from cfg ''db_password'' (\<lambda>v s. s\<lparr>ss_db_password := v\<rparr>)
     (set_from cfg ''db_user'' (\<lambda>v s. s\<lparr>ss_db_user := v\<rparr>)
     (set_from cfg ''db_name'' (\<lambda>v s. s\<lparr>ss_db_name := v\<rparr>)
     (set_from cfg ''db_host'' (\<lambda>v s. s\<lparr>ss_db_host := v\<rparr>)
     (set_from cfg ''operators_path'' (\<lambda>v s. s\<lparr>ss_operators_path := v\<rparr>)
     (set_from cfg ''modules_init_path'' (\<lambda>v s. s\<lparr>ss_init_path := v\<rparr>) st))))))))))))))"

text \<open>
  \<open>ReloadConfigValues\<close>: the times of the reconnection are set from variables of the function that nothing is read into,
  not from the settings.
\<close>

definition reload_config_values :: "('p, 'w, 'n) server_env \<Rightarrow> string \<Rightarrow> ('p, 'w, 'd, 'n) server \<Rightarrow> (int \<times> ('p, 'w, 'd, 'n) server) option" where
  "reload_config_values env file s = do {
     (r, cfg) \<leftarrow> read_file (me_file (se_modules env) file);
     let s1 = (if r = 0 then s\<lparr>sr_pool := read_pool_settings cfg (sr_pool s), sr_settings := read_settings cfg (sr_settings s)\<rparr> else s);
     let st = sr_settings s1;
     let test = r = 0 \<and> get_value ''mysql_select'' None cfg = Some ''TEST'';
     let db = set_db_connection_param (ss_db_host st) (ss_db_name st) (ss_db_user st) (ss_db_password st)
       ((sr_db s1)\<lparr>pd_select := (if test then snd else fst) (se_selects env)\<rparr>);
     Some (if r = 0 then 0 else 1, s1\<lparr>sr_db := db_set_reconnect_attempts (- 1) (db_set_reconnect_time (- 1) db)\<rparr>)
   }"

definition reload_config_if_important :: "('p, 'w, 'n) server_env \<Rightarrow> ('p, 'w, 'd, 'n) server \<Rightarrow> ('p, 'w, 'd, 'n) server option" where
  "reload_config_if_important env s =
     (if sr_reload s then map_option (\<lambda>(_, s1). s1\<lparr>sr_reload := False\<rparr>) (reload_config_values env ''/etc/payguide.cfg'' s) else Some s)"

section \<open>What is shown of the server\<close>

text \<open>The bytes of one thread: idle, or with its payment and the name of its module.\<close>

definition thread_bytes :: "module_state \<Rightarrow> worker \<Rightarrow> bytes option" where
  "thread_bytes ms w =
     (let numbers = le_int_bytes 4 (wk_id w) @ le_int_bytes 4 (wk_lifetime w) in
      case wk_pay w of
        None \<Rightarrow> Some (0 # numbers)
      | Some pay \<Rightarrow> do {
          a \<leftarrow> wk_paysys w;
          m \<leftarrow> ms_store ms a;
          Some ((if sp_test pay \<noteq> NO_TEST then 0x81 else 0x01) # numbers @ le_int_bytes 8 (sp_id pay)
            @ le_bytes 4 (length (mo_short_name m)) @ map char_byte (mo_short_name m))
        })"

text \<open>\<open>GetThreadsBin\<close> writes to a buffer of \<open>cap\<close> bytes, and never asks how many there are.\<close>

definition add_bytes :: "nat \<Rightarrow> bytes \<Rightarrow> bytes \<Rightarrow> bytes option" where
  "add_bytes cap bs out = (if cap < length out + length bs then None else Some (out @ bs))"

definition get_threads_bin :: "nat \<Rightarrow> int \<Rightarrow> bool \<Rightarrow> ('p, 'w) pool \<Rightarrow> (bytes \<times> ('p, 'w) pool) option" where
  "get_threads_bin cap uptime accept pl = do {
     let n = int (length (sq_items (pl_workers pl)));
     let front = le_int_bytes 4 (n - uint (pl_working pl)) @ le_int_bytes 4 (uint (pl_working pl)) @ le_int_bytes 8 (pl_total pl)
       @ le_int_bytes 8 uptime @ [if accept then 1 else 0];
     out \<leftarrow> add_bytes cap front [];
     (_, l, out1) \<leftarrow> for_each (\<lambda>e l out. (case e of
         None \<Rightarrow> Some (None :: unit option, l, out)
       | Some t \<Rightarrow> do {
           w \<leftarrow> pl_store pl t;
           bs \<leftarrow> thread_bytes (pl_modules pl) w;
           out1 \<leftarrow> add_bytes cap bs out;
           Some (None, l, out1)
         })) (pl_workers pl) out;
     Some (out1, pl\<lparr>pl_workers := l\<rparr>)
   }"

definition get_modules_bin :: "nat \<Rightarrow> module_state \<Rightarrow> (bytes \<times> module_state) option" where
  "get_modules_bin cap ms = do {
     (_, l, out) \<leftarrow> for_each (\<lambda>e l out. (case e of
         None \<Rightarrow> Some (None :: unit option, l, out)
       | Some a \<Rightarrow> do {
           m \<leftarrow> ms_store ms a;
           if \<not> mo_unloaded m \<and> mo_broken m = 0
           then map_option (\<lambda>out1. (None, l, out1))
             (add_bytes cap (le_bytes 2 (length (mo_short_name m)) @ map char_byte (take (length (mo_short_name m) mod 65536) (mo_short_name m))) out)
           else Some (None, l, out)
         })) (ms_list ms) [];
     Some (out, ms\<lparr>ms_list := l\<rparr>)
   }"

section \<open>Commands\<close>

definition P_CMD_STOP :: int where "P_CMD_STOP = 0"
definition P_CMD_RUN :: int where "P_CMD_RUN = 1"
definition P_CMD_CANCEL :: int where "P_CMD_CANCEL = 2"
definition P_CMD_KILL :: int where "P_CMD_KILL = 3"
definition P_CMD_RELOAD_OP :: int where "P_CMD_RELOAD_OP = 4"
definition P_CMD_RELOAD_SO :: int where "P_CMD_RELOAD_SO = 5"
definition P_CMD_RELOAD_CONF :: int where "P_CMD_RELOAD_CONF = 6"
definition P_CMD_SHUTDOWN :: int where "P_CMD_SHUTDOWN = 7"
definition P_CMD_LOAD :: int where "P_CMD_LOAD = 8"
definition P_CMD_UNLOAD :: int where "P_CMD_UNLOAD = 9"
definition P_CMD_MONITOR :: int where "P_CMD_MONITOR = 10"
definition P_CMD_REBOOT :: int where "P_CMD_REBOOT = 11"
definition P_CMD_ADD_IGNORE_OP :: int where "P_CMD_ADD_IGNORE_OP = 12"
definition P_CMD_ADD_IGNORE_EG :: int where "P_CMD_ADD_IGNORE_EG = 13"
definition P_CMD_REMOVE_IGNORE_OP :: int where "P_CMD_REMOVE_IGNORE_OP = 14"
definition P_CMD_REMOVE_IGNORE_EG :: int where "P_CMD_REMOVE_IGNORE_EG = 15"
definition P_CMD_CLEAR_IGNORE_OP :: int where "P_CMD_CLEAR_IGNORE_OP = 16"
definition P_CMD_CLEAR_IGNORE_EG :: int where "P_CMD_CLEAR_IGNORE_EG = 17"
definition P_CMD_VIEW_IGNORE_OP :: int where "P_CMD_VIEW_IGNORE_OP = 18"
definition P_CMD_VIEW_IGNORE_EG :: int where "P_CMD_VIEW_IGNORE_EG = 19"
definition P_CMD_CONSOLE :: int where "P_CMD_CONSOLE = 21"
definition P_CMD_CLEAR_IGNORE_ALL :: int where "P_CMD_CLEAR_IGNORE_ALL = 22"
definition P_CMD_MODULES_LIST :: int where "P_CMD_MODULES_LIST = 23"

lemmas command_codes = P_CMD_STOP_def P_CMD_RUN_def P_CMD_CANCEL_def P_CMD_KILL_def P_CMD_RELOAD_OP_def P_CMD_RELOAD_SO_def
  P_CMD_RELOAD_CONF_def P_CMD_SHUTDOWN_def P_CMD_LOAD_def P_CMD_UNLOAD_def P_CMD_MONITOR_def P_CMD_REBOOT_def P_CMD_ADD_IGNORE_OP_def
  P_CMD_ADD_IGNORE_EG_def P_CMD_REMOVE_IGNORE_OP_def P_CMD_REMOVE_IGNORE_EG_def P_CMD_CLEAR_IGNORE_OP_def P_CMD_CLEAR_IGNORE_EG_def
  P_CMD_VIEW_IGNORE_OP_def P_CMD_VIEW_IGNORE_EG_def P_CMD_CONSOLE_def P_CMD_CLEAR_IGNORE_ALL_def P_CMD_MODULES_LIST_def

text \<open>The rights of the client at a socket, and what is answered without them.\<close>

definition with_right ::
  "int \<Rightarrow> nat \<Rightarrow> (('p, 'w, 'd, 'n) server \<Rightarrow> ('p, 'w, 'd, 'n) server option) \<Rightarrow> (('p, 'w, 'd, 'n) server \<Rightarrow> ('p, 'w, 'd, 'n) server option)
    \<Rightarrow> ('p, 'w, 'd, 'n) server \<Rightarrow> ('p, 'w, 'd, 'n) server option" where
  "with_right level a f g s = do { r \<leftarrow> nt_socks (sr_net s) a; if level \<le> authorized r then f s else g s }"

text \<open>Payments: taking new ones, and the thread of one.\<close>

definition exec_cancel :: "bytes \<Rightarrow> nat \<Rightarrow> ('p, 'w, 'd, 'n) server \<Rightarrow> ('p, 'w, 'd, 'n) server option" where
  "exec_cancel arg a s = do {
     b \<leftarrow> mem_get 0 8 arg;
     (_, pl) \<leftarrow> cancel_worker (le_int b) (sr_pool s);
     reply a answok (s\<lparr>sr_pool := pl\<rparr>)
   }"

definition exec_kill :: "bytes \<Rightarrow> nat \<Rightarrow> nat \<Rightarrow> ('p, 'w, 'd, 'n) server \<Rightarrow> ('p, 'w, 'd, 'n) server option" where
  "exec_kill arg sz a s =
     (if 8 \<le> sz then do {
        b \<leftarrow> mem_get 0 8 arg;
        (_, pl) \<leftarrow> kill_worker (le_int b) (sr_pool s);
        reply a answok (s\<lparr>sr_pool := pl\<rparr>)
      }
      else reply a answnok s)"

text \<open>Reloads.\<close>

definition exec_reload_op :: "('p, 'w, 'n) server_env \<Rightarrow> nat \<Rightarrow> ('p, 'w, 'd, 'n) server \<Rightarrow> ('p, 'w, 'd, 'n) server option" where
  "exec_reload_op env a s = do {
     (r, s1) \<leftarrow> reload_operators env s;
     if r = 0 then Option.bind (tell_clients ''Operators reloaded'' s1) (reply a answok)
     else Option.bind (tell_clients (''Error occured. Can'' @ [CHR 0x27] @ ''t create new operators list.'') s1) (reply a answnok)
   }"

definition exec_reload_so :: "('p, 'w, 'n) server_env \<Rightarrow> nat \<Rightarrow> ('p, 'w, 'd, 'n) server \<Rightarrow> ('p, 'w, 'd, 'n) server option" where
  "exec_reload_so env a s = do {
     (_, pl) \<leftarrow> reconf_paysys (se_modules env) (sr_pool s);
     Option.bind (tell_clients ''Modules configs reloaded'' (s\<lparr>sr_pool := pl\<rparr>)) (reply a answok)
   }"

definition exec_reload_conf :: "nat \<Rightarrow> ('p, 'w, 'd, 'n) server \<Rightarrow> ('p, 'w, 'd, 'n) server option" where
  "exec_reload_conf a s = Option.bind (tell_clients ''Main config reloaded'' (s\<lparr>sr_reload := True\<rparr>)) (reply a answok)"

text \<open>Modules by name: \<open>strncpy\<close> from the argument.\<close>

definition c_read :: "bytes \<Rightarrow> nat \<Rightarrow> string option" where
  "c_read arg n =
     (let t = takeWhile (\<lambda>b. b \<noteq> 0) (take n arg) in
      if length arg < n \<and> t = arg then None else Some (map byte_char t))"

definition exec_load :: "('p, 'w, 'n) server_env \<Rightarrow> bytes \<Rightarrow> nat \<Rightarrow> nat \<Rightarrow> ('p, 'w, 'd, 'n) server \<Rightarrow> ('p, 'w, 'd, 'n) server option" where
  "exec_load env arg sz a s = do {
     i \<leftarrow> c_read arg sz;
     (r, ms) \<leftarrow> load_paysys (se_modules env) i (pl_modules (sr_pool s));
     reply a (if r = 0 \<or> r = 1024 then answok else answnok) (set_modules ms s)
   }"

definition exec_unload :: "bytes \<Rightarrow> nat \<Rightarrow> nat \<Rightarrow> ('p, 'w, 'd, 'n) server \<Rightarrow> ('p, 'w, 'd, 'n) server option" where
  "exec_unload arg sz a s = do {
     i \<leftarrow> c_read arg sz;
     (r, ms) \<leftarrow> unload_paysys i (pl_modules (sr_pool s));
     reply a (if r = - 1 then answnok else answok) (set_modules ms s)
   }"

text \<open>What is shown: nothing is sent when there is nothing.\<close>

definition exec_monitor :: "int \<Rightarrow> nat \<Rightarrow> ('p, 'w, 'd, 'n) server \<Rightarrow> ('p, 'w, 'd, 'n) server option" where
  "exec_monitor uptime a s = do {
     (out, pl) \<leftarrow> get_threads_bin 10022 uptime (pd_accept (sr_db s)) (sr_pool s);
     reply a ([13, 0] @ out) (s\<lparr>sr_pool := pl\<rparr>)
   }"

definition exec_modules_list :: "nat \<Rightarrow> ('p, 'w, 'd, 'n) server \<Rightarrow> ('p, 'w, 'd, 'n) server option" where
  "exec_modules_list a s = do {
     (out, ms) \<leftarrow> get_modules_bin 5022 (pl_modules (sr_pool s));
     if out = [] then Some (set_modules ms s) else reply a ([14, 0] @ out) (set_modules ms s)
   }"

text \<open>The lists of what is ignored.\<close>

definition exec_ignore ::
  "(int \<Rightarrow> ignore_kind \<Rightarrow> ignore_lists \<Rightarrow> ignore_lists option) \<Rightarrow> ignore_kind \<Rightarrow> bytes \<Rightarrow> nat \<Rightarrow> nat \<Rightarrow> ('p, 'w, 'd, 'n) server
    \<Rightarrow> ('p, 'w, 'd, 'n) server option" where
  "exec_ignore f k arg sz a s =
     (if 4 \<le> sz then do {
        b \<leftarrow> mem_get 0 4 arg;
        il \<leftarrow> f (le_int b) k (sr_ignore s);
        reply a answok (set_ignore il s)
      }
      else reply a answnok s)"

definition exec_clear :: "ignore_kind list \<Rightarrow> nat \<Rightarrow> ('p, 'w, 'd, 'n) server \<Rightarrow> ('p, 'w, 'd, 'n) server option" where
  "exec_clear ks a s = do {
     il \<leftarrow> fold (\<lambda>k r. Option.bind r (clear_ignore_list k)) ks (Some (sr_ignore s));
     reply a answok (set_ignore il s)
   }"

definition exec_view :: "ignore_kind \<Rightarrow> nat \<Rightarrow> ('p, 'w, 'd, 'n) server \<Rightarrow> ('p, 'w, 'd, 'n) server option" where
  "exec_view k a s = do {
     (r, bs) \<leftarrow> get_ignore_list 1022 (il_list (sr_ignore s) k);
     reply a (if r = 0 then [15, 0] @ bs else answnok) s
   }"

text \<open>
  \<open>ExecCmd\<close>: the first commands refuse a client without the right, loading and unloading do not answer him, and
  the others are not known to him.
\<close>

definition exec_ignore_cmd :: "int \<Rightarrow> bytes \<Rightarrow> nat \<Rightarrow> nat \<Rightarrow> ('p, 'w, 'd, 'n) server \<Rightarrow> ('p, 'w, 'd, 'n) server option" where
  "exec_ignore_cmd cmd arg sz a s =
     (if cmd = P_CMD_CONSOLE then reply a unauth s
      else if cmd = P_CMD_ADD_IGNORE_OP then exec_ignore add_to_ignore_list Operators arg sz a s
      else if cmd = P_CMD_ADD_IGNORE_EG then exec_ignore add_to_ignore_list Engines arg sz a s
      else if cmd = P_CMD_REMOVE_IGNORE_OP then exec_ignore remove_from_ignore_list Operators arg sz a s
      else if cmd = P_CMD_REMOVE_IGNORE_EG then exec_ignore remove_from_ignore_list Engines arg sz a s
      else if cmd = P_CMD_CLEAR_IGNORE_OP then exec_clear [Operators] a s
      else if cmd = P_CMD_CLEAR_IGNORE_EG then exec_clear [Engines] a s
      else if cmd = P_CMD_CLEAR_IGNORE_ALL then exec_clear [Engines, Operators] a s
      else if cmd = P_CMD_VIEW_IGNORE_OP then exec_view Operators a s
      else if cmd = P_CMD_VIEW_IGNORE_EG then exec_view Engines a s
      else reply a answnok s)"

definition exec_cmd ::
  "('p, 'w, 'n) server_env \<Rightarrow> int \<Rightarrow> int \<Rightarrow> bytes \<Rightarrow> nat \<Rightarrow> nat \<Rightarrow> ('p, 'w, 'd, 'n) server \<Rightarrow> ('p, 'w, 'd, 'n) server option" where
  "exec_cmd env uptime cmd arg sz a s =
     (let refuse = reply a unauth in
      if cmd = P_CMD_STOP then with_right AUTH_CONTROL a (\<lambda>s. reply a answok (set_accept False s)) refuse s
      else if cmd = P_CMD_RUN then with_right AUTH_CONTROL a (\<lambda>s. reply a answok (set_accept True s)) refuse s
      else if cmd = P_CMD_CANCEL then with_right AUTH_CONTROL a (exec_cancel arg a) refuse s
      else if cmd = P_CMD_KILL then with_right AUTH_CONTROL a (exec_kill arg sz a) refuse s
      else if cmd = P_CMD_RELOAD_OP then with_right AUTH_CONTROL a (exec_reload_op env a) refuse s
      else if cmd = P_CMD_RELOAD_SO then with_right AUTH_CONTROL a (exec_reload_so env a) refuse s
      else if cmd = P_CMD_RELOAD_CONF then with_right AUTH_CONTROL a (exec_reload_conf a) refuse s
      else if cmd = P_CMD_SHUTDOWN then with_right AUTH_ADMIN a (\<lambda>s. reply a answok (s\<lparr>sr_working := False, sr_quit := True\<rparr>)) refuse s
      else if cmd = P_CMD_REBOOT then with_right AUTH_ADMIN a
        (\<lambda>s. map_option (\<lambda>s1. s1\<lparr>sr_working := False, sr_quit := False\<rparr>) (reply a answok s)) refuse s
      else if cmd = P_CMD_LOAD then with_right AUTH_CONTROL a (exec_load env arg sz a) Some s
      else if cmd = P_CMD_UNLOAD then with_right AUTH_CONTROL a (exec_unload arg sz a) Some s
      else if cmd = P_CMD_MONITOR then with_right AUTH_STAT a (exec_monitor uptime a) refuse s
      else if cmd = P_CMD_MODULES_LIST then with_right AUTH_STAT a (exec_modules_list a) refuse s
      else with_right AUTH_CONTROL a (exec_ignore_cmd cmd arg sz a) (reply a answnok) s)"

end
