(* ===== verification/Server_Paycheck.thy ===== *)
theory Server_Paycheck
  imports Server_Control
begin

text \<open>
  The thread of the payment server that reads from the clients (\<open>GetData\<close> and \<open>CompileCheckPay\<close> of
  \<open>legacy/payguide/src/paycheck.cpp\<close>): in turn, a client that has something to say is read from, and a package is a check, a command,
  an authorization, or one of a few smaller requests. What \<open>select\<close> and \<open>recv\<close> do is an argument of a turn.
\<close>

record ('p, 'w, 'n) paycheck_env = "('p, 'w, 'n) server_env" +
  pe_md5 :: "string \<Rightarrow> bytes"
  pe_users :: server_config
  pe_float :: "nat \<Rightarrow> nat \<Rightarrow> c_float"

section \<open>A package\<close>

definition NETTYPE_PAYCHECK1 :: "8 word" where "NETTYPE_PAYCHECK1 = 0x00"
definition NETTYPE_PAYCHECK2 :: "8 word" where "NETTYPE_PAYCHECK2 = 0x01"
definition NETTYPE_AUTHORIZATION :: "8 word" where "NETTYPE_AUTHORIZATION = 0x02"
definition NETTYPE_PING :: "8 word" where "NETTYPE_PING = 0x05"
definition NETTYPE_COMMAND :: "8 word" where "NETTYPE_COMMAND = 0x0A"
definition NETTYPE_SIGN :: "8 word" where "NETTYPE_SIGN = 0x0B"
definition NETTYPE_UNSIGN :: "8 word" where "NETTYPE_UNSIGN = 0x0C"
definition NETTYPE_GETUSERS :: "8 word" where "NETTYPE_GETUSERS = 0x16"
definition NETTYPE_PAYCHECK3 :: "8 word" where "NETTYPE_PAYCHECK3 = 0xB0"

lemmas nettypes = NETTYPE_PAYCHECK1_def NETTYPE_PAYCHECK2_def NETTYPE_AUTHORIZATION_def NETTYPE_PING_def NETTYPE_COMMAND_def
  NETTYPE_SIGN_def NETTYPE_UNSIGN_def NETTYPE_GETUSERS_def NETTYPE_PAYCHECK3_def

definition on_net :: "('n net \<Rightarrow> 'n net option) \<Rightarrow> ('p, 'w, 'd, 'n) server \<Rightarrow> ('p, 'w, 'd, 'n) server option" where
  "on_net f s = map_option (\<lambda>n. s\<lparr>sr_net := n\<rparr>) (f (sr_net s))"

text \<open>An authorization: the client is let in at his level, or sent away.\<close>

definition log_in :: "('p, 'w, 'n) paycheck_env \<Rightarrow> bytes \<Rightarrow> int \<Rightarrow> nat \<Rightarrow> nat \<Rightarrow> 'n net \<Rightarrow> 'n net option" where
  "log_in env buf sz a b n = do {
     request \<leftarrow> read_login buf sz;
     (case request of
        Malformed \<Rightarrow> net_send a unauth n
      | Login login password \<Rightarrow>
          let level = get_authorization (pe_md5 env) (pe_users env) login password in
          if level = 0 then Option.bind (net_send a unauth n) (net_sock a sock_down)
          else do {
            n1 \<leftarrow> net_sock a (authorize level) n;
            n2 \<leftarrow> set_client b (\<lambda>c. c\<lparr>cn_level := level, cn_name := login\<rparr>) n1;
            net_send a [3, 0] n2
          })
   }"

text \<open>\<open>CompileCheckPay\<close>: a package of a client \<open>b\<close> at the socket \<open>a\<close>; a check is returned.\<close>

definition compile_check_pay ::
  "('p, 'w, 'n) paycheck_env \<Rightarrow> int \<Rightarrow> string \<Rightarrow> bytes \<Rightarrow> int \<Rightarrow> nat \<Rightarrow> nat \<Rightarrow> ('p, 'w, 'd, 'n) server
    \<Rightarrow> (check_pay option \<times> ('p, 'w, 'd, 'n) server) option" where
  "compile_check_pay env uptime stamp buf sz a b s =
     (if sz < 1 then Some (None, s)
      else do {
        t \<leftarrow> map_option hd (mem_get 0 1 buf);
        let none = map_option (Pair None);
        let refuse = reply a unauth;
        if t = NETTYPE_GETUSERS then none (with_right AUTH_CONTROL a (on_net (send_users a)) refuse s)
        else if t = NETTYPE_PAYCHECK1 \<or> t = NETTYPE_PAYCHECK2 \<or> t = NETTYPE_PAYCHECK3 then do {
          r \<leftarrow> nt_socks (sr_net s) a;
          if AUTH_PAYCHECK \<le> authorized r then map_option (\<lambda>c. (c, s)) (compile_check (pe_float env) stamp buf sz)
          else none (refuse s)
        }
        else if t = NETTYPE_PING then none (reply a [5, 0] s)
        else if t = NETTYPE_COMMAND then do {
          cmd \<leftarrow> map_option hd (mem_get 2 1 buf);
          none (exec_cmd (server_env.truncate env) uptime (sint cmd) (drop 3 buf) (nat (sz - 1)) a s)
        }
        else if t = NETTYPE_SIGN then none (with_right AUTH_CONTROL a (on_net (set_client b (\<lambda>c. c\<lparr>cn_delivery := 1\<rparr>))) refuse s)
        else if t = NETTYPE_UNSIGN then none (with_right AUTH_STAT a (on_net (set_client b (\<lambda>c. c\<lparr>cn_delivery := 0\<rparr>))) refuse s)
        else if t = NETTYPE_AUTHORIZATION then none (on_net (log_in env buf sz a b) s)
        else Some (None, s)
      })"

section \<open>A turn\<close>

text \<open>The next client of the list; the turn is a number that starts again when it reaches the length.\<close>

definition next_turn :: "nat \<Rightarrow> nat \<Rightarrow> nat" where
  "next_turn k len = (if k < len \<and> 0 < k then k + 1 else 1)"

fun nth_client :: "nat \<Rightarrow> nat seq \<Rightarrow> nat option \<times> nat seq" where
  "nth_client 0 l = (None, l)"
| "nth_client (Suc 0) l = seq_next l"
| "nth_client (Suc (Suc k)) l = nth_client (Suc k) (snd (seq_next l))"

text \<open>A package goes to the front of the buffer; then it is handled, and a check is put into the lists.\<close>

definition take_package ::
  "('p, 'w, 'n) paycheck_env \<Rightarrow> int \<Rightarrow> string \<Rightarrow> bytes \<Rightarrow> int \<Rightarrow> nat \<Rightarrow> nat \<Rightarrow> ('p, 'w, 'd, 'n) server \<Rightarrow> ('p, 'w, 'd, 'n) server option" where
  "take_package env uptime stamp d sz a b s = do {
     buf \<leftarrow> mem_put 0 d (nt_buffer (sr_net s));
     let s1 = s\<lparr>sr_net := (sr_net s)\<lparr>nt_buffer := buf\<rparr>\<rparr>;
     (c, s2) \<leftarrow> compile_check_pay env uptime stamp buf sz a b s1;
     (case c of None \<Rightarrow> Some s2 | Some p \<Rightarrow> on_net (add_check (se_net env) a p) s2)
   }"

definition read_client ::
  "('p, 'w, 'n) paycheck_env \<Rightarrow> int \<Rightarrow> (nat \<Rightarrow> bytes) \<Rightarrow> int \<Rightarrow> string \<Rightarrow> nat \<Rightarrow> nat \<Rightarrow> ('p, 'w, 'd, 'n) server \<Rightarrow> ('p, 'w, 'd, 'n) server option" where
  "read_client env sel rcv uptime stamp a b s = do {
     r \<leftarrow> nt_socks (sr_net s) a;
     if sk_can_read r = 0 then Some s
     else do {
       ((l, d, r1), _) \<leftarrow> receive (\<lambda>w. (sel, w)) (\<lambda>n w. (rcv n, w)) (int PACK_SIZE) r ();
       s1 \<leftarrow> on_net (net_sock a (\<lambda>_. r1)) s;
       if sk_error r1 = 0 \<and> 0 \<le> l then (if 0 < l then take_package env uptime stamp d l a b s1 else Some s1)
       else on_net (drop_client a) s1
     }
   }"

definition get_data_turn ::
  "('p, 'w, 'n) paycheck_env \<Rightarrow> (nat \<Rightarrow> bool) \<Rightarrow> int \<Rightarrow> (nat \<Rightarrow> bytes) \<Rightarrow> int \<Rightarrow> string \<Rightarrow> ('p, 'w, 'd, 'n) server \<Rightarrow> ('p, 'w, 'd, 'n) server option" where
  "get_data_turn env ready sel rcv uptime stamp s = do {
     (k, n) \<leftarrow> read_multi_select ready (sr_net s);
     let s1 = s\<lparr>sr_net := n\<rparr>;
     if k = 0 then Some s1
     else
       let turn = next_turn (nt_turn n) (length (sq_items (nt_list n))) in
       (case nth_client turn (seq_reset (nt_list n)) of
          (e, l) \<Rightarrow>
            let s2 = s\<lparr>sr_net := n\<lparr>nt_turn := turn, nt_list := l\<rparr>\<rparr> in
            (case e of
               None \<Rightarrow> Some s2
             | Some b \<Rightarrow> do {
                 c \<leftarrow> nt_clients n b;
                 (case cn_sock c of None \<Rightarrow> Some s2 | Some a \<Rightarrow> read_client env sel rcv uptime stamp a b s2)
               }))
   }"

end
