(* ===== verification/Server_Net_Laws.thy ===== *)
theory Server_Net_Laws
  imports Server_Net
begin

text \<open>
  What holds of the payment server's clients and checks in every order of events: no deleted connection is ever used, and a
  client is answered at most as often as it asked.
\<close>

section \<open>Connections\<close>

definition net_good :: "nat option list \<Rightarrow> (nat \<rightharpoonup> client) \<Rightarrow> nat set \<Rightarrow> nat \<Rightarrow> check option set \<Rightarrow> bool" where
  "net_good items cls socks nx waiting \<longleftrightarrow> distinct items \<and> set items = Some ` dom cls
     \<and> (\<forall>b c. cls b = Some c \<longrightarrow> (\<exists>a. cn_sock c = Some a \<and> a \<in> socks))
     \<and> (\<forall>b c b' c'. cls b = Some c \<and> cls b' = Some c' \<and> cn_sock c = cn_sock c' \<longrightarrow> b = b')
     \<and> (\<forall>k \<in> dom cls \<union> socks. k < nx)
     \<and> (\<forall>c a. Some c \<in> waiting \<and> ck_sock c = Some a \<longrightarrow> a \<in> socks)"

definition net_ok :: "'d net \<Rightarrow> bool" where
  "net_ok n \<longleftrightarrow> net_good (sq_items (nt_list n)) (nt_clients n) (dom (nt_socks n)) (nt_next n)
     (set (sq_items (nt_in n)) \<union> set (sq_items (nt_cash n)))"

lemma net_okD:
  assumes "net_ok n"
  shows "distinct (sq_items (nt_list n))" "Some b \<in> set (sq_items (nt_list n)) \<longleftrightarrow> b \<in> dom (nt_clients n)"
    "None \<notin> set (sq_items (nt_list n))"
    "nt_clients n b = Some c \<Longrightarrow> \<exists>a. cn_sock c = Some a \<and> a \<in> dom (nt_socks n)"
    "nt_clients n b = Some c \<Longrightarrow> nt_clients n b' = Some c' \<Longrightarrow> cn_sock c = cn_sock c' \<Longrightarrow> b = b'"
    "a \<in> dom (nt_socks n) \<Longrightarrow> a < nt_next n" "b \<in> dom (nt_clients n) \<Longrightarrow> b < nt_next n"
    "Some k \<in> set (sq_items (nt_in n)) \<Longrightarrow> ck_sock k = Some a \<Longrightarrow> a \<in> dom (nt_socks n)"
    "Some k \<in> set (sq_items (nt_cash n)) \<Longrightarrow> ck_sock k = Some a \<Longrightarrow> a \<in> dom (nt_socks n)"
  using assms unfolding net_ok_def net_good_def by (auto; blast)+

lemma net_okI:
  assumes "distinct (sq_items (nt_list n))" "set (sq_items (nt_list n)) = Some ` dom (nt_clients n)"
    and "\<And>b c. nt_clients n b = Some c \<Longrightarrow> \<exists>a. cn_sock c = Some a \<and> a \<in> dom (nt_socks n)"
    and "\<And>b c b' c'. nt_clients n b = Some c \<Longrightarrow> nt_clients n b' = Some c' \<Longrightarrow> cn_sock c = cn_sock c' \<Longrightarrow> b = b'"
    and "\<And>k. k \<in> dom (nt_clients n) \<union> dom (nt_socks n) \<Longrightarrow> k < nt_next n"
    and "\<And>k a. Some k \<in> set (sq_items (nt_in n)) \<union> set (sq_items (nt_cash n)) \<Longrightarrow> ck_sock k = Some a \<Longrightarrow> a \<in> dom (nt_socks n)"
  shows "net_ok n"
  unfolding net_ok_def net_good_def
  by (intro conjI ballI allI impI; (elim conjE)?) (fact assms(1,2) | erule assms(3,5) | erule (2) assms(4) | erule (1) assms(6))+

lemma net_good_mono: "net_good items cls socks nx w \<Longrightarrow> w' \<subseteq> w \<Longrightarrow> net_good items cls socks nx w'"
  unfolding net_good_def by blast

lemma net_ok_waiting:
  assumes "net_ok n"
  shows "set (sq_items l) \<subseteq> set (sq_items (nt_in n)) \<Longrightarrow> net_ok (n\<lparr>nt_in := l\<rparr>)"
    "set (sq_items l) \<subseteq> set (sq_items (nt_cash n)) \<Longrightarrow> net_ok (n\<lparr>nt_cash := l\<rparr>)"
  by (simp_all add: net_ok_def) (rule net_good_mono [OF assms [unfolded net_ok_def]], blast)+

text \<open>Changes that leave the clients, the connections and the checks as they are, and answer no check.\<close>

definition no_answer :: "nat \<times> bytes \<Rightarrow> bool" where
  "no_answer m \<longleftrightarrow> take 1 (snd m) \<noteq> [new_pay_nettype]"

definition mild :: "'d net \<Rightarrow> 'd net \<Rightarrow> bool" where
  "mild n n' \<longleftrightarrow> sq_items (nt_list n') = sq_items (nt_list n)
     \<and> (\<forall>b. map_option cn_sock (nt_clients n' b) = map_option cn_sock (nt_clients n b))
     \<and> dom (nt_socks n') = dom (nt_socks n) \<and> nt_next n' = nt_next n \<and> nt_in n' = nt_in n \<and> nt_cash n' = nt_cash n
     \<and> nt_asked n' = nt_asked n \<and> (\<exists>out. nt_sent n' = nt_sent n @ out \<and> (\<forall>m\<in>set out. no_answer m))"

lemma mild_refl [simp]: "mild n n"
  by (simp add: mild_def)

lemma mild_trans:
  assumes "mild n m" "mild m k"
  shows "mild n k"
proof -
  obtain o1 o2 where "nt_sent m = nt_sent n @ o1" "\<forall>x\<in>set o1. no_answer x" "nt_sent k = nt_sent m @ o2" "\<forall>x\<in>set o2. no_answer x"
    using assms by (auto simp: mild_def)
  then have "nt_sent k = nt_sent n @ (o1 @ o2) \<and> (\<forall>x\<in>set (o1 @ o2). no_answer x)" by auto
  then show ?thesis using assms unfolding mild_def by (auto intro!: exI [of _ "o1 @ o2"])
qed

lemma mild_list: "sq_items l = sq_items (nt_list n) \<Longrightarrow> mild n (n\<lparr>nt_list := l\<rparr>)"
  by (simp add: mild_def)

lemma mild_ok:
  assumes "mild n n'" "net_ok n"
  shows "net_ok n'"
proof -
  have c: "nt_clients n' b = Some c \<Longrightarrow> \<exists>c0. nt_clients n b = Some c0 \<and> cn_sock c0 = cn_sock c" for b c
    using assms(1) by (cases "nt_clients n b") (auto simp: mild_def dest: spec [of _ b])
  have "nt_clients n' b = None \<longleftrightarrow> nt_clients n b = None" for b
    using assms(1) unfolding mild_def by (cases "nt_clients n b"; cases "nt_clients n' b") (auto dest: spec [of _ b])
  then have d: "dom (nt_clients n') = dom (nt_clients n)" by (auto simp: dom_def)
  have "nt_clients n' b = Some c \<Longrightarrow> \<exists>a. cn_sock c = Some a \<and> a \<in> dom (nt_socks n)" for b c
    using c [of b c] net_okD(4) [OF assms(2)] by metis
  moreover have "nt_clients n' b = Some x \<Longrightarrow> nt_clients n' b' = Some y \<Longrightarrow> cn_sock x = cn_sock y \<Longrightarrow> b = b'" for b b' x y
    using c [of b x] c [of b' y] net_okD(5) [OF assms(2)] by metis
  ultimately show ?thesis
    using assms d unfolding mild_def net_ok_def net_good_def by simp
qed

text \<open>Changes that leave the rights of the clients and the buffer, too.\<close>

definition same_rights :: "'d net \<Rightarrow> 'd net \<Rightarrow> bool" where
  "same_rights n n' \<longleftrightarrow> (\<forall>a. map_option sk_auth (nt_socks n' a) = map_option sk_auth (nt_socks n a))"

definition calm :: "'d net \<Rightarrow> 'd net \<Rightarrow> bool" where
  "calm n n' \<longleftrightarrow> mild n n' \<and> same_rights n n' \<and> nt_buffer n' = nt_buffer n"

lemma calm_refl [simp]: "calm n n"
  by (simp add: calm_def same_rights_def)

lemma calm_trans: "calm n m \<Longrightarrow> calm m k \<Longrightarrow> calm n k"
  using mild_trans by (auto simp: calm_def same_rights_def)

lemma calm_list: "sq_items l = sq_items (nt_list n) \<Longrightarrow> calm n (n\<lparr>nt_list := l\<rparr>)"
  by (simp add: calm_def same_rights_def mild_list)

lemma net_sock_mild: "net_sock a f n = Some n' \<Longrightarrow> mild n n'"
  by (auto simp: net_sock_def mild_def split: if_splits)

lemma net_sock_calm: "net_sock a f n = Some n' \<Longrightarrow> (\<And>r. nt_socks n a = Some r \<Longrightarrow> sk_auth (f r) = sk_auth r) \<Longrightarrow> calm n n'"
  by (auto simp: net_sock_def calm_def mild_def same_rights_def split: if_splits)

lemma net_sock_list: "net_sock a f n = Some n' \<Longrightarrow> nt_list n' = nt_list n"
  by (auto simp: net_sock_def)

lemma net_send_calm: "net_send a bs n = Some n' \<Longrightarrow> no_answer (a, bs) \<Longrightarrow> calm n n'"
  by (auto simp: net_send_def calm_def mild_def same_rights_def)

lemma set_client_calm: "set_client b f n = Some n' \<Longrightarrow> (\<And>c. cn_sock (f c) = cn_sock c) \<Longrightarrow> calm n n'"
  by (auto simp: set_client_def calm_def mild_def same_rights_def)

lemma check_query_calm: "check_query env q n = Some n' \<Longrightarrow> calm n n' \<and> nt_socks n' = nt_socks n \<and> nt_sent n' = nt_sent n"
  by (auto simp: check_query_def calm_def mild_def same_rights_def split: prod.splits option.splits query_end.splits)

lemma store_check_result_calm:
  assumes "store_check_result env dont c code body n = Some n'"
  shows "calm n n' \<and> nt_socks n' = nt_socks n \<and> nt_sent n' = nt_sent n"
proof (cases "\<not> dont \<and> sp_id (cp_pay c) \<noteq> 0")
  case True
  then obtain q where "check_query env q n = Some n'" using assms by (auto simp: store_check_result_def bind_eq_Some_conv)
  then show ?thesis by (rule check_query_calm)
next
  case False
  then show ?thesis using assms by (auto simp: store_check_result_def split: if_splits)
qed

section \<open>Loops\<close>

lemma each_client_inv:
  assumes "\<And>b c s s'. I s \<Longrightarrow> nt_list s = nt_list n \<Longrightarrow> nt_clients s b = Some c \<Longrightarrow> f b c s = Some s' \<Longrightarrow> I s' \<and> nt_list s' = nt_list n"
    and "\<And>s l. I s \<Longrightarrow> sq_items l = sq_items (nt_list n) \<Longrightarrow> I (s\<lparr>nt_list := l\<rparr>)"
    and "each_client f n = Some n'" and "I n"
  shows "I n'"
proof -
  let ?body = "\<lambda>e l s. (case e of
         None \<Rightarrow> Some (None :: unit option, l, s)
       | Some b \<Rightarrow> do { c \<leftarrow> nt_clients s b; s1 \<leftarrow> f b c s; Some (None, l, s1) })"
  obtain r l n1 where e: "for_each ?body (nt_list n) n = Some (r, l, n1)" "n' = n1\<lparr>nt_list := l\<rparr>"
    using assms(3) by (auto simp: each_client_def bind_eq_Some_conv)
  have "sq_items l = sq_items (nt_list n) \<and> I n1 \<and> nt_list n1 = nt_list n"
  proof (rule for_each_inv [where I = "\<lambda>l s. sq_items l = sq_items (nt_list n) \<and> I s \<and> nt_list s = nt_list n", OF _ _ e(1)])
    fix e' l s r l' s' assume i: "sq_items l = sq_items (nt_list n) \<and> I s \<and> nt_list s = nt_list n" and b: "?body e' l s = Some (r, l', s')"
    show "sq_items l' = sq_items (nt_list n) \<and> I s' \<and> nt_list s' = nt_list n"
      using i b assms(1) by (cases e') (auto simp: bind_eq_Some_conv)
  qed (use assms(4) in auto)
  then show ?thesis using e(2) assms(2) by blast
qed

lemma seq_each_put:
  assumes "\<And>e l s. body e l s = Some (None :: 'r option, (case e of None \<Rightarrow> l | Some c \<Rightarrow> if P c then seq_put (g c) l else l), s)"
    and "sq_pos l = i" "n + i = length (sq_items l)"
  shows "\<exists>l'. seq_each n i body l s = Some (None, l', s)
     \<and> sq_items l' = take i (sq_items l) @ map (map_option (\<lambda>c. if P c then g c else c)) (drop i (sq_items l))"
  using assms(2,3)
proof (induction n arbitrary: i l)
  case (Suc n)
  let ?e = "sq_items l ! i" and ?l = "l\<lparr>sq_pos := Suc i\<rparr>"
  let ?l1 = "case ?e of None \<Rightarrow> ?l | Some c \<Rightarrow> if P c then seq_put (g c) ?l else ?l"
  have i: "i < length (sq_items l)" using Suc.prems(2) by simp
  have nx: "seq_next l = (?e, ?l)" using i Suc.prems(1) seq_next_at [of l] by simp
  have l1: "sq_pos ?l1 = Suc i" "sq_items ?l1 = (sq_items l)[i := map_option (\<lambda>c. if P c then g c else c) ?e]"
    by (auto simp: seq_put_def split: option.split) (metis list_update_id)+
  have d: "drop i (sq_items l) = ?e # drop (Suc i) (sq_items l)" using i by (rule Cons_nth_drop_Suc [symmetric])
  obtain l' where "seq_each n (Suc i) body ?l1 s = Some (None, l', s)"
    "sq_items l' = take (Suc i) (sq_items ?l1) @ map (map_option (\<lambda>c. if P c then g c else c)) (drop (Suc i) (sq_items ?l1))"
    using Suc.IH [OF l1(1)] l1(2) Suc.prems(2) by auto
  moreover have "take (Suc i) (sq_items ?l1) = take i (sq_items l) @ [map_option (\<lambda>c. if P c then g c else c) ?e]"
    unfolding l1(2) using i by (simp add: take_Suc_conv_app_nth)
  moreover have "drop (Suc i) (sq_items ?l1) = drop (Suc i) (sq_items l)" unfolding l1(2) by simp
  moreover have "body ?e ?l s = Some (None, ?l1, s)" by (rule assms(1))
  ultimately show ?case using i nx d by simp
qed simp

lemma forget_sock_items:
  "\<exists>l'. forget_sock a l = Some l' \<and> sq_items l' = map (map_option (\<lambda>c. if ck_sock c = Some a then c\<lparr>ck_sock := None\<rparr> else c)) (sq_items l)"
proof -
  have "\<exists>l'. for_each (\<lambda>e l s. Some (None :: unit option, (case e of
       None \<Rightarrow> l
     | Some c \<Rightarrow> if ck_sock c = Some a then seq_put (c\<lparr>ck_sock := None\<rparr>) l else l), s)) l () = Some (None, l', ())
     \<and> sq_items l' = map (map_option (\<lambda>c. if ck_sock c = Some a then c\<lparr>ck_sock := None\<rparr> else c)) (sq_items l)"
    unfolding for_each_def
    using seq_each_put [of "(\<lambda>e l s. Some (None :: unit option, (case e of
       None \<Rightarrow> l
     | Some c \<Rightarrow> if ck_sock c = Some a then seq_put (c\<lparr>ck_sock := None\<rparr>) l else l), s))" "\<lambda>c. ck_sock c = Some a" "\<lambda>c. c\<lparr>ck_sock := None\<rparr>"
       "seq_reset l" 0 "length (sq_items l)" "()"] by (simp add: seq_reset_def)
  then show ?thesis by (auto simp: forget_sock_def)
qed

lemma remove_found:
  assumes "seq_at (sq_pos l) l = Some x"
  shows "sq_items (seq_remove_this l) = drop_nth (sq_pos l - 1) (sq_items l) \<and> sq_pos l - 1 < length (sq_items l)
     \<and> sq_items l ! (sq_pos l - 1) = Some x"
  using assms by (cases "sq_pos l") (auto simp: seq_at_def seq_remove_this_def seq_remove_def split: if_splits)

lemma set_drop_nth_sub: "set (drop_nth k xs) \<subseteq> set xs"
  by (auto simp: drop_nth_def dest: in_set_takeD in_set_dropD)

lemma find_waiting_spec:
  assumes "find_waiting p l = Some (r, l')"
  shows "(case r of None \<Rightarrow> sq_items l' = sq_items l
     | Some k \<Rightarrow> \<exists>i t. i < length (sq_items l) \<and> sq_items l ! i = Some t \<and> sq_items l' = drop_nth i (sq_items l) \<and> k = ck_sock t
          \<and> sp_id (cp_pay (ck_pay t)) = sp_id (cp_pay p))"
proof -
  let ?body = "\<lambda>e l s. Some (case e of
       None \<Rightarrow> (None, l, s)
     | Some t \<Rightarrow> if sp_id (cp_pay (ck_pay t)) = sp_id (cp_pay p) \<and> sp_terminal_id (cp_pay (ck_pay t)) = sp_terminal_id (cp_pay p)
                 then (Some (ck_sock t), seq_remove_this l, s) else (None, l, s))"
  obtain u where f: "for_each ?body l () = Some (r, l', u)" using assms by (auto simp: find_waiting_def)
  have "case r of None \<Rightarrow> sq_items l' = sq_items l
      | Some x \<Rightarrow> \<exists>k s. sq_items k = sq_items l \<and> ?body (seq_at (sq_pos k) k) k s = Some (Some x, l', u)"
    by (rule for_each_cases [where I = "\<lambda>k s. sq_items k = sq_items l" and body = ?body, OF _ _ f]) (auto split: option.splits if_splits)
  then show ?thesis
  proof (cases r)
    case (Some x)
    then obtain k t where k: "sq_items k = sq_items l" "seq_at (sq_pos k) k = Some t" "l' = seq_remove_this k" "x = ck_sock t"
      "sp_id (cp_pay (ck_pay t)) = sp_id (cp_pay p)"
      using \<open>case r of None \<Rightarrow> _ | Some x \<Rightarrow> _\<close> by (auto split: option.splits if_splits)
    then show ?thesis using remove_found [OF k(2)] Some by auto
  qed simp
qed

lemma take_first_spec:
  assumes "take_first l = Some (r, l')"
  shows "set (sq_items l') \<subseteq> set (sq_items l) \<and> (\<forall>c. r = Some c \<longrightarrow> Some c \<in> set (sq_items l))"
proof -
  let ?body = "\<lambda>e l s. Some (case e of None \<Rightarrow> (None, l, s) | Some c \<Rightarrow> (Some c, seq_remove_this l, s))"
  obtain u where f: "for_each ?body l () = Some (r, l', u)" using assms by (auto simp: take_first_def)
  have c: "case r of None \<Rightarrow> sq_items l' = sq_items l
      | Some x \<Rightarrow> \<exists>k s. sq_items k = sq_items l \<and> ?body (seq_at (sq_pos k) k) k s = Some (Some x, l', u)"
    by (rule for_each_cases [where I = "\<lambda>k s. sq_items k = sq_items l" and body = ?body, OF _ _ f]) (auto split: option.splits)
  show ?thesis
  proof (cases r)
    case None
    then show ?thesis using c by simp
  next
    case (Some x)
    then obtain k where k: "sq_items k = sq_items l" "seq_at (sq_pos k) k = Some x" "l' = seq_remove_this k"
      using c by (auto split: option.splits)
    have "Some x \<in> set (sq_items l)" using remove_found [OF k(2)] k(1) nth_mem by metis
    moreover have "set (sq_items l') \<subseteq> set (sq_items l)"
      using remove_found [OF k(2)] k(1,3) set_drop_nth_sub [of "sq_pos k - 1" "sq_items l"] by simp
    ultimately show ?thesis using Some by simp
  qed
qed

section \<open>Calm operations\<close>

lemma each_client_calm:
  assumes "\<And>b c s s'. f b c s = Some s' \<Longrightarrow> calm s s' \<and> nt_list s' = nt_list s" and "each_client f n = Some n'"
  shows "calm n n'"
proof (rule each_client_inv [where I = "calm n", OF _ _ assms(2)])
  fix b c s s' assume "calm n s" "nt_list s = nt_list n" "f b c s = Some s'"
  then show "calm n s' \<and> nt_list s' = nt_list n" using assms(1) calm_trans by metis
qed (auto simp: calm_def mild_def same_rights_def)

lemma expire_client_auth [simp]: "sk_auth (expire_client t r) = sk_auth r"
  by (simp add: expire_client_def sock_timeout_def sock_down_def)

lemma expire_clients_calm: "expire_clients env n = Some n' \<Longrightarrow> calm n n'"
  unfolding expire_clients_def
  by (rule each_client_calm) (auto simp: net_sock_list split: option.splits intro: net_sock_calm)

lemma send_log_messages_calm: "send_log_messages priority msg n = Some n' \<Longrightarrow> calm n n'"
  unfolding send_log_messages_def
  by (rule each_client_calm)
    (auto simp: net_send_def calm_def mild_def same_rights_def no_answer_def log_bytes_def new_pay_nettype_def split: option.splits if_splits)

lemma read_multi_select_calm:
  assumes "read_multi_select ready n = Some (k, n')"
  shows "calm n n'"
proof -
  let ?body = "\<lambda>e l (k, s). (case e of
         None \<Rightarrow> Some (None :: unit option, l, k, s)
       | Some b \<Rightarrow> do {
           c \<leftarrow> nt_clients s b;
           (case cn_sock c of
              None \<Rightarrow> Some (None, l, k, s)
            | Some a \<Rightarrow> do {
                r \<leftarrow> nt_socks s a;
                if 0 \<le> sk_fd r
                then map_option (\<lambda>s1. (None, l, if ready a then k + 1 else k, s1)) (net_sock a (read_possible (if ready a then 1 else 0)) s)
                else Some (None, l, k, s)
              })
         })"
  obtain r l m where f: "for_each ?body (nt_list n) (0, n) = Some (r, l, k, m)" "n' = m\<lparr>nt_list := l\<rparr>"
    using assms by (auto simp: read_multi_select_def bind_eq_Some_conv)
  have "sq_items l = sq_items (nt_list n) \<and> calm n (snd (k, m))"
  proof (rule for_each_inv [where I = "\<lambda>l p. sq_items l = sq_items (nt_list n) \<and> calm n (snd p)" and body = ?body, OF _ _ f(1)])
    fix e l p r l' p' assume i: "sq_items l = sq_items (nt_list n) \<and> calm n (snd p)" and b: "?body e l p = Some (r, l', p')"
    obtain k m where p: "p = (k, m)" by fastforce
    have "l' = l \<and> (snd p' = m \<or> (\<exists>a x. net_sock a (read_possible x) m = Some (snd p')))"
    proof (cases e)
      case None
      then show ?thesis using b p by auto
    next
      case (Some x)
      then obtain c where c: "nt_clients m x = Some c" using b p by (auto simp: bind_eq_Some_conv)
      show ?thesis
        using b p Some c by (cases "cn_sock c") (auto simp: bind_eq_Some_conv split: if_splits)
    qed
    then show "sq_items l' = sq_items (nt_list n) \<and> calm n (snd p')"
      using i p calm_trans [of n m] net_sock_calm [of _ "read_possible _" m] by (auto simp: read_possible_def)
  qed auto
  then show ?thesis using f(2) by (auto simp: calm_def mild_def same_rights_def)
qed

lemma send_users_calm:
  assumes "send_users a n = Some n'"
  shows "calm n n'"
proof -
  let ?body = "\<lambda>e l out. (case e of
         None \<Rightarrow> Some (None :: unit option, l, out)
       | Some b \<Rightarrow> do {
           c \<leftarrow> nt_clients n b;
           let out1 = out @ user_bytes (cn_name c);
           if 1024 < length out1 then None else Some (None, l, out1)
         })"
  obtain r l out where f: "for_each ?body (nt_list n) [22, 0] = Some (r, l, out)" "net_send a out (n\<lparr>nt_list := l\<rparr>) = Some n'"
    using assms by (auto simp: send_users_def bind_eq_Some_conv)
  have "sq_items l = sq_items (nt_list n) \<and> (\<exists>t. out = 22 # t)"
    by (rule for_each_inv [where I = "\<lambda>l out. sq_items l = sq_items (nt_list n) \<and> (\<exists>t. out = 22 # t)" and body = ?body, OF _ _ f(1)])
      (auto simp: bind_eq_Some_conv Let_def split: option.splits if_splits)
  then show ?thesis
    using calm_trans [OF calm_list net_send_calm [OF f(2)]] by (auto simp: no_answer_def new_pay_nettype_def)
qed

section \<open>Checks and answers\<close>

text \<open>How often a connection was answered, is waiting, and asked, for the checks of one number.\<close>

definition answers_to :: "nat \<Rightarrow> int \<Rightarrow> 'd net \<Rightarrow> nat" where
  "answers_to a i n = length (filter (\<lambda>m. fst m = a \<and> \<not> no_answer m \<and> take 8 (drop 2 (snd m)) = le_int_bytes 8 i) (nt_sent n))"

definition waits :: "nat \<Rightarrow> int \<Rightarrow> check option \<Rightarrow> bool" where
  "waits a i e = (case e of None \<Rightarrow> False
     | Some k \<Rightarrow> ck_sock k = Some a \<and> le_int_bytes 8 (sp_id (cp_pay (ck_pay k))) = le_int_bytes 8 i)"

definition waiting_for :: "nat \<Rightarrow> int \<Rightarrow> 'd net \<Rightarrow> nat" where
  "waiting_for a i n = length (filter (waits a i) (sq_items (nt_in n)))"

definition asked_by :: "nat \<Rightarrow> int \<Rightarrow> 'd net \<Rightarrow> nat" where
  "asked_by a i n = length (filter (\<lambda>q. fst q = a \<and> le_int_bytes 8 (snd q) = le_int_bytes 8 i) (nt_asked n))"

definition net_inv :: "'d net_env \<Rightarrow> 'd net \<Rightarrow> bool" where
  "net_inv env n \<longleftrightarrow> net_ok n \<and> (\<forall>a i. answers_to a i n + waiting_for a i n \<le> asked_by a i n)
     \<and> length (sq_items (nt_in n)) \<le> ne_max_queue env \<and> length (sq_items (nt_list n)) \<le> 500"

lemma mild_inv:
  assumes "mild n n'" "net_inv env n"
  shows "net_inv env n'"
proof -
  have "answers_to a i n' = answers_to a i n" for a i
    using assms(1) by (auto simp: mild_def answers_to_def filter_empty_conv)
  then show ?thesis
    using assms mild_ok [OF assms(1)] by (simp add: net_inv_def mild_def waiting_for_def asked_by_def)
qed

lemma calm_inv: "calm n n' \<Longrightarrow> net_inv env n \<Longrightarrow> net_inv env n'"
  by (rule mild_inv) (simp_all add: calm_def)

lemma accept_client_inv:
  assumes "net_inv env n"
  shows "net_inv env (accept_client fd rb mb len level n)"
proof (cases "500 \<le> length (sq_items (nt_list n))")
  case False
  let ?n = "accept_client fd rb mb len level n"
  have ok: "net_ok n" using assms by (simp add: net_inv_def)
  note d = net_okD [OF ok]
  have e: "?n = n\<lparr>nt_list := seq_add (Some (nt_next n + 1)) (seq_reset (nt_list n)),
      nt_socks := (nt_socks n)(nt_next n \<mapsto> sock_rw_new fd rb mb len),
      nt_clients := (nt_clients n)(nt_next n + 1 \<mapsto> \<lparr>cn_sock = Some (nt_next n), cn_delivery = 0, cn_name = ''<unauth>'', cn_level = level\<rparr>),
      nt_next := nt_next n + 2\<rparr>" using False by (simp add: accept_client_def Let_def)
  have fresh: "nt_next n \<notin> dom (nt_socks n)" "Suc (nt_next n) \<notin> dom (nt_clients n)" "nt_next n \<notin> dom (nt_clients n)"
    using d(6) [of "nt_next n"] d(7) [of "nt_next n"] d(7) [of "Suc (nt_next n)"] by auto
  have other: "nt_clients n b = Some c \<Longrightarrow> cn_sock c \<noteq> Some (nt_next n)" for b c using d(4) [of b c] fresh(1) by auto
  have "net_ok ?n"
  proof (rule net_okI)
    show "distinct (sq_items (nt_list ?n))" using d(1,2) fresh(2) by (simp add: e seq_add_def seq_reset_def)
    show "set (sq_items (nt_list ?n)) = Some ` dom (nt_clients ?n)"
      using ok by (simp add: e seq_add_def seq_reset_def net_ok_def net_good_def)
    show "\<exists>a. cn_sock c = Some a \<and> a \<in> dom (nt_socks ?n)" if "nt_clients ?n b = Some c" for b c
      using that d(4) [of b c] by (cases "b = Suc (nt_next n)") (auto simp: e)
    show "b = b'" if "nt_clients ?n b = Some c" "nt_clients ?n b' = Some c'" "cn_sock c = cn_sock c'" for b c b' c'
      using that d(5) [of b c b' c'] other [of b c] other [of b' c'] by (auto simp: e split: if_splits)
    show "k < nt_next ?n" if "k \<in> dom (nt_clients ?n) \<union> dom (nt_socks ?n)" for k
      using that less_SucI [OF less_SucI [OF d(6) [of k]]] less_SucI [OF less_SucI [OF d(7) [of k]]] by (auto simp: e split: if_splits)
    show "a \<in> dom (nt_socks ?n)" if "Some k \<in> set (sq_items (nt_in ?n)) \<union> set (sq_items (nt_cash ?n))" "ck_sock k = Some a" for k a
      using that d(8,9) [of k a] by (auto simp: e)
  qed
  then show ?thesis
    using assms False unfolding e net_inv_def
    by (simp add: answers_to_def waiting_for_def asked_by_def seq_add_def seq_reset_def)
qed (use assms in \<open>simp add: accept_client_def\<close>)

lemma Some_in_map: "Some k \<in> map_option h ` A \<Longrightarrow> \<exists>k0. Some k0 \<in> A \<and> k = h k0"
  by (auto simp: image_iff) (metis map_option_eq_Some)

lemma forgotten_waits:
  "length (filter (waits a' i) (map (map_option (\<lambda>c. if ck_sock c = Some a then c\<lparr>ck_sock := None\<rparr> else c)) xs)) \<le> length (filter (waits a' i) xs)"
  by (induction xs) (auto simp: waits_def split: option.splits)

lemma drop_client_spec:
  assumes "drop_client a n = Some n'"
  shows "(n' = n\<lparr>nt_list := nt_list n'\<rparr> \<and> sq_items (nt_list n') = sq_items (nt_list n))
     \<or> (\<exists>b c l waiting cash. nt_clients n b = Some c \<and> cn_sock c = Some a \<and> sq_items l = sq_items (nt_list n)
          \<and> seq_at (sq_pos l) l = Some b \<and> forget_sock a (nt_in n) = Some waiting \<and> forget_sock a (nt_cash n) = Some cash
          \<and> n' = n\<lparr>nt_list := seq_remove_this l, nt_clients := (nt_clients n)(b := None), nt_socks := (nt_socks n)(a := None),
                  nt_in := waiting, nt_cash := cash\<rparr>)"
proof -
  let ?body = "\<lambda>e l s. (case e of
         None \<Rightarrow> Some (None, l, s)
       | Some b \<Rightarrow> do { c \<leftarrow> nt_clients n b; Some (if cn_sock c = Some a then Some b else None, l, s) })"
  obtain r l u where f: "for_each ?body (nt_list n) () = Some (r, l, u)"
    using assms by (auto simp: drop_client_def bind_eq_Some_conv)
  have c: "case r of None \<Rightarrow> sq_items l = sq_items (nt_list n)
      | Some x \<Rightarrow> \<exists>k s. sq_items k = sq_items (nt_list n) \<and> ?body (seq_at (sq_pos k) k) k s = Some (Some x, l, u)"
    by (rule for_each_cases [where I = "\<lambda>k s. sq_items k = sq_items (nt_list n)" and body = ?body, OF _ _ f])
      (auto simp: bind_eq_Some_conv split: option.splits)
  show ?thesis
  proof (cases r)
    case None
    then have n': "n' = n\<lparr>nt_list := l\<rparr>" using assms f by (simp add: drop_client_def)
    show ?thesis using c None by (intro disjI1) (simp add: n')
  next
    case (Some b)
    then obtain c where k: "sq_items l = sq_items (nt_list n)" "seq_at (sq_pos l) l = Some b" "nt_clients n b = Some c" "cn_sock c = Some a"
      using c by (auto simp: bind_eq_Some_conv split: option.splits if_splits)
    obtain waiting cash where "forget_sock a (nt_in n) = Some waiting" "forget_sock a (nt_cash n) = Some cash"
      "n' = n\<lparr>nt_list := seq_remove_this l, nt_clients := (nt_clients n)(b := None), nt_socks := (nt_socks n)(a := None),
                  nt_in := waiting, nt_cash := cash\<rparr>"
      using assms f Some by (auto simp: drop_client_def bind_eq_Some_conv)
    then show ?thesis using k by (intro disjI2 exI conjI)
  qed
qed

lemma drop_client_inv:
  assumes "net_inv env n" "drop_client a n = Some n'"
  shows "net_inv env n'"
  using drop_client_spec [OF assms(2)]
proof (elim disjE exE conjE)
  assume "n' = n\<lparr>nt_list := nt_list n'\<rparr>" "sq_items (nt_list n') = sq_items (nt_list n)"
  then have "calm n n'" using calm_list [of "nt_list n'" n] by simp
  then show ?thesis by (rule calm_inv [OF _ assms(1)])
next
  fix b c l waiting cash
  assume f: "nt_clients n b = Some c" "cn_sock c = Some a" "sq_items l = sq_items (nt_list n)" "seq_at (sq_pos l) l = Some b"
      "forget_sock a (nt_in n) = Some waiting" "forget_sock a (nt_cash n) = Some cash"
    and n': "n' = n\<lparr>nt_list := seq_remove_this l, nt_clients := (nt_clients n)(b := None), nt_socks := (nt_socks n)(a := None),
                  nt_in := waiting, nt_cash := cash\<rparr>"
  let ?forget = "map (map_option (\<lambda>c. if ck_sock c = Some a then c\<lparr>ck_sock := None\<rparr> else c))"
  have w: "sq_items waiting = ?forget (sq_items (nt_in n))" "sq_items cash = ?forget (sq_items (nt_cash n))"
    using forget_sock_items [of a "nt_in n"] forget_sock_items [of a "nt_cash n"] f(5,6) by auto
  have ok: "net_ok n" using assms(1) by (simp add: net_inv_def)
  note d = net_okD [OF ok]
  let ?k = "sq_pos l - 1"
  have r: "sq_items (seq_remove_this l) = drop_nth ?k (sq_items (nt_list n))" "?k < length (sq_items (nt_list n))"
    "sq_items (nt_list n) ! ?k = Some b" using remove_found [OF f(4)] f(3) by simp_all
  have items: "set (sq_items (seq_remove_this l)) = set (sq_items (nt_list n)) - {Some b}"
    using set_drop_nth [OF d(1) r(2)] r by simp
  have "net_ok n'"
  proof (rule net_okI)
    show "distinct (sq_items (nt_list n'))" using distinct_drop_nth [OF d(1)] r(1) by (simp add: n')
    show "set (sq_items (nt_list n')) = Some ` dom (nt_clients n')"
      using ok items by (auto simp: n' net_ok_def net_good_def)
    show "\<exists>a'. cn_sock x = Some a' \<and> a' \<in> dom (nt_socks n')" if "nt_clients n' y = Some x" for y x
      using that d(4) [of y x] d(5) [of y x b c] f(1,2) by (auto simp: n' split: if_splits)
    show "y = y'" if "nt_clients n' y = Some x" "nt_clients n' y' = Some x'" "cn_sock x = cn_sock x'" for y x y' x'
      using that d(5) [of y x y' x'] by (auto simp: n' split: if_splits)
    show "k < nt_next n'" if "k \<in> dom (nt_clients n') \<union> dom (nt_socks n')" for k
      using that d(6,7) [of k] by (auto simp: n' split: if_splits)
    show "a' \<in> dom (nt_socks n')" if k: "Some k \<in> set (sq_items (nt_in n')) \<union> set (sq_items (nt_cash n'))" "ck_sock k = Some a'" for k a'
    proof -
      obtain k0 where "Some k0 \<in> set (sq_items (nt_in n)) \<union> set (sq_items (nt_cash n))"
        "k = (if ck_sock k0 = Some a then k0\<lparr>ck_sock := None\<rparr> else k0)"
        using k(1) w by (auto simp: n' dest!: Some_in_map)
      then show ?thesis using k(2) d(8,9) [of k0 a'] by (auto simp: n' split: if_splits)
    qed
  qed
  moreover have "answers_to a' i n' + waiting_for a' i n' \<le> asked_by a' i n'" for a' i
  proof -
    have "waiting_for a' i n' \<le> waiting_for a' i n" using forgotten_waits by (simp add: waiting_for_def n' w(1))
    moreover have "answers_to a' i n + waiting_for a' i n \<le> asked_by a' i n" using assms(1) by (simp add: net_inv_def)
    ultimately show ?thesis by (simp add: n' answers_to_def asked_by_def)
  qed
  moreover have "length (sq_items (nt_list n)) - 1 \<le> 500" using assms(1) by (auto simp: net_inv_def)
  ultimately show ?thesis using assms(1) w(1) r by (simp add: net_inv_def n')
qed

lemma filter_drop_nth:
  "i < length xs \<Longrightarrow> length (filter P (drop_nth i xs)) + (if P (xs ! i) then 1 else 0) = length (filter P xs)"
proof -
  assume i: "i < length xs"
  have "filter P xs = filter P (take i xs) @ filter P (xs ! i # drop (Suc i) xs)"
    using id_take_nth_drop [OF i] by (metis filter_append)
  then show ?thesis by (simp add: drop_nth_def)
qed

lemma answer_bytes_front:
  "take 1 (answer_bytes c code body) = [new_pay_nettype]" "take (Suc 0) (answer_bytes c code body) = [new_pay_nettype]" "take 8 (drop 2 (answer_bytes c code body)) = le_int_bytes 8 (sp_id (cp_pay c))"
  by (simp_all add: answer_bytes_def)

lemma pc_set_stateE:
  assumes "pc_set_state env dont c res n = Some n'"
  obtains body n1 r l where "result_body res = Some body"
    "store_check_result env dont c (cr_code res) body n = Some n1"
    "find_waiting c (nt_in n1) = Some (r, l)"
    "(case r of Some (Some a) \<Rightarrow> net_send a (answer_bytes c (cr_code res) body) (n1\<lparr>nt_in := l\<rparr>) | _ \<Rightarrow> Some (n1\<lparr>nt_in := l\<rparr>)) = Some n'"
proof -
  obtain body n1 where b: "result_body res = Some body"
    "store_check_result env dont c (cr_code res) body n = Some n1"
    "(if 5024 < 15 + length body then None else do {
       (r, l) \<leftarrow> find_waiting c (nt_in n1);
       (case r of Some (Some a) \<Rightarrow> net_send a (answer_bytes c (cr_code res) body) (n1\<lparr>nt_in := l\<rparr>) | _ \<Rightarrow> Some (n1\<lparr>nt_in := l\<rparr>))
     }) = Some n'"
    using assms unfolding pc_set_state_def bind_eq_Some_conv by blast
  then obtain r l where "find_waiting c (nt_in n1) = Some (r, l)"
    "(case r of Some (Some a) \<Rightarrow> net_send a (answer_bytes c (cr_code res) body) (n1\<lparr>nt_in := l\<rparr>) | _ \<Rightarrow> Some (n1\<lparr>nt_in := l\<rparr>)) = Some n'"
    by (cases "5024 < 15 + length body") (auto simp: bind_eq_Some_conv)
  then show ?thesis using that b(1,2) by blast
qed

text \<open>An answer: to a check that waits, which leaves the list.\<close>

lemma pc_set_state_inv:
  assumes "net_inv env n" "pc_set_state env dont c res n = Some n'"
  shows "net_inv env n' \<and> length (sq_items (nt_in n')) \<le> length (sq_items (nt_in n))"
proof -
  obtain body n1 r l where p: "result_body res = Some body"
    "store_check_result env dont c (cr_code res) body n = Some n1"
    "find_waiting c (nt_in n1) = Some (r, l)"
    "(case r of Some (Some a) \<Rightarrow> net_send a (answer_bytes c (cr_code res) body) (n1\<lparr>nt_in := l\<rparr>) | _ \<Rightarrow> Some (n1\<lparr>nt_in := l\<rparr>)) = Some n'"
    by (rule pc_set_stateE [OF assms(2)])
  have q: "calm n n1" using store_check_result_calm [OF p(2)] by blast
  then have inv: "net_inv env n1" and same: "nt_in n1 = nt_in n" using calm_inv [OF _ assms(1)] by (auto simp: calm_def mild_def same_rights_def)
  note w = find_waiting_spec [OF p(3)]
  have sub: "set (sq_items l) \<subseteq> set (sq_items (nt_in n1))" "length (sq_items l) \<le> length (sq_items (nt_in n1))"
    using w by (auto dest: subsetD [OF set_drop_nth_sub] split: option.splits)
  have ok: "net_ok (n1\<lparr>nt_in := l\<rparr>)"
    using inv sub(1) net_ok_waiting(1) by (auto simp: net_inv_def)
  show ?thesis
  proof (cases "\<exists>a. r = Some (Some a)")
    case False
    then have n': "n' = n1\<lparr>nt_in := l\<rparr>" using p(4) by (cases r) (auto split: option.splits)
    have less: "waiting_for a i n' \<le> waiting_for a i n1" for a i
    proof (cases r)
      case None
      then show ?thesis using w by (simp add: n' waiting_for_def)
    next
      case (Some k)
      then obtain j where "j < length (sq_items (nt_in n1))" "sq_items l = drop_nth j (sq_items (nt_in n1))" using w by auto
      then show ?thesis using filter_drop_nth [of j "sq_items (nt_in n1)" "waits a i"] by (simp add: n' waiting_for_def split: if_splits)
    qed
    have "answers_to a i n' + waiting_for a i n' \<le> asked_by a i n'" for a i
    proof -
      have "answers_to a i n1 + waiting_for a i n1 \<le> asked_by a i n1" using inv by (simp add: net_inv_def)
      then show ?thesis using less [of a i] by (simp add: n' answers_to_def asked_by_def)
    qed
    then show ?thesis using inv ok sub(2) same by (simp add: net_inv_def n')
  next
    case True
    then obtain a where a: "r = Some (Some a)" by blast
    then obtain i t where t: "i < length (sq_items (nt_in n1))" "sq_items (nt_in n1) ! i = Some t"
      "sq_items l = drop_nth i (sq_items (nt_in n1))" "ck_sock t = Some a" "sp_id (cp_pay (ck_pay t)) = sp_id (cp_pay c)"
      using w by auto
    have s: "net_send a (answer_bytes c (cr_code res) body) (n1\<lparr>nt_in := l\<rparr>) = Some n'" using p(4) a by simp
    then have n': "n' = n1\<lparr>nt_in := l, nt_sent := nt_sent n1 @ [(a, answer_bytes c (cr_code res) body)]\<rparr>"
      by (auto simp: net_send_def)
    have "answers_to a' j n' + waiting_for a' j n' = answers_to a' j n1 + waiting_for a' j n1" for a' j
      using filter_drop_nth [OF t(1), of "waits a' j"] t
      by (auto simp: n' answers_to_def waiting_for_def no_answer_def answer_bytes_front waits_def)
    then show ?thesis using inv ok sub(2) same by (simp add: net_inv_def n' asked_by_def net_ok_def)
  qed
qed

lemma add_check_inv:
  assumes "net_inv env n" "a \<in> dom (nt_socks n)" "add_check env a c n = Some n'"
  shows "net_inv env n'"
proof -
  let ?n = "n\<lparr>nt_asked := nt_asked n @ [(a, sp_id (cp_pay c))]\<rparr>"
  let ?k = "\<lparr>ck_pay = c, ck_sock = Some a\<rparr>"
  have asked: "asked_by a' i ?n = asked_by a' i n + (if a' = a \<and> le_int_bytes 8 (sp_id (cp_pay c)) = le_int_bytes 8 i then 1 else 0)" for a' i
    by (auto simp: asked_by_def)
  have le: "answers_to a' i n + waiting_for a' i n \<le> asked_by a' i n" for a' i using assms(1) by (simp add: net_inv_def)
  have inv: "net_inv env ?n"
    using assms(1) le unfolding net_inv_def asked by (auto simp: net_ok_def answers_to_def waiting_for_def trans_le_add1)
  show ?thesis
  proof (cases "length (sq_items (nt_in ?n)) < ne_max_queue env")
    case False
    then show ?thesis using assms(3) pc_set_state_inv [OF inv] by (auto simp: add_check_def Let_def)
  next
    case True
    then have n': "n' = ?n\<lparr>nt_in := seq_add (Some ?k) (nt_in ?n), nt_cash := seq_add (Some ?k) (nt_cash ?n)\<rparr>"
      using assms(3) by (simp add: add_check_def)
    have "net_ok n'"
    proof (rule net_okI)
      note d = net_okD [of n]
      have ok: "net_ok n" using assms(1) by (simp add: net_inv_def)
      show "a' \<in> dom (nt_socks n')" if "Some k \<in> set (sq_items (nt_in n')) \<union> set (sq_items (nt_cash n'))" "ck_sock k = Some a'" for k a'
        using that assms(2) d(8,9) [OF ok, of k a'] by (auto simp: n' seq_add_def)
    qed (use assms(1) in \<open>auto simp: n' net_inv_def net_ok_def net_good_def\<close>)
    moreover have "answers_to a' i n' + waiting_for a' i n' \<le> asked_by a' i n'" for a' i
    proof -
      have "waiting_for a' i n' = waiting_for a' i n + (if a' = a \<and> le_int_bytes 8 (sp_id (cp_pay c)) = le_int_bytes 8 i then 1 else 0)"
        by (auto simp: n' waiting_for_def seq_add_def waits_def)
      moreover have "asked_by a' i n' = asked_by a' i ?n" "answers_to a' i n' = answers_to a' i n"
        by (simp_all add: n' asked_by_def answers_to_def)
      ultimately show ?thesis using le [of a' i] asked [of a' i] by simp
    qed
    ultimately show ?thesis using assms(1) True by (simp add: n' net_inv_def seq_add_def)
  qed
qed

lemma pc_get_next_pay_inv:
  assumes "net_inv env n" "pc_get_next_pay env accept n = Some (c, n')"
  shows "net_inv env n'"
proof (cases accept)
  case False
  then show ?thesis using assms by (simp add: pc_get_next_pay_def)
next
  case True
  then obtain r l where t: "take_first (nt_cash n) = Some (r, l)"
    using assms(2) by (auto simp: pc_get_next_pay_def bind_eq_Some_conv)
  let ?n = "n\<lparr>nt_cash := l\<rparr>"
  have "net_ok ?n"
    using assms(1) take_first_spec [OF t] net_ok_waiting(2) by (auto simp: net_inv_def)
  then have inv: "net_inv env ?n" using assms(1) by (simp add: net_inv_def answers_to_def waiting_for_def asked_by_def)
  have "calm ?n n'"
  proof (cases r)
    case None
    then show ?thesis using assms(2) True t by (simp add: pc_get_next_pay_def)
  next
    case (Some k)
    have q: "check_query env s m = Some m' \<Longrightarrow> calm m m'" for s m m' using check_query_calm by blast
    let ?c = "(ck_pay k)\<lparr>cp_pay := (cp_pay (ck_pay k))\<lparr>sp_test := FULL_TEST\<rparr>\<rparr>"
    show ?thesis
    proof (cases "sp_id (cp_pay ?c) = 0")
      case True
      then show ?thesis using assms(2) \<open>accept\<close> t Some by (simp add: pc_get_next_pay_def Let_def)
    next
      case False
      then obtain n2 where n2: "check_query env (known_statement ?c) ?n = Some n2"
        "(case ne_rows env (nt_world n2) of
                  Some (row # _) \<Rightarrow> Some (None, n2)
                | _ \<Rightarrow> map_option (\<lambda>n3. (Some ?c, n3)) (check_query env (new_check_statement ?c) n2)) = Some (c, n')"
        using assms(2) \<open>accept\<close> t Some by (auto simp: pc_get_next_pay_def Let_def bind_eq_Some_conv)
      have "n' = n2 \<or> check_query env (new_check_statement ?c) n2 = Some n'"
        using n2(2) by (cases "\<exists>row rows. ne_rows env (nt_world n2) = Some (row # rows)") (auto split: option.splits list.splits)
      then show ?thesis using q [OF n2(1)] q calm_trans by blast
    qed
  qed
  then show ?thesis by (rule calm_inv [OF _ inv])
qed

end
