(* ===== verification/Server_Paycheck_Laws.thy ===== *)
theory Server_Paycheck_Laws
  imports Server_Paycheck Server_Net_Laws Server_Pool_Laws
begin

text \<open>
  What holds of the whole payment server, whatever its clients send and in whatever order its threads take their steps: a client
  gets rights only with a password, changes nothing without them, is answered at most as often as it asked, and no command breaks
  what the threads rely on.
\<close>

section \<open>Commands and the connections\<close>

text \<open>A change of the connections alone that answers no check.\<close>

definition only_net :: "('p, 'w, 'd, 'n) server \<Rightarrow> ('p, 'w, 'd, 'n) server \<Rightarrow> bool" where
  "only_net s s' \<longleftrightarrow> s' = s\<lparr>sr_net := sr_net s'\<rparr> \<and> calm (sr_net s) (sr_net s')"

text \<open>A change that the threads can make too. The limits of threads are 32 bits wide.\<close>

definition any_limit :: nat where
  "any_limit = 2 ^ 32"

definition served :: "'w pool_env \<Rightarrow> ('p, 'w, 'd, 'n) server \<Rightarrow> ('p, 'w, 'd, 'n) server \<Rightarrow> bool" where
  "served penv s s' \<longleftrightarrow> calm (sr_net s) (sr_net s')
     \<and> (sr_pool s' = sr_pool s \<or> pool_step penv any_limit (sr_pool s) (sr_pool s'))"

lemma only_net_refl [simp]: "only_net s s"
  by (simp add: only_net_def)

lemma only_net_trans:
  assumes "only_net s t" "only_net t u"
  shows "only_net s u"
proof -
  have "t = s\<lparr>sr_net := sr_net t\<rparr>" "u = t\<lparr>sr_net := sr_net u\<rparr>" "calm (sr_net s) (sr_net u)"
    using assms calm_trans by (auto simp: only_net_def)
  then have "u = s\<lparr>sr_net := sr_net u\<rparr>" by (metis server.surjective server.update_convs(4))
  then show ?thesis using \<open>calm (sr_net s) (sr_net u)\<close> by (simp add: only_net_def)
qed

lemma only_net_fields:
  assumes "only_net s s'"
  shows "sr_pool s' = sr_pool s" "sr_db s' = sr_db s" "sr_ignore s' = sr_ignore s" "sr_working s' = sr_working s" "sr_quit s' = sr_quit s"
    "calm (sr_net s) (sr_net s')"
proof -
  have "s' = s\<lparr>sr_net := sr_net s'\<rparr>" "calm (sr_net s) (sr_net s')" using assms by (auto simp: only_net_def)
  then show "sr_pool s' = sr_pool s" "sr_db s' = sr_db s" "sr_ignore s' = sr_ignore s" "sr_working s' = sr_working s" "sr_quit s' = sr_quit s"
    "calm (sr_net s) (sr_net s')" by (metis server.select_convs server.update_convs(4) server.surjective)+
qed

lemma reply_spec: "reply a bs s = Some s' \<Longrightarrow> \<exists>n. net_send a bs (sr_net s) = Some n \<and> s' = s\<lparr>sr_net := n\<rparr>"
  by (auto simp: reply_def)

lemma reply_only: "reply a bs s = Some s' \<Longrightarrow> no_answer (a, bs) \<Longrightarrow> only_net s s'"
  using net_send_calm by (fastforce simp: reply_def only_net_def)

lemma tell_only: "tell_clients msg s = Some s' \<Longrightarrow> only_net s s'"
  using send_log_messages_calm by (fastforce simp: tell_clients_def only_net_def)

lemma on_net_spec: "on_net f s = Some s' \<Longrightarrow> \<exists>n. f (sr_net s) = Some n \<and> s' = s\<lparr>sr_net := n\<rparr>"
  by (auto simp: on_net_def)

lemma no_answer_short [simp]:
  "no_answer (a, unauth)" "no_answer (a, answok)" "no_answer (a, answnok)" "no_answer (a, 3 # bs)" "no_answer (a, 5 # bs)"
  "no_answer (a, 13 # bs)" "no_answer (a, 14 # bs)" "no_answer (a, 15 # bs)"
  by (simp_all add: no_answer_def new_pay_nettype_def unauth_def answok_def answnok_def)

lemma servedI: "only_net t s' \<Longrightarrow> sr_net t = sr_net s \<Longrightarrow> sr_pool t = sr_pool s \<or> pool_step penv any_limit (sr_pool s) (sr_pool t) \<Longrightarrow> served penv s s'"
  using only_net_fields(1,6) [of t s'] by (auto simp: served_def)

lemma served_only: "only_net s s' \<Longrightarrow> served penv s s'"
  by (rule servedI) auto

lemma served_pool:
  assumes "only_net (s\<lparr>sr_pool := pl\<rparr>) s'" "pool_step penv any_limit (sr_pool s) pl"
  shows "served penv s s'"
  by (rule servedI [OF assms(1)]) (use assms(2) in auto)

lemma pool_cursors:
  assumes "sq_items l = sq_items (pl_workers pl)"
  shows "pool_step penv L pl (pl\<lparr>pl_workers := l\<rparr>)"
proof -
  have "pool_step penv L pl (pl\<lparr>pl_workers := l, pl_modules := (pl_modules pl)\<lparr>ms_list := ms_list (pl_modules pl)\<rparr>\<rparr>)"
    by (rule cursor_step [OF assms refl])
  then show ?thesis by simp
qed

lemma pool_module_cursor:
  assumes "sq_items k = sq_items (ms_list (pl_modules pl))"
  shows "pool_step penv L pl (pl\<lparr>pl_modules := (pl_modules pl)\<lparr>ms_list := k\<rparr>\<rparr>)"
proof -
  have "pool_step penv L pl (pl\<lparr>pl_workers := pl_workers pl, pl_modules := (pl_modules pl)\<lparr>ms_list := k\<rparr>\<rparr>)"
    by (rule cursor_step [OF refl assms])
  then show ?thesis by simp
qed

lemma pool_operators:
  "pool_step penv L pl (pl\<lparr>pl_op_state := ost\<rparr>)" "pool_step penv L pl (pl\<lparr>pl_ops := ops, pl_op_state := ost\<rparr>)"
  using operators_step [where pl = pl and l = "pl_op_list pl" and ops = "pl_ops pl" and ost = ost]
    operators_step [where pl = pl and l = "pl_op_list pl" and ops = ops and ost = ost] by simp_all

lemma exec_cancel_served: "exec_cancel arg a s = Some s' \<Longrightarrow> served penv s s'"
  by (auto simp: exec_cancel_def bind_eq_Some_conv intro!: served_pool [OF reply_only cancel_step])

lemma exec_kill_served: "exec_kill arg sz a s = Some s' \<Longrightarrow> served penv s s'"
proof (cases "8 \<le> sz")
  case True
  then show "exec_kill arg sz a s = Some s' \<Longrightarrow> served penv s s'"
    by (auto simp: exec_kill_def bind_eq_Some_conv intro!: served_pool [OF reply_only kill_step])
next
  case False
  then show "exec_kill arg sz a s = Some s' \<Longrightarrow> served penv s s'" by (auto simp: exec_kill_def intro: served_only [OF reply_only])
qed

lemma reload_operators_served:
  assumes "reload_operators env s = Some (r, s1)"
  shows "sr_net s1 = sr_net s \<and> pool_step penv any_limit (sr_pool s) (sr_pool s1)"
proof -
  obtain loaded ost where l: "load_operators (se_operators_db env) (se_regexps env) (se_modules env)
       (Some (ss_operators_path (sr_settings s))) (pl_op_state (sr_pool s)) = Some (loaded, ost)"
    using assms by (auto simp: reload_operators_def Let_def bind_eq_Some_conv)
  show ?thesis
  proof (cases loaded)
    case None
    then show ?thesis using assms l pool_operators(1) by (auto simp: reload_operators_def Let_def)
  next
    case (Some ps)
    obtain e olds used ops ost1 where u: "(case sr_old_ops s of
              None \<Rightarrow> Some (None, empty_seq, 0, pl_ops (sr_pool s), ost)
            | Some l \<Rightarrow> for_each count_used l (0, pl_ops (sr_pool s), ost)) = Some (e, olds, used, ops, ost1)"
      using assms l Some by (auto simp: reload_operators_def Let_def bind_eq_Some_conv)
    show ?thesis
      using assms l Some u pool_operators(2) operators_step by (cases "0 < used") (auto simp: reload_operators_def Let_def)
  qed
qed

lemma exec_reload_op_served:
  assumes "exec_reload_op env a s = Some s'"
  shows "served penv s s'"
proof -
  obtain r s1 where r: "reload_operators env s = Some (r, s1)" using assms by (auto simp: exec_reload_op_def bind_eq_Some_conv)
  have "\<exists>msg bs s2. tell_clients msg s1 = Some s2 \<and> reply a bs s2 = Some s' \<and> (bs = answok \<or> bs = answnok)"
    using assms r by (cases "r = 0") (auto simp: exec_reload_op_def bind_eq_Some_conv)
  then obtain msg bs s2 where "tell_clients msg s1 = Some s2" "reply a bs s2 = Some s'" "bs = answok \<or> bs = answnok" by blast
  then have "only_net s1 s'" using only_net_trans [OF tell_only reply_only] no_answer_short by blast
  then show ?thesis by (rule servedI) (use reload_operators_served [OF r] in auto)
qed

lemma exec_reload_so_served: "exec_reload_so env a s = Some s' \<Longrightarrow> served penv s s'"
  by (auto simp: exec_reload_so_def reconf_paysys_def bind_eq_Some_conv intro!: served_pool [OF only_net_trans [OF tell_only reply_only] reload_step])

lemma exec_reload_conf_served: "exec_reload_conf a s = Some s' \<Longrightarrow> served penv s s'"
  by (auto simp: exec_reload_conf_def bind_eq_Some_conv intro!: servedI [OF only_net_trans [OF tell_only reply_only]])

lemma exec_load_served: "exec_load env arg sz a s = Some s' \<Longrightarrow> served penv s s'"
  by (auto simp: exec_load_def set_modules_def bind_eq_Some_conv split: if_splits intro!: served_pool [OF reply_only load_step])

lemma exec_unload_served: "exec_unload arg sz a s = Some s' \<Longrightarrow> served penv s s'"
  by (auto simp: exec_unload_def set_modules_def bind_eq_Some_conv split: if_splits intro!: served_pool [OF reply_only unload_step])

lemma get_threads_bin_frame:
  assumes "get_threads_bin cap uptime accept pl = Some (out, pl')"
  shows "\<exists>l. sq_items l = sq_items (pl_workers pl) \<and> pl' = pl\<lparr>pl_workers := l\<rparr>"
proof -
  let ?body = "\<lambda>e l out. (case e of
         None \<Rightarrow> Some (None :: unit option, l, out)
       | Some t \<Rightarrow> do {
           w \<leftarrow> pl_store pl t;
           bs \<leftarrow> thread_bytes (pl_modules pl) w;
           out1 \<leftarrow> add_bytes cap bs out;
           Some (None, l, out1)
         })"
  obtain out0 r l where f: "for_each ?body (pl_workers pl) out0 = Some (r, l, out)" "pl' = pl\<lparr>pl_workers := l\<rparr>"
    using assms by (auto simp: get_threads_bin_def Let_def bind_eq_Some_conv)
  have "sq_items l = sq_items (pl_workers pl)"
    by (rule for_each_inv [where I = "\<lambda>l s. sq_items l = sq_items (pl_workers pl)" and body = ?body, OF _ _ f(1)])
      (auto simp: bind_eq_Some_conv split: option.splits)
  then show ?thesis using f(2) by blast
qed

lemma get_modules_bin_frame:
  assumes "get_modules_bin cap ms = Some (out, ms')"
  shows "\<exists>k. sq_items k = sq_items (ms_list ms) \<and> ms' = ms\<lparr>ms_list := k\<rparr>"
proof -
  let ?body = "\<lambda>e l out. (case e of
         None \<Rightarrow> Some (None :: unit option, l, out)
       | Some a \<Rightarrow> do {
           m \<leftarrow> ms_store ms a;
           if \<not> mo_unloaded m \<and> mo_broken m = 0
           then map_option (\<lambda>out1. (None, l, out1))
             (add_bytes cap (le_bytes 2 (length (mo_short_name m)) @ map char_byte (take (length (mo_short_name m) mod 65536) (mo_short_name m))) out)
           else Some (None, l, out)
         })"
  obtain r l where f: "for_each ?body (ms_list ms) [] = Some (r, l, out)" "ms' = ms\<lparr>ms_list := l\<rparr>"
    using assms by (auto simp: get_modules_bin_def bind_eq_Some_conv)
  have "sq_items l = sq_items (ms_list ms)"
    by (rule for_each_inv [where I = "\<lambda>l s. sq_items l = sq_items (ms_list ms)" and body = ?body, OF _ _ f(1)])
      (auto simp: bind_eq_Some_conv split: option.splits if_splits)
  then show ?thesis using f(2) by blast
qed

lemma exec_monitor_served:
  assumes "exec_monitor uptime a s = Some s'"
  shows "served penv s s'"
proof -
  obtain out pl where m: "get_threads_bin 10022 uptime (pd_accept (sr_db s)) (sr_pool s) = Some (out, pl)" "only_net (s\<lparr>sr_pool := pl\<rparr>) s'"
    using assms by (auto simp: exec_monitor_def bind_eq_Some_conv dest!: reply_only)
  obtain l where l: "sq_items l = sq_items (pl_workers (sr_pool s))" "pl = (sr_pool s)\<lparr>pl_workers := l\<rparr>"
    using get_threads_bin_frame [OF m(1)] by blast
  show ?thesis by (rule served_pool [OF m(2)]) (unfold l(2), rule pool_cursors [OF l(1)])
qed

lemma exec_modules_list_served:
  assumes "exec_modules_list a s = Some s'"
  shows "served penv s s'"
proof -
  obtain out ms where m: "get_modules_bin 5022 (pl_modules (sr_pool s)) = Some (out, ms)"
    "only_net (set_modules ms s) s'"
    using assms reply_only by (fastforce simp: exec_modules_list_def bind_eq_Some_conv split: if_splits)
  obtain k where k: "sq_items k = sq_items (ms_list (pl_modules (sr_pool s)))" "ms = (pl_modules (sr_pool s))\<lparr>ms_list := k\<rparr>"
    using get_modules_bin_frame [OF m(1)] by blast
  show ?thesis by (rule served_pool [OF m(2) [unfolded set_modules_def]]) (unfold k(2), rule pool_module_cursor [OF k(1)])
qed

lemma set_ignore_fields [simp]: "sr_net (set_ignore il s) = sr_net s" "sr_pool (set_ignore il s) = sr_pool s"
  by (simp_all add: set_ignore_def)

lemma exec_ignore_served: "exec_ignore f k arg sz a s = Some s' \<Longrightarrow> served penv s s'"
  by (auto simp: exec_ignore_def bind_eq_Some_conv split: if_splits intro: servedI [OF reply_only])

lemma exec_clear_served: "exec_clear ks a s = Some s' \<Longrightarrow> served penv s s'"
  by (auto simp: exec_clear_def bind_eq_Some_conv intro: servedI [OF reply_only])

lemma exec_view_served: "exec_view k a s = Some s' \<Longrightarrow> served penv s s'"
  by (auto simp: exec_view_def bind_eq_Some_conv split: if_splits intro: servedI [OF reply_only])

lemma reply_served: "reply a bs s = Some s' \<Longrightarrow> no_answer (a, bs) \<Longrightarrow> served penv s s'"
  by (rule served_only [OF reply_only])

lemma exec_ignore_cmd_served: "exec_ignore_cmd cmd arg sz a s = Some s' \<Longrightarrow> served penv s s'"
  by (simp add: exec_ignore_cmd_def exec_ignore_served exec_clear_served exec_view_served reply_served split: if_splits)

lemma with_rightD: "with_right level a f g s = Some s' \<Longrightarrow> f s = Some s' \<or> g s = Some s'"
  by (auto simp: with_right_def bind_eq_Some_conv split: if_splits)

lemma with_right_served:
  assumes "with_right level a f g s = Some s'" "f s = Some s' \<Longrightarrow> served penv s s'" "g s = Some s' \<Longrightarrow> served penv s s'"
  shows "served penv s s'"
  using with_rightD [OF assms(1)] assms(2,3) by blast

lemmas command_served = exec_cancel_served exec_kill_served exec_reload_op_served exec_reload_so_served exec_reload_conf_served
  exec_load_served exec_unload_served exec_monitor_served exec_modules_list_served exec_ignore_cmd_served

lemma served_same: "only_net t s' \<Longrightarrow> sr_net t = sr_net s \<Longrightarrow> sr_pool t = sr_pool s \<Longrightarrow> served penv s s'"
  by (erule servedI) auto

lemma served_refl [simp]: "served penv s s"
  by (rule served_only) simp

lemma exec_cmd_served:
  assumes "exec_cmd env uptime cmd arg sz a s = Some s'"
  shows "served penv s s'"
proof -
  have r: "reply a unauth s = Some s' \<Longrightarrow> served penv s s'" "reply a answnok s = Some s' \<Longrightarrow> served penv s s'"
    by (auto intro: reply_served)
  have "reply a answok (set_accept x s) = Some s' \<Longrightarrow> served penv s s'" for x
    by (drule reply_only, simp, erule served_same) (auto simp: set_accept_def)
  moreover have "reply a answok (s\<lparr>sr_working := False, sr_quit := True\<rparr>) = Some s' \<Longrightarrow> served penv s s'"
    by (drule reply_only, simp, erule served_same) auto
  moreover have "map_option (\<lambda>s1. s1\<lparr>sr_working := False, sr_quit := False\<rparr>) (reply a answok s) = Some s' \<Longrightarrow> served penv s s'"
    using reply_only [of a answok s] by (auto simp: served_def dest: only_net_fields)
  ultimately show ?thesis
    using assms r unfolding exec_cmd_def Let_def
    by (auto elim!: with_right_served split: if_split_asm intro: command_served)
qed

text \<open>An authorization changes nothing but the socket and the client; rights are given for a password only.\<close>

lemma log_in_mild:
  assumes "log_in env buf sz a b n = Some n'"
  shows "mild n n' \<and> nt_buffer n' = nt_buffer n
     \<and> (\<forall>a'. map_option sk_auth (nt_socks n' a') = map_option sk_auth (nt_socks n a') \<or>
          (\<exists>login password. a' = a \<and> read_login buf sz = Some (Login login password)
             \<and> map_option sk_auth (nt_socks n' a') = Some (get_authorization (pe_md5 env) (pe_users env) login password)
             \<and> get_authorization (pe_md5 env) (pe_users env) login password \<noteq> 0))
     \<and> (\<exists>bs\<in>{unauth, answok}. nt_sent n' = nt_sent n @ [(a, bs)])"
proof -
  obtain q where q: "read_login buf sz = Some q" using assms by (auto simp: log_in_def bind_eq_Some_conv)
  show ?thesis
  proof (cases q)
    case Malformed
    then have "net_send a unauth n = Some n'" using assms q by (simp add: log_in_def)
    then show ?thesis using net_send_calm [of a unauth n n'] by (auto simp: calm_def same_rights_def net_send_def)
  next
    case (Login login password)
    let ?level = "get_authorization (pe_md5 env) (pe_users env) login password"
    show ?thesis
    proof (cases "?level = 0")
      case True
      then obtain m where m: "net_send a unauth n = Some m" "net_sock a sock_down m = Some n'"
        using assms q Login by (auto simp: log_in_def Let_def bind_eq_Some_conv)
      have "calm n n'" by (rule calm_trans [OF net_send_calm [OF m(1)] net_sock_calm [OF m(2)]]) (auto simp: sock_down_def)
      then show ?thesis using m by (auto simp: calm_def same_rights_def net_send_def net_sock_def)
    next
      case False
      then obtain n1 n2 where n: "net_sock a (authorize ?level) n = Some n1"
        "set_client b (\<lambda>c. c\<lparr>cn_level := ?level, cn_name := login\<rparr>) n1 = Some n2" "net_send a [3, 0] n2 = Some n'"
        using assms q Login by (auto simp: log_in_def Let_def bind_eq_Some_conv)
      have "calm n1 n2" by (rule set_client_calm [OF n(2)]) simp
      then have "calm n1 n'" by (rule calm_trans [OF _ net_send_calm [OF n(3)]]) simp
      then have "mild n n'" using mild_trans [OF net_sock_mild [OF n(1)]] by (auto simp: calm_def)
      then show ?thesis
        using n q Login False by (auto simp: net_sock_def set_client_def net_send_def authorize_def answok_def split: if_split_asm)
    qed
  qed
qed

lemma on_net_only: "on_net f s = Some s' \<Longrightarrow> (\<And>n'. f (sr_net s) = Some n' \<Longrightarrow> calm (sr_net s) n') \<Longrightarrow> only_net s s'"
  by (auto simp: on_net_def only_net_def)

lemma compile_check_pay_served:
  assumes "compile_check_pay env uptime stamp buf sz a b s = Some (c, s')"
  shows "served penv s s' \<or> (take 1 buf = [NETTYPE_AUTHORIZATION] \<and> c = None \<and> on_net (log_in env buf sz a b) s = Some s')"
proof (cases "sz < 1")
  case True
  then show ?thesis using assms by (simp add: compile_check_pay_def)
next
  case False
  then obtain t where t: "mem_get 0 1 buf = Some [t]" using assms
    by (cases buf) (auto simp: compile_check_pay_def bind_eq_Some_conv mem_get_def)
  then have front: "take 1 buf = [t]" by (auto simp: mem_get_def split: if_splits)
  have refuse: "reply a unauth s = Some s' \<Longrightarrow> served penv s s'" by (erule reply_served) simp
  have client: "on_net (set_client b (\<lambda>c. c\<lparr>cn_delivery := x\<rparr>)) s = Some s' \<Longrightarrow> served penv s s'" for x
    by (rule served_only [OF on_net_only]) (auto intro: set_client_calm)
  have users: "on_net (send_users a) s = Some s' \<Longrightarrow> served penv s s'"
    by (rule served_only [OF on_net_only]) (auto intro: send_users_calm)
  have ping: "reply a [5, 0] s = Some s' \<Longrightarrow> served penv s s'" by (erule reply_served) simp
  show ?thesis
  proof (cases "t = NETTYPE_AUTHORIZATION")
    case True
    then show ?thesis using assms False t front by (auto simp: compile_check_pay_def Let_def nettypes)
  next
    case login: False
    have "served penv s s'"
      using assms False t refuse client users login ping exec_cmd_served unfolding compile_check_pay_def
      by (auto simp: Let_def bind_eq_Some_conv elim!: with_right_served split: if_split_asm)
    then show ?thesis by blast
  qed
qed

section \<open>A turn\<close>

definition pool_moved :: "'w pool_env \<Rightarrow> ('p, 'w, 'd, 'n) server \<Rightarrow> ('p, 'w, 'd, 'n) server \<Rightarrow> bool" where
  "pool_moved penv s s' \<longleftrightarrow> sr_pool s' = sr_pool s \<or> pool_step penv any_limit (sr_pool s) (sr_pool s')"

lemma mild_socks: "mild n n' \<Longrightarrow> a \<in> dom (nt_socks n) \<Longrightarrow> a \<in> dom (nt_socks n')"
  by (simp add: mild_def)

lemma mild_buffer [simp]: "mild n (n\<lparr>nt_buffer := b\<rparr>)"
  by (simp add: mild_def)

lemma compile_check_pay_mild:
  assumes "compile_check_pay env uptime stamp buf sz a b s = Some (c, s')"
  shows "mild (sr_net s) (sr_net s') \<and> pool_moved penv s s'"
  using compile_check_pay_served [OF assms, of penv]
proof
  assume "served penv s s'"
  then show ?thesis by (auto simp: served_def calm_def pool_moved_def)
next
  assume "take 1 buf = [NETTYPE_AUTHORIZATION] \<and> c = None \<and> on_net (log_in env buf sz a b) s = Some s'"
  then show ?thesis using log_in_mild by (fastforce simp: on_net_def pool_moved_def)
qed

lemma take_package_inv:
  assumes "take_package env uptime stamp d sz a b s = Some s'" "net_inv (se_net env) (sr_net s)" "a \<in> dom (nt_socks (sr_net s))"
  shows "net_inv (se_net env) (sr_net s') \<and> pool_moved penv s s'"
proof -
  obtain buf c s2 where e: "compile_check_pay env uptime stamp buf sz a b (s\<lparr>sr_net := (sr_net s)\<lparr>nt_buffer := buf\<rparr>\<rparr>) = Some (c, s2)"
    "(case c of None \<Rightarrow> Some s2 | Some p \<Rightarrow> on_net (add_check (se_net env) a p) s2) = Some s'"
    using assms(1) by (auto simp: take_package_def Let_def bind_eq_Some_conv)
  have q: "mild (sr_net s) (sr_net s2)" "pool_moved penv s s2"
    using compile_check_pay_mild [OF e(1), of penv] mild_trans [OF mild_buffer] by (auto simp: pool_moved_def)
  have i: "net_inv (se_net env) (sr_net s2)" "a \<in> dom (nt_socks (sr_net s2))"
    using mild_inv [OF q(1) assms(2)] mild_socks [OF q(1) assms(3)] by auto
  show ?thesis
    using e(2) i q(2) add_check_inv [OF i] by (cases c) (auto simp: on_net_def pool_moved_def)
qed

lemma read_client_inv:
  assumes "read_client env sel rcv uptime stamp a b s = Some s'" "net_inv (se_net env) (sr_net s)"
  shows "net_inv (se_net env) (sr_net s') \<and> pool_moved penv s s'"
proof -
  obtain r where r: "nt_socks (sr_net s) a = Some r" using assms(1) by (auto simp: read_client_def bind_eq_Some_conv)
  show ?thesis
  proof (cases "sk_can_read r = 0")
    case True
    then show ?thesis using assms r by (simp add: read_client_def pool_moved_def)
  next
    case False
    then obtain l d r1 n where e: "net_sock a (\<lambda>_. r1) (sr_net s) = Some n"
      "(if sk_error r1 = 0 \<and> 0 \<le> l then (if 0 < l then take_package env uptime stamp d l a b (s\<lparr>sr_net := n\<rparr>) else Some (s\<lparr>sr_net := n\<rparr>))
       else on_net (drop_client a) (s\<lparr>sr_net := n\<rparr>)) = Some s'"
      using assms(1) r by (auto simp: read_client_def bind_eq_Some_conv on_net_def split: prod.splits)
    have i: "net_inv (se_net env) n" "a \<in> dom (nt_socks n)"
      using mild_inv [OF net_sock_mild [OF e(1)] assms(2)] mild_socks [OF net_sock_mild [OF e(1)]] r by auto
    consider "take_package env uptime stamp d l a b (s\<lparr>sr_net := n\<rparr>) = Some s'" | "s' = s\<lparr>sr_net := n\<rparr>"
      | m where "drop_client a n = Some m" "s' = s\<lparr>sr_net := m\<rparr>"
      using e(2) by (cases "sk_error r1 = 0 \<and> 0 \<le> l"; cases "0 < l") (auto simp: on_net_def)
    then show ?thesis
    proof cases
      case 1
      then show ?thesis using take_package_inv [OF 1, of penv] i by (auto simp: pool_moved_def)
    next
      case 2
      then show ?thesis using i by (simp add: pool_moved_def)
    next
      case 3
      then show ?thesis using drop_client_inv [OF i(1) 3(1)] by (simp add: pool_moved_def)
    qed
  qed
qed

lemma nth_client_items: "sq_items (snd (nth_client k l)) = sq_items l"
  by (induction k l rule: nth_client.induct) (simp_all add: seq_next_def Let_def)

lemma get_data_turn_inv:
  assumes "get_data_turn env ready sel rcv uptime stamp s = Some s'" "net_inv (se_net env) (sr_net s)"
  shows "net_inv (se_net env) (sr_net s') \<and> pool_moved penv s s'"
proof -
  obtain k n where n: "read_multi_select ready (sr_net s) = Some (k, n)" using assms(1) by (auto simp: get_data_turn_def bind_eq_Some_conv)
  have i: "net_inv (se_net env) n" by (rule calm_inv [OF read_multi_select_calm [OF n] assms(2)])
  show ?thesis
  proof (cases "k = 0")
    case True
    then show ?thesis using assms(1) n i by (auto simp: get_data_turn_def pool_moved_def)
  next
    case False
    define turn where "turn = next_turn (nt_turn n) (length (sq_items (nt_list n)))"
    obtain e l where c: "nth_client turn (seq_reset (nt_list n)) = (e, l)" by fastforce
    have l: "sq_items l = sq_items (nt_list n)" using nth_client_items [of turn "seq_reset (nt_list n)"] c by (simp add: seq_reset_def)
    let ?s = "s\<lparr>sr_net := n\<lparr>nt_turn := turn, nt_list := l\<rparr>\<rparr>"
    have i2: "net_inv (se_net env) (sr_net ?s)"
      by (rule mild_inv [OF _ i]) (use l in \<open>simp add: mild_def\<close>)
    have "s' = ?s \<or> (\<exists>a b. read_client env sel rcv uptime stamp a b ?s = Some s')"
      using assms(1) n False c
      by (auto simp: get_data_turn_def Let_def turn_def [symmetric] bind_eq_Some_conv split: option.splits)
    then show ?thesis using read_client_inv [OF _ i2] i2 by (fastforce simp: pool_moved_def)
  qed
qed

end
