(* ===== verification/Server_Example.thy ===== *)
theory Server_Example
  imports Server_Paycheck_Laws
begin

text \<open>A server with one client, for the examples: the client connects and sends the package of a login, the first three bytes alone.\<close>

definition one_client :: "unit net" where
  "one_client = accept_client 4 (replicate 32 0) (replicate 32 0) 0 0 (pc_init (replicate 64 0) ())"

definition login_package :: bytes where
  "login_package = [2, 0, 1, 0, 1, 0, 117, 112]"

definition users_file :: server_config where
  "users_file = [\<lparr>ce_section = Some ''paycheck'', ce_param = ''u'', ce_value = ''01''\<rparr>]"

lemmas turn_defs = get_data_turn_def read_multi_select_def for_each_def seq_add_def seq_reset_def seq_next_def seq_at_def empty_seq_def
  one_client_def accept_client_def pc_init_def net_sock_def read_possible_def next_turn_def nth_client.simps Let_def sock_rw_new_def
  read_client_def receive_def receive_defs on_net_def


definition quiet_ops :: "unit sql_ops" where
  "quiet_ops = \<lparr>sq_query = (\<lambda>q w. (0, w)), sq_errno = (\<lambda>w. 0), sq_close = (\<lambda>w. w), sq_init = (\<lambda>w. w),
     sq_connect = (\<lambda>h u p d w. (True, w)), sq_ping = (\<lambda>w. w)\<rparr>"

definition example_env :: "('p, 'w, unit) paycheck_env \<Rightarrow> ('p, 'w, unit) paycheck_env" where
  "example_env env = env\<lparr>se_net := (se_net env)\<lparr>ne_ops := quiet_ops, ne_max_queue := 5, ne_escape := (\<lambda>q. q)\<rparr>, pe_md5 := (\<lambda>_. [1]), pe_users := users_file\<rparr>"

definition client_turn :: "('p, 'w, 'n) paycheck_env \<Rightarrow> bytes \<Rightarrow> ('p, 'w, 'd, 'n) server \<Rightarrow> ('p, 'w, 'd, 'n) server option" where
  "client_turn env bs = get_data_turn env (\<lambda>_. True) 1 (\<lambda>_. bs) 0 ''now''"

definition check_package :: bytes where
  "check_package = [0, 0, 77, 0, 0, 0, 0, 0, 0, 0, 0, 7, 0, 0, 0, 3, 0, 0, 0, 131, 2, 0, 0]"

definition example_sock :: "bool \<Rightarrow> bytes \<Rightarrow> nat \<Rightarrow> int \<Rightarrow> sock_rw" where
  "example_sock mid bs len auth = \<lparr>sk_fd = 4, sk_error = 0, sk_can_write = 0, sk_can_read = 1, sk_timeout = 0, sk_is_reading = mid,
     sk_step = (if mid then 2 else 0), sk_read_buff = bs @ replicate (32 - length bs) 0, sk_read_pos = (if mid then Suc (Suc (Suc 0)) else 0),
     sk_read_left = (if mid then 5021 else 5024), sk_msg_buff = bs @ replicate (32 - length bs) 0, sk_msg_pos = (if mid then Suc (Suc (Suc 0)) else 0),
     sk_package_len = len, sk_auth = auth\<rparr>"

definition example_net ::
  "sock_rw \<Rightarrow> string \<Rightarrow> bytes \<Rightarrow> (nat \<times> bytes) list \<Rightarrow> check option list \<Rightarrow> (nat \<times> int) list \<Rightarrow> unit net" where
  "example_net r nm buf sent checks asked = \<lparr>nt_list = \<lparr>sq_items = [Some 1], sq_pos = 1, sq_gone = []\<rparr>,
     nt_clients = [1 \<mapsto> \<lparr>cn_sock = Some 0, cn_delivery = 0, cn_name = nm, cn_level = sk_auth r\<rparr>], nt_socks = [0 \<mapsto> r], nt_next = Suc (Suc 0),
     nt_in = \<lparr>sq_items = checks, sq_pos = 0, sq_gone = []\<rparr>, nt_cash = \<lparr>sq_items = checks, sq_pos = 0, sq_gone = []\<rparr>,
     nt_turn = 1, nt_buffer = buf @ replicate (64 - length buf) 0, nt_sent = sent, nt_asked = asked, nt_world = (), nt_exit = False\<rparr>"

definition example_pay :: check_pay where
  "example_pay = \<lparr>cp_pay = spay.extend (compile_new_pay 77 10 7 (Some ''now'') (Some []) None 3 643 (Finite False 0 0) (Finite False 0 0)
     minus_one minus_one minus_one) \<lparr>sv_conv_sub = None\<rparr>, cp_magic = 0, cp_netversion = 0\<rparr>"

definition login_begun :: "unit net" where
  "login_begun = example_net (example_sock True [0xFF, 8, 0] 8 0) ''<unauth>'' [] [] [] []"

definition logged_in :: "unit net" where
  "logged_in = example_net (example_sock False ([0xFF, 8, 0] @ login_package) 8 2) ''u'' login_package [(0, answok)] [] []"

definition check_begun :: "unit net" where
  "check_begun = example_net (example_sock True ([0xFF, 23, 0] @ login_package) 23 2) ''u'' login_package [(0, answok)] [] []"

definition check_asked :: "unit net" where
  "check_asked = example_net (example_sock False ([0xFF, 23, 0] @ check_package) 23 2) ''u'' check_package [(0, answok)]
     [Some \<lparr>ck_pay = example_pay, ck_sock = Some 0\<rparr>] [(0, 77)]"

lemmas example_nets = login_begun_def logged_in_def check_begun_def check_asked_def example_net_def example_sock_def login_package_def
  answok_def bytes_len_def

lemma example_chars: "char_of (117 :: nat) = CHR ''u''" "hex_digit 0 = CHR ''0''" "hex_digit (Suc 0) = CHR ''1''"
  by code_simp+

lemma login_header: "client_turn env [0xFF, 8, 0] (s\<lparr>sr_net := one_client\<rparr>) = Some (s\<lparr>sr_net := login_begun\<rparr>)"
  by (simp add: client_turn_def turn_defs example_nets)

lemma login_turn: "client_turn (example_env env) login_package (s\<lparr>sr_net := login_begun\<rparr>) = Some (s\<lparr>sr_net := logged_in\<rparr>)"
  by (simp add: client_turn_def turn_defs example_nets take_package_def compile_check_pay_def nettypes log_in_def read_login_def
     get_authorization_def auth_names_def example_env_def users_file_def create_md5_hex_sign_def hex_byte_def le_nat_def byte_char_def c_str_def
     element_matches_def set_client_def net_send_def authorize_def read_reset_def example_chars)

lemma check_header: "client_turn env [0xFF, 23, 0] (s\<lparr>sr_net := logged_in\<rparr>) = Some (s\<lparr>sr_net := check_begun\<rparr>)"
  by (simp add: client_turn_def turn_defs example_nets)

lemma check_turn: "client_turn (example_env env) check_package (s\<lparr>sr_net := check_begun\<rparr>) = Some (s\<lparr>sr_net := check_asked\<rparr>)"
  by (simp add: client_turn_def turn_defs example_nets take_package_def compile_check_pay_def nettypes check_package_def authorized_def auth_levels
     compile_check_def data_length_def sums_counted_def read_sum_from_def override_def le_int_def le_nat_def read_reset_def add_check_def
     example_pay_def compile_new_pay_def spay.defs example_env_def)

end
