(* ===== verification/Server_Whole.thy ===== *)
theory Server_Whole
  imports Server_Example
begin

text \<open>
  The payment server as a whole: its threads, its main loop, the thread that takes connections and the one that reads from them take
  their steps in any order. The theorems say what holds in every state that is reached.
\<close>

section \<open>Steps of the server\<close>

text \<open>
  Every step is one operation under its lock: of the threads and the main loop on the pool (\<open>pool_step\<close>), on the database, and of
  the threads of \<open>paycheck.cpp\<close>. What a step asks the outside is chosen anew in each step.
\<close>

inductive whole_step ::
  "('p, 'w, 'n) paycheck_env \<Rightarrow> 'w pool_env \<Rightarrow> ('p, 'w, 'd, 'n) server \<Rightarrow> ('p, 'w, 'd, 'n) server \<Rightarrow> bool" for env penv where
  pool: "pool_step penv any_limit (sr_pool s) pl \<Longrightarrow> whole_step env penv s (s\<lparr>sr_pool := pl\<rparr>)"
| next_db: "db_get_next_pay ln k (sr_db s) = Some (p, db) \<Longrightarrow> whole_step env penv s (s\<lparr>sr_db := db\<rparr>)"
| set_db: "db_set_state ln conv k pay res (sr_db s) = Some (r, res1, db) \<Longrightarrow> whole_step env penv s (s\<lparr>sr_db := db\<rparr>)"
| accept: "whole_step env penv s (s\<lparr>sr_net := accept_client fd rb mb len level (sr_net s)\<rparr>)"
| expire: "expire_clients (se_net env) (sr_net s) = Some n \<Longrightarrow> whole_step env penv s (s\<lparr>sr_net := n\<rparr>)"
| turn: "get_data_turn env ready sel rcv uptime stamp s = Some s' \<Longrightarrow> whole_step env penv s s'"
| next_check: "pc_get_next_pay (se_net env) True (sr_net s) = Some (c, n) \<Longrightarrow> whole_step env penv s (s\<lparr>sr_net := n\<rparr>)"
| answer: "pc_set_state (se_net env) dontupdate c res (sr_net s) = Some n \<Longrightarrow> whole_step env penv s (s\<lparr>sr_net := n\<rparr>)"
| log: "send_log_messages priority msg (sr_net s) = Some n \<Longrightarrow> whole_step env penv s (s\<lparr>sr_net := n\<rparr>)"
| settings: "reload_config_if_important (server_env.truncate env) s = Some s' \<Longrightarrow> whole_step env penv s s'"

text \<open>The start: \<open>PCInit\<close> and \<open>WorkInit\<close> are done.\<close>

definition server_start :: "('p, 'w, 'd, 'n) server \<Rightarrow> bool" where
  "server_start s \<longleftrightarrow> (\<exists>garbage w. sr_net s = pc_init garbage w)
     \<and> (\<exists>pl cs. pool_start pl \<and> length cs \<le> pl_min pl \<and> max (pl_max pl) (pl_min pl) \<le> any_limit \<and> sr_pool s = start_workers cs pl)"

inductive server_reachable ::
  "('p, 'w, 'n) paycheck_env \<Rightarrow> 'w pool_env \<Rightarrow> ('p, 'w, 'd, 'n) server \<Rightarrow> bool" for env penv where
  start: "server_start s \<Longrightarrow> server_reachable env penv s"
| step: "server_reachable env penv s \<Longrightarrow> whole_step env penv s s' \<Longrightarrow> server_reachable env penv s'"

section \<open>The settings\<close>

lemma set_from_Some: "\<exists>v. set_from cfg key f s = v \<and> (v = s \<or> (\<exists>x. v = f x s))"
  by (cases "get_value key None cfg") (auto simp: set_from_def)

lemma read_pool_settings_step:
  assumes "pl_max pl \<le> any_limit" "pl_min pl \<le> any_limit"
  shows "pool_step penv any_limit pl (read_pool_settings cfg pl)"
proof -
  have lim: "nat (x mod 2 ^ 32) \<le> any_limit" for x :: int
    using pos_mod_bound [of "2 ^ 32 :: int" x] by (simp add: any_limit_def nat_le_iff)
  define opt where "opt key = get_value key None cfg" for key
  let ?mx = "case opt ''thread_max'' of None \<Rightarrow> pl_max pl | Some v \<Rightarrow> nat (atoi v mod 2 ^ 32)"
  let ?mn = "case opt ''thread_min'' of None \<Rightarrow> pl_min pl | Some v \<Rightarrow> nat (atoi v mod 2 ^ 32)"
  let ?i = "case opt ''thread_inactivity_time'' of None \<Rightarrow> pl_inactivity pl | Some v \<Rightarrow> atoi v"
  let ?b = "case opt ''thread_autodelete'' of None \<Rightarrow> pl_autodelete pl | Some v \<Rightarrow> v = ''y''"
  let ?dir = "case opt ''modules_path'' of None \<Rightarrow> ms_path (pl_modules pl) | Some v \<Rightarrow> v"
  have "read_pool_settings cfg pl = pl\<lparr>pl_max := ?mx, pl_min := ?mn, pl_inactivity := ?i, pl_autodelete := ?b,
      pl_modules := (pl_modules pl)\<lparr>ms_path := ?dir\<rparr>\<rparr>"
    by (simp add: read_pool_settings_def set_from_def opt_def split: option.split)
  moreover have "?mx \<le> any_limit" "?mn \<le> any_limit" using assms lim by (simp_all split: option.split)
  ultimately show ?thesis by (simp only: settings_step)
qed

lemma reload_config_step:
  assumes "reload_config_if_important env s = Some s'" "pl_max (sr_pool s) \<le> any_limit" "pl_min (sr_pool s) \<le> any_limit"
  shows "sr_net s' = sr_net s \<and> pool_moved penv s s'"
proof (cases "sr_reload s")
  case False
  then show ?thesis using assms(1) by (simp add: reload_config_if_important_def pool_moved_def)
next
  case True
  then obtain r cfg where "read_file (me_file (se_modules env) ''/etc/payguide.cfg'') = Some (r, cfg)"
    using assms(1) by (auto simp: reload_config_if_important_def reload_config_values_def bind_eq_Some_conv)
  then show ?thesis
    using assms True read_pool_settings_step [OF assms(2,3)]
    by (auto simp: reload_config_if_important_def reload_config_values_def Let_def pool_moved_def)
qed

section \<open>Every state that is reached\<close>

lemma whole_step_inv:
  assumes "whole_step env penv s s'" "net_inv (se_net env) (sr_net s)" "pool_ok any_limit (sr_pool s)"
  shows "net_inv (se_net env) (sr_net s') \<and> pool_moved penv s s'"
  using assms
proof (cases rule: whole_step.cases)
  case (accept fd rb mb len level)
  then show ?thesis using accept_client_inv [OF assms(2)] by (simp add: pool_moved_def)
next
  case (expire n)
  then show ?thesis using calm_inv [OF expire_clients_calm assms(2)] by (simp add: pool_moved_def)
next
  case (turn ready sel rcv uptime stamp)
  then show ?thesis using get_data_turn_inv assms(2) by blast
next
  case (next_check c n)
  then show ?thesis using pc_get_next_pay_inv [OF assms(2)] by (simp add: pool_moved_def)
next
  case (answer dontupdate c res n)
  then show ?thesis using pc_set_state_inv [OF assms(2)] by (simp add: pool_moved_def)
next
  case (log priority msg n)
  then show ?thesis using calm_inv [OF send_log_messages_calm assms(2)] by (simp add: pool_moved_def)
next
  case settings
  then show ?thesis using reload_config_step [OF settings, of penv] assms(2,3) by (simp add: pool_ok_def)
qed (auto simp: pool_moved_def)

lemma pc_init_inv: "net_inv env (pc_init garbage w)"
  by (simp add: net_inv_def net_ok_def net_good_def pc_init_def empty_seq_def answers_to_def waiting_for_def)

lemma server_reachable_inv:
  "server_reachable env penv s \<Longrightarrow> net_inv (se_net env) (sr_net s) \<and> pool_reachable penv any_limit (sr_pool s)"
proof (induction rule: server_reachable.induct)
  case (start s)
  then show ?case using pc_init_inv pool_reachable.start by (fastforce simp: server_start_def)
next
  case (step s s')
  then have "net_inv (se_net env) (sr_net s') \<and> pool_moved penv s s'" using whole_step_inv pool_reachable_ok by blast
  then show ?case using step.IH pool_reachable.step [of penv any_limit "sr_pool s"] by (auto simp: pool_moved_def)
qed

text \<open>An example: one thread is started, one client connects, logs in and asks for a check.\<close>

definition example_start :: "(unit, unit, 'd, unit) server \<Rightarrow> (unit, unit, 'd, unit) server" where
  "example_start s = s\<lparr>sr_pool := start_workers [True] small_pool, sr_net := pc_init (replicate 64 0) ()\<rparr>"

lemma example_started: "server_reachable env penv (example_start s)"
proof (rule server_reachable.start)
  have "pool_start small_pool" using two_modules_ok [of 0 False] by (simp add: pool_start_def small_pool_def)
  then show "server_start (example_start s)" unfolding server_start_def example_start_def
    by (intro conjI exI [of _ small_pool] exI [of _ "[True]"]) (auto simp: small_pool_def any_limit_def)
qed

lemma client_turn_step: "server_reachable env penv s \<Longrightarrow> client_turn env bs s = Some s' \<Longrightarrow> server_reachable env penv s'"
  unfolding client_turn_def by (erule server_reachable.step) (rule whole_step.turn)

lemma example_connected: "server_reachable env penv ((example_start s)\<lparr>sr_net := one_client\<rparr>)"
proof -
  have "server_reachable env penv ((example_start s)\<lparr>sr_net := accept_client 4 (replicate 32 0) (replicate 32 0) 0 0 (sr_net (example_start s))\<rparr>)"
    by (rule server_reachable.step [OF example_started whole_step.accept])
  then show ?thesis by (simp add: one_client_def example_start_def)
qed

lemma example_asked: "server_reachable (example_env env) penv ((example_start s)\<lparr>sr_net := check_asked\<rparr>)"
  by (rule client_turn_step [OF client_turn_step [OF client_turn_step [OF client_turn_step [OF example_connected
        login_header] login_turn] check_header] check_turn])

section \<open>The properties\<close>

text \<open>
  Whatever the clients send and command, and in whatever order the threads of the server take their turns, every thread of the pool
  is in order (it waits without a payment, or with one it has been told of, or performs the payment it has, or has ended), every module
  a thread holds is still loaded and counted as used, the count of working threads is right until the server stops, and no thread keeps
  a lock it was started with.
\<close>

lemma server_threads_in_order:
  assumes "server_reachable env penv s"
  shows "(\<forall>t w. pl_store (sr_pool s) t = Some w \<longrightarrow> worker_ok w
       \<and> (\<forall>a. wk_cached w = Some a \<or> (wk_pay w \<noteq> None \<and> wk_paysys w = Some a) \<or> wk_phase w = Performing (Some a) \<longrightarrow>
            (\<exists>m. ms_store (pl_modules (sr_pool s)) a = Some m \<and> 0 < mo_use_count m)))
     \<and> (\<not> pl_stopping (sr_pool s) \<longrightarrow>
          pl_working (sr_pool s) = of_nat (card {t. \<exists>w. pl_store (sr_pool s) t = Some w \<and> wk_pay w \<noteq> None}))
     \<and> \<not> pl_lock_lost (sr_pool s)"
proof -
  have r: "pool_reachable penv any_limit (sr_pool s)" using server_reachable_inv [OF assms] by blast
  show ?thesis using pool_threads_ok [OF r] pool_module_kept [OF r] by blast
qed

lemma server_threads_in_order_example:
  "\<forall>env penv s. \<exists>pl m. server_reachable env penv ((example_start s)\<lparr>sr_pool := pl\<rparr>) \<and> pl_working pl = 1
     \<and> ms_store (pl_modules pl) 0 = Some m \<and> 0 < mo_use_count m"
proof (intro allI)
  fix env penv and s :: "(unit, unit, 'd, unit) server"
  let ?s0 = "example_start s"
  obtain pl where p: "main_round penv 1 True some_pay (start_workers [True] small_pool) = Some (True, pl)"
    "pl_store pl = [0 \<mapsto> (worker_new True 1)\<lparr>wk_pay := Some some_pay, wk_paysys := Some 0, wk_runs := 1\<rparr>]" "\<not> pl_stopping pl"
    using small_pool_given by blast
  have "\<not> pl_stopping (sr_pool ?s0)"
    by (simp add: example_start_def start_workers_def small_pool_def new_worker_def worker_new_def Let_def seq_next_def)
  then have "pool_step penv any_limit (sr_pool ?s0) pl" using p(1) by (auto simp: example_start_def intro: round_step)
  then have r: "server_reachable env penv (?s0\<lparr>sr_pool := pl\<rparr>)"
    by (rule server_reachable.step [OF example_started whole_step.pool])
  have one: "{t. \<exists>w. pl_store pl t = Some w \<and> wk_pay w \<noteq> None} = {0}" unfolding p(2) by auto
  show "\<exists>pl m. server_reachable env penv (?s0\<lparr>sr_pool := pl\<rparr>) \<and> pl_working pl = 1
     \<and> ms_store (pl_modules pl) 0 = Some m \<and> 0 < mo_use_count m"
  proof (rule exI [of _ pl])
    note t = server_threads_in_order [OF r]
    have "pl_working pl = 1" using t one p(3) by simp
    moreover have "\<exists>m. ms_store (pl_modules pl) 0 = Some m \<and> 0 < mo_use_count m"
      using conjunct1 [OF t, rule_format, THEN conjunct2, rule_format, of 0 "(worker_new True 1)\<lparr>wk_pay := Some some_pay, wk_paysys := Some 0, wk_runs := 1\<rparr>" 0]
      by (simp add: p(2))
    ultimately show "\<exists>m. server_reachable env penv (?s0\<lparr>sr_pool := pl\<rparr>) \<and> pl_working pl = 1
        \<and> ms_store (pl_modules pl) 0 = Some m \<and> 0 < mo_use_count m" using r by simp
  qed
qed

text \<open>
  C9: in every state that is reached, a connection was answered at most as often for a check as it asked for it, what it still waits for
  included; so nobody gets an answer he did not ask for. The queue of checks and the list of clients never grow over their limits.
\<close>

theorem answers_were_asked:
  assumes "server_reachable env penv s"
  shows "answers_to a i (sr_net s) + waiting_for a i (sr_net s) \<le> asked_by a i (sr_net s)
     \<and> length (sq_items (nt_in (sr_net s))) \<le> ne_max_queue (se_net env) \<and> length (sq_items (nt_list (sr_net s))) \<le> 500"
  using server_reachable_inv [OF assms] by (simp add: net_inv_def)

theorem answers_were_asked_witness:
  "\<forall>env penv s. server_reachable (example_env env) penv ((example_start s)\<lparr>sr_net := check_asked\<rparr>)
     \<and> waiting_for 0 77 check_asked = 1 \<and> answers_to 0 77 check_asked + waiting_for 0 77 check_asked \<le> asked_by 0 77 check_asked"
proof (intro allI conjI)
  fix env penv and s :: "(unit, unit, 'd, unit) server"
  show r: "server_reachable (example_env env) penv ((example_start s)\<lparr>sr_net := check_asked\<rparr>)" by (rule example_asked)
  show "waiting_for 0 77 check_asked = 1"
    by (simp add: waiting_for_def waits_def check_asked_def example_net_def example_pay_def compile_new_pay_def spay.defs)
  show "answers_to 0 77 check_asked + waiting_for 0 77 check_asked \<le> asked_by 0 77 check_asked"
    using answers_were_asked [OF r, of 0 77] by simp
qed

lemma seq_each_total: "\<exists>x. seq_each n i (\<lambda>e l s. Some (F e l s)) l s = Some x"
  by (induction n arbitrary: i l s) (auto simp: Let_def split: prod.split)

lemma for_each_total: "for_each (\<lambda>e l s. Some (F e l s)) l s \<noteq> None"
  using seq_each_total by (simp add: for_each_def)

lemma find_waiting_total: "\<exists>r l'. find_waiting p l = Some (r, l')"
proof -
  have "find_waiting p l \<noteq> None" unfolding find_waiting_def option.map_disc_iff by (rule for_each_total)
  then show ?thesis by auto
qed

text \<open>
  C10: in every state that is reached, the result of a check can be handed over: the connection that waits for it is not deleted. It takes
  a database that answers and texts that fit the buffers of the answer and of the statement.
\<close>

theorem answers_find_connection:
  assumes "server_reachable env penv s" "result_body res = Some body" "length body \<le> 5009"
    and "store_check_result (se_net env) dontupdate c (cr_code res) body (sr_net s) \<noteq> None"
  shows "pc_set_state (se_net env) dontupdate c res (sr_net s) \<noteq> None"
proof -
  have ok: "net_inv (se_net env) (sr_net s)" using server_reachable_inv [OF assms(1)] by blast
  obtain n1 where n1: "store_check_result (se_net env) dontupdate c (cr_code res) body (sr_net s) = Some n1"
    using assms(4) by blast
  then have "calm (sr_net s) n1" using store_check_result_calm by blast
  then have ok1: "net_ok n1" using calm_inv ok by (auto simp: net_inv_def)
  obtain r l where w: "find_waiting c (nt_in n1) = Some (r, l)" using find_waiting_total by blast
  have "a \<in> dom (nt_socks n1)" if a: "r = Some (Some a)" for a
  proof -
    obtain i t where "i < length (sq_items (nt_in n1))" "sq_items (nt_in n1) ! i = Some t" "ck_sock t = Some a"
      using find_waiting_spec [OF w] a by auto
    then show ?thesis using net_okD(8) [OF ok1, of t a] nth_mem by metis
  qed
  then show ?thesis
    using assms(2,3) n1 w by (auto simp: pc_set_state_def net_send_def split: option.split)
qed

theorem answers_find_connection_witness:
  "\<forall>env penv s. server_reachable (example_env env) penv ((example_start s)\<lparr>sr_net := check_asked\<rparr>)
     \<and> pc_set_state (se_net (example_env env)) False example_pay \<lparr>cr_code = 0, cr_msg = [79, 75, 0], cr_bdata_size = 0\<rparr> check_asked \<noteq> None"
proof (intro allI conjI)
  fix env penv and s :: "(unit, unit, 'd, unit) server"
  let ?res = "\<lparr>cr_code = 0, cr_msg = [79, 75, 0], cr_bdata_size = 0\<rparr> :: check_result"
  show r: "server_reachable (example_env env) penv ((example_start s)\<lparr>sr_net := check_asked\<rparr>)" by (rule example_asked)
  have b: "result_body ?res = Some [79, 75]" by (simp add: result_body_def RESULT_SUCESS_BIN_def)
  have len: "length (snprintf_into 1024 x) < 4063" for x by (simp add: snprintf_into_def)
  have "check_result_statement (se_net (example_env env)) example_pay (cr_code ?res) [79, 75] \<noteq> None"
    by (simp add: check_result_statement_def example_env_def Let_def len)
  then have q: "store_check_result (se_net (example_env env)) False example_pay (cr_code ?res) [79, 75]
      (sr_net ((example_start s)\<lparr>sr_net := check_asked\<rparr>)) \<noteq> None"
    by (auto simp: store_check_result_def check_query_def my_db_query_def example_env_def quiet_ops_def split: prod.split)
  show "pc_set_state (se_net (example_env env)) False example_pay ?res check_asked \<noteq> None"
    using answers_find_connection [OF r b _ q] by simp
qed

end
