(* ===== verification/Server_Rights.thy ===== *)
theory Server_Rights
  imports Server_Example
begin

text \<open>
  The rights of the clients of the payment server: a client gets them with a package that holds a name and a password, and only for a
  password whose digest the file of users holds; a package of a client without the rights for it changes nothing but its own connection.
\<close>

section \<open>Rights\<close>

lemma receive_auth:
  assumes "receive sel rcv n r w = Some ((l, d, r1), w1)"
  shows "sk_auth r1 = sk_auth r"
proof -
  have mark: "read_mark s count = Some (Inl (x, y, z)) \<Longrightarrow> sk_auth z = sk_auth s"
    "read_mark s count = Some (Inr (t, c)) \<Longrightarrow> sk_auth t = sk_auth s" for s count x y z t c
    by (auto simp: read_mark_def receive_error_def read_reset_def bind_eq_Some_conv split: if_splits)
  have len: "read_len s count = Some (t, c) \<Longrightarrow> sk_auth t = sk_auth s" for s count t c
    by (auto simp: read_len_def Let_def bind_eq_Some_conv split: if_splits)
  have data: "read_data b s count = Some (x, y, t) \<Longrightarrow> sk_auth t = sk_auth s" for b s count x y t
    by (cases "sk_step s \<noteq> 2 \<or> count \<le> 0"; cases "count < package_left s"; cases "int (sk_package_len s) < b"; cases "b < 0")
      (auto simp: read_data_def read_reset_def Let_def bind_eq_Some_conv)
  have bytes: "take_bytes z s bs = Some (x, y, t) \<Longrightarrow> sk_auth t = sk_auth s" for z s bs x y t
  proof -
    assume t: "take_bytes z s bs = Some (x, y, t)"
    then obtain rb where rb: "mem_put (sk_read_pos s) bs (sk_read_buff s) = Some rb" by (auto simp: take_bytes_def bind_eq_Some_conv)
    let ?s = "s\<lparr>sk_read_buff := rb, sk_read_left := sk_read_left s - int (length bs)\<rparr>"
    show "sk_auth t = sk_auth s"
    proof (cases "int (length bs) \<le> 0 \<or> sk_read_left s - int (length bs) < 0")
      case True
      then show ?thesis using t rb by (auto simp: take_bytes_def Let_def receive_error_def read_reset_def)
    next
      case False
      then obtain q where q: "read_mark ?s (int (length bs)) = Some q" using t rb by (auto simp: take_bytes_def Let_def bind_eq_Some_conv)
      then show ?thesis using t rb False
        by (cases q) (auto simp: take_bytes_def Let_def bind_eq_Some_conv dest!: mark len data)
    qed
  qed
  show ?thesis
    using assms by (cases "sel w"; cases "sk_fd r = - 1")
      (auto simp: receive_def Let_def receive_error_def read_reset_def split: if_splits prod.splits dest!: bytes)
qed

lemma same_rights_trans: "same_rights n m \<Longrightarrow> same_rights m k \<Longrightarrow> same_rights n k"
  by (simp add: same_rights_def)

lemma pc_set_state_rights:
  assumes "pc_set_state env dont c res n = Some n'"
  shows "nt_socks n' = nt_socks n \<and> nt_buffer n' = nt_buffer n"
proof -
  obtain body n1 r l where p: "result_body res = Some body"
    "store_check_result env dont c (cr_code res) body n = Some n1"
    "find_waiting c (nt_in n1) = Some (r, l)"
    "(case r of Some (Some a) \<Rightarrow> net_send a (answer_bytes c (cr_code res) body) (n1\<lparr>nt_in := l\<rparr>) | _ \<Rightarrow> Some (n1\<lparr>nt_in := l\<rparr>)) = Some n'"
    by (rule pc_set_stateE [OF assms])
  have "nt_socks n1 = nt_socks n \<and> nt_buffer n1 = nt_buffer n"
    using store_check_result_calm [OF p(2)] by (simp add: calm_def)
  then show ?thesis using p(4) by (cases r; cases "the r") (auto simp: net_send_def)
qed

lemma add_check_rights: "add_check env a c n = Some n' \<Longrightarrow> nt_socks n' = nt_socks n \<and> nt_buffer n' = nt_buffer n"
  using pc_set_state_rights by (fastforce simp: add_check_def Let_def split: if_splits)

text \<open>The rights at a socket are those before, or the last package was an authorization that gives them.\<close>

definition granted :: "('p, 'w, 'n) paycheck_env \<Rightarrow> bytes \<Rightarrow> int \<Rightarrow> bool" where
  "granted env buf level \<longleftrightarrow> level \<noteq> 0 \<and> take 1 buf = [NETTYPE_AUTHORIZATION]
     \<and> (\<exists>sz login password. read_login buf sz = Some (Login login password)
          \<and> level = get_authorization (pe_md5 env) (pe_users env) login password)"

definition rights_earned :: "('p, 'w, 'n) paycheck_env \<Rightarrow> bytes \<Rightarrow> 'n net \<Rightarrow> 'n net \<Rightarrow> bool" where
  "rights_earned env buf n n' \<longleftrightarrow> (\<forall>a r. nt_socks n' a = Some r \<longrightarrow>
     (\<exists>r0. nt_socks n a = Some r0 \<and> sk_auth r0 = sk_auth r) \<or> granted env buf (sk_auth r))"

lemma same_rights_earned:
  assumes "same_rights n n'"
  shows "rights_earned env buf n n'"
proof -
  have "map_option sk_auth (nt_socks n' a) = map_option sk_auth (nt_socks n a)" for a using assms by (simp add: same_rights_def)
  then show ?thesis unfolding rights_earned_def by (metis map_option_eq_Some)
qed

lemma rights_earned_trans: "same_rights n m \<Longrightarrow> rights_earned env buf m k \<Longrightarrow> rights_earned env buf n k"
  unfolding rights_earned_def same_rights_def by (metis map_option_eq_Some)

lemma rights_earned_socks: "rights_earned env buf n m \<Longrightarrow> nt_socks k = nt_socks m \<Longrightarrow> rights_earned env buf n k"
  by (simp add: rights_earned_def)

lemma rights_earned_sub:
  "rights_earned env buf n m \<Longrightarrow> (\<And>x y. nt_socks k x = Some y \<Longrightarrow> nt_socks m x = Some y) \<Longrightarrow> rights_earned env buf n k"
  unfolding rights_earned_def by blast

lemma log_in_earned:
  assumes "log_in env buf sz a b n = Some n'" "take 1 buf = [NETTYPE_AUTHORIZATION]"
  shows "rights_earned env buf n n'"
  unfolding rights_earned_def
proof (intro allI impI)
  fix a' r assume r: "nt_socks n' a' = Some r"
  consider "map_option sk_auth (nt_socks n' a') = map_option sk_auth (nt_socks n a')"
    | login password where "read_login buf sz = Some (Login login password)"
      "map_option sk_auth (nt_socks n' a') = Some (get_authorization (pe_md5 env) (pe_users env) login password)"
      "get_authorization (pe_md5 env) (pe_users env) login password \<noteq> 0"
    using log_in_mild [OF assms(1)] by blast
  then show "(\<exists>r0. nt_socks n a' = Some r0 \<and> sk_auth r0 = sk_auth r) \<or> granted env buf (sk_auth r)"
  proof cases
    case 1
    then show ?thesis using r by (cases "nt_socks n a'") auto
  next
    case 2
    then show ?thesis using r assms(2) by (auto simp: granted_def)
  qed
qed

lemma compile_check_pay_earned:
  assumes "compile_check_pay env uptime stamp buf sz a b s = Some (c, s')"
  shows "rights_earned env buf (sr_net s) (sr_net s') \<and> nt_buffer (sr_net s') = nt_buffer (sr_net s)"
  using compile_check_pay_served [OF assms, of undefined]
proof
  assume "served undefined s s'"
  then show ?thesis using same_rights_earned by (auto simp: served_def calm_def)
next
  assume l: "take 1 buf = [NETTYPE_AUTHORIZATION] \<and> c = None \<and> on_net (log_in env buf sz a b) s = Some s'"
  then obtain n where n: "log_in env buf sz a b (sr_net s) = Some n" "s' = s\<lparr>sr_net := n\<rparr>" by (auto simp: on_net_def)
  then show ?thesis using log_in_earned [OF n(1)] l log_in_mild [OF n(1)] by auto
qed

lemma take_package_earned:
  assumes "take_package env uptime stamp d sz a b s = Some s'"
  shows "rights_earned env (nt_buffer (sr_net s')) (sr_net s) (sr_net s')"
proof -
  obtain buf c s2 where e: "compile_check_pay env uptime stamp buf sz a b (s\<lparr>sr_net := (sr_net s)\<lparr>nt_buffer := buf\<rparr>\<rparr>) = Some (c, s2)"
    "(case c of None \<Rightarrow> Some s2 | Some p \<Rightarrow> on_net (add_check (se_net env) a p) s2) = Some s'"
    using assms by (auto simp: take_package_def Let_def bind_eq_Some_conv)
  have "rights_earned env buf (sr_net s) (sr_net s2)" "nt_buffer (sr_net s2) = buf"
    using compile_check_pay_earned [OF e(1)] by (auto simp: rights_earned_def)
  moreover have "nt_socks (sr_net s') = nt_socks (sr_net s2) \<and> nt_buffer (sr_net s') = nt_buffer (sr_net s2)"
    using e(2) add_check_rights by (cases c) (fastforce simp: on_net_def)+
  ultimately show ?thesis using rights_earned_socks by metis
qed

lemma read_client_earned:
  assumes "read_client env sel rcv uptime stamp a b s = Some s'"
  shows "rights_earned env (nt_buffer (sr_net s')) (sr_net s) (sr_net s')"
proof -
  obtain r where r: "nt_socks (sr_net s) a = Some r" using assms by (auto simp: read_client_def bind_eq_Some_conv)
  show ?thesis
  proof (cases "sk_can_read r = 0")
    case True
    then show ?thesis using assms r by (auto simp: read_client_def rights_earned_def)
  next
    case False
    then obtain l d r1 n where e: "\<exists>w. receive (\<lambda>w. (sel, w)) (\<lambda>n w. (rcv n, w)) (int PACK_SIZE) r () = Some ((l, d, r1), w)"
      "net_sock a (\<lambda>_. r1) (sr_net s) = Some n"
      "(if sk_error r1 = 0 \<and> 0 \<le> l then (if 0 < l then take_package env uptime stamp d l a b (s\<lparr>sr_net := n\<rparr>) else Some (s\<lparr>sr_net := n\<rparr>))
       else on_net (drop_client a) (s\<lparr>sr_net := n\<rparr>)) = Some s'"
      using assms r by (auto simp: read_client_def bind_eq_Some_conv on_net_def split: prod.splits)
    have "sk_auth r1 = sk_auth r" using e(1) by (elim exE) (rule receive_auth)
    then have same: "same_rights (sr_net s) n" using e(2) r by (auto simp: same_rights_def net_sock_def)
    consider "take_package env uptime stamp d l a b (s\<lparr>sr_net := n\<rparr>) = Some s'" | "s' = s\<lparr>sr_net := n\<rparr>"
      | m where "drop_client a n = Some m" "s' = s\<lparr>sr_net := m\<rparr>"
      using e(3) by (cases "sk_error r1 = 0 \<and> 0 \<le> l"; cases "0 < l") (auto simp: on_net_def)
    then show ?thesis
    proof cases
      case 1
      then show ?thesis using rights_earned_trans [OF same] take_package_earned [OF 1] by simp
    next
      case 2
      then show ?thesis using same_rights_earned [OF same] by simp
    next
      case 3
      have "nt_socks m x = Some y \<Longrightarrow> nt_socks n x = Some y" for x y
        using drop_client_spec [OF 3(1)]
      proof (elim disjE exE conjE)
        assume "m = n\<lparr>nt_list := nt_list m\<rparr>" "nt_socks m x = Some y"
        then show ?thesis by (cases n; cases m) simp
      qed (auto split: if_splits)
      then have "rights_earned env (nt_buffer m) (sr_net s) m" by (rule rights_earned_sub [OF same_rights_earned [OF same]])
      then show ?thesis using 3(2) by simp
    qed
  qed
qed

lemma get_data_turn_earned:
  assumes "get_data_turn env ready sel rcv uptime stamp s = Some s'"
  shows "rights_earned env (nt_buffer (sr_net s')) (sr_net s) (sr_net s')"
proof -
  obtain k n where n: "read_multi_select ready (sr_net s) = Some (k, n)" using assms by (auto simp: get_data_turn_def bind_eq_Some_conv)
  have same: "same_rights (sr_net s) n" using read_multi_select_calm [OF n] by (simp add: calm_def)
  show ?thesis
  proof (cases "k = 0")
    case True
    then show ?thesis using assms n same_rights_earned [OF same] by (auto simp: get_data_turn_def)
  next
    case False
    define turn where "turn = next_turn (nt_turn n) (length (sq_items (nt_list n)))"
    obtain e l where c: "nth_client turn (seq_reset (nt_list n)) = (e, l)" by fastforce
    let ?s = "s\<lparr>sr_net := n\<lparr>nt_turn := turn, nt_list := l\<rparr>\<rparr>"
    have same2: "same_rights (sr_net s) (sr_net ?s)" using same by (simp add: same_rights_def)
    have "s' = ?s \<or> (\<exists>a b. read_client env sel rcv uptime stamp a b ?s = Some s')"
      using assms n False c by (auto simp: get_data_turn_def Let_def turn_def [symmetric] bind_eq_Some_conv split: option.splits)
    then show ?thesis
      using same_rights_earned [OF same2] rights_earned_trans [OF same2] read_client_earned by blast
  qed
qed

lemma get_authorization_level:
  "get_authorization md5 users login password \<noteq> 0 \<Longrightarrow>
     \<exists>k<4. get_authorization md5 users login password = int k + 1 \<and> may_log_in md5 users login password k"
  using auth_loop_level [of 0 0 md5 users login password auth_names]
  unfolding get_authorization_def by (auto simp: Let_def auth_names_def)

text \<open>
  C8: the rights of a client change in a turn of the reading thread only when the package read in that turn is an authorization whose
  password has the digest that the file of users holds for the name, and the new level is the one it is held for.
\<close>

theorem rights_by_password:
  assumes "get_data_turn env ready sel rcv uptime stamp s = Some s'" "nt_socks (sr_net s) a = Some r" "nt_socks (sr_net s') a = Some r'"
    and "authorized r' \<noteq> authorized r"
  shows "\<exists>login password sz k. k < 4 \<and> authorized r' = int k + 1 \<and> take 1 (nt_buffer (sr_net s')) = [NETTYPE_AUTHORIZATION]
     \<and> read_login (nt_buffer (sr_net s')) sz = Some (Login login password)
     \<and> may_log_in (pe_md5 env) (pe_users env) login password k"
proof -
  have "granted env (nt_buffer (sr_net s')) (sk_auth r')"
    using get_data_turn_earned [OF assms(1)] assms(2-4) unfolding rights_earned_def authorized_def by (metis option.inject)
  then show ?thesis using get_authorization_level unfolding granted_def authorized_def by metis
qed

theorem rights_by_password_witness:
  "\<forall>env s. client_turn (example_env env) login_package (s\<lparr>sr_net := login_begun\<rparr>) = Some (s\<lparr>sr_net := logged_in\<rparr>)
     \<and> (\<exists>login password k. 2 = int k + 1 \<and> may_log_in (\<lambda>_. [1]) users_file login password k)"
proof (intro allI conjI)
  fix env and s :: "('a, 'b, 'c, unit) server"
  show "client_turn (example_env env) login_package (s\<lparr>sr_net := login_begun\<rparr>) = Some (s\<lparr>sr_net := logged_in\<rparr>)" by (rule login_turn)
  show "\<exists>login password k. 2 = int k + 1 \<and> may_log_in (\<lambda>_. [1]) users_file login password k"
    using rights_by_password [OF login_turn [where env = env and s = s, unfolded client_turn_def], where a = 0 and r = "example_sock True [0xFF, 8, 0] 8 0"
        and r' = "example_sock False ([0xFF, 8, 0] @ login_package) 8 2"]
    by (auto simp: login_begun_def logged_in_def example_net_def example_sock_def authorized_def example_env_def)
qed

section \<open>What the rights are for\<close>

text \<open>What a client without rights is told: two bytes, and only he.\<close>

definition told_only :: "nat \<Rightarrow> 'n net \<Rightarrow> 'n net \<Rightarrow> bool" where
  "told_only a n n' \<longleftrightarrow> (\<exists>out. nt_sent n' = nt_sent n @ out \<and> (\<forall>m\<in>set out. fst m = a \<and> snd m \<in> {unauth, answok, answnok, [5, 0]}))"

lemma reply_told: "reply a bs s = Some s' \<Longrightarrow> bs \<in> {unauth, answok, answnok, [5, 0]} \<Longrightarrow>
    s' = s\<lparr>sr_net := sr_net s'\<rparr> \<and> told_only a (sr_net s) (sr_net s')"
  by (auto simp: reply_def net_send_def told_only_def)

lemma told_only_refl [simp]: "told_only a n n"
  by (simp add: told_only_def)

text \<open>The state but for the connections and the cursors of the lists.\<close>

definition same_but_net :: "('p, 'w, 'd, 'n) server \<Rightarrow> ('p, 'w, 'd, 'n) server \<Rightarrow> bool" where
  "same_but_net s s' \<longleftrightarrow> (\<exists>l k. sq_items l = sq_items (pl_workers (sr_pool s)) \<and> sq_items k = sq_items (ms_list (pl_modules (sr_pool s)))
     \<and> s' = s\<lparr>sr_pool := (sr_pool s)\<lparr>pl_workers := l, pl_modules := (pl_modules (sr_pool s))\<lparr>ms_list := k\<rparr>\<rparr>, sr_net := sr_net s'\<rparr>)"

lemma same_but_netI:
  assumes "sq_items l = sq_items (pl_workers (sr_pool s))" "sq_items k = sq_items (ms_list (pl_modules (sr_pool s)))"
    and "s' = s\<lparr>sr_pool := (sr_pool s)\<lparr>pl_workers := l, pl_modules := (pl_modules (sr_pool s))\<lparr>ms_list := k\<rparr>\<rparr>, sr_net := n\<rparr>"
  shows "same_but_net s s'"
  unfolding same_but_net_def using assms by (intro exI conjI) simp_all

lemma same_but_net: "s' = s\<lparr>sr_net := n\<rparr> \<Longrightarrow> same_but_net s s'"
  by (rule same_but_netI [OF refl refl]) simp

lemma exec_monitor_same:
  assumes "exec_monitor uptime a s = Some s'"
  shows "same_but_net s s'"
proof -
  obtain out pl n where m: "get_threads_bin 10022 uptime (pd_accept (sr_db s)) (sr_pool s) = Some (out, pl)" "s' = s\<lparr>sr_pool := pl, sr_net := n\<rparr>"
    using assms by (auto simp: exec_monitor_def bind_eq_Some_conv dest!: reply_spec)
  obtain l where "sq_items l = sq_items (pl_workers (sr_pool s))" "pl = (sr_pool s)\<lparr>pl_workers := l\<rparr>"
    using get_threads_bin_frame [OF m(1)] by blast
  then show ?thesis using m(2) by (intro same_but_netI [of l _ "ms_list (pl_modules (sr_pool s))"]) simp_all
qed

lemma exec_modules_list_same:
  assumes "exec_modules_list a s = Some s'"
  shows "same_but_net s s'"
proof -
  obtain out ms where m: "get_modules_bin 5022 (pl_modules (sr_pool s)) = Some (out, ms)" "\<exists>n. s' = (set_modules ms s)\<lparr>sr_net := n\<rparr>"
  proof -
    obtain out ms where m: "get_modules_bin 5022 (pl_modules (sr_pool s)) = Some (out, ms)"
      "(if out = [] then Some (set_modules ms s) else reply a ([14, 0] @ out) (set_modules ms s)) = Some s'"
      using assms by (auto simp: exec_modules_list_def bind_eq_Some_conv)
    have "\<exists>n. set_modules ms s = (set_modules ms s)\<lparr>sr_net := n\<rparr>" by (intro exI [of _ "sr_net s"]) (simp add: set_modules_def)
    then show thesis using that [of out ms] m by (cases "out = []") (auto dest!: reply_spec)
  qed
  obtain k where "sq_items k = sq_items (ms_list (pl_modules (sr_pool s)))" "ms = (pl_modules (sr_pool s))\<lparr>ms_list := k\<rparr>"
    using get_modules_bin_frame [OF m(1)] by blast
  then show ?thesis using m(2) by (auto simp: set_modules_def intro: same_but_netI [of "pl_workers (sr_pool s)" _ k])
qed

definition runs_on :: "('p, 'w, 'd, 'n) server \<Rightarrow> ('p, 'w, 'd, 'n) server \<Rightarrow> bool" where
  "runs_on s s' \<longleftrightarrow> sr_working s' = sr_working s \<and> sr_quit s' = sr_quit s"

lemma reply_runs: "reply a bs s = Some s' \<Longrightarrow> runs_on s s'"
  by (auto simp: reply_def runs_on_def)

lemma reload_operators_runs:
  assumes "reload_operators env s = Some (r, s1)"
  shows "runs_on s s1"
proof -
  obtain loaded ost where l: "load_operators (se_operators_db env) (se_regexps env) (se_modules env) (Some (ss_operators_path (sr_settings s)))
      (pl_op_state (sr_pool s)) = Some (loaded, ost)"
    using assms by (auto simp: reload_operators_def Let_def bind_eq_Some_conv)
  show ?thesis
  proof (cases loaded)
    case None
    then show ?thesis using assms l by (auto simp: reload_operators_def Let_def runs_on_def)
  next
    case (Some ps)
    then obtain x olds used ops ost1 where u: "(case sr_old_ops s of None \<Rightarrow> Some (None, empty_seq, 0, pl_ops (sr_pool s), ost)
            | Some l \<Rightarrow> for_each count_used l (0, pl_ops (sr_pool s), ost)) = Some (x, olds, used, ops, ost1)"
      using assms l by (auto simp: reload_operators_def Let_def bind_eq_Some_conv)
    show ?thesis using assms l u Some by (cases "0 < used") (auto simp: reload_operators_def Let_def runs_on_def)
  qed
qed

lemma runs_on_reply: "reply a bs t = Some s' \<Longrightarrow> runs_on s t \<Longrightarrow> runs_on s s'"
  using reply_runs [of a bs t s'] by (simp add: runs_on_def)

lemma runs_on_updates [simp]: "runs_on s (s\<lparr>sr_pool := pl\<rparr>)" "runs_on s (s\<lparr>sr_reload := b\<rparr>)" "runs_on s (set_modules ms s)" "runs_on s (set_ignore il s)"
  by (simp_all add: runs_on_def set_modules_def set_ignore_def)

lemma tell_clients_runs: "tell_clients m s = Some s' \<Longrightarrow> runs_on s s'"
  by (auto simp: tell_clients_def runs_on_def)

lemma tell_reply_runs: "Option.bind (tell_clients m t) (reply a bs) = Some s' \<Longrightarrow> runs_on s t \<Longrightarrow> runs_on s s'"
  using tell_clients_runs [of m t] reply_runs [of a bs] by (auto simp: bind_eq_Some_conv runs_on_def)

lemma exec_cancel_runs: "exec_cancel arg a s = Some s' \<Longrightarrow> runs_on s s'"
  unfolding exec_cancel_def by (auto simp: bind_eq_Some_conv elim!: runs_on_reply)

lemma exec_kill_runs: "exec_kill arg sz a s = Some s' \<Longrightarrow> runs_on s s'"
  unfolding exec_kill_def by (cases "8 \<le> sz") (auto simp: bind_eq_Some_conv reply_runs elim!: runs_on_reply)

lemma exec_reload_so_runs: "exec_reload_so env a s = Some s' \<Longrightarrow> runs_on s s'"
  unfolding exec_reload_so_def by (elim bind_eq_Some_conv [THEN iffD1, THEN exE] conjE) (auto split: prod.splits elim!: tell_reply_runs)

lemma exec_reload_conf_runs: "exec_reload_conf a s = Some s' \<Longrightarrow> runs_on s s'"
  unfolding exec_reload_conf_def by (erule tell_reply_runs) simp

lemma exec_load_runs: "exec_load env arg sz a s = Some s' \<Longrightarrow> runs_on s s'"
  unfolding exec_load_def by (auto simp: bind_eq_Some_conv simp del: if_split elim!: runs_on_reply)

lemma exec_unload_runs: "exec_unload arg sz a s = Some s' \<Longrightarrow> runs_on s s'"
  unfolding exec_unload_def by (auto simp: bind_eq_Some_conv simp del: if_split elim!: runs_on_reply)

lemma exec_ignore_runs: "exec_ignore f k arg sz a s = Some s' \<Longrightarrow> runs_on s s'"
  unfolding exec_ignore_def by (cases "4 \<le> sz") (auto simp: bind_eq_Some_conv reply_runs elim!: runs_on_reply)

lemma exec_clear_runs: "exec_clear ks a s = Some s' \<Longrightarrow> runs_on s s'"
  unfolding exec_clear_def by (auto simp: bind_eq_Some_conv elim!: runs_on_reply)

lemma exec_view_runs: "exec_view k a s = Some s' \<Longrightarrow> runs_on s s'"
  unfolding exec_view_def by (auto simp: bind_eq_Some_conv reply_runs simp del: if_split)

lemma exec_reload_op_runs:
  assumes "exec_reload_op env a s = Some s'"
  shows "runs_on s s'"
proof -
  obtain r s1 where r: "reload_operators env s = Some (r, s1)" using assms by (auto simp: exec_reload_op_def bind_eq_Some_conv)
  then have "runs_on s1 s'" using assms
    by (cases "r = 0") (auto simp: exec_reload_op_def bind_eq_Some_conv tell_clients_def reply_def runs_on_def)
  then show ?thesis using reload_operators_runs [OF r] by (simp add: runs_on_def)
qed

lemma same_but_net_runs:
  assumes "same_but_net s s'"
  shows "runs_on s s'"
proof -
  obtain l k where e: "s' = s\<lparr>sr_pool := (sr_pool s)\<lparr>pl_workers := l, pl_modules := (pl_modules (sr_pool s))\<lparr>ms_list := k\<rparr>\<rparr>, sr_net := sr_net s'\<rparr>"
    using assms by (auto simp: same_but_net_def)
  show ?thesis unfolding runs_on_def by (subst e, subst (2) e) simp
qed

lemma exec_ignore_cmd_runs: "exec_ignore_cmd cmd arg sz a s = Some s' \<Longrightarrow> runs_on s s'"
  by (simp add: exec_ignore_cmd_def exec_ignore_runs exec_clear_runs exec_view_runs reply_runs split: if_splits)

lemma with_rightE:
  assumes "with_right level a f g s = Some s'" "nt_socks (sr_net s) a = Some r"
  obtains "level \<le> authorized r" "f s = Some s'" | "authorized r < level" "g s = Some s'"
  using assms by (auto simp: with_right_def split: if_splits)

text \<open>What a step of a client with the rights \<open>r\<close> may change.\<close>

definition within_rights :: "nat \<Rightarrow> sock_rw \<Rightarrow> ('p, 'w, 'd, 'n) server \<Rightarrow> ('p, 'w, 'd, 'n) server \<Rightarrow> bool" where
  "within_rights a r s s' \<longleftrightarrow> (authorized r < AUTH_ADMIN \<longrightarrow> runs_on s s')
     \<and> (authorized r < AUTH_CONTROL \<longrightarrow> same_but_net s s')
     \<and> (authorized r < AUTH_STAT \<longrightarrow> s' = s\<lparr>sr_net := sr_net s'\<rparr> \<and> told_only a (sr_net s) (sr_net s'))"

lemma within_rights_reply: "reply a bs s = Some s' \<Longrightarrow> bs \<in> {unauth, answok, answnok, [5, 0]} \<Longrightarrow> within_rights a r s s'"
  unfolding within_rights_def using reply_told [of a bs s s'] reply_runs [of a bs s s'] same_but_net [where s = s and s' = s'] by blast

lemma within_rights_refl [simp]: "within_rights a r s s"
  by (simp add: within_rights_def runs_on_def same_but_net [where s = s and n = "sr_net s"])

lemma within_rights_control: "AUTH_CONTROL \<le> authorized r \<Longrightarrow> runs_on s s' \<Longrightarrow> within_rights a r s s'"
  by (simp add: within_rights_def auth_levels)

lemma within_rights_stat: "AUTH_STAT \<le> authorized r \<Longrightarrow> same_but_net s s' \<Longrightarrow> within_rights a r s s'"
  using same_but_net_runs by (auto simp: within_rights_def auth_levels)

lemma within_rights_admin: "AUTH_ADMIN \<le> authorized r \<Longrightarrow> within_rights a r s s'"
  by (simp add: within_rights_def auth_levels)

lemma with_right_within:
  assumes "nt_socks (sr_net s) a = Some r"
    and "\<And>x. level \<le> authorized r \<Longrightarrow> f s = Some x \<Longrightarrow> within_rights a r s x" "\<And>x. g s = Some x \<Longrightarrow> within_rights a r s x"
  shows "\<forall>s'. with_right level a f g s = Some s' \<longrightarrow> within_rights a r s s'"
  using assms by (auto elim!: with_rightE [OF _ assms(1)])

lemma exec_cmd_within:
  assumes "exec_cmd env uptime cmd arg sz a s = Some s'" "nt_socks (sr_net s) a = Some r"
  shows "within_rights a r s s'"
proof -
  let ?ok = "\<lambda>x. \<forall>s'. x = Some s' \<longrightarrow> within_rights a r s s'"
  have unauth: "reply a unauth s = Some x \<Longrightarrow> within_rights a r s x" for x by (erule within_rights_reply) simp
  have no: "reply a answnok s = Some x \<Longrightarrow> within_rights a r s x" for x by (erule within_rights_reply) simp
  have control: "?ok (with_right AUTH_CONTROL a f (reply a unauth) s)"
      and control_quiet: "?ok (with_right AUTH_CONTROL a f Some s)" and control_no: "?ok (with_right AUTH_CONTROL a f (reply a answnok) s)"
    if "\<And>x. f s = Some x \<Longrightarrow> runs_on s x" for f
    subgoal by (rule with_right_within [OF assms(2)], erule (1) within_rights_control [OF _ that], erule unauth)
    subgoal by (rule with_right_within [OF assms(2)], erule (1) within_rights_control [OF _ that], simp)
    subgoal by (rule with_right_within [OF assms(2)], erule (1) within_rights_control [OF _ that], erule no)
    done
  have stat: "?ok (with_right AUTH_STAT a f (reply a unauth) s)" if "\<And>x. f s = Some x \<Longrightarrow> same_but_net s x" for f
    by (rule with_right_within [OF assms(2)], erule (1) within_rights_stat [OF _ that], erule unauth)
  have admin: "?ok (with_right AUTH_ADMIN a f (reply a unauth) s)" for f
    by (rule with_right_within [OF assms(2)], erule within_rights_admin, erule unauth)
  have accept: "reply a answok (set_accept x s) = Some y \<Longrightarrow> runs_on s y" for x y
    by (auto simp: reply_def set_accept_def runs_on_def)
  have "?ok (exec_cmd env uptime cmd arg sz a s)"
    unfolding exec_cmd_def Let_def
    by (intro if_split [where P = ?ok, THEN iffD2] conjI impI;
        (rule admin | (rule control control_quiet control_no, erule accept exec_cancel_runs exec_kill_runs exec_reload_op_runs
            exec_reload_so_runs exec_reload_conf_runs exec_load_runs exec_unload_runs exec_ignore_cmd_runs)
          | (rule stat, erule exec_monitor_same exec_modules_list_same)))
  then show ?thesis using assms(1) by blast
qed

lemma on_net_runs: "on_net f s = Some s' \<Longrightarrow> runs_on s s'"
  by (auto simp: on_net_def runs_on_def)

lemma on_net_same: "on_net f s = Some s' \<Longrightarrow> s' = s\<lparr>sr_net := sr_net s'\<rparr> \<and> same_but_net s s'"
  by (auto simp: on_net_def same_but_net)

lemma set_client_sent: "on_net (set_client b f) s = Some s' \<Longrightarrow> nt_sent (sr_net s') = nt_sent (sr_net s)"
  by (auto simp: on_net_def set_client_def)

lemma log_in_within:
  assumes "on_net (log_in env buf sz a b) s = Some s'"
  shows "within_rights a r s s'"
proof -
  have "\<exists>x\<in>{unauth, answok}. nt_sent (sr_net s') = nt_sent (sr_net s) @ [(a, x)]"
    using assms log_in_mild by (fastforce simp: on_net_def)
  then have "told_only a (sr_net s) (sr_net s')" by (auto simp: told_only_def)
  then show ?thesis using on_net_same [OF assms] on_net_runs [OF assms] by (simp add: within_rights_def)
qed

lemma sign_within:
  assumes "with_right level a (on_net (set_client b f)) (reply a unauth) s = Some s'" "nt_socks (sr_net s) a = Some r"
  shows "within_rights a r s s'"
proof -
  have set: "within_rights a r s x" if x: "on_net (set_client b f) s = Some x" for x
    using on_net_same [OF x] on_net_runs [OF x] set_client_sent [OF x] by (simp add: within_rights_def told_only_def)
  have no: "reply a unauth s = Some x \<Longrightarrow> within_rights a r s x" for x by (erule within_rights_reply) simp
  show ?thesis using with_right_within [OF assms(2) set no] assms(1) by blast
qed

lemma users_within:
  assumes "with_right AUTH_CONTROL a (on_net (send_users a)) (reply a unauth) s = Some s'" "nt_socks (sr_net s) a = Some r"
  shows "within_rights a r s s'"
proof -
  have no: "reply a unauth s = Some x \<Longrightarrow> within_rights a r s x" for x by (erule within_rights_reply) simp
  have users: "AUTH_CONTROL \<le> authorized r \<Longrightarrow> on_net (send_users a) s = Some x \<Longrightarrow> within_rights a r s x" for x
    by (rule within_rights_control [OF _ on_net_runs])
  show ?thesis using with_right_within [OF assms(2) users no] assms(1) by blast
qed

lemma compile_check_pay_within:
  assumes "compile_check_pay env uptime stamp buf sz a b s = Some (c, s')" "nt_socks (sr_net s) a = Some r"
  shows "within_rights a r s s' \<and> (authorized r < AUTH_PAYCHECK \<longrightarrow> c = None)"
proof (cases "sz < 1")
  case True
  then show ?thesis using assms by (simp add: compile_check_pay_def)
next
  case False
  then obtain t where t: "mem_get 0 1 buf = Some [t]" using assms
    by (cases buf) (auto simp: compile_check_pay_def bind_eq_Some_conv mem_get_def)
  have refuse: "reply a unauth s = Some x \<Longrightarrow> within_rights a r s x" for x by (erule within_rights_reply) simp
  have ping: "reply a [5, 0] s = Some x \<Longrightarrow> within_rights a r s x" for x by (erule within_rights_reply) simp
  let ?in = "\<lambda>c s'. within_rights a r s s' \<and> (authorized r < AUTH_PAYCHECK \<longrightarrow> c = None)"
  let ?ok = "\<lambda>x. \<forall>c s'. x = Some (c, s') \<longrightarrow> ?in c s'"
  have none: "?ok (map_option (Pair None) x)" if "\<And>s'. x = Some s' \<Longrightarrow> within_rights a r s s'" for x using that by auto
  have check: "?ok (Option.bind (nt_socks (sr_net s) a) (\<lambda>r. if AUTH_PAYCHECK \<le> authorized r then map_option (\<lambda>c. (c, s)) x
      else map_option (Pair None) (reply a unauth s)))" for x using assms(2) refuse by auto
  have cmd: "?ok (Option.bind x (\<lambda>cmd. map_option (Pair None) (exec_cmd env' uptime (f cmd) arg n a s)))" for x f arg n env'
    using exec_cmd_within assms(2) by (cases x) auto
  have rest: "?ok (Some (None, s))" by simp
  have "?ok (compile_check_pay env uptime stamp buf sz a b s)"
    unfolding compile_check_pay_def Let_def t option.map bind.bind_lunit list.sel if_not_P [OF False]
    by (intro if_split [where P = ?ok, THEN iffD2] conjI impI;
        (rule check | rule cmd | rule rest | (rule none, erule refuse ping log_in_within) | (rule none, erule users_within sign_within, rule assms(2))))
  then show ?thesis using assms(1) by blast
qed

text \<open>
  C7: what a package can do depends on the rights of its client. Without the administrator's level the server keeps running; without that
  of control nothing but the connections changes, so that no payment is cancelled, no thread killed, no module loaded and nothing stopped
  or ignored; without that of checks no check gets in; and a client with no level is told nothing but whether he is known, and changes
  nothing but the connections.
\<close>

theorem commands_need_rights:
  assumes "compile_check_pay env uptime stamp buf sz a b s = Some (c, s')" "nt_socks (sr_net s) a = Some r"
  shows "(authorized r < AUTH_ADMIN \<longrightarrow> sr_working s' = sr_working s \<and> sr_quit s' = sr_quit s)
     \<and> (authorized r < AUTH_CONTROL \<longrightarrow> same_but_net s s')
     \<and> (authorized r < AUTH_PAYCHECK \<longrightarrow> c = None)
     \<and> (authorized r < AUTH_STAT \<longrightarrow> s' = s\<lparr>sr_net := sr_net s'\<rparr> \<and> told_only a (sr_net s) (sr_net s'))"
  using compile_check_pay_within [OF assms] by (simp add: within_rights_def runs_on_def)

theorem commands_need_rights_witness:
  "\<forall>env s. \<exists>s'. compile_check_pay env 0 ''now'' [0x0A, 0, 7] 3 0 1 (s\<lparr>sr_net := logged_in\<rparr>) = Some (None, s')
     \<and> sr_working s' = sr_working s \<and> sr_quit s' = sr_quit s \<and> same_but_net (s\<lparr>sr_net := logged_in\<rparr>) s'"
proof (intro allI)
  fix env and s :: "('a, 'b, 'c, unit) server"
  let ?s = "s\<lparr>sr_net := logged_in\<lparr>nt_sent := [(0, answok), (0, unauth)]\<rparr>\<rparr>"
  let ?r = "example_sock False ([0xFF, 8, 0] @ login_package) 8 2"
  have r: "nt_socks logged_in 0 = Some ?r" "authorized ?r = 2" by (simp_all add: logged_in_def example_net_def example_sock_def authorized_def)
  have "compile_check_pay env 0 ''now'' [0x0A, 0, 7] 3 0 1 (s\<lparr>sr_net := logged_in\<rparr>) = Some (None, ?s)"
    using r by (simp add: compile_check_pay_def Let_def mem_get_def nettypes exec_cmd_def command_codes with_right_def auth_levels reply_def
        net_send_def logged_in_def example_net_def)
  with commands_need_rights [OF this] r
  show "\<exists>s'. compile_check_pay env 0 ''now'' [0x0A, 0, 7] 3 0 1 (s\<lparr>sr_net := logged_in\<rparr>) = Some (None, s')
     \<and> sr_working s' = sr_working s \<and> sr_quit s' = sr_quit s \<and> same_but_net (s\<lparr>sr_net := logged_in\<rparr>) s'"
    by (intro exI [of _ ?s]) (simp add: auth_levels)
qed

end
