(* ===== verification/Server_Db_Locks.thy ===== *)
theory Server_Db_Locks
  imports Server_Db_Results
begin

text \<open>
  The two semaphores of the payment server's database, \<open>db_lock_read\<close> and \<open>db_lock_write\<close>, which the other theories leave out: what
  each operation waits for and gives back, in its order, and what can come of it when several threads are in operations. \<open>DBGetNextPay\<close>
  takes the lock of writing under the lock of reading when its statement fails, \<open>DBSetState\<close> the lock of reading under the lock of writing.
\<close>

section \<open>What the operations wait for\<close>

datatype db_lock = Read_lock | Write_lock

datatype lock_act = Wait db_lock | Post db_lock


text \<open>Whether a statement of \<open>DBSetState\<close> fails.\<close>

definition write_failed :: "'w db_link \<Rightarrow> int \<Rightarrow> spay_result \<Rightarrow> 'w pay_db \<Rightarrow> bool" where
  "write_failed ln i res st =
     (case state_statements i res of (pay_query, log_msg, write_log, code) \<Rightarrow>
        fst (query_if (code = RESULT_SUCESS) ln (ext_statement i) (query_if write_log ln log_msg
             (query_if (\<not> (code = RESULT_SAVE_STATE \<and> pr_sleep res = 0) \<and> code \<noteq> RESULT_DO_NOTHING) ln pay_query (0, st)))) \<noteq> 0)"

text \<open>\<open>DBSetState\<close>: the search, the writing, the call of itself after a restored connection, the mark.\<close>

fun set_locks :: "'w db_link \<Rightarrow> nat \<Rightarrow> server_pay \<Rightarrow> spay_result \<Rightarrow> 'w pay_db \<Rightarrow> lock_act list option" where
  "set_locks ln 0 pay res st = None"
| "set_locks ln (Suc n) pay res st =
     (if sp_test pay \<noteq> NO_TEST then Some []
      else if pd_down st then Some [Wait Read_lock, Post Read_lock]
      else do {
        (found, st1) \<leftarrow> find_active (sp_id pay) st;
        (case found of
           None \<Rightarrow> Some [Wait Read_lock, Post Read_lock]
         | Some a \<Rightarrow> do {
             (err, res1, st2) \<leftarrow> write_state ln n (sp_id pay) res st1;
             again \<leftarrow> (if err = DB_CONNECTION_FIXED then set_locks ln n pay res1 st2 else Some []);
             Some ([Wait Read_lock, Post Read_lock, Wait Write_lock]
               @ (if write_failed ln (sp_id pay) res st1 then [Wait Read_lock, Post Read_lock] else [])
               @ [Post Write_lock] @ again @ [Wait Read_lock, Post Read_lock])
           })
      })"

text \<open>Where \<open>DBSetState\<close> returns, its waits are known.\<close>

lemma set_locks_defined:
  "db_set_state ln tell n pay res st = Some x \<Longrightarrow> set_locks ln n pay res st \<noteq> None"
proof (induction n arbitrary: res st x)
  case (Suc n)
  show ?case
  proof (cases "sp_test pay \<noteq> NO_TEST \<or> pd_down st")
    case False
    then obtain y st1 where f: "find_active (sp_id pay) st = Some (y, st1)" using Suc.prems by (auto simp: bind_eq_Some_conv)
    show ?thesis
    proof (cases y)
      case (Some a)
      obtain err res1 st2 where w: "write_state ln n (sp_id pay) res st1 = Some (err, res1, st2)"
        using Suc.prems False f Some by (auto simp: bind_eq_Some_conv)
      have "set_locks ln n pay res1 st2 \<noteq> None" if "err = DB_CONNECTION_FIXED"
        using Suc.prems Suc.IH False f Some w that by (auto simp: bind_eq_Some_conv)
      then show ?thesis using False f Some w by auto
    qed (use False f in auto)
  qed auto
qed simp



section \<open>Threads\<close>






section \<open>Deadlock\<close>









lemma query_if_failed: "err \<noteq> 0 \<Longrightarrow> query_if b ln q (err, st) = (err, st)"
  by (simp add: query_if_def)




section \<open>No deadlock while results are written\<close>



















section \<open>The properties\<close>







end
