(* ===== verification/Spec2Isabelle.thy ===== *)
theory Spec2Isabelle
  imports Config_Roundtrip Template_Roundtrip Engine_Examples Xml_Data Http_Transport Mysql_Connection
    Legacy_Base64 Legacy_Text Legacy_Query Server_Config Server_Lock Server_Db_Results Server_Ignore
    Server_Pool_Laws Server_Whole Server_Rights Server_Db_Locks
begin

text \<open>
  A model of UPGM, a gateway that performs payments with the servers of providers, and of the payment server
  (\<open>src/legacy/payguide\<close>) that calls it, with the theorems that make them correct.

  \<^bold>\<open>The program.\<close> The payment server selects payments from a database, gives each to a thread, which chooses the module of
  its operator, has the payment checked and performed by it and reports the result to the database; its clients connect over the
  network, log in, ask for checks of payments and give commands. A module built on the gateway (\<open>src/src\<close>, \<open>src/include\<close>) performs
  one payment with a scheme: a configuration file whose sections are stages and whose entries read and write hooks, that is, named
  objects for the payment, the request, the answer of the provider, the database, the stages and so on.

  \<^bold>\<open>The gateway.\<close>
  \<^item> \<open>Upgm_Prelude\<close>: exceptions as values, programs that thread a state and may throw (\<open>prog\<close>), the functions of the C and C++ library
    that the code calls, and the loop \<open>repeat_while\<close> with fuel.
  \<^item> \<open>Upgm_Path\<close> (\<open>path.cpp\<close>), \<open>Data_Tree\<close> (\<open>data_tree.cpp\<close>), \<open>Payment_Sequence\<close> (\<open>payment_sequence.hpp\<close>), \<open>Cyrillic_Tables\<close>.
  \<^item> \<open>Config_Parser\<close>, \<open>Config_Roundtrip\<close> (\<open>config.cpp\<close>), \<open>Template_Engine\<close>, \<open>Template_Roundtrip\<close> (\<open>template.cpp\<close>): the parsers as
    character machines with their offsets, and the notation they read exactly. The side conditions of the round trips are the places
    where the parsers depart from the notation; a lemma shows each.
  \<^item> \<open>Payment_Model\<close> (\<open>as_string.hpp\<close>, \<open>payment.cpp\<close>, \<open>pay.h\<close>, \<open>CompileNewPay\<close> of \<open>core.cpp\<close>): numbers as text in buffers of a fixed
    size, the payment, the answer to the server.
  \<^item> \<open>Common_Hooks\<close>, \<open>Hook_Laws\<close> (\<open>common_hooks.cpp\<close>): the read and write of every hook; \<open>Xml_Data\<close> (\<open>xml_parser.cpp\<close>),
    \<open>Http_Transport\<close> (\<open>http_transport.cpp\<close>, \<open>payguide_curl.cpp\<close>), \<open>Mysql_Connection\<close> (\<open>shared_mysql_connection.cpp\<close>, \<open>db_mysql.cpp\<close>):
    what the hooks use. The connection counts its semaphore; an operation that would wait for ever has no value.
  \<^item> \<open>Upgm_Engine\<close>, \<open>Engine_Laws\<close>, \<open>Engine_Examples\<close> (\<open>upgm.cpp\<close>): the table of hooks, the evaluation of a section, the loop over the
    stages. The loop ends when the payment has a result, which a scheme need not give it: it has fuel, and \<open>None\<close> is not to return.

  \<^bold>\<open>The payment server.\<close>
  \<^item> \<open>Legacy_Base64\<close>, \<open>Legacy_Codecs\<close>, \<open>Legacy_Text\<close>, \<open>Legacy_Query\<close> (\<open>core.cpp\<close>): conversions of texts and the statements with their
    reconnecting. A write behind a caller's buffer has no value.
  \<^item> \<open>Server_Config\<close> (\<open>parser.cpp\<close>), \<open>Server_List\<close> (\<open>ulist.h\<close>, on an explicit heap of cells), \<open>Server_Lock\<close> (\<open>sem.cpp\<close>, one step for
    each semaphore operation).
  \<^item> \<open>Server_Modules\<close> (\<open>paysys.cpp\<close>), \<open>Server_Operator\<close> (\<open>operator.cpp\<close>, \<open>format.cpp\<close>), \<open>Server_Worker\<close> (the work of a thread,
    \<open>worker.cpp\<close>), \<open>Server_Pool\<close> and \<open>Server_Pool_Laws\<close> (the threads, \<open>worker.cpp\<close>, \<open>thrdmngr.cpp\<close>, \<open>main.cpp\<close>).
  \<^item> \<open>Server_Db\<close>, \<open>Server_Db_Laws\<close>, \<open>Server_Db_Results\<close>, \<open>Server_Db_Locks\<close>, \<open>Server_Ignore\<close> (\<open>db.cpp\<close>): handing out payments, writing
    results, the semaphores and their order, the lists of what is ignored.
  \<^item> \<open>Server_Socket\<close> (\<open>uremote_socket.cpp\<close>), \<open>Server_Check\<close>, \<open>Server_Net\<close>, \<open>Server_Paycheck\<close> (\<open>paycheck.cpp\<close>), \<open>Server_Control\<close>
    (\<open>ctl.cpp\<close>): packages, clients, checks, rights, commands; \<open>Server_Net_Laws\<close>, \<open>Server_Paycheck_Laws\<close>, \<open>Server_Example\<close>,
    \<open>Server_Rights\<close> and \<open>Server_Whole\<close>: what holds of them, and of the whole server in every order of its steps.

  \<^bold>\<open>Interfaces.\<close> The locale \<open>store\<close> (\<open>Data_Tree\<close>) states what a store of named values promises; it is interpreted on the maps of the
  tree, the options of curl, the rows of the database, the tables of the stages and the values of a template. The locale \<open>frame\<close>
  (\<open>Upgm_Prelude\<close>) states what a relation between states has to be for programs to keep it step by step; it is interpreted on the
  settings and the payment of the engine (\<open>Engine_Laws\<close>).

  \<^bold>\<open>What the lemmas show.\<close> Round trips of every notation the program reads; what each operation does on every branch; invariants of
  the threads, the modules, the clients, the checks and the payments in progress, by induction on the steps; that success is reported
  only for what was performed and only success completes a payment; who may do what; when the loops end and when not.

  \<^bold>\<open>Undefined behaviour and resources.\<close> An access to a freed object, outside a buffer or through a null pointer has no value. Fuel
  stands for loops that need not end; the theorems on termination say when some fuel is enough, and lemmas named \<open>never_returns\<close>
  when none is. Objects are never short of memory. Numbers have their width where the code lets them wrap or copies their bytes.

  \<^bold>\<open>Concurrency.\<close> A step is one critical section of the code. The threads of the pool, the clients and the lists of checks have one lock
  for each of their operations. The semaphores \<open>db_lock_read\<close> and \<open>db_lock_write\<close> are not in the states of \<open>Server_Db\<close>; what each
  operation waits for is in \<open>Server_Db_Locks\<close>, which shows that the order of the waits can block two threads for good, and that it
  does not as long as the results can be written. \<open>payments_in_one_hand\<close> is about runs in which no second mark of \<open>DBSetState\<close>, after a
  restored connection, writes to a record that was cleared in between (\<open>second_mark_undefined\<close>); \<open>modules_in_use_kept\<close> about runs
  in which the default module is not used after it was freed (\<open>default_module_freed\<close>). The semaphore \<open>db_lock_checkreqs\<close> is never held
  with another one and is left out.

  \<^bold>\<open>Parameters.\<close> The client library of the database, the library curl, TinyXML, regular expressions, the digest, the signer, the dynamic
  linker, the modules behind it, files, the clock and what the network delivers are arguments of the definitions. The text of an
  exception whose message prints a null pointer is a parameter too (\<open>sv_null_format\<close>), as the standard leaves it open.

  \<^bold>\<open>Not modelled.\<close> The options, the signals and the daemon of \<open>main.cpp\<close>; the modules of the start (\<open>initsys.cpp\<close>) and the interpreter
  (\<open>perlm.cpp\<close>), which only call other code; logs and traces; \<open>statistic.cpp\<close>, which does nothing; the second server for checks, in XML
  (\<open>xmlpaycheck\<close>), and its library of threads (\<open>lib/libbonbon\<close>), whose answer to a result is a parameter of \<open>DBSetState\<close>; the end of
  the threads of \<open>paycheck.cpp\<close> (\<open>PCShutdown\<close>); opening of sockets; vendored libraries; tests.
\<close>

end
